(* ===== verification/Prelude.thy ===== *)
theory Prelude
  imports Main "HOL-Library.Word"
begin

section \<open>Prelude: bytes, decimal numbers and list facts shared by the components\<close>

text \<open>
  The names and lemmas every component uses.  A Rust \<open>&str\<close> is modelled by its UTF-8 bytes,
  an Isabelle \<open>string\<close> (a list of 8-bit characters): every scanner of the modelled files works
  on \<open>as_bytes()\<close> or compares against ASCII characters only.  Where a component works on
  \<open>char\<close>s instead (the pattern matcher), its theory says so and uses code points.

  The collections \<open>rust_simps\<close> (unfolding facts of the standard-library operations) and
  \<open>rust_bounds\<close> (range facts of machine integers) are filled here and in the components.
\<close>

named_theorems rust_simps \<open>unfolding facts for modelled standard-library operations\<close>
named_theorems rust_bounds \<open>range facts of machine integers\<close>

type_synonym bytes = string
type_synonym u32 = "32 word"

subsection \<open>ASCII classes of \<open>u8\<close>\<close>

abbreviation byte :: "char \<Rightarrow> nat" where
  "byte c \<equiv> of_char c"

definition is_ascii_digit :: "char \<Rightarrow> bool" where
  "is_ascii_digit c \<longleftrightarrow> 48 \<le> byte c \<and> byte c \<le> 57"

definition is_ascii_lowercase :: "char \<Rightarrow> bool" where
  "is_ascii_lowercase c \<longleftrightarrow> 97 \<le> byte c \<and> byte c \<le> 122"

definition is_ascii_uppercase :: "char \<Rightarrow> bool" where
  "is_ascii_uppercase c \<longleftrightarrow> 65 \<le> byte c \<and> byte c \<le> 90"

definition is_ascii_alphabetic :: "char \<Rightarrow> bool" where
  "is_ascii_alphabetic c \<longleftrightarrow> is_ascii_lowercase c \<or> is_ascii_uppercase c"

definition is_ascii_alphanumeric :: "char \<Rightarrow> bool" where
  "is_ascii_alphanumeric c \<longleftrightarrow> is_ascii_alphabetic c \<or> is_ascii_digit c"

definition is_ascii_hexdigit :: "char \<Rightarrow> bool" where
  "is_ascii_hexdigit c \<longleftrightarrow> is_ascii_digit c \<or> (97 \<le> byte c \<and> byte c \<le> 102)
     \<or> (65 \<le> byte c \<and> byte c \<le> 70)"

text \<open>\<open>u8::is_ascii_whitespace\<close>: space, tab, line feed, form feed, carriage return (no vertical tab).\<close>

definition is_ascii_whitespace :: "char \<Rightarrow> bool" where
  "is_ascii_whitespace c \<longleftrightarrow> byte c \<in> {32, 9, 10, 12, 13}"

definition to_ascii_lowercase :: "char \<Rightarrow> char" where
  "to_ascii_lowercase c = (if is_ascii_uppercase c then char_of (byte c + 32) else c)"

text \<open>\<open>char::to_digit(radix)\<close> for a radix of at most 36.\<close>

definition to_digit :: "nat \<Rightarrow> char \<Rightarrow> nat option" where
  "to_digit radix c =
     (let d = (if is_ascii_digit c then Some (byte c - 48)
               else if is_ascii_lowercase c then Some (byte c - 87)
               else if is_ascii_uppercase c then Some (byte c - 55) else None)
      in case d of None \<Rightarrow> None | Some n \<Rightarrow> if n < radix then Some n else None)"

lemma to_digit_less: "to_digit radix c = Some d \<Longrightarrow> d < radix"
  by (auto simp: to_digit_def Let_def split: option.splits if_splits)

subsection \<open>Decimal numbers: \<open>to_string\<close>, zero padding and \<open>parse::<i64>\<close>\<close>

definition digit_char :: "nat \<Rightarrow> char" where
  "digit_char d = char_of (48 + d)"

fun nat_digits :: "nat \<Rightarrow> string" where
  "nat_digits n = (if n < 10 then [digit_char n]
                   else nat_digits (n div 10) @ [digit_char (n mod 10)])"

declare nat_digits.simps [simp del]

definition int_to_string :: "int \<Rightarrow> string" where
  "int_to_string v = (if v < 0 then CHR ''-'' # nat_digits (nat (- v)) else nat_digits (nat v))"

definition zero_pad :: "nat \<Rightarrow> string \<Rightarrow> string" where
  "zero_pad width s = replicate (width - length s) (CHR ''0'') @ s"

text \<open>Value of a digit string, most significant digit first.\<close>

definition digits_value :: "string \<Rightarrow> nat" where
  "digits_value s = foldl (\<lambda>v c. 10 * v + (byte c - 48)) 0 s"

definition i64_min :: int where "i64_min = - (2 ^ 63)"
definition i64_max :: int where "i64_max = 2 ^ 63 - 1"

definition in_i64 :: "int \<Rightarrow> bool" where
  "in_i64 v \<longleftrightarrow> i64_min \<le> v \<and> v \<le> i64_max"

text \<open>
  \<open>str::parse::<i64>\<close>: an optional single sign, then at least one digit and nothing else; a value
  outside the type is an error (\<open>None\<close>).
\<close>

definition parse_i64_str :: "string \<Rightarrow> int option" where
  "parse_i64_str s =
     (let neg = (s \<noteq> [] \<and> hd s = CHR ''-'');
          body = (if s \<noteq> [] \<and> (hd s = CHR ''-'' \<or> hd s = CHR ''+'') then tl s else s)
      in if body = [] \<or> \<not> list_all is_ascii_digit body then None
         else let v = (if neg then - int (digits_value body) else int (digits_value body))
              in if in_i64 v then Some v else None)"

lemma in_i64_iff [rust_bounds]: "in_i64 v \<longleftrightarrow> - 9223372036854775808 \<le> v \<and> v \<le> 9223372036854775807"
  by (simp add: in_i64_def i64_min_def i64_max_def)

lemma parse_i64_str_in_i64: "parse_i64_str s = Some v \<Longrightarrow> in_i64 v"
  by (auto simp: parse_i64_str_def Let_def split: if_splits)

lemma of_char_digit_char [simp]: "d < 10 \<Longrightarrow> byte (digit_char d) = 48 + d"
  by (simp add: digit_char_def)

lemma is_ascii_digit_digit_char [simp]: "d < 10 \<Longrightarrow> is_ascii_digit (digit_char d)"
  by (simp add: is_ascii_digit_def)

lemma nat_digits_nonempty [simp]: "nat_digits n \<noteq> []"
  by (subst nat_digits.simps) simp

lemma list_all_nat_digits [simp]: "list_all is_ascii_digit (nat_digits n)"
proof (induction n rule: nat_digits.induct)
  case (1 n)
  then show ?case by (subst nat_digits.simps) auto
qed

lemma digits_value_append1: "digits_value (s @ [c]) = 10 * digits_value s + (byte c - 48)"
  by (simp add: digits_value_def)

lemma digits_value_nat_digits [simp]: "digits_value (nat_digits n) = n"
proof (induction n rule: nat_digits.induct)
  case (1 n)
  show ?case
  proof (cases "n < 10")
    case True
    then show ?thesis by (subst nat_digits.simps) (simp add: digits_value_def)
  next
    case False
    then show ?thesis
      using 1 by (subst nat_digits.simps) (simp add: digits_value_append1)
  qed
qed

lemma hd_nat_digits: "is_ascii_digit (hd (nat_digits n))"
  using list_all_nat_digits [of n] nat_digits_nonempty [of n]
  by (cases "nat_digits n") auto

lemma digit_not_sign: "is_ascii_digit c \<Longrightarrow> c \<noteq> CHR ''-'' \<and> c \<noteq> CHR ''+''"
  by (auto simp: is_ascii_digit_def)

text \<open>Printing then parsing an \<open>i64\<close> gives it back.\<close>

lemma parse_int_to_string: "in_i64 v \<Longrightarrow> parse_i64_str (int_to_string v) = Some v"
  using digit_not_sign [OF hd_nat_digits [of "nat v"]]
  by (simp add: parse_i64_str_def int_to_string_def Let_def)

text \<open>Below the maximum an increment does not wrap.\<close>

lemma word_less_succ: "w \<noteq> - 1 \<Longrightarrow> w < w + 1" for w :: "'a::len word"
  by (metis add.commute add_eq_0_iff2 eq_neg_iff_add_eq_0 lessI unatSuc word_less_nat_alt)

subsection \<open>Lists\<close>

text \<open>\<open>position\<close>: the index of the first element with the property.\<close>

fun position :: "('a \<Rightarrow> bool) \<Rightarrow> 'a list \<Rightarrow> nat option" where
  "position p [] = None"
| "position p (x # xs) = (if p x then Some 0 else map_option Suc (position p xs))"

lemma position_None: "position p xs = None \<longleftrightarrow> (\<forall>x \<in> set xs. \<not> p x)"
  by (induction xs) auto

lemma position_Some: "position p xs = Some i \<Longrightarrow> i < length xs \<and> p (xs ! i) \<and> (\<forall>j < i. \<not> p (xs ! j))"
proof (induction xs arbitrary: i)
  case (Cons x xs)
  then show ?case by (auto split: if_splits simp: less_Suc_eq_0_disj)
qed simp

lemma find_SomeD: "find P xs = Some x \<Longrightarrow> P x \<and> x \<in> set xs"
  by (induction xs) (auto split: if_splits)

text \<open>\<open>Vec::remove(i)\<close>.\<close>

definition remove_nth :: "nat \<Rightarrow> 'a list \<Rightarrow> 'a list" where
  "remove_nth i xs = take i xs @ drop (Suc i) xs"

lemma set_remove_nth: "set (remove_nth i xs) \<subseteq> set xs"
  unfolding remove_nth_def by (auto dest: in_set_takeD in_set_dropD)

text \<open>\<open>slice[from..to]\<close> for in-range bounds.\<close>

definition slice :: "nat \<Rightarrow> nat \<Rightarrow> 'a list \<Rightarrow> 'a list" where
  "slice from to xs = take (to - from) (drop from xs)"

lemma length_slice [simp]: "to \<le> length xs \<Longrightarrow> length (slice from to xs) = to - from"
  by (simp add: slice_def)

lemma length_slice_le: "length (slice from to xs) \<le> to - from"
  by (simp add: slice_def)

text \<open>\<open>haystack[i..].starts_with(needle)\<close>.\<close>

definition starts_at :: "'a list \<Rightarrow> nat \<Rightarrow> 'a list \<Rightarrow> bool" where
  "starts_at xs i needle \<longleftrightarrow> take (length needle) (drop i xs) = needle"

lemma starts_at_length: "starts_at xs i needle \<Longrightarrow> needle \<noteq> [] \<Longrightarrow> i + length needle \<le> length xs"
proof -
  assume h: "starts_at xs i needle" and ne: "needle \<noteq> []"
  from h have "length needle = min (length needle) (length xs - i)"
    unfolding starts_at_def by (metis length_drop length_take min.commute)
  with ne show ?thesis by (cases needle) auto
qed

subsection \<open>\<open>str::trim\<close>\<close>

text \<open>The UTF-8 encodings of the characters with the property White_Space.\<close>

definition white_space_seqs :: "bytes list" where
  "white_space_seqs =
     map (\<lambda>n. [char_of (n :: nat)]) [9, 10, 11, 12, 13, 32]
     @ [[CHR 0xC2, CHR 0x85], [CHR 0xC2, CHR 0xA0], [CHR 0xE1, CHR 0x9A, CHR 0x80]]
     @ map (\<lambda>n. [CHR 0xE2, CHR 0x80, char_of (n :: nat)])
         [128, 129, 130, 131, 132, 133, 134, 135, 136, 137, 138, 168, 169, 175]
     @ [[CHR 0xE2, CHR 0x81, CHR 0x9F], [CHR 0xE3, CHR 0x80, CHR 0x80]]"

function trim_by :: "bytes list \<Rightarrow> bytes \<Rightarrow> bytes" where
  "trim_by ws s = (case find (\<lambda>w. w \<noteq> [] \<and> starts_at s 0 w) ws of
       None \<Rightarrow> s | Some w \<Rightarrow> trim_by ws (drop (length w) s))"
  by pat_completeness auto
termination
proof (relation "measure (\<lambda>(_, s). length s)")
  show "((ws, drop (length w) s), ws, s) \<in> measure (\<lambda>(_, s). length s)"
    if "find (\<lambda>w. w \<noteq> [] \<and> starts_at s 0 w) ws = Some w" for ws s w
    using find_SomeD [OF that] by (cases w; cases s) (auto simp: starts_at_def)
qed simp

declare trim_by.simps [simp del]

definition str_trim :: "bytes \<Rightarrow> bytes" where
  "str_trim s = rev (trim_by (map rev white_space_seqs) (rev (trim_by white_space_seqs s)))"

end
