(* ===== verification/Ordmap.thy ===== *)
theory Ordmap
  imports Prelude
begin

section \<open>Ordered maps: the model of \<open>BTreeMap\<close>\<close>

text \<open>
  \<open>std::collections::BTreeMap\<close> is modelled by an association list in ascending key order, so that
  iteration order, the last key and range queries are the lists the code sees.  The interface the
  components rely on is the locale \<open>keyed_store\<close> (what a lookup returns after an insert or a
  removal) and its extension \<open>ordered_store\<close> (the iteration order); both are interpreted on the
  operations below.  A \<open>HashMap\<close> whose iteration order is never observed uses the same model.
\<close>

subsection \<open>The interface\<close>

locale keyed_store =
  fixes get :: "'s \<Rightarrow> 'k \<Rightarrow> 'v option"
    and put :: "'k \<Rightarrow> 'v \<Rightarrow> 's \<Rightarrow> 's"
    and del :: "'k \<Rightarrow> 's \<Rightarrow> 's"
    and wf :: "'s \<Rightarrow> bool"
  assumes get_put: "wf s \<Longrightarrow> get (put k v s) k' = (if k' = k then Some v else get s k')"
    and get_del: "wf s \<Longrightarrow> get (del k s) k' = (if k' = k then None else get s k')"
    and wf_put: "wf s \<Longrightarrow> wf (put k v s)"
    and wf_del: "wf s \<Longrightarrow> wf (del k s)"
begin

lemma wf_del_all: "wf s \<Longrightarrow> wf (foldl (\<lambda>m k. del k m) s ks)"
  by (induction ks arbitrary: s) (auto simp: wf_del)

lemma get_del_all:
  "wf s \<Longrightarrow> get (foldl (\<lambda>m k. del k m) s ks) k' = (if k' \<in> set ks then None else get s k')"
  by (induction ks arbitrary: s) (auto simp: wf_del get_del)

lemma wf_put_all: "wf s \<Longrightarrow> wf (foldl (\<lambda>m k. put k v m) s ks)"
  by (induction ks arbitrary: s) (auto simp: wf_put)

lemma get_put_all:
  "wf s \<Longrightarrow> get (foldl (\<lambda>m k. put k v m) s ks) k' = (if k' \<in> set ks then Some v else get s k')"
  by (induction ks arbitrary: s) (auto simp: wf_put get_put)

lemmas store_laws = get_put get_del wf_put wf_del

end

locale ordered_store = keyed_store get put del wf
  for get :: "'s \<Rightarrow> ('k :: linorder) \<Rightarrow> 'v option" and put del wf +
  fixes keys :: "'s \<Rightarrow> 'k list"
  assumes set_keys: "wf s \<Longrightarrow> set (keys s) = {k. get s k \<noteq> None}"
    and sorted_keys: "wf s \<Longrightarrow> sorted_wrt (<) (keys s)"
begin

lemma last_key_max: "wf s \<Longrightarrow> keys s \<noteq> [] \<Longrightarrow> get s k \<noteq> None \<Longrightarrow> k \<le> last (keys s)"
proof -
  assume wf: "wf s" and ne: "keys s \<noteq> []" and k: "get s k \<noteq> None"
  have "k \<in> set (butlast (keys s) @ [last (keys s)])"
    using set_keys [OF wf] k ne by simp
  moreover have "sorted_wrt (<) (butlast (keys s) @ [last (keys s)])"
    using sorted_keys [OF wf] ne by simp
  ultimately show ?thesis
    unfolding sorted_wrt_append by (auto simp del: append_butlast_last_id)
qed

lemma keys_empty_iff: "wf s \<Longrightarrow> keys s = [] \<longleftrightarrow> (\<forall>k. get s k = None)"
  using set_keys [of s] by auto

end

subsection \<open>The implementation: strictly ascending association lists\<close>

type_synonym ('k, 'v) btree_map = "('k \<times> 'v) list"

definition bt_empty :: "('k, 'v) btree_map" where
  "bt_empty = []"

definition bt_get :: "('k, 'v) btree_map \<Rightarrow> 'k \<Rightarrow> 'v option" where
  "bt_get m = map_of m"

fun bt_insert :: "('k :: linorder) \<Rightarrow> 'v \<Rightarrow> ('k, 'v) btree_map \<Rightarrow> ('k, 'v) btree_map" where
  "bt_insert k v [] = [(k, v)]"
| "bt_insert k v ((k', v') # m) =
     (if k < k' then (k, v) # (k', v') # m
      else if k = k' then (k, v) # m
      else (k', v') # bt_insert k v m)"

definition bt_remove :: "'k \<Rightarrow> ('k, 'v) btree_map \<Rightarrow> ('k, 'v) btree_map" where
  "bt_remove k m = filter (\<lambda>kv. fst kv \<noteq> k) m"

definition bt_keys :: "('k, 'v) btree_map \<Rightarrow> 'k list" where
  "bt_keys m = map fst m"

definition bt_values :: "('k, 'v) btree_map \<Rightarrow> 'v list" where
  "bt_values m = map snd m"

definition bt_wf :: "('k :: linorder, 'v) btree_map \<Rightarrow> bool" where
  "bt_wf m \<longleftrightarrow> sorted_wrt (<) (map fst m)"

text \<open>\<open>values_mut\<close>: update every value in place.\<close>

definition bt_map_values :: "('k \<Rightarrow> 'v \<Rightarrow> 'v) \<Rightarrow> ('k, 'v) btree_map \<Rightarrow> ('k, 'v) btree_map" where
  "bt_map_values f m = map (\<lambda>(k, v). (k, f k v)) m"

text \<open>\<open>get_mut\<close> and a write through it: nothing happens for an absent key.\<close>

definition bt_modify :: "('k :: linorder) \<Rightarrow> ('v \<Rightarrow> 'v) \<Rightarrow> ('k, 'v) btree_map \<Rightarrow> ('k, 'v) btree_map" where
  "bt_modify k f m = map (\<lambda>(k', v). (k', if k' = k then f v else v)) m"

definition bt_of_list :: "(('k :: linorder) \<times> 'v) list \<Rightarrow> ('k, 'v) btree_map" where
  "bt_of_list kvs = foldl (\<lambda>m (k, v). bt_insert k v m) [] kvs"

lemma bt_wf_empty [simp]: "bt_wf []" "bt_wf bt_empty"
  by (simp_all add: bt_wf_def bt_empty_def)

lemma bt_get_empty [simp]: "bt_get [] k = None" "bt_get bt_empty k = None"
  by (simp_all add: bt_get_def bt_empty_def)

lemma set_bt_insert: "fst ` set (bt_insert k v m) = insert k (fst ` set m)"
  by (induction k v m rule: bt_insert.induct) auto

lemma bt_wf_insert: "bt_wf m \<Longrightarrow> bt_wf (bt_insert k v m)"
  unfolding bt_wf_def
proof (induction k v m rule: bt_insert.induct)
  case (2 k v k' v' m)
  then show ?case
    using set_bt_insert [of k v m] by (auto simp flip: set_map dest: order.strict_trans)
qed simp

lemma bt_get_insert: "bt_wf m \<Longrightarrow> bt_get (bt_insert k v m) k' = (if k' = k then Some v else bt_get m k')"
  unfolding bt_wf_def bt_get_def
  by (induction k v m rule: bt_insert.induct) auto

lemma bt_wf_remove: "bt_wf m \<Longrightarrow> bt_wf (bt_remove k m)"
  unfolding bt_wf_def bt_remove_def by (induction m) auto

lemma bt_get_remove: "bt_get (bt_remove k m) k' = (if k' = k then None else bt_get m k')"
  unfolding bt_get_def bt_remove_def by (induction m) auto

lemma set_bt_keys: "set (bt_keys m) = {k. bt_get m k \<noteq> None}"
  unfolding bt_keys_def bt_get_def by (auto simp: map_of_eq_None_iff)

interpretation bt: keyed_store bt_get bt_insert bt_remove bt_wf
  by unfold_locales (auto simp: bt_get_insert bt_get_remove bt_wf_insert bt_wf_remove)

interpretation bto: ordered_store bt_get bt_insert bt_remove bt_wf bt_keys
proof unfold_locales
  show "bt_wf s \<Longrightarrow> set (bt_keys s) = {k. bt_get s k \<noteq> None}" for s :: "('a, 'b) btree_map"
    by (rule set_bt_keys)
  show "bt_wf s \<Longrightarrow> sorted_wrt (<) (bt_keys s)" for s :: "('a, 'b) btree_map"
    by (simp add: bt_keys_def bt_wf_def)
qed

subsection \<open>Facts of the remaining operations\<close>

lemma bt_get_Some_iff: "bt_wf m \<Longrightarrow> bt_get m k = Some v \<longleftrightarrow> (k, v) \<in> set m"
  unfolding bt_wf_def bt_get_def by (simp add: strict_sorted_iff)

lemma bt_get_in_set: "bt_get m k = Some v \<Longrightarrow> (k, v) \<in> set m"
  unfolding bt_get_def by (rule map_of_SomeD)

lemma bt_values_iff: "bt_wf m \<Longrightarrow> v \<in> set (bt_values m) \<longleftrightarrow> (\<exists>k. bt_get m k = Some v)"
  unfolding bt_values_def by (force simp: bt_get_Some_iff)

lemma bt_keys_map_values [simp]: "bt_keys (bt_map_values f m) = bt_keys m"
  unfolding bt_keys_def bt_map_values_def by (induction m) auto

lemma bt_get_map_values [simp]: "bt_get (bt_map_values f m) k = map_option (f k) (bt_get m k)"
  unfolding bt_get_def bt_map_values_def by (induction m) auto

lemma bt_wf_map_values [simp]: "bt_wf (bt_map_values f m) = bt_wf m"
  using bt_keys_map_values [of f m] unfolding bt_wf_def bt_keys_def by simp

lemma bt_keys_modify [simp]: "bt_keys (bt_modify k f m) = bt_keys m"
  unfolding bt_keys_def bt_modify_def by (induction m) auto

lemma bt_get_modify [simp]:
  "bt_get (bt_modify k f m) k' = (if k' = k then map_option f (bt_get m k) else bt_get m k')"
  unfolding bt_get_def bt_modify_def by (induction m) auto

lemma bt_wf_modify [simp]: "bt_wf (bt_modify k f m) = bt_wf m"
  using bt_keys_modify [of k f m] unfolding bt_wf_def bt_keys_def by simp

lemma bt_modify_modify: "bt_modify k f (bt_modify k g m) = bt_modify k (f \<circ> g) m"
  unfolding bt_modify_def by (induction m) auto

lemma fold_insert_wf: "bt_wf m \<Longrightarrow> bt_wf (foldl (\<lambda>m (k, v). bt_insert k v m) m kvs)"
  by (induction kvs arbitrary: m) (auto simp: bt_wf_insert)

lemma bt_wf_of_list [simp]: "bt_wf (bt_of_list kvs)"
  unfolding bt_of_list_def by (simp add: fold_insert_wf)

lemma fold_insert_get:
  "bt_wf m \<Longrightarrow> bt_get (foldl (\<lambda>m (k, v). bt_insert k v m) m kvs) k
     = (case map_of (rev kvs) k of None \<Rightarrow> bt_get m k | Some v \<Rightarrow> Some v)"
  by (induction kvs arbitrary: m) (auto simp: bt_wf_insert bt_get_insert map_add_def split: option.splits)

lemma bt_get_of_list: "bt_get (bt_of_list kvs) k = map_of (rev kvs) k"
  unfolding bt_of_list_def by (simp add: fold_insert_get split: option.splits)

lemma bt_modify_other: "k \<notin> fst ` set m \<Longrightarrow> bt_modify k f m = m"
  unfolding bt_modify_def by (induction m) auto

text \<open>Writing back a present key is an update in place.\<close>

lemma bt_insert_present:
  "bt_wf m \<Longrightarrow> bt_get m k = Some v \<Longrightarrow> bt_insert k (f v) m = bt_modify k f m"
proof (induction m)
  case (Cons kv m)
  obtain k' v' where kv: "kv = (k', v')" by (cases kv)
  have wf: "bt_wf m" and less: "\<And>x. x \<in> fst ` set m \<Longrightarrow> k' < x"
    using Cons.prems(1) kv unfolding bt_wf_def by auto
  show ?case
  proof (cases "k' = k")
    case True
    then have "bt_modify k f m = m" using less by (intro bt_modify_other) auto
    then show ?thesis using True Cons.prems kv by (simp add: bt_get_def bt_modify_def)
  next
    case False
    then have get: "bt_get m k = Some v" using Cons.prems(2) kv by (simp add: bt_get_def)
    then have "k' < k" using less bt_get_in_set [OF get] by force
    then show ?thesis using Cons.IH [OF wf get] kv by (auto simp: bt_modify_def)
  qed
qed simp

end
