(* ===== verification/Machine.thy ===== *)
theory Machine
  imports Main
begin

section \<open>Step systems: reachable states and invariants\<close>

text \<open>
  The contract of a component with state: an initial state, a step relation, and an invariant that
  holds initially and is kept by every step.  The lemmas of \<open>machine_invariant\<close> lift it to every
  reachable state; each stateful component interprets the locale on its own step relation.
\<close>

inductive reach :: "('s \<Rightarrow> bool) \<Rightarrow> ('s \<Rightarrow> 's \<Rightarrow> bool) \<Rightarrow> 's \<Rightarrow> bool"
  for init :: "'s \<Rightarrow> bool" and step :: "'s \<Rightarrow> 's \<Rightarrow> bool" where
  reach_init: "init s \<Longrightarrow> reach init step s"
| reach_step: "reach init step s \<Longrightarrow> step s t \<Longrightarrow> reach init step t"

locale machine_invariant =
  fixes init :: "'s \<Rightarrow> bool" and step :: "'s \<Rightarrow> 's \<Rightarrow> bool" and inv :: "'s \<Rightarrow> bool"
  assumes inv_init: "init s \<Longrightarrow> inv s"
    and inv_step: "inv s \<Longrightarrow> step s t \<Longrightarrow> inv t"
begin

lemma reach_inv: "reach init step s \<Longrightarrow> inv s"
  by (induction rule: reach.induct) (auto intro: inv_init inv_step)

lemma steps_inv: "step\<^sup>*\<^sup>* s t \<Longrightarrow> inv s \<Longrightarrow> inv t"
  by (induction rule: rtranclp_induct) (auto intro: inv_step)

end

text \<open>
  A machine whose steps shrink a measure stops: \<open>iter\<close> drives it, and \<open>measure s\<close> steps are enough
  fuel.  Scanners that consume their input interpret this locale.
\<close>

fun iter :: "('s \<Rightarrow> bool) \<Rightarrow> ('s \<Rightarrow> 's) \<Rightarrow> nat \<Rightarrow> 's \<Rightarrow> 's option" where
  "iter halted next 0 s = (if halted s then Some s else None)"
| "iter halted next (Suc n) s = (if halted s then Some s else iter halted next n (next s))"

locale consuming_machine =
  fixes halted :: "'s \<Rightarrow> bool" and "next" :: "'s \<Rightarrow> 's" and left :: "'s \<Rightarrow> nat" and inv :: "'s \<Rightarrow> bool"
  assumes next_inv: "inv s \<Longrightarrow> \<not> halted s \<Longrightarrow> inv (next s)"
    and next_less: "inv s \<Longrightarrow> \<not> halted s \<Longrightarrow> left (next s) < left s \<or> halted (next s)"
begin

lemma iter_total: "inv s \<Longrightarrow> left s < n \<Longrightarrow> \<exists>t. iter halted next n s = Some t \<and> halted t \<and> inv t"
proof (induction n arbitrary: s)
  case (Suc n)
  show ?case
  proof (cases "halted s")
    case False
    then have inv: "inv (next s)" using Suc.prems by (simp add: next_inv)
    show ?thesis
    proof (cases "halted (next s)")
      case True
      then show ?thesis using False inv by (cases n) auto
    next
      case running: False
      then have "left (next s) < n" using next_less [of s] False Suc.prems by auto
      then show ?thesis using Suc.IH [OF inv] False by simp
    qed
  qed (use Suc.prems in auto)
qed simp

end

end
