(* ===== verification/Jobs.thy ===== *)
theory Jobs
  imports Ordmap Machine
begin

section \<open>The job table (\<open>src/src/jobs/table.rs\<close>)\<close>

text \<open>
  \<open>JobTable\<close> and every operation on it.  \<open>JobId\<close> and process ids keep their 32-bit width (the next
  id saturates); statuses and signals are stored verbatim and are \<open>int\<close>; the reader-command counter
  (a \<open>u64\<close> that is only incremented by one) is \<open>nat\<close>.  \<open>Instant::now()\<close> is a parameter, in
  milliseconds.  The \<open>HashMap\<close>s are ordered maps: only \<open>wait_any\<close> observes a hash order, and takes
  the choice as a parameter.
\<close>

subsection \<open>Data\<close>

type_synonym job_id = u32

datatype process_state = Running | Stopped | Completed

datatype deferred_job_state = Deferred_Stopped "int option" | Deferred_Running

record process_entry =
  pe_pid :: u32
  pe_state :: process_state
  pe_exit_status :: "int option"
  pe_term_signal :: "int option"

record job_entry =
  je_id :: job_id
  je_pids :: "u32 list"
  je_processes :: "(u32, process_entry) btree_map"
  je_pgrp :: u32
  je_command :: string
  je_stage_commands :: "string list"
  je_state :: process_state
  je_exit_status :: "int option"
  je_stop_signal :: "int option"
  je_term_signal :: "int option"
  je_background :: bool
  je_foreground :: bool
  je_notified :: bool
  je_nohup :: bool
  je_coproc_endpoints :: "u32 list"
  je_job_control :: bool

datatype jobspec_match = Job job_id | Ambiguous | NoMatch

record job_table =
  jobs :: "(job_id, job_entry) btree_map"
  pid_to_job :: "(u32, job_id) btree_map"
  completed_statuses :: "(u32, int) btree_map"
  procsub_placeholders :: "u32 list"
  current_job :: "job_id option"
  previous_job :: "job_id option"
  reader_command_seq :: nat
  deferred_state_marks :: "(u32 \<times> deferred_job_state \<times> nat \<times> nat) list"
  fresh_fatal_marks :: "(u32 \<times> nat) list"

definition job_table_default :: job_table where
  "job_table_default = \<lparr>jobs = [], pid_to_job = [], completed_statuses = [],
     procsub_placeholders = [], current_job = None, previous_job = None,
     reader_command_seq = 0, deferred_state_marks = [], fresh_fatal_marks = []\<rparr>"

subsection \<open>Current and previous job\<close>

definition job_in_state :: "job_table \<Rightarrow> job_id option \<Rightarrow> process_state \<Rightarrow> bool" where
  "job_in_state t i st = (case i of None \<Rightarrow> False
     | Some jid \<Rightarrow> (case bt_get (jobs t) jid of None \<Rightarrow> False | Some job \<Rightarrow> je_state job = st))"

text \<open>The newest job with an id below \<open>below\<close> in the requested state (\<open>range(..below).rev().find\<close>).\<close>

definition most_recent_in_state :: "job_table \<Rightarrow> job_id \<Rightarrow> process_state \<Rightarrow> job_id option" where
  "most_recent_in_state t below st =
     map_option fst (find (\<lambda>(_, job). je_state job = st)
       (rev (filter (\<lambda>(jid, _). jid < below) (jobs t))))"

definition newest_running :: "job_table \<Rightarrow> job_id option" where
  "newest_running t = map_option fst (find (\<lambda>(_, job). je_state job = Running) (rev (jobs t)))"

definition set_current_job :: "job_id \<Rightarrow> job_table \<Rightarrow> job_table" where
  "set_current_job jid t0 =
     (let t = (if current_job t0 \<noteq> Some jid
               then t0\<lparr>previous_job := current_job t0, current_job := Some jid\<rparr> else t0)
      in case current_job t of None \<Rightarrow> t
         | Some current \<Rightarrow>
             if previous_job t \<noteq> Some current \<and> job_in_state t (previous_job t) Stopped then t
             else
               let current_stopped = job_in_state t (Some current) Stopped;
                   stopped_candidate =
                     (if current_stopped then most_recent_in_state t current Stopped else None)
               in case stopped_candidate of
                    Some candidate \<Rightarrow> t\<lparr>previous_job := Some candidate\<rparr>
                  | None \<Rightarrow>
                      let running_candidate =
                        (if \<not> current_stopped then most_recent_in_state t current Running
                         else newest_running t)
                      in case running_candidate of
                           Some candidate \<Rightarrow> t\<lparr>previous_job := Some candidate\<rparr>
                         | None \<Rightarrow> t\<lparr>previous_job := Some current\<rparr>)"

text \<open>\<open>JobId::MAX\<close> is the exclusive bound of the two searches.\<close>

definition reset_current :: "job_table \<Rightarrow> job_table" where
  "reset_current t =
     (let candidate =
        (if job_in_state t (current_job t) Stopped then current_job t
         else if job_in_state t (previous_job t) Stopped then previous_job t
         else (case most_recent_in_state t (-1) Stopped of
                 Some jid \<Rightarrow> Some jid
               | None \<Rightarrow> most_recent_in_state t (-1) Running))
      in case candidate of
           Some jid \<Rightarrow> set_current_job jid t
         | None \<Rightarrow> t\<lparr>current_job := None, previous_job := None\<rparr>)"

definition clear_current_markers :: "job_table \<Rightarrow> job_table" where
  "clear_current_markers t = t\<lparr>current_job := None, previous_job := None\<rparr>"

subsection \<open>Removing jobs\<close>

definition drop_job_entry :: "job_id \<Rightarrow> job_table \<Rightarrow> job_table" where
  "drop_job_entry jid t = (case bt_get (jobs t) jid of
       None \<Rightarrow> t
     | Some job \<Rightarrow> t\<lparr>jobs := bt_remove jid (jobs t),
                     pid_to_job := foldl (\<lambda>m pid. bt_remove pid m) (pid_to_job t) (je_pids job)\<rparr>)"

definition dead_notified :: "job_entry \<Rightarrow> bool" where
  "dead_notified job \<longleftrightarrow> je_state job = Completed \<and> je_notified job"

definition cleanup_dead_jobs :: "job_table \<Rightarrow> job_table" where
  "cleanup_dead_jobs t =
     (let dead = map fst (filter (\<lambda>(_, job). dead_notified job) (jobs t));
          removed_current_or_previous =
            list_ex (\<lambda>jid. Some jid = current_job t \<or> Some jid = previous_job t) dead;
          t' = foldl (\<lambda>t jid. drop_job_entry jid t) t dead
      in if removed_current_or_previous then reset_current t' else t')"

definition remove_job :: "job_id \<Rightarrow> job_table \<Rightarrow> bool \<times> job_table" where
  "remove_job jid t = (case bt_get (jobs t) jid of
       None \<Rightarrow> (False, t)
     | Some job \<Rightarrow>
         let t' = t\<lparr>jobs := bt_remove jid (jobs t),
                    pid_to_job := foldl (\<lambda>m pid. bt_remove pid m) (pid_to_job t) (je_pids job),
                    completed_statuses :=
                      foldl (\<lambda>m pid. bt_remove pid m) (completed_statuses t) (je_pids job)\<rparr>
         in (True, if Some jid = current_job t' \<or> Some jid = previous_job t'
                   then reset_current t' else t'))"

definition remove_job_by_pid :: "u32 \<Rightarrow> job_table \<Rightarrow> bool \<times> job_table" where
  "remove_job_by_pid pid t = (case bt_get (pid_to_job t) pid of
       None \<Rightarrow> (False, t) | Some jid \<Rightarrow> remove_job jid t)"

definition remove_job_by_pid_preserve_status :: "u32 \<Rightarrow> job_table \<Rightarrow> bool \<times> job_table" where
  "remove_job_by_pid_preserve_status pid t = (case bt_get (pid_to_job t) pid of
       None \<Rightarrow> (False, t)
     | Some jid \<Rightarrow> (case bt_get (jobs t) jid of
           None \<Rightarrow> (False, t)
         | Some job \<Rightarrow>
             let t' = drop_job_entry jid t
             in (True, if Some jid = current_job t' \<or> Some jid = previous_job t'
                       then reset_current t' else t')))"

definition clear_jobs :: "job_table \<Rightarrow> job_table" where
  "clear_jobs t = t\<lparr>jobs := [], pid_to_job := [], completed_statuses := [],
     current_job := None, previous_job := None\<rparr>"

definition clear_for_subshell :: "job_table \<Rightarrow> job_table" where
  "clear_for_subshell t = (clear_jobs t)\<lparr>procsub_placeholders := []\<rparr>"

subsection \<open>Registration\<close>

definition saturating_succ :: "u32 \<Rightarrow> u32" where
  "saturating_succ h = (if h = - 1 then h else h + 1)"

definition next_job_id :: "job_table \<Rightarrow> job_id" where
  "next_job_id t = (case rev (bt_keys (jobs t)) of [] \<Rightarrow> 1 | highest # _ \<Rightarrow> saturating_succ highest)"

definition new_process :: "u32 \<Rightarrow> process_entry" where
  "new_process pid = \<lparr>pe_pid = pid, pe_state = Running, pe_exit_status = None, pe_term_signal = None\<rparr>"

definition new_job :: "job_id \<Rightarrow> u32 list \<Rightarrow> string \<Rightarrow> bool \<Rightarrow> u32 \<Rightarrow> string list \<Rightarrow> job_entry" where
  "new_job jid pids command background pgrp stage_commands =
     \<lparr>je_id = jid, je_pids = pids,
      je_processes = bt_of_list (map (\<lambda>pid. (pid, new_process pid)) pids),
      je_pgrp = pgrp, je_command = command,
      je_stage_commands = (if stage_commands = [] then [command] else stage_commands),
      je_state = Running, je_exit_status = None, je_stop_signal = None, je_term_signal = None,
      je_background = background, je_foreground = (\<not> background), je_notified = False,
      je_nohup = False, je_coproc_endpoints = [], je_job_control = False\<rparr>"

definition register_pipeline_stages ::
    "u32 list \<Rightarrow> string \<Rightarrow> bool \<Rightarrow> u32 \<Rightarrow> string list \<Rightarrow> job_table \<Rightarrow> job_id \<times> job_table" where
  "register_pipeline_stages pids command background pgrp stage_commands t0 =
     (let t = cleanup_dead_jobs t0;
          jid = next_job_id t;
          entry = new_job jid pids command background pgrp stage_commands;
          t' = t\<lparr>pid_to_job := foldl (\<lambda>m pid. bt_insert pid jid m) (pid_to_job t) pids,
                 jobs := bt_insert jid entry (jobs t)\<rparr>
      in (jid, set_current_job jid t'))"

definition register_process :: "u32 \<Rightarrow> string \<Rightarrow> bool \<Rightarrow> u32 \<Rightarrow> job_table \<Rightarrow> job_id \<times> job_table" where
  "register_process pid command background pgrp =
     register_pipeline_stages [pid] command background pgrp [command]"

definition register_process_with_stages ::
    "u32 \<Rightarrow> string \<Rightarrow> bool \<Rightarrow> u32 \<Rightarrow> string list \<Rightarrow> job_table \<Rightarrow> job_id \<times> job_table" where
  "register_process_with_stages pid command background pgrp stage_commands =
     register_pipeline_stages [pid] command background pgrp stage_commands"

definition register_pipeline ::
    "u32 list \<Rightarrow> string \<Rightarrow> bool \<Rightarrow> u32 \<Rightarrow> job_table \<Rightarrow> job_id \<times> job_table" where
  "register_pipeline pids command background pgrp =
     register_pipeline_stages pids command background pgrp [command]"

subsection \<open>Job specifications\<close>

text \<open>\<open>command.contains(name)\<close> over bytes.\<close>

definition contains_str :: "string \<Rightarrow> string \<Rightarrow> bool" where
  "contains_str hay needle = list_ex (\<lambda>i. starts_at hay i needle) [0..<Suc (length hay)]"

definition stage_matches :: "bool \<Rightarrow> string \<Rightarrow> string \<Rightarrow> bool" where
  "stage_matches substring name command =
     (if substring
      then contains_str (map to_ascii_lowercase command) (map to_ascii_lowercase name)
      else starts_at command 0 name)"

text \<open>
  The scan of \<open>get_job_by_name\<close> over the jobs, newest first: in each job only the first matching
  stage is looked at.
\<close>

fun scan_jobs_by_name ::
    "(string \<Rightarrow> bool) \<Rightarrow> job_id option \<Rightarrow> (job_id \<times> job_entry) list \<Rightarrow> jobspec_match" where
  "scan_jobs_by_name matched job [] = (case job of None \<Rightarrow> NoMatch | Some jid \<Rightarrow> Job jid)"
| "scan_jobs_by_name matched job ((jid, entry) # rest) =
     (case position matched (je_stage_commands entry) of
        None \<Rightarrow> scan_jobs_by_name matched job rest
      | Some index \<Rightarrow>
          if job \<noteq> None \<or> index \<noteq> 0 then Ambiguous
          else scan_jobs_by_name matched (Some jid) rest)"

definition get_job_by_name :: "job_table \<Rightarrow> string \<Rightarrow> bool \<Rightarrow> jobspec_match" where
  "get_job_by_name t name substring =
     scan_jobs_by_name (stage_matches substring name) None (rev (jobs t))"

text \<open>\<open>body.parse::<JobId>()\<close> for a body of ASCII digits.\<close>

definition parse_job_id :: "string \<Rightarrow> job_id option" where
  "parse_job_id body =
     (if digits_value body < 2 ^ 32 then Some (of_nat (digits_value body)) else None)"

definition strip_percent :: "string \<Rightarrow> string" where
  "strip_percent spec = (if spec \<noteq> [] \<and> hd spec = CHR ''%'' then tl spec else spec)"

definition job_or_none :: "job_id option \<Rightarrow> jobspec_match" where
  "job_or_none i = (case i of None \<Rightarrow> NoMatch | Some jid \<Rightarrow> Job jid)"

definition last_job_id :: "job_table \<Rightarrow> job_id option" where
  "last_job_id t = (case rev (bt_keys (jobs t)) of [] \<Rightarrow> None | jid # _ \<Rightarrow> Some jid)"

definition resolve_jobspec :: "job_table \<Rightarrow> string \<Rightarrow> jobspec_match" where
  "resolve_jobspec t spec =
     (let body = strip_percent spec
      in if body \<noteq> [] \<and> list_all is_ascii_digit body
         then (case parse_job_id body of
                 None \<Rightarrow> NoMatch
               | Some jid \<Rightarrow> if bt_get (jobs t) jid \<noteq> None then Job jid else NoMatch)
         else if body = [] \<or> hd body = CHR ''%'' \<or> hd body = CHR ''+''
         then job_or_none (case current_job t of Some jid \<Rightarrow> Some jid | None \<Rightarrow> last_job_id t)
         else if hd body = CHR ''-'' then job_or_none (previous_job t)
         else if hd body = CHR ''?'' then get_job_by_name t (tl body) True
         else get_job_by_name t body False)"

subsection \<open>Process state changes\<close>

definition derived_state :: "(u32, process_entry) btree_map \<Rightarrow> process_state" where
  "derived_state ps =
     (if list_ex (\<lambda>p. pe_state p = Running) (bt_values ps) then Running
      else if list_ex (\<lambda>p. pe_state p = Stopped) (bt_values ps) then Stopped else Completed)"

definition last_process :: "job_entry \<Rightarrow> process_entry option" where
  "last_process job = (case rev (je_pids job) of [] \<Rightarrow> None
     | pid # _ \<Rightarrow> bt_get (je_processes job) pid)"

definition recompute_entry :: "job_entry \<Rightarrow> job_entry" where
  "recompute_entry job =
     job\<lparr>je_state := derived_state (je_processes job),
         je_exit_status := (case last_process job of None \<Rightarrow> None | Some p \<Rightarrow> pe_exit_status p),
         je_term_signal := (case last_process job of None \<Rightarrow> None | Some p \<Rightarrow> pe_term_signal p)\<rparr>"

definition recompute_job :: "job_id \<Rightarrow> job_table \<Rightarrow> job_table" where
  "recompute_job jid t = t\<lparr>jobs := bt_modify jid recompute_entry (jobs t)\<rparr>"

definition mark_completed :: "u32 \<Rightarrow> int \<Rightarrow> job_table \<Rightarrow> job_table" where
  "mark_completed pid status t0 =
     (let t = t0\<lparr>completed_statuses := bt_insert pid status (completed_statuses t0)\<rparr>
      in case bt_get (pid_to_job t) pid of
           None \<Rightarrow> t
         | Some jid \<Rightarrow> (case bt_get (jobs t) jid of
               None \<Rightarrow> t
             | Some job \<Rightarrow>
                 recompute_job jid (t\<lparr>jobs := bt_insert jid
                   (job\<lparr>je_processes := bt_modify pid
                          (\<lambda>p. p\<lparr>pe_state := Completed, pe_exit_status := Some status\<rparr>)
                          (je_processes job),
                        je_notified := False\<rparr>) (jobs t)\<rparr>)))"

definition mark_stopped :: "u32 \<Rightarrow> int option \<Rightarrow> job_table \<Rightarrow> job_table" where
  "mark_stopped pid stop_signal t =
     (case bt_get (pid_to_job t) pid of
        None \<Rightarrow> t
      | Some jid \<Rightarrow>
          set_current_job jid (recompute_job jid (t\<lparr>jobs := bt_modify jid
            (\<lambda>job. job\<lparr>je_processes := bt_modify pid (\<lambda>p. p\<lparr>pe_state := Stopped\<rparr>) (je_processes job),
                      je_stop_signal := stop_signal, je_notified := False\<rparr>) (jobs t)\<rparr>)))"

definition mark_running :: "u32 \<Rightarrow> job_table \<Rightarrow> job_table" where
  "mark_running pid t =
     (case bt_get (pid_to_job t) pid of
        None \<Rightarrow> t
      | Some jid \<Rightarrow>
          recompute_job jid (t\<lparr>jobs := bt_modify jid
            (\<lambda>job. job\<lparr>je_processes := bt_modify pid (\<lambda>p. p\<lparr>pe_state := Running\<rparr>) (je_processes job),
                      je_stop_signal := None\<rparr>) (jobs t)\<rparr>))"

definition note_term_signal :: "u32 \<Rightarrow> int \<Rightarrow> job_table \<Rightarrow> job_table" where
  "note_term_signal pid signal t =
     (case bt_get (pid_to_job t) pid of
        None \<Rightarrow> t
      | Some jid \<Rightarrow> (case bt_get (jobs t) jid of
            None \<Rightarrow> t
          | Some job \<Rightarrow>
              recompute_job jid (t\<lparr>jobs := bt_insert jid
                (job\<lparr>je_processes := bt_modify pid (\<lambda>p. p\<lparr>pe_term_signal := Some signal\<rparr>)
                       (je_processes job)\<rparr>) (jobs t)\<rparr>)))"

definition reap_finished :: "(u32 \<times> int) list \<Rightarrow> job_table \<Rightarrow> job_table" where
  "reap_finished statuses t = foldl (\<lambda>t (pid, status). mark_completed pid status t) t statuses"

definition modify_job_of_pid :: "u32 \<Rightarrow> (job_entry \<Rightarrow> job_entry) \<Rightarrow> job_table \<Rightarrow> job_table" where
  "modify_job_of_pid pid f t = (case bt_get (pid_to_job t) pid of
       None \<Rightarrow> t | Some jid \<Rightarrow> t\<lparr>jobs := bt_modify jid f (jobs t)\<rparr>)"

definition set_job_control :: "u32 \<Rightarrow> bool \<Rightarrow> job_table \<Rightarrow> job_table" where
  "set_job_control pid job_control =
     modify_job_of_pid pid (\<lambda>job. job\<lparr>je_job_control := job_control\<rparr>)"

definition mark_job_notified_by_pid :: "u32 \<Rightarrow> job_table \<Rightarrow> job_table" where
  "mark_job_notified_by_pid pid = modify_job_of_pid pid (\<lambda>job. job\<lparr>je_notified := True\<rparr>)"

definition job_of_pid :: "job_table \<Rightarrow> u32 \<Rightarrow> job_entry option" where
  "job_of_pid t pid = (case bt_get (pid_to_job t) pid of None \<Rightarrow> None | Some jid \<Rightarrow> bt_get (jobs t) jid)"

definition job_control_for_pid :: "job_table \<Rightarrow> u32 \<Rightarrow> bool" where
  "job_control_for_pid t pid = (case job_of_pid t pid of None \<Rightarrow> False | Some job \<Rightarrow> je_job_control job)"

definition job_id_for_pid :: "job_table \<Rightarrow> u32 \<Rightarrow> job_id option" where
  "job_id_for_pid t pid = bt_get (pid_to_job t) pid"

definition job_recorded_stopped :: "job_table \<Rightarrow> u32 \<Rightarrow> bool" where
  "job_recorded_stopped t pid = (case job_of_pid t pid of None \<Rightarrow> False | Some job \<Rightarrow> je_state job = Stopped)"

subsection \<open>Deferred transitions and fresh fatal signals\<close>

definition note_reader_command :: "job_table \<Rightarrow> job_table" where
  "note_reader_command t =
     (let now = reader_command_seq t + 1
      in t\<lparr>reader_command_seq := now,
           fresh_fatal_marks := filter (\<lambda>(_, seq). now \<le> seq + 1) (fresh_fatal_marks t)\<rparr>)"

definition defer_state_mark :: "u32 \<Rightarrow> deferred_job_state \<Rightarrow> nat \<Rightarrow> job_table \<Rightarrow> job_table" where
  "defer_state_mark pid state instant t =
     t\<lparr>deferred_state_marks :=
         filter (\<lambda>(marked_pid, _). marked_pid \<noteq> pid) (deferred_state_marks t)
           @ [(pid, state, reader_command_seq t, instant)]\<rparr>"

definition note_fatal_signal :: "u32 \<Rightarrow> job_table \<Rightarrow> job_table" where
  "note_fatal_signal pid t =
     (if list_ex (\<lambda>(marked, _). marked = pid) (fresh_fatal_marks t) then t
      else t\<lparr>fresh_fatal_marks := fresh_fatal_marks t @ [(pid, reader_command_seq t)]\<rparr>)"

definition fresh_fatal_live :: "job_table \<Rightarrow> u32 \<Rightarrow> bool" where
  "fresh_fatal_live t pid =
     list_ex (\<lambda>(marked, seq). marked = pid \<and> reader_command_seq t \<le> seq + 1) (fresh_fatal_marks t)"

definition take_fresh_fatal :: "u32 \<Rightarrow> job_table \<Rightarrow> bool \<times> job_table" where
  "take_fresh_fatal pid t =
     (case position (\<lambda>(marked, seq). marked = pid \<and> reader_command_seq t \<le> seq + 1)
             (fresh_fatal_marks t) of
        None \<Rightarrow> (False, t)
      | Some i \<Rightarrow> (True, t\<lparr>fresh_fatal_marks := remove_nth i (fresh_fatal_marks t)\<rparr>))"

definition aged_ms :: nat where "aged_ms = 5"

text \<open>
  \<open>retain\<close> visits the marks in order against the unchanged table; \<open>clock\<close> is the instant of the
  refresh and \<open>elapsed\<close> saturates at zero.
\<close>

definition mark_held :: "job_table \<Rightarrow> bool \<Rightarrow> u32 \<Rightarrow> deferred_job_state \<Rightarrow> bool" where
  "mark_held t hold_running_for_stopped pid state \<longleftrightarrow>
     hold_running_for_stopped \<and> state = Deferred_Running \<and> job_recorded_stopped t pid
       \<and> fresh_fatal_live t pid"

definition mark_retained ::
    "job_table \<Rightarrow> bool \<Rightarrow> bool \<Rightarrow> nat \<Rightarrow> u32 \<times> deferred_job_state \<times> nat \<times> nat \<Rightarrow> bool" where
  "mark_retained t observe_event hold_running_for_stopped clock m =
     (case m of (pid, state, seq, sent) \<Rightarrow>
        mark_held t hold_running_for_stopped pid state
        \<or> \<not> (observe_event \<or> (seq < reader_command_seq t \<and> aged_ms \<le> clock - sent)))"

definition publish_mark :: "u32 \<Rightarrow> deferred_job_state \<Rightarrow> job_table \<Rightarrow> job_table" where
  "publish_mark pid state t = (case state of
       Deferred_Stopped signal \<Rightarrow> mark_stopped pid signal t
     | Deferred_Running \<Rightarrow> mark_running pid t)"

definition apply_deferred_state_marks :: "bool \<Rightarrow> bool \<Rightarrow> nat \<Rightarrow> job_table \<Rightarrow> job_table" where
  "apply_deferred_state_marks observe_event hold_running_for_stopped clock t =
     (let retained = mark_retained t observe_event hold_running_for_stopped clock;
          pending = filter retained (deferred_state_marks t);
          ready = filter (Not \<circ> retained) (deferred_state_marks t)
      in foldl (\<lambda>t (pid, state, _). publish_mark pid state t)
           (t\<lparr>deferred_state_marks := pending\<rparr>) ready)"

subsection \<open>Waiting and reaping\<close>

definition last_pid :: "job_entry \<Rightarrow> u32 option" where
  "last_pid job = (case rev (je_pids job) of [] \<Rightarrow> None | pid # _ \<Rightarrow> Some pid)"

definition clear_completed_statuses :: "job_table \<Rightarrow> job_table" where
  "clear_completed_statuses t = t\<lparr>completed_statuses := []\<rparr>"

definition settle_bare_wait :: "u32 option \<Rightarrow> bool \<Rightarrow> job_table \<Rightarrow> job_table" where
  "settle_bare_wait last_asynchronous_pid force_all t =
     (let exempt = (if force_all then None else last_asynchronous_pid);
          t' = t\<lparr>jobs := bt_map_values
                 (\<lambda>_ job. if je_state job \<noteq> Completed then job
                         else if exempt \<noteq> None \<and> last_pid job = exempt then job
                         else job\<lparr>je_notified := True\<rparr>) (jobs t)\<rparr>
      in clear_completed_statuses (cleanup_dead_jobs t'))"

definition child_max :: nat where "child_max = 4096"

fun reap_mark :: "u32 option \<Rightarrow> nat \<Rightarrow> (job_id \<times> job_entry) list \<Rightarrow> (job_id \<times> job_entry) list" where
  "reap_mark last_async keep [] = []"
| "reap_mark last_async keep ((jid, job) # rest) =
     (if je_state job \<noteq> Completed then (jid, job) # reap_mark last_async keep rest
      else if keep \<le> child_max then (jid, job) # rest
      else if last_pid job = last_async then (jid, job) # reap_mark last_async keep rest
      else (jid, job\<lparr>je_notified := True\<rparr>)
             # reap_mark last_async (keep - length (je_pids job)) rest)"

definition dead_processes :: "job_table \<Rightarrow> nat" where
  "dead_processes t =
     sum_list (map (\<lambda>job. length (je_pids job))
       (filter (\<lambda>job. je_state job = Completed) (bt_values (jobs t))))"

definition reap_dead_jobs :: "u32 option \<Rightarrow> job_table \<Rightarrow> job_table" where
  "reap_dead_jobs last_asynchronous_pid t =
     cleanup_dead_jobs
       (if child_max < dead_processes t
        then t\<lparr>jobs := reap_mark last_asynchronous_pid (dead_processes t) (jobs t)\<rparr> else t)"

definition wait_pid :: "u32 \<Rightarrow> job_table \<Rightarrow> int option \<times> job_table" where
  "wait_pid pid t =
     (let t' = t\<lparr>completed_statuses := bt_remove pid (completed_statuses t)\<rparr>
      in case bt_get (completed_statuses t) pid of
           Some status \<Rightarrow> (Some status, t')
         | None \<Rightarrow> (case job_of_pid t' pid of None \<Rightarrow> (None, t') | Some job \<Rightarrow> (je_exit_status job, t')))"

text \<open>\<open>pick\<close> is the hash order's choice of a key.\<close>

definition wait_any :: "(u32 list \<Rightarrow> u32) \<Rightarrow> job_table \<Rightarrow> (u32 \<times> int) option \<times> job_table" where
  "wait_any pick t =
     (case bt_keys (completed_statuses t) of
        [] \<Rightarrow> (None, t)
      | ks \<Rightarrow> (let pid = pick ks
               in case bt_get (completed_statuses t) pid of
                    None \<Rightarrow> (None, t)
                  | Some status \<Rightarrow>
                      (Some (pid, status),
                       t\<lparr>completed_statuses := bt_remove pid (completed_statuses t)\<rparr>)))"

definition wait_all :: "job_table \<Rightarrow> (u32 \<times> int) list \<times> job_table" where
  "wait_all t = (sort_key fst (completed_statuses t), t\<lparr>completed_statuses := []\<rparr>)"

definition attach_coproc_endpoint :: "job_id \<Rightarrow> u32 \<Rightarrow> job_table \<Rightarrow> job_table" where
  "attach_coproc_endpoint jid fd t =
     t\<lparr>jobs := bt_modify jid
         (\<lambda>job. job\<lparr>je_coproc_endpoints := je_coproc_endpoints job @ [fd]\<rparr>) (jobs t)\<rparr>"

definition take_coproc_endpoint :: "job_id \<Rightarrow> u32 \<Rightarrow> job_table \<Rightarrow> bool \<times> job_table" where
  "take_coproc_endpoint jid fd t =
     (case bt_get (jobs t) jid of
        None \<Rightarrow> (False, t)
      | Some job \<Rightarrow>
          let left = filter (\<lambda>candidate. candidate \<noteq> fd) (je_coproc_endpoints job)
          in (length (je_coproc_endpoints job) \<noteq> length left,
              t\<lparr>jobs := bt_insert jid (job\<lparr>je_coproc_endpoints := left\<rparr>) (jobs t)\<rparr>))"

end
