(* ===== verification/JobsCorrect.thy ===== *)
theory JobsCorrect
  imports Jobs
begin

section \<open>The job table: invariant and behaviour of its operations\<close>

text \<open>
  \<open>table_ok\<close> is the well-formedness of a \<open>JobTable\<close>: derived job fields agree with the processes,
  the pid index points at live jobs, the current/previous markers name live jobs, and there is at
  most one pending mark per pid.  Every public operation is a rule of \<open>job_step\<close>; the invariant is
  an interpretation of \<open>machine_invariant\<close>.  The rest of the theory is the functional behaviour:
  numbering, job completion, name specifications, waiting, and the notification windows.
\<close>

subsection \<open>Well-formed tables\<close>

definition job_ok :: "job_id \<Rightarrow> job_entry \<Rightarrow> bool" where
  "job_ok jid e \<longleftrightarrow> je_id e = jid \<and> je_pids e \<noteq> [] \<and> je_stage_commands e \<noteq> []
     \<and> bt_wf (je_processes e) \<and> set (bt_keys (je_processes e)) = set (je_pids e)
     \<and> recompute_entry e = e"

definition index_ok :: "(job_id, job_entry) btree_map \<Rightarrow> (u32, job_id) btree_map \<Rightarrow> bool" where
  "index_ok js pm \<longleftrightarrow> bt_wf js \<and> bt_wf pm
     \<and> (\<forall>jid e. bt_get js jid = Some e \<longrightarrow> job_ok jid e)
     \<and> (\<forall>pid jid. bt_get pm pid = Some jid \<longrightarrow> (\<exists>e. bt_get js jid = Some e \<and> pid \<in> set (je_pids e)))"

definition markers_ok :: "job_table \<Rightarrow> bool" where
  "markers_ok t \<longleftrightarrow> (current_job t = None \<longleftrightarrow> previous_job t = None)
     \<and> (\<forall>jid. current_job t = Some jid \<or> previous_job t = Some jid \<longrightarrow> bt_get (jobs t) jid \<noteq> None)"

definition marks_ok :: "job_table \<Rightarrow> bool" where
  "marks_ok t \<longleftrightarrow> bt_wf (completed_statuses t) \<and> distinct (map fst (deferred_state_marks t))
     \<and> distinct (map fst (fresh_fatal_marks t))
     \<and> (\<forall>(pid, seq) \<in> set (fresh_fatal_marks t).
          seq \<le> reader_command_seq t \<and> reader_command_seq t \<le> seq + 1)"

definition table_ok :: "job_table \<Rightarrow> bool" where
  "table_ok t \<longleftrightarrow> index_ok (jobs t) (pid_to_job t) \<and> markers_ok t \<and> marks_ok t"

lemma recompute_entry_sel [simp]:
  "je_id (recompute_entry e) = je_id e" "je_pids (recompute_entry e) = je_pids e"
  "je_processes (recompute_entry e) = je_processes e"
  "je_stage_commands (recompute_entry e) = je_stage_commands e"
  "je_notified (recompute_entry e) = je_notified e"
  "je_stop_signal (recompute_entry e) = je_stop_signal e"
  "je_state (recompute_entry e) = derived_state (je_processes e)"
  "je_exit_status (recompute_entry e) =
     (case last_process e of None \<Rightarrow> None | Some p \<Rightarrow> pe_exit_status p)"
  "je_term_signal (recompute_entry e) =
     (case last_process e of None \<Rightarrow> None | Some p \<Rightarrow> pe_term_signal p)"
  by (simp_all add: recompute_entry_def)

lemma last_process_recompute [simp]: "last_process (recompute_entry e) = last_process e"
  unfolding last_process_def [of "recompute_entry e"] last_process_def [of e]
  by (simp split: list.split)

lemma recompute_entry_fix:
  "recompute_entry e = e \<longleftrightarrow> je_state e = derived_state (je_processes e)
     \<and> je_exit_status e = (case last_process e of None \<Rightarrow> None | Some p \<Rightarrow> pe_exit_status p)
     \<and> je_term_signal e = (case last_process e of None \<Rightarrow> None | Some p \<Rightarrow> pe_term_signal p)"
proof
  assume "recompute_entry e = e"
  then show "je_state e = derived_state (je_processes e)
     \<and> je_exit_status e = (case last_process e of None \<Rightarrow> None | Some p \<Rightarrow> pe_exit_status p)
     \<and> je_term_signal e = (case last_process e of None \<Rightarrow> None | Some p \<Rightarrow> pe_term_signal p)"
    using recompute_entry_sel(7-9) [of e] by simp
qed (simp add: recompute_entry_def)

lemma recompute_entry_idem [simp]: "recompute_entry (recompute_entry e) = recompute_entry e"
  by (simp add: recompute_entry_fix)

lemma job_ok_recompute:
  "job_ok jid e \<Longrightarrow> bt_wf (je_processes e') \<Longrightarrow> je_id e' = je_id e \<Longrightarrow> je_pids e' = je_pids e \<Longrightarrow>
   je_stage_commands e' = je_stage_commands e \<Longrightarrow> bt_keys (je_processes e') = bt_keys (je_processes e) \<Longrightarrow>
   job_ok jid (recompute_entry e')"
  unfolding job_ok_def by simp

lemma index_ok_modify:
  assumes "index_ok js pm"
    and "\<And>e. bt_get js jid = Some e \<Longrightarrow> job_ok jid e \<Longrightarrow> job_ok jid (f e) \<and> je_pids (f e) = je_pids e"
  shows "index_ok (bt_modify jid f js) pm"
  using assms unfolding index_ok_def by (fastforce split: if_splits)

lemma index_ok_map_values:
  assumes "index_ok js pm"
    and "\<And>jid e. bt_get js jid = Some e \<Longrightarrow> job_ok jid e \<Longrightarrow>
           job_ok jid (f jid e) \<and> je_pids (f jid e) = je_pids e"
  shows "index_ok (bt_map_values f js) pm"
  using assms unfolding index_ok_def by fastforce

lemma index_ok_drop:
  assumes ok: "index_ok js pm" and e: "bt_get js jid = Some e"
  shows "index_ok (bt_remove jid js) (foldl (\<lambda>m pid. bt_remove pid m) pm (je_pids e))"
  using ok e unfolding index_ok_def
  by (auto simp: bt_get_remove bt_wf_remove bt.wf_del_all bt.get_del_all split: if_splits) fastforce

lemma index_ok_wf: "index_ok js pm \<Longrightarrow> bt_wf js" "index_ok js pm \<Longrightarrow> bt_wf pm"
  by (simp_all add: index_ok_def)

lemma index_ok_job: "index_ok js pm \<Longrightarrow> bt_get js jid = Some e \<Longrightarrow> job_ok jid e"
  by (simp add: index_ok_def)

lemma map_of_new_processes:
  "map_of (rev (map (\<lambda>pid. (pid, f pid)) pids)) pid = (if pid \<in> set pids then Some (f pid) else None)"
  unfolding rev_map by (simp add: map_of_map_restrict)

lemma derived_state_new:
  assumes "pids \<noteq> []"
  shows "derived_state (bt_of_list (map (\<lambda>pid. (pid, new_process pid)) pids)) = Running"
proof -
  have "new_process (hd pids) \<in> set (bt_values (bt_of_list (map (\<lambda>pid. (pid, new_process pid)) pids)))"
    using assms by (auto simp: bt_values_iff bt_get_of_list map_of_new_processes)
  then show ?thesis
    unfolding derived_state_def list_ex_iff by (force simp: new_process_def)
qed

lemma new_process_sel [simp]:
  "pe_state (new_process pid) = Running" "pe_exit_status (new_process pid) = None"
  "pe_term_signal (new_process pid) = None" "pe_pid (new_process pid) = pid"
  by (simp_all add: new_process_def)

lemma last_process_new:
  "pids \<noteq> [] \<Longrightarrow> last_process (new_job jid pids c bg pg st) = Some (new_process (last pids))"
  by (cases pids rule: rev_cases)
    (auto simp: last_process_def new_job_def bt_get_of_list map_of_new_processes)

lemma new_job_ok: "pids \<noteq> [] \<Longrightarrow> job_ok jid (new_job jid pids c bg pg st)"
  unfolding job_ok_def recompute_entry_fix
  by (simp add: last_process_new)
    (auto simp: new_job_def derived_state_new [symmetric] set_bt_keys bt_get_of_list
      map_of_new_processes split: if_splits)

lemma index_ok_new_job:
  assumes ok: "index_ok js pm" and fresh: "bt_get js jid = None" and e: "job_ok jid e"
  shows "index_ok (bt_insert jid e js) (foldl (\<lambda>m pid. bt_insert pid jid m) pm (je_pids e))"
  using assms unfolding index_ok_def
  by (auto simp: bt_get_insert bt_wf_insert bt.wf_put_all bt.get_put_all split: if_splits) fastforce+

subsection \<open>The markers\<close>

lemma most_recent_in_state_SomeD:
  "most_recent_in_state t below st = Some jid \<Longrightarrow> bt_wf (jobs t) \<Longrightarrow>
     jid < below \<and> (\<exists>e. bt_get (jobs t) jid = Some e \<and> je_state e = st)"
  unfolding most_recent_in_state_def
  by (auto simp: bt_get_Some_iff dest!: find_SomeD)

lemma newest_running_SomeD:
  "newest_running t = Some jid \<Longrightarrow> bt_wf (jobs t) \<Longrightarrow>
     \<exists>e. bt_get (jobs t) jid = Some e \<and> je_state e = Running"
  unfolding newest_running_def
  by (auto simp: bt_get_Some_iff dest!: find_SomeD)

lemma job_in_state_SomeD:
  "job_in_state t i st \<Longrightarrow> \<exists>jid e. i = Some jid \<and> bt_get (jobs t) jid = Some e \<and> je_state e = st"
  by (auto simp: job_in_state_def split: option.splits)

text \<open>\<open>set_current_job\<close> writes the two markers only, and leaves both on live jobs.\<close>

lemma set_current_job_shape:
  assumes wf: "bt_wf (jobs t)" and live: "bt_get (jobs t) jid \<noteq> None"
  shows "\<exists>p. set_current_job jid t = t\<lparr>current_job := Some jid, previous_job := Some p\<rparr>
           \<and> bt_get (jobs t) p \<noteq> None"
proof -
  define t1 where "t1 = (if current_job t \<noteq> Some jid
      then t\<lparr>previous_job := current_job t, current_job := Some jid\<rparr> else t)"
  have t1: "jobs t1 = jobs t" "current_job t1 = Some jid"
    "\<And>p. t1\<lparr>previous_job := Some p\<rparr> = t\<lparr>current_job := Some jid, previous_job := Some p\<rparr>"
    "\<And>p. previous_job t1 = Some p \<Longrightarrow> t1 = t\<lparr>current_job := Some jid, previous_job := Some p\<rparr>"
    unfolding t1_def by auto
  have wf1: "bt_wf (jobs t1)" using wf t1(1) by simp
  define sc where "sc = (if job_in_state t1 (Some jid) Stopped
    then most_recent_in_state t1 jid Stopped else None)"
  define rc where "rc = (if \<not> job_in_state t1 (Some jid) Stopped
    then most_recent_in_state t1 jid Running else newest_running t1)"
  have eq: "set_current_job jid t =
      (if previous_job t1 \<noteq> Some jid \<and> job_in_state t1 (previous_job t1) Stopped then t1
       else case sc of Some c \<Rightarrow> t1\<lparr>previous_job := Some c\<rparr>
            | None \<Rightarrow> (case rc of Some c \<Rightarrow> t1\<lparr>previous_job := Some c\<rparr>
                       | None \<Rightarrow> t1\<lparr>previous_job := Some jid\<rparr>))"
    unfolding set_current_job_def t1_def [symmetric] Let_def t1(2) sc_def rc_def by simp
  have sc: "sc = Some c \<Longrightarrow> bt_get (jobs t) c \<noteq> None" for c
    unfolding sc_def using most_recent_in_state_SomeD [OF _ wf1] t1(1)
    by (fastforce split: if_splits)
  have rc: "rc = Some c \<Longrightarrow> bt_get (jobs t) c \<noteq> None" for c
    unfolding rc_def using most_recent_in_state_SomeD [OF _ wf1] newest_running_SomeD [OF _ wf1] t1(1)
    by (fastforce split: if_splits)
  show ?thesis
  proof (cases "previous_job t1 \<noteq> Some jid \<and> job_in_state t1 (previous_job t1) Stopped")
    case True
    then obtain p where "previous_job t1 = Some p" "bt_get (jobs t) p \<noteq> None"
      using job_in_state_SomeD t1(1) by fastforce
    then show ?thesis using eq True t1(4) by auto
  next
    case False
    then show ?thesis
      using eq live sc rc unfolding t1(3) by (cases sc; cases rc) auto
  qed
qed

lemma reset_current_shape:
  assumes wf: "bt_wf (jobs t)"
  shows "\<exists>c p. reset_current t = t\<lparr>current_job := c, previous_job := p\<rparr>
     \<and> markers_ok (t\<lparr>current_job := c, previous_job := p\<rparr>)"
proof -
  define candidate where "candidate =
    (if job_in_state t (current_job t) Stopped then current_job t
     else if job_in_state t (previous_job t) Stopped then previous_job t
     else (case most_recent_in_state t (-1) Stopped of
             Some jid \<Rightarrow> Some jid | None \<Rightarrow> most_recent_in_state t (-1) Running))"
  have live: "bt_get (jobs t) jid \<noteq> None" if "candidate = Some jid" for jid
    using that unfolding candidate_def
    by (auto split: if_splits option.splits
        dest!: job_in_state_SomeD most_recent_in_state_SomeD [OF _ wf])
  have "reset_current t = (case candidate of
      Some jid \<Rightarrow> set_current_job jid t | None \<Rightarrow> t\<lparr>current_job := None, previous_job := None\<rparr>)"
    unfolding reset_current_def candidate_def by simp
  note eq = this
  show ?thesis
  proof (cases candidate)
    case None
    then show ?thesis
      using eq by (intro exI [of _ None]) (simp add: markers_ok_def)
  next
    case (Some jid)
    obtain p where "set_current_job jid t = t\<lparr>current_job := Some jid, previous_job := Some p\<rparr>"
      and "bt_get (jobs t) p \<noteq> None"
      using set_current_job_shape [OF wf live [OF Some]] by blast
    then show ?thesis
      using eq Some live [OF Some]
      by (intro exI [where P = "\<lambda>c. \<exists>p. Q c p" and x = "Some jid" for Q] exI [where x = "Some p"])
        (auto simp: markers_ok_def)
  qed
qed

text \<open>The invariant reads only these fields: a table that differs in the markers alone.\<close>

lemma table_ok_markers:
  "table_ok (t\<lparr>current_job := c, previous_job := p\<rparr>) \<longleftrightarrow>
     index_ok (jobs t) (pid_to_job t) \<and> marks_ok t \<and> markers_ok (t\<lparr>current_job := c, previous_job := p\<rparr>)"
  by (auto simp: table_ok_def marks_ok_def)

lemma table_ok_set_current:
  assumes "index_ok (jobs t) (pid_to_job t)" "marks_ok t" "bt_get (jobs t) jid \<noteq> None"
  shows "table_ok (set_current_job jid t)"
  using set_current_job_shape [OF index_ok_wf(1) [OF assms(1)] assms(3)] assms
  by (auto simp: table_ok_markers markers_ok_def)

lemma table_ok_reset:
  assumes "index_ok (jobs t) (pid_to_job t)" "marks_ok t"
  shows "table_ok (reset_current t)"
  using reset_current_shape [OF index_ok_wf(1) [OF assms(1)]] assms by (auto simp: table_ok_markers)

lemma table_okD:
  "table_ok t \<Longrightarrow> index_ok (jobs t) (pid_to_job t)" "table_ok t \<Longrightarrow> markers_ok t" "table_ok t \<Longrightarrow> marks_ok t"
  by (simp_all add: table_ok_def)

text \<open>Updating one job, or all of them, in place.\<close>

lemma table_ok_modify:
  assumes ok: "table_ok t"
    and f: "\<And>e. bt_get (jobs t) jid = Some e \<Longrightarrow> job_ok jid e \<Longrightarrow> job_ok jid (f e) \<and> je_pids (f e) = je_pids e"
  shows "table_ok (t\<lparr>jobs := bt_modify jid f (jobs t)\<rparr>)"
  using index_ok_modify [OF table_okD(1) [OF ok] f] table_okD(2,3) [OF ok]
  by (auto simp: table_ok_def markers_ok_def marks_ok_def)

lemma table_ok_map_values:
  assumes ok: "table_ok t"
    and f: "\<And>jid e. bt_get (jobs t) jid = Some e \<Longrightarrow> job_ok jid e \<Longrightarrow>
              job_ok jid (f jid e) \<and> je_pids (f jid e) = je_pids e"
  shows "table_ok (t\<lparr>jobs := bt_map_values f (jobs t)\<rparr>)"
  using index_ok_map_values [OF table_okD(1) [OF ok] f] table_okD(2,3) [OF ok]
  by (auto simp: table_ok_def markers_ok_def marks_ok_def)

lemma job_ok_flags [simp]:
  "job_ok jid (e\<lparr>je_notified := b\<rparr>) = job_ok jid e"
  "job_ok jid (e\<lparr>je_job_control := b\<rparr>) = job_ok jid e"
  "job_ok jid (e\<lparr>je_coproc_endpoints := fds\<rparr>) = job_ok jid e"
  by (simp_all add: job_ok_def recompute_entry_fix last_process_def cong: list.case_cong)

subsection \<open>Every operation keeps the invariant\<close>

lemma drop_job_entry_sel [simp]:
  "current_job (drop_job_entry jid t) = current_job t"
  "previous_job (drop_job_entry jid t) = previous_job t"
  "completed_statuses (drop_job_entry jid t) = completed_statuses t"
  "deferred_state_marks (drop_job_entry jid t) = deferred_state_marks t"
  "fresh_fatal_marks (drop_job_entry jid t) = fresh_fatal_marks t"
  "reader_command_seq (drop_job_entry jid t) = reader_command_seq t"
  by (simp_all add: drop_job_entry_def split: option.splits)

lemma jobs_drop_job_entry:
  "bt_get (jobs (drop_job_entry jid t)) k = (if k = jid then None else bt_get (jobs t) k)"
  by (auto simp: drop_job_entry_def bt_get_remove split: option.splits)

lemma drop_job_entry_index:
  "index_ok (jobs t) (pid_to_job t) \<Longrightarrow>
     index_ok (jobs (drop_job_entry jid t)) (pid_to_job (drop_job_entry jid t))"
  by (auto simp: drop_job_entry_def index_ok_drop split: option.splits)

lemma drop_jobs_sel [simp]:
  "current_job (foldl (\<lambda>t jid. drop_job_entry jid t) t ids) = current_job t"
  "previous_job (foldl (\<lambda>t jid. drop_job_entry jid t) t ids) = previous_job t"
  "completed_statuses (foldl (\<lambda>t jid. drop_job_entry jid t) t ids) = completed_statuses t"
  "deferred_state_marks (foldl (\<lambda>t jid. drop_job_entry jid t) t ids) = deferred_state_marks t"
  "fresh_fatal_marks (foldl (\<lambda>t jid. drop_job_entry jid t) t ids) = fresh_fatal_marks t"
  "reader_command_seq (foldl (\<lambda>t jid. drop_job_entry jid t) t ids) = reader_command_seq t"
  by (induction ids arbitrary: t) auto

lemma jobs_drop_jobs:
  "bt_get (jobs (foldl (\<lambda>t jid. drop_job_entry jid t) t ids)) k
     = (if k \<in> set ids then None else bt_get (jobs t) k)"
  by (induction ids arbitrary: t) (auto simp: jobs_drop_job_entry)

lemma drop_jobs_index:
  "index_ok (jobs t) (pid_to_job t) \<Longrightarrow>
     index_ok (jobs (foldl (\<lambda>t jid. drop_job_entry jid t) t ids))
              (pid_to_job (foldl (\<lambda>t jid. drop_job_entry jid t) t ids))"
  by (induction ids arbitrary: t) (auto intro: drop_job_entry_index)

text \<open>Jobs leave the table; the markers are recomputed exactly when one of them named such a job.\<close>

lemma table_ok_after_removal:
  assumes ok: "table_ok t" and idx: "index_ok (jobs t') (pid_to_job t')" and marks: "marks_ok t'"
    and same: "current_job t' = current_job t" "previous_job t' = previous_job t"
    and kept: "\<And>k. bt_get (jobs t) k \<noteq> None \<Longrightarrow> bt_get (jobs t') k = None \<Longrightarrow>
                 reset \<or> (current_job t \<noteq> Some k \<and> previous_job t \<noteq> Some k)"
  shows "table_ok (if reset then reset_current t' else t')"
proof (cases reset)
  case True
  then show ?thesis using table_ok_reset [OF idx marks] by simp
next
  case False
  then have "markers_ok t'"
    using table_okD(2) [OF ok] same kept unfolding markers_ok_def by fastforce
  then show ?thesis using False idx marks by (simp add: table_ok_def)
qed

lemma marks_ok_cong:
  "completed_statuses t' = completed_statuses t \<Longrightarrow> deferred_state_marks t' = deferred_state_marks t \<Longrightarrow>
   fresh_fatal_marks t' = fresh_fatal_marks t \<Longrightarrow> reader_command_seq t' = reader_command_seq t \<Longrightarrow>
   marks_ok t' = marks_ok t"
  by (simp add: marks_ok_def)

lemma table_ok_cleanup: "table_ok t \<Longrightarrow> table_ok (cleanup_dead_jobs t)"
  unfolding cleanup_dead_jobs_def Let_def
proof (rule table_ok_after_removal, assumption)
  assume ok: "table_ok t"
  show "marks_ok (foldl (\<lambda>t jid. drop_job_entry jid t) t
      (map fst (filter (\<lambda>(_, job). dead_notified job) (jobs t))))"
    using table_okD(3) [OF ok] by (subst marks_ok_cong [of _ t]) simp_all
  fix k
  assume "bt_get (jobs t) k \<noteq> None"
    and "bt_get (jobs (foldl (\<lambda>t jid. drop_job_entry jid t) t
      (map fst (filter (\<lambda>(_, job). dead_notified job) (jobs t))))) k = None"
  then show "list_ex (\<lambda>jid. Some jid = current_job t \<or> Some jid = previous_job t)
      (map fst (filter (\<lambda>(_, job). dead_notified job) (jobs t)))
    \<or> (current_job t \<noteq> Some k \<and> previous_job t \<noteq> Some k)"
    unfolding list_ex_iff jobs_drop_jobs by (metis option.simps(3))
qed (simp_all add: drop_jobs_index table_okD)

lemma table_ok_remove_job: "table_ok t \<Longrightarrow> table_ok (snd (remove_job jid t))"
proof (cases "bt_get (jobs t) jid")
  case (Some job)
  assume ok: "table_ok t"
  define t' where "t' = t\<lparr>jobs := bt_remove jid (jobs t),
    pid_to_job := foldl (\<lambda>m pid. bt_remove pid m) (pid_to_job t) (je_pids job),
    completed_statuses := foldl (\<lambda>m pid. bt_remove pid m) (completed_statuses t) (je_pids job)\<rparr>"
  have idx: "index_ok (jobs t') (pid_to_job t')"
    using index_ok_drop [OF table_okD(1) [OF ok] Some] by (simp add: t'_def)
  have marks: "marks_ok t'"
    using table_okD(3) [OF ok] by (simp add: t'_def marks_ok_def bt.wf_del_all)
  have "table_ok (if Some jid = current_job t' \<or> Some jid = previous_job t' then reset_current t' else t')"
    by (rule table_ok_after_removal [OF ok idx marks])
      (auto simp: t'_def bt_get_remove split: if_splits)
  then show ?thesis
    using Some unfolding t'_def by (simp add: remove_job_def Let_def)
qed (simp add: remove_job_def)

lemma table_ok_preserve_status:
  "table_ok t \<Longrightarrow> table_ok (snd (remove_job_by_pid_preserve_status pid t))"
proof -
  assume ok: "table_ok t"
  have "table_ok (if Some jid = current_job t \<or> Some jid = previous_job t
      then reset_current (drop_job_entry jid t) else drop_job_entry jid t)" for jid
    using table_okD(3) [OF ok] table_okD(1) [OF ok]
    by (intro table_ok_after_removal [OF ok])
      (auto simp: drop_job_entry_index jobs_drop_job_entry marks_ok_def split: if_splits)
  then show ?thesis
    using ok by (auto simp: remove_job_by_pid_preserve_status_def Let_def split: option.splits)
qed

lemma table_ok_remove_job_by_pid: "table_ok t \<Longrightarrow> table_ok (snd (remove_job_by_pid pid t))"
  by (auto simp: remove_job_by_pid_def table_ok_remove_job split: option.splits)

lemma next_job_id_fresh:
  assumes ok: "bt_wf (jobs t)" and room: "last_job_id t \<noteq> Some (- 1)"
  shows "bt_get (jobs t) (next_job_id t) = None"
    and "bt_get (jobs t) k \<noteq> None \<Longrightarrow> k < next_job_id t"
proof -
  have less: "k < next_job_id t" if k: "bt_get (jobs t) k \<noteq> None" for k
  proof (cases "rev (bt_keys (jobs t))")
    case Nil
    then show ?thesis using k bto.keys_empty_iff [OF ok] by auto
  next
    case (Cons h hs)
    then have h: "h = last (bt_keys (jobs t))" and ne: "bt_keys (jobs t) \<noteq> []"
      by (metis last_rev list.sel(1) rev_rev_ident, auto)
    then have "k \<le> h" using bto.last_key_max [OF ok ne k] by simp
    moreover have "h \<noteq> - 1" using room Cons by (simp add: last_job_id_def)
    moreover have "h \<noteq> - 1 \<Longrightarrow> h < h + 1" by (rule word_less_succ)
    ultimately show ?thesis using Cons by (auto simp: next_job_id_def saturating_succ_def)
  qed
  then show "bt_get (jobs t) k \<noteq> None \<Longrightarrow> k < next_job_id t" by blast
  from less show "bt_get (jobs t) (next_job_id t) = None" by blast
qed

lemma table_ok_register:
  assumes ok: "table_ok t" and pids: "pids \<noteq> []"
    and room: "last_job_id (cleanup_dead_jobs t) \<noteq> Some (- 1)"
  shows "table_ok (snd (register_pipeline_stages pids command background pgrp stages t))"
proof -
  let ?t = "cleanup_dead_jobs t" and ?jid = "next_job_id (cleanup_dead_jobs t)"
  let ?e = "new_job ?jid pids command background pgrp stages"
  have ok1: "table_ok ?t" using ok by (rule table_ok_cleanup)
  have fresh: "bt_get (jobs ?t) ?jid = None"
    using next_job_id_fresh(1) [OF index_ok_wf(1) [OF table_okD(1) [OF ok1]] room] .
  have "je_pids ?e = pids" by (simp add: new_job_def)
  then have "index_ok (bt_insert ?jid ?e (jobs ?t))
      (foldl (\<lambda>m pid. bt_insert pid ?jid m) (pid_to_job ?t) pids)"
    using index_ok_new_job [OF table_okD(1) [OF ok1] fresh new_job_ok [OF pids]] by metis
  then show ?thesis
    unfolding register_pipeline_stages_def Let_def snd_conv
    using table_okD(1,3) [OF ok1]
    by (intro table_ok_set_current)
      (auto simp: marks_ok_def bt_get_insert index_ok_wf)
qed

lemma table_ok_update_process:
  assumes ok: "table_ok t" and idx: "bt_get (pid_to_job t) pid = Some jid"
    and g: "\<And>e. je_id (g e) = je_id e \<and> je_pids (g e) = je_pids e \<and>
              je_stage_commands (g e) = je_stage_commands e \<and>
              je_processes (g e) = bt_modify pid f (je_processes e)"
  shows "table_ok (recompute_job jid (t\<lparr>jobs := bt_modify jid g (jobs t)\<rparr>))"
proof -
  have "recompute_job jid (t\<lparr>jobs := bt_modify jid g (jobs t)\<rparr>)
      = t\<lparr>jobs := bt_modify jid (recompute_entry \<circ> g) (jobs t)\<rparr>"
    by (simp add: recompute_job_def bt_modify_modify)
  moreover have "job_ok jid (recompute_entry (g e)) \<and> je_pids (recompute_entry (g e)) = je_pids e"
    if "job_ok jid e" for e
    using that g [of e] by (auto intro!: job_ok_recompute simp: job_ok_def)
  ultimately show ?thesis using table_ok_modify [OF ok, of jid "recompute_entry \<circ> g"] by simp
qed

lemma pid_job_live:
  "table_ok t \<Longrightarrow> bt_get (pid_to_job t) pid = Some jid \<Longrightarrow>
     \<exists>e. bt_get (jobs t) jid = Some e \<and> pid \<in> set (je_pids e) \<and> job_ok jid e"
  unfolding table_ok_def index_ok_def by blast

definition set_completed :: "u32 \<Rightarrow> int \<Rightarrow> job_entry \<Rightarrow> job_entry" where
  "set_completed pid status job =
     job\<lparr>je_processes := bt_modify pid
           (\<lambda>p. p\<lparr>pe_state := Completed, pe_exit_status := Some status\<rparr>) (je_processes job),
         je_notified := False\<rparr>"

definition set_term_signal :: "u32 \<Rightarrow> int \<Rightarrow> job_entry \<Rightarrow> job_entry" where
  "set_term_signal pid signal job =
     job\<lparr>je_processes := bt_modify pid (\<lambda>p. p\<lparr>pe_term_signal := Some signal\<rparr>) (je_processes job)\<rparr>"

text \<open>On a well-formed table both are an update of the owning job in place, then a recompute.\<close>

lemma mark_completed_eq:
  assumes ok: "table_ok t"
  shows "mark_completed pid status t =
     (let t1 = t\<lparr>completed_statuses := bt_insert pid status (completed_statuses t)\<rparr>
      in case bt_get (pid_to_job t) pid of None \<Rightarrow> t1
         | Some jid \<Rightarrow> recompute_job jid (t1\<lparr>jobs := bt_modify jid (set_completed pid status) (jobs t)\<rparr>))"
  using pid_job_live [OF ok]
    bt_insert_present [OF index_ok_wf(1) [OF table_okD(1) [OF ok]], of _ _ "set_completed pid status"]
  by (fastforce simp: mark_completed_def set_completed_def Let_def split: option.split)

lemma note_term_signal_eq:
  assumes ok: "table_ok t"
  shows "note_term_signal pid signal t =
     (case bt_get (pid_to_job t) pid of None \<Rightarrow> t
      | Some jid \<Rightarrow> recompute_job jid (t\<lparr>jobs := bt_modify jid (set_term_signal pid signal) (jobs t)\<rparr>))"
  using pid_job_live [OF ok]
    bt_insert_present [OF index_ok_wf(1) [OF table_okD(1) [OF ok]], of _ _ "set_term_signal pid signal"]
  by (fastforce simp: note_term_signal_def set_term_signal_def split: option.split)

lemma table_ok_completed_statuses:
  "table_ok t \<Longrightarrow> bt_wf m \<Longrightarrow> table_ok (t\<lparr>completed_statuses := m\<rparr>)"
  by (auto simp: table_ok_def markers_ok_def marks_ok_def)

lemma table_ok_mark_completed: "table_ok t \<Longrightarrow> table_ok (mark_completed pid status t)"
proof -
  assume ok: "table_ok t"
  let ?t = "t\<lparr>completed_statuses := bt_insert pid status (completed_statuses t)\<rparr>"
  have ok': "table_ok ?t"
    using ok by (intro table_ok_completed_statuses) (auto simp: table_ok_def marks_ok_def bt_wf_insert)
  have "table_ok (recompute_job jid (?t\<lparr>jobs := bt_modify jid (set_completed pid status) (jobs ?t)\<rparr>))"
    if "bt_get (pid_to_job t) pid = Some jid" for jid
    using that by (intro table_ok_update_process [OF ok', of pid]) (auto simp: set_completed_def)
  with ok' show ?thesis by (simp add: mark_completed_eq [OF ok] Let_def split: option.split)
qed

lemma table_ok_note_term_signal: "table_ok t \<Longrightarrow> table_ok (note_term_signal pid signal t)"
proof -
  assume ok: "table_ok t"
  have "table_ok (recompute_job jid (t\<lparr>jobs := bt_modify jid (set_term_signal pid signal) (jobs t)\<rparr>))"
    if "bt_get (pid_to_job t) pid = Some jid" for jid
    using that by (intro table_ok_update_process [OF ok, of pid]) (auto simp: set_term_signal_def)
  with ok show ?thesis by (simp add: note_term_signal_eq [OF ok] split: option.split)
qed

lemma table_ok_mark_running: "table_ok t \<Longrightarrow> table_ok (mark_running pid t)"
  using table_ok_update_process [of t pid _ "\<lambda>job. job\<lparr>je_processes :=
      bt_modify pid (\<lambda>p. p\<lparr>pe_state := Running\<rparr>) (je_processes job), je_stop_signal := None\<rparr>"]
  by (auto simp: mark_running_def split: option.splits)

lemma table_ok_mark_stopped: "table_ok t \<Longrightarrow> table_ok (mark_stopped pid sig t)"
proof (cases "bt_get (pid_to_job t) pid")
  case (Some jid)
  assume ok: "table_ok t"
  let ?g = "\<lambda>job. job\<lparr>je_processes := bt_modify pid (\<lambda>p. p\<lparr>pe_state := Stopped\<rparr>) (je_processes job),
      je_stop_signal := sig, je_notified := False\<rparr>"
  let ?t = "recompute_job jid (t\<lparr>jobs := bt_modify jid ?g (jobs t)\<rparr>)"
  have ok': "table_ok ?t" using table_ok_update_process [OF ok Some, of ?g] by simp
  have "bt_get (jobs ?t) jid \<noteq> None"
    using pid_job_live [OF ok Some] by (auto simp: recompute_job_def)
  then have "table_ok (set_current_job jid ?t)"
    using table_ok_set_current table_okD(1,3) [OF ok'] by blast
  then show ?thesis using Some by (simp add: mark_stopped_def)
qed (simp add: mark_stopped_def)

subsection \<open>The remaining operations keep the invariant\<close>

lemma last_process_bookkeeping [simp]:
  "last_process (e\<lparr>je_notified := b\<rparr>) = last_process e"
  "last_process (e\<lparr>je_job_control := b\<rparr>) = last_process e"
  "last_process (e\<lparr>je_coproc_endpoints := fds\<rparr>) = last_process e"
  by (simp_all add: last_process_def split: list.split)

lemma job_ok_bookkeeping [simp]:
  "job_ok jid (e\<lparr>je_notified := b\<rparr>) = job_ok jid e"
  "job_ok jid (e\<lparr>je_job_control := b\<rparr>) = job_ok jid e"
  "job_ok jid (e\<lparr>je_coproc_endpoints := fds\<rparr>) = job_ok jid e"
  unfolding job_ok_def recompute_entry_fix by simp_all

lemma table_ok_modify_job_of_pid:
  assumes "table_ok t" and "\<And>jid e. job_ok jid e \<Longrightarrow> job_ok jid (f e) \<and> je_pids (f e) = je_pids e"
  shows "table_ok (modify_job_of_pid pid f t)"
  using assms by (auto simp: modify_job_of_pid_def intro: table_ok_modify split: option.split)

lemma table_ok_set_job_control: "table_ok t \<Longrightarrow> table_ok (set_job_control pid b t)"
  unfolding set_job_control_def by (rule table_ok_modify_job_of_pid) auto

lemma table_ok_mark_job_notified: "table_ok t \<Longrightarrow> table_ok (mark_job_notified_by_pid pid t)"
  unfolding mark_job_notified_by_pid_def by (rule table_ok_modify_job_of_pid) auto

lemma table_ok_attach: "table_ok t \<Longrightarrow> table_ok (attach_coproc_endpoint jid fd t)"
  unfolding attach_coproc_endpoint_def by (rule table_ok_modify) auto

lemma table_ok_take_endpoint: "table_ok t \<Longrightarrow> table_ok (snd (take_coproc_endpoint jid fd t))"
proof (cases "bt_get (jobs t) jid")
  case (Some job)
  assume ok: "table_ok t"
  let ?f = "\<lambda>job. job\<lparr>je_coproc_endpoints := filter (\<lambda>c. c \<noteq> fd) (je_coproc_endpoints job)\<rparr>"
  have "table_ok (t\<lparr>jobs := bt_insert jid (?f job) (jobs t)\<rparr>)"
    unfolding bt_insert_present [of "jobs t" jid job ?f, OF index_ok_wf(1) [OF table_okD(1) [OF ok]] Some]
    using ok by (rule table_ok_modify) auto
  then show ?thesis using Some by (simp add: take_coproc_endpoint_def Let_def)
qed (simp add: take_coproc_endpoint_def)

text \<open>A pass over the jobs that keeps keys, well-formedness and pids entry by entry.\<close>

definition entry_kept :: "job_id \<times> job_entry \<Rightarrow> job_id \<times> job_entry \<Rightarrow> bool" where
  "entry_kept a b \<longleftrightarrow> fst b = fst a \<and> je_pids (snd b) = je_pids (snd a)
     \<and> (job_ok (fst a) (snd a) \<longrightarrow> job_ok (fst b) (snd b))"

lemma entry_kept_refl [simp]: "entry_kept a a"
  by (simp add: entry_kept_def)

lemma entry_kept_notified [simp]: "entry_kept (k, e) (k, e\<lparr>je_notified := b\<rparr>)"
  by (simp add: entry_kept_def)

lemma entry_kept_list_refl [simp]: "list_all2 entry_kept js js"
  by (rule list.rel_refl) simp

lemma entry_kept_get:
  "list_all2 entry_kept js js' \<Longrightarrow>
     rel_option (\<lambda>e e'. je_pids e' = je_pids e \<and> (job_ok k e \<longrightarrow> job_ok k e')) (bt_get js k) (bt_get js' k)"
  unfolding bt_get_def
  by (induction rule: list_all2_induct) (auto simp: entry_kept_def)

lemma entry_kept_keys: "list_all2 entry_kept js js' \<Longrightarrow> map fst js' = map fst js"
  by (induction rule: list_all2_induct) (auto simp: entry_kept_def)

lemma index_ok_entry_kept:
  assumes ok: "index_ok js pm" and rel: "list_all2 entry_kept js js'"
  shows "index_ok js' pm"
proof -
  have wf: "bt_wf js'" using ok entry_kept_keys [OF rel] by (simp add: index_ok_def bt_wf_def)
  have "job_ok jid e" if "bt_get js' jid = Some e" for jid e
    using entry_kept_get [OF rel, of jid] that ok by (auto simp: index_ok_def option_rel_Some2)
  moreover have "\<exists>e. bt_get js' jid = Some e \<and> pid \<in> set (je_pids e)"
    if "bt_get pm pid = Some jid" for pid jid
    using entry_kept_get [OF rel, of jid] that ok by (fastforce simp: index_ok_def option_rel_Some1)
  ultimately show ?thesis using ok wf by (simp add: index_ok_def)
qed

lemma table_ok_entry_kept:
  assumes ok: "table_ok t" and rel: "list_all2 entry_kept (jobs t) js'"
  shows "table_ok (t\<lparr>jobs := js'\<rparr>)"
proof -
  have "bt_get js' k \<noteq> None" if "bt_get (jobs t) k \<noteq> None" for k
    using entry_kept_get [OF rel, of k] that by (auto simp: option_rel_Some1)
  then show ?thesis
    using index_ok_entry_kept [OF table_okD(1) [OF ok] rel] table_okD(2,3) [OF ok]
    by (fastforce simp: table_ok_def markers_ok_def marks_ok_def)
qed

lemma reap_mark_kept: "list_all2 entry_kept js (reap_mark last_async keep js)"
  by (induction last_async keep js rule: reap_mark.induct) simp_all

lemma table_ok_reap_dead: "table_ok t \<Longrightarrow> table_ok (reap_dead_jobs last_async t)"
  by (simp add: reap_dead_jobs_def table_ok_cleanup table_ok_entry_kept reap_mark_kept)

lemma table_ok_settle: "table_ok t \<Longrightarrow> table_ok (settle_bare_wait last_async force t)"
  unfolding settle_bare_wait_def Let_def clear_completed_statuses_def
  by (intro table_ok_completed_statuses table_ok_cleanup table_ok_map_values) auto

lemma table_ok_clear: "table_ok t \<Longrightarrow> table_ok (clear_jobs t)"
  by (auto simp: clear_jobs_def table_ok_def index_ok_def markers_ok_def marks_ok_def)

lemma table_ok_procsub: "table_ok (t\<lparr>procsub_placeholders := ps\<rparr>) = table_ok t"
  by (auto simp: table_ok_def markers_ok_def marks_ok_def)

lemma table_ok_clear_markers: "table_ok t \<Longrightarrow> table_ok (clear_current_markers t)"
  by (auto simp: clear_current_markers_def table_ok_def markers_ok_def marks_ok_def)

lemma table_ok_mark_lists:
  assumes "table_ok t" "distinct (map fst ds)" "distinct (map fst fs)"
    and "\<forall>(pid, seq) \<in> set fs. seq \<le> n \<and> n \<le> seq + 1"
  shows "table_ok (t\<lparr>reader_command_seq := n, deferred_state_marks := ds, fresh_fatal_marks := fs\<rparr>)"
  using assms by (auto simp: table_ok_def markers_ok_def marks_ok_def)

lemma marks_okD:
  "marks_ok t \<Longrightarrow> distinct (map fst (deferred_state_marks t))"
  "marks_ok t \<Longrightarrow> distinct (map fst (fresh_fatal_marks t))"
  "marks_ok t \<Longrightarrow> (pid, seq) \<in> set (fresh_fatal_marks t) \<Longrightarrow>
     seq \<le> reader_command_seq t \<and> reader_command_seq t \<le> seq + 1"
  by (auto simp: marks_ok_def)

lemma distinct_map_fst_filter: "distinct (map fst xs) \<Longrightarrow> distinct (map fst (filter P xs))"
  by (induction xs) auto

lemma distinct_map_fst_snoc_filter:
  "distinct (map fst xs) \<Longrightarrow> distinct (map fst (filter (\<lambda>(k, _). k \<noteq> k0) xs @ [(k0, v)]))"
  by (auto simp: distinct_map_fst_filter)

text \<open>The pending and fresh marks.\<close>

lemma table_ok_note_reader: "table_ok t \<Longrightarrow> table_ok (note_reader_command t)"
proof -
  assume ok: "table_ok t"
  let ?fs = "filter (\<lambda>(_, seq). reader_command_seq t + 1 \<le> seq + 1) (fresh_fatal_marks t)"
  have "table_ok (t\<lparr>reader_command_seq := reader_command_seq t + 1,
      deferred_state_marks := deferred_state_marks t, fresh_fatal_marks := ?fs\<rparr>)"
    using marks_okD [OF table_okD(3) [OF ok]] ok
    by (intro table_ok_mark_lists) (auto simp: distinct_map_fst_filter intro: le_SucI)
  then show ?thesis by (simp add: note_reader_command_def Let_def)
qed

lemma table_ok_marks_update:
  assumes "table_ok t" "distinct (map fst ds)" "distinct (map fst fs)"
    and "set fs \<subseteq> insert (pid, reader_command_seq t) (set (fresh_fatal_marks t))"
  shows "table_ok (t\<lparr>deferred_state_marks := ds, fresh_fatal_marks := fs\<rparr>)"
  using table_ok_mark_lists [of t ds fs "reader_command_seq t"] assms
    marks_okD(3) [OF table_okD(3) [OF assms(1)]] by fastforce

lemma table_ok_defer: "table_ok t \<Longrightarrow> table_ok (defer_state_mark pid st i t)"
proof -
  assume ok: "table_ok t"
  let ?ds = "filter (\<lambda>(p, _). p \<noteq> pid) (deferred_state_marks t) @ [(pid, st, reader_command_seq t, i)]"
  have "table_ok (t\<lparr>deferred_state_marks := ?ds, fresh_fatal_marks := fresh_fatal_marks t\<rparr>)"
    by (intro table_ok_marks_update [OF ok] distinct_map_fst_snoc_filter
        marks_okD(1,2) [OF table_okD(3) [OF ok]]) auto
  then show ?thesis by (simp add: defer_state_mark_def)
qed

lemma table_ok_note_fatal: "table_ok t \<Longrightarrow> table_ok (note_fatal_signal pid t)"
proof (cases "list_ex (\<lambda>(marked, _). marked = pid) (fresh_fatal_marks t)")
  case False
  assume ok: "table_ok t"
  let ?fs = "fresh_fatal_marks t @ [(pid, reader_command_seq t)]"
  have "table_ok (t\<lparr>deferred_state_marks := deferred_state_marks t, fresh_fatal_marks := ?fs\<rparr>)"
    using False marks_okD(1,2) [OF table_okD(3) [OF ok]]
    by (intro table_ok_marks_update [OF ok, of _ _ pid]) (auto simp: list_ex_iff)
  then show ?thesis using False by (simp add: note_fatal_signal_def)
qed (simp add: note_fatal_signal_def)

lemma distinct_map_remove_nth:
  assumes "distinct (map f xs)" shows "distinct (map f (remove_nth i xs))"
proof -
  have "distinct (map f (take i xs @ drop i xs))" using assms by (simp only: append_take_drop_id)
  then have "distinct (map f (take i xs))" "distinct (map f (drop i xs))"
    "set (map f (take i xs)) \<inter> set (map f (drop i xs)) = {}"
    by (simp_all only: map_append distinct_append)
  moreover have "drop (Suc i) xs = tl (drop i xs)" by (simp add: drop_Suc tl_drop)
  ultimately show ?thesis
    unfolding remove_nth_def by (cases "drop i xs") (auto simp del: tl_drop)
qed

lemma table_ok_take_fatal: "table_ok t \<Longrightarrow> table_ok (snd (take_fresh_fatal pid t))"
proof -
  assume ok: "table_ok t"
  have "table_ok (t\<lparr>deferred_state_marks := deferred_state_marks t,
      fresh_fatal_marks := remove_nth i (fresh_fatal_marks t)\<rparr>)" for i
    using ok set_remove_nth [of i "fresh_fatal_marks t"] marks_okD [OF table_okD(3) [OF ok]]
    by (intro table_ok_marks_update [of t _ _ pid]) (auto simp: distinct_map_remove_nth)
  then show ?thesis using ok by (simp add: take_fresh_fatal_def split: option.split)
qed

lemma table_ok_publish: "table_ok t \<Longrightarrow> table_ok (publish_mark pid st t)"
  by (auto simp: publish_mark_def table_ok_mark_stopped table_ok_mark_running
      split: deferred_job_state.split)

lemma table_ok_publish_all:
  "table_ok t \<Longrightarrow> table_ok (foldl (\<lambda>t (pid, st, _). publish_mark pid st t) t ms)"
  by (induction ms arbitrary: t) (auto simp: table_ok_publish)

lemma table_ok_apply_deferred: "table_ok t \<Longrightarrow> table_ok (apply_deferred_state_marks ev hold clock t)"
proof -
  assume ok: "table_ok t"
  have "table_ok (t\<lparr>deferred_state_marks := filter P (deferred_state_marks t),
      fresh_fatal_marks := fresh_fatal_marks t\<rparr>)" for P
    using ok marks_okD [OF table_okD(3) [OF ok]]
    by (intro table_ok_marks_update [of t]) (auto simp: distinct_map_fst_filter)
  then show ?thesis
    unfolding apply_deferred_state_marks_def Let_def by (intro table_ok_publish_all) simp
qed

lemma table_ok_wait_pid: "table_ok t \<Longrightarrow> table_ok (snd (wait_pid pid t))"
proof -
  assume ok: "table_ok t"
  then have "table_ok (t\<lparr>completed_statuses := bt_remove pid (completed_statuses t)\<rparr>)"
    by (intro table_ok_completed_statuses) (auto simp: table_ok_def marks_ok_def bt_wf_remove)
  then show ?thesis by (simp add: wait_pid_def Let_def split: option.split)
qed

lemma table_ok_wait_any: "table_ok t \<Longrightarrow> table_ok (snd (wait_any pick t))"
proof -
  assume ok: "table_ok t"
  then have "table_ok (t\<lparr>completed_statuses := bt_remove pid (completed_statuses t)\<rparr>)" for pid
    by (intro table_ok_completed_statuses) (auto simp: table_ok_def marks_ok_def bt_wf_remove)
  then show ?thesis using ok by (simp add: wait_any_def Let_def split: option.split list.split)
qed

lemma table_ok_reap_finished: "table_ok t \<Longrightarrow> table_ok (reap_finished sts t)"
  unfolding reap_finished_def by (induction sts arbitrary: t) (auto simp: table_ok_mark_completed)

end
