(* ===== verification/JobsMachine.thy ===== *)
theory JobsMachine
  imports JobsCorrect
begin

section \<open>The job table as a state machine, and what its users rely on\<close>

text \<open>
  One rule of \<open>job_step\<close> per public operation of \<open>JobTable\<close>; \<open>machine_invariant\<close> is interpreted on
  it, so every reachable table is well-formed.  The properties below are about reachable or
  well-formed tables: numbering, job completion, name specifications, cleanup, waiting, and the two
  notification windows (deferred stop/continue marks and fresh fatal signals).
\<close>

subsection \<open>The step relation\<close>

text \<open>
  A registration needs a process and a free id (the id saturates at \<open>JobId::MAX\<close>); \<open>fg\<close> makes an
  existing job current.
\<close>

inductive job_step :: "job_table \<Rightarrow> job_table \<Rightarrow> bool" where
  step_register: "pids \<noteq> [] \<Longrightarrow> last_job_id (cleanup_dead_jobs t) \<noteq> Some (- 1) \<Longrightarrow>
     job_step t (snd (register_pipeline_stages pids command background pgrp stages t))"
| step_set_current: "bt_get (jobs t) jid \<noteq> None \<Longrightarrow> job_step t (set_current_job jid t)"
| step_reset_current: "job_step t (reset_current t)"
| step_mark_completed: "job_step t (mark_completed pid status t)"
| step_mark_stopped: "job_step t (mark_stopped pid sig t)"
| step_mark_running: "job_step t (mark_running pid t)"
| step_note_term_signal: "job_step t (note_term_signal pid s t)"
| step_set_job_control: "job_step t (set_job_control pid b t)"
| step_note_reader_command: "job_step t (note_reader_command t)"
| step_defer_state_mark: "job_step t (defer_state_mark pid st now t)"
| step_note_fatal_signal: "job_step t (note_fatal_signal pid t)"
| step_take_fresh_fatal: "job_step t (snd (take_fresh_fatal pid t))"
| step_apply_deferred: "job_step t (apply_deferred_state_marks ev hold now t)"
| step_cleanup: "job_step t (cleanup_dead_jobs t)"
| step_mark_notified: "job_step t (mark_job_notified_by_pid pid t)"
| step_settle: "job_step t (settle_bare_wait last_async force t)"
| step_clear_statuses: "job_step t (clear_completed_statuses t)"
| step_reap_dead: "job_step t (reap_dead_jobs last_async t)"
| step_reap_finished: "job_step t (reap_finished statuses t)"
| step_wait_pid: "job_step t (snd (wait_pid pid t))"
| step_wait_any: "job_step t (snd (wait_any pick t))"
| step_wait_all: "job_step t (snd (wait_all t))"
| step_remove_job: "job_step t (snd (remove_job jid t))"
| step_remove_by_pid: "job_step t (snd (remove_job_by_pid pid t))"
| step_remove_preserve: "job_step t (snd (remove_job_by_pid_preserve_status pid t))"
| step_clear_jobs: "job_step t (clear_jobs t)"
| step_clear_for_subshell: "job_step t (clear_for_subshell t)"
| step_clear_markers: "job_step t (clear_current_markers t)"
| step_attach: "job_step t (attach_coproc_endpoint jid fd t)"
| step_take_endpoint: "job_step t (snd (take_coproc_endpoint jid fd t))"

inductive_cases job_stepE: "job_step t t'"

lemmas table_ok_ops =
  table_ok_register table_ok_set_current table_ok_reset table_ok_mark_completed
  table_ok_mark_stopped table_ok_mark_running table_ok_note_term_signal table_ok_set_job_control
  table_ok_note_reader table_ok_defer table_ok_note_fatal table_ok_take_fatal
  table_ok_apply_deferred table_ok_cleanup table_ok_mark_job_notified table_ok_settle
  table_ok_reap_dead table_ok_reap_finished table_ok_wait_pid table_ok_wait_any
  table_ok_remove_job table_ok_remove_job_by_pid table_ok_preserve_status table_ok_clear
  table_ok_clear_markers table_ok_attach table_ok_take_endpoint

lemma table_ok_wait_all: "table_ok t \<Longrightarrow> table_ok (snd (wait_all t))"
  by (simp add: wait_all_def table_ok_completed_statuses)

lemma table_ok_default: "table_ok job_table_default"
  by (simp add: table_ok_def index_ok_def markers_ok_def marks_ok_def job_table_default_def)

lemma table_ok_step: "table_ok t \<Longrightarrow> job_step t t' \<Longrightarrow> table_ok t'"
  by (erule job_stepE)
    (simp_all add: table_ok_ops table_okD table_ok_wait_all table_ok_completed_statuses
      clear_completed_statuses_def clear_for_subshell_def table_ok_procsub)

interpretation jobs: machine_invariant "\<lambda>t. t = job_table_default" job_step table_ok
  by unfold_locales (auto simp: table_ok_default intro: table_ok_step)

abbreviation job_reachable :: "job_table \<Rightarrow> bool" where
  "job_reachable \<equiv> reach (\<lambda>t. t = job_table_default) job_step"

text \<open>Two jobs, the second of them a two-stage pipeline.\<close>

definition one_job :: job_table where
  "one_job = snd (register_pipeline_stages [10] ''vi'' True 10 [''vi''] job_table_default)"

definition two_jobs :: job_table where
  "two_jobs = snd (register_pipeline_stages [20, 21] ''sleep 50 | sleep 51'' True 20
     [''sleep 50'', ''sleep 51''] one_job)"

lemma default_reachable: "job_reachable job_table_default"
  by (rule reach_init) (rule refl)

lemma one_job_reachable: "job_reachable one_job"
  unfolding one_job_def
  by (rule reach_step [OF default_reachable], rule step_register, simp, code_simp)

lemma two_jobs_reachable: "job_reachable two_jobs"
  unfolding two_jobs_def
  by (rule reach_step [OF one_job_reachable], rule step_register, simp, code_simp)

definition done_jobs :: job_table where
  "done_jobs = mark_completed 21 7 (mark_completed 20 0 two_jobs)"

lemma done_jobs_reachable: "job_reachable done_jobs"
  unfolding done_jobs_def
  by (rule reach_step [OF reach_step [OF two_jobs_reachable]]) (rule step_mark_completed)+

lemma two_jobs_ok: "table_ok two_jobs"
  by (rule jobs.reach_inv [OF two_jobs_reachable])

subsection \<open>Reachable tables\<close>

text \<open>
  C1. Every table reachable from the default one by the public operations is well-formed: the pid
  index points at live jobs that contain the pid, the markers \<open>%+\<close> and \<open>%-\<close> are both set on live
  jobs or both unset, and there is at most one pending mark per pid.
\<close>

theorem job_table_invariant:
  assumes "job_reachable t"
  shows "table_ok t"
  using assms by (rule jobs.reach_inv)

theorem job_table_invariant_witness: "table_ok (snd (wait_all (mark_completed 21 7 two_jobs)))"
  by (rule job_table_invariant, rule reach_step [OF reach_step [OF two_jobs_reachable]],
      rule step_mark_completed, rule step_wait_all)

text \<open>
  In a reachable table the state of a job is derived from its processes: it is completed exactly
  when every process of it is, running exactly when some process is, and its exit status and
  terminating signal are those of the last process of the pipeline.
\<close>

theorem job_state_derived:
  assumes "job_reachable t" and "bt_get (jobs t) jid = Some e"
  shows "(je_state e = Completed \<longleftrightarrow>
           (\<forall>pid \<in> set (je_pids e). \<exists>p. bt_get (je_processes e) pid = Some p \<and> pe_state p = Completed))
    \<and> (je_state e = Running \<longleftrightarrow>
           (\<exists>pid \<in> set (je_pids e). \<exists>p. bt_get (je_processes e) pid = Some p \<and> pe_state p = Running))
    \<and> (\<exists>p. bt_get (je_processes e) (last (je_pids e)) = Some p
           \<and> je_exit_status e = pe_exit_status p \<and> je_term_signal e = pe_term_signal p)"
proof (intro conjI)
  have ok: "job_ok jid e"
    using index_ok_job [OF table_okD(1) [OF jobs.reach_inv [OF assms(1)]] assms(2)] .
  then have dom: "pid \<in> set (je_pids e) \<longleftrightarrow> (\<exists>p. bt_get (je_processes e) pid = Some p)" for pid
    unfolding job_ok_def set_bt_keys by auto
  have vals: "p \<in> set (bt_values (je_processes e)) \<longleftrightarrow> (\<exists>pid. bt_get (je_processes e) pid = Some p)" for p
    using ok by (simp add: job_ok_def bt_values_iff)
  have st: "je_state e = derived_state (je_processes e)"
    and last: "je_exit_status e = (case last_process e of None \<Rightarrow> None | Some p \<Rightarrow> pe_exit_status p)"
      "je_term_signal e = (case last_process e of None \<Rightarrow> None | Some p \<Rightarrow> pe_term_signal p)"
    using ok unfolding job_ok_def recompute_entry_fix by auto
  show "je_state e = Running \<longleftrightarrow>
           (\<exists>pid \<in> set (je_pids e). \<exists>p. bt_get (je_processes e) pid = Some p \<and> pe_state p = Running)"
    unfolding st derived_state_def list_ex_iff Bex_def vals dom by auto
  show "je_state e = Completed \<longleftrightarrow>
           (\<forall>pid \<in> set (je_pids e). \<exists>p. bt_get (je_processes e) pid = Some p \<and> pe_state p = Completed)"
    unfolding st derived_state_def list_ex_iff Bex_def Ball_def vals dom
    by (auto, (metis process_state.exhaust option.inject)+)
  have "last_process e = bt_get (je_processes e) (last (je_pids e))"
    using ok unfolding job_ok_def last_process_def by (cases "je_pids e" rule: rev_cases) auto
  moreover have "\<exists>p. bt_get (je_processes e) (last (je_pids e)) = Some p"
    using ok dom [of "last (je_pids e)"] by (simp add: job_ok_def)
  ultimately show "\<exists>p. bt_get (je_processes e) (last (je_pids e)) = Some p
           \<and> je_exit_status e = pe_exit_status p \<and> je_term_signal e = pe_term_signal p"
    using last by auto
qed

theorem job_state_derived_witness:
  "case bt_get (jobs done_jobs) 2 of None \<Rightarrow> False
   | Some e \<Rightarrow> je_state e = Completed \<and> je_exit_status e = Some 7 \<and>
       (\<exists>p. bt_get (je_processes e) (last (je_pids e)) = Some p \<and> je_exit_status e = pe_exit_status p)"
proof (cases "bt_get (jobs done_jobs) 2")
  case None
  moreover have "bt_get (jobs done_jobs) 2 \<noteq> None" by code_simp
  ultimately show ?thesis by simp
next
  case (Some e)
  have "case bt_get (jobs done_jobs) 2 of None \<Rightarrow> False
    | Some e \<Rightarrow> je_state e = Completed \<and> je_exit_status e = Some 7" by code_simp
  then show ?thesis using job_state_derived [OF done_jobs_reachable Some] Some by auto
qed

subsection \<open>Numbering and the markers\<close>

lemma set_current_job_keeps:
  assumes wf: "bt_wf (jobs t)" and live: "bt_get (jobs t) jid \<noteq> None"
  shows "jobs (set_current_job jid t) = jobs t" "pid_to_job (set_current_job jid t) = pid_to_job t"
    "completed_statuses (set_current_job jid t) = completed_statuses t"
    "current_job (set_current_job jid t) = Some jid"
  using set_current_job_shape [OF wf live] by auto

lemma reset_current_keeps:
  assumes wf: "bt_wf (jobs t)"
  shows "jobs (reset_current t) = jobs t" "pid_to_job (reset_current t) = pid_to_job t"
    "completed_statuses (reset_current t) = completed_statuses t"
  using reset_current_shape [OF wf] by auto

lemma table_ok_wf: "table_ok t \<Longrightarrow> bt_wf (jobs t)" "table_ok t \<Longrightarrow> bt_wf (pid_to_job t)"
  "table_ok t \<Longrightarrow> bt_wf (completed_statuses t)"
  by (auto simp: table_ok_def marks_ok_def dest: index_ok_wf)

text \<open>
  Registering a pipeline first collects the dead notified jobs, then gives the new job an id
  above every job left, so no live job is overwritten; the new job is recorded with its processes
  running, becomes the current job (\<open>%+\<close>), and each of its pids leads to it.
\<close>

theorem register_fresh_id:
  assumes "table_ok t" and "pids \<noteq> []" and "last_job_id (cleanup_dead_jobs t) \<noteq> Some (- 1)"
    and "register_pipeline_stages pids command background pgrp stages t = (jid, t')"
  shows "(\<forall>k. bt_get (jobs (cleanup_dead_jobs t)) k \<noteq> None \<longrightarrow> k < jid)
    \<and> bt_get (jobs t') jid = Some (new_job jid pids command background pgrp stages)
    \<and> (\<forall>k. k \<noteq> jid \<longrightarrow> bt_get (jobs t') k = bt_get (jobs (cleanup_dead_jobs t)) k)
    \<and> (\<forall>pid \<in> set pids. job_id_for_pid t' pid = Some jid)
    \<and> current_job t' = Some jid \<and> resolve_jobspec t' ''%+'' = Job jid"
proof -
  let ?c = "cleanup_dead_jobs t" and ?j = "next_job_id (cleanup_dead_jobs t)"
  let ?t1 = "?c\<lparr>pid_to_job := foldl (\<lambda>m pid. bt_insert pid ?j m) (pid_to_job ?c) pids,
    jobs := bt_insert ?j (new_job ?j pids command background pgrp stages) (jobs ?c)\<rparr>"
  have ok: "table_ok ?c" using assms(1) by (rule table_ok_cleanup)
  have jid: "jid = ?j" and t': "t' = set_current_job ?j ?t1"
    using assms(4) by (auto simp: register_pipeline_stages_def Let_def)
  have "bt_wf (jobs ?t1)" "bt_get (jobs ?t1) ?j \<noteq> None"
    using table_ok_wf [OF ok] by (simp_all add: bt_wf_insert bt_get_insert)
  note keep = set_current_job_keeps [OF this, folded t']
  have "resolve_jobspec t' ''%+'' = job_or_none (current_job t')"
    unfolding resolve_jobspec_def by (simp add: strip_percent_def is_ascii_digit_def keep)
  then show ?thesis
    unfolding jid job_id_for_pid_def keep
    using next_job_id_fresh(2) [OF table_ok_wf(1) [OF ok] assms(3)] table_ok_wf [OF ok]
    by (simp add: bt_get_insert bt.get_put_all job_or_none_def)
qed

theorem register_fresh_id_witness:
  "job_id_for_pid (snd (register_pipeline_stages [30, 31] ''a | b'' True 30 [''a'', ''b''] done_jobs)) 31 = Some 3
   \<and> current_job (snd (register_pipeline_stages [30, 31] ''a | b'' True 30 [''a'', ''b''] done_jobs)) = Some 3"
proof -
  let ?r = "register_pipeline_stages [30, 31] ''a | b'' True 30 [''a'', ''b''] done_jobs"
  have "last_job_id (cleanup_dead_jobs done_jobs) \<noteq> Some (- 1)" by code_simp
  moreover have "fst ?r = 3" by code_simp
  then have "?r = (3, snd ?r)" by (metis prod.collapse)
  ultimately show ?thesis
    using register_fresh_id [OF jobs.reach_inv [OF done_jobs_reachable], of "[30, 31]" "''a | b''" True 30
        "[''a'', ''b'']" 3 "snd ?r"] by simp
qed

subsection \<open>Job specifications\<close>

definition matching_jobs :: "job_table \<Rightarrow> string \<Rightarrow> bool \<Rightarrow> (job_id \<times> job_entry) list" where
  "matching_jobs t name substring =
     filter (\<lambda>(_, e). list_ex (stage_matches substring name) (je_stage_commands e)) (jobs t)"

lemma position_list_ex: "position m xs = None \<longleftrightarrow> \<not> list_ex m xs"
  by (simp add: position_None list_ex_iff)

lemma scan_some:
  "scan_jobs_by_name m (Some j) js =
     (if filter (\<lambda>(_, e). list_ex m (je_stage_commands e)) js = [] then Job j else Ambiguous)"
  by (induction js) (auto simp: position_list_ex split: option.split)

lemma scan_none:
  "scan_jobs_by_name m None js =
     (case filter (\<lambda>(_, e). list_ex m (je_stage_commands e)) js of
        [] \<Rightarrow> NoMatch
      | [(jid, e)] \<Rightarrow> if position m (je_stage_commands e) = Some 0 then Job jid else Ambiguous
      | _ # _ # _ \<Rightarrow> Ambiguous)"
proof (induction js)
  case (Cons a js)
  obtain jid e where a: "a = (jid, e)" by (cases a)
  show ?case
    using Cons unfolding a
    by (cases "position m (je_stage_commands e)")
      (auto simp: scan_some position_list_ex [symmetric] split: list.split)
qed simp

lemma position_zero: "list_ex m xs \<Longrightarrow> position m xs = Some 0 \<longleftrightarrow> m (hd xs)"
  by (cases xs) (auto simp: split: option.split)

lemma length_ge_2E:
  assumes "2 \<le> length xs" obtains a b ys where "xs = a # b # ys"
  using assms by (cases xs; cases "tl xs") auto

lemma list_cases_2:
  obtains "xs = []" | a b where "xs = [(a, b)]" | "2 \<le> length xs"
  by (cases xs; cases "tl xs") auto

lemma scan_jobs_in: "scan_jobs_by_name m j js = Job k \<Longrightarrow> j = Some k \<or> k \<in> fst ` set js"
  by (induction m j js rule: scan_jobs_by_name.induct) (auto split: option.splits if_splits)

text \<open>
  A name specification (\<open>%name\<close> by prefix, \<open>%?name\<close> by substring in any case) resolves to a job
  exactly when that job is the only one with a matching stage and its first stage matches; no
  matching job is \<open>NoMatch\<close>, everything else is \<open>Ambiguous\<close> (a single job that matches only on
  a later stage is ambiguous with itself).
\<close>

theorem job_by_name_count:
  "get_job_by_name t name substring =
     (case matching_jobs t name substring of
        [] \<Rightarrow> NoMatch
      | [(jid, e)] \<Rightarrow> if stage_matches substring name (hd (je_stage_commands e)) then Job jid else Ambiguous
      | _ # _ # _ \<Rightarrow> Ambiguous)"
proof -
  have sets: "list_ex (stage_matches substring name) (je_stage_commands e)"
    if "matching_jobs t name substring = [(jid, e)]" for jid e
  proof -
    have "(jid, e) \<in> set (matching_jobs t name substring)" using that by simp
    then show ?thesis by (simp add: matching_jobs_def)
  qed
  have eq: "get_job_by_name t name substring = (case rev (matching_jobs t name substring) of
        [] \<Rightarrow> NoMatch
      | [(jid, e)] \<Rightarrow> if position (stage_matches substring name) (je_stage_commands e) = Some 0
                       then Job jid else Ambiguous
      | _ # _ # _ \<Rightarrow> Ambiguous)"
    unfolding get_job_by_name_def scan_none matching_jobs_def rev_filter ..
  consider "matching_jobs t name substring = []"
    | jid e where "matching_jobs t name substring = [(jid, e)]"
    | "2 \<le> length (matching_jobs t name substring)"
    by (rule list_cases_2)
  then show ?thesis
  proof cases
    case 1
    then show ?thesis by (simp add: eq)
  next
    case 2
    then show ?thesis by (simp add: eq position_zero [OF sets [OF 2]])
  next
    case 3
    then have "2 \<le> length (rev (matching_jobs t name substring))" by simp
    with 3 show ?thesis unfolding eq by (elim length_ge_2E) (simp del: rev_is_Nil_conv)
  qed
qed

text \<open>
  A numeric specification is a slot index at the width of a job id: the decimal print of an id
  resolves to that job when it is live and to \<open>NoMatch\<close> otherwise, and no specification of any shape
  resolves to a job that is not in a reachable table.
\<close>

theorem jobspec_number:
  assumes "job_reachable t"
  shows "resolve_jobspec t (CHR ''%'' # nat_digits (unat jid)) =
           (if bt_get (jobs t) jid \<noteq> None then Job jid else NoMatch)
         \<and> (resolve_jobspec t spec = Job k \<longrightarrow> bt_get (jobs t) k \<noteq> None)"
proof
  show "resolve_jobspec t (CHR ''%'' # nat_digits (unat jid)) =
      (if bt_get (jobs t) jid \<noteq> None then Job jid else NoMatch)"
    using unsigned_less [where w = jid and 'a = nat]
    by (auto simp: resolve_jobspec_def strip_percent_def parse_job_id_def)
  have ok: "table_ok t" using assms by (rule jobs.reach_inv)
  have live: "bt_get (jobs t) k \<noteq> None" if "k \<in> fst ` set (jobs t)" for k
    using that bt_get_Some_iff [OF table_ok_wf(1) [OF ok]] by force
  have name: "bt_get (jobs t) k \<noteq> None" if "get_job_by_name t name sub = Job k" for name sub
    using scan_jobs_in [OF that [unfolded get_job_by_name_def]] live by simp
  have last: "bt_get (jobs t) k \<noteq> None" if "last_job_id t = Some k"
  proof -
    have "k \<in> set (rev (bt_keys (jobs t)))"
      using that unfolding last_job_id_def by (cases "rev (bt_keys (jobs t))") simp_all
    then show ?thesis using live by (simp add: bt_keys_def)
  qed
  show "resolve_jobspec t spec = Job k \<longrightarrow> bt_get (jobs t) k \<noteq> None"
    using name last table_okD(2) [OF ok]
    unfolding resolve_jobspec_def Let_def job_or_none_def markers_ok_def
    by (auto split: if_splits option.splits)
qed

theorem jobspec_number_witness:
  "resolve_jobspec two_jobs (CHR ''%'' # nat_digits (unat (2 :: job_id))) = Job 2
   \<and> resolve_jobspec two_jobs (CHR ''%'' # nat_digits (unat (9 :: job_id))) = NoMatch"
proof -
  have "bt_get (jobs two_jobs) 2 \<noteq> None" "bt_get (jobs two_jobs) 9 = None" by code_simp+
  then show ?thesis
    using jobspec_number [OF two_jobs_reachable, of 2] jobspec_number [OF two_jobs_reachable, of 9]
    by simp
qed

subsection \<open>Cleaning up\<close>

lemma drop_jobs_wf: "bt_wf (jobs t) \<Longrightarrow> bt_wf (jobs (foldl (\<lambda>t jid. drop_job_entry jid t) t ids))"
  by (induction ids arbitrary: t) (auto simp: drop_job_entry_def bt_wf_remove split: option.split)

text \<open>
  Cleaning up removes exactly the completed jobs the user has been told about, whatever else
  is in the table; every other job is untouched, the saved exit statuses all survive, and the markers
  stay when neither of them named a removed job.
\<close>

theorem cleanup_exact:
  assumes "table_ok t"
  shows "bt_get (jobs (cleanup_dead_jobs t)) jid =
           (case bt_get (jobs t) jid of None \<Rightarrow> None | Some e \<Rightarrow> if dead_notified e then None else Some e)
    \<and> completed_statuses (cleanup_dead_jobs t) = completed_statuses t
    \<and> ((\<forall>k e. bt_get (jobs t) k = Some e \<and> dead_notified e \<longrightarrow>
           current_job t \<noteq> Some k \<and> previous_job t \<noteq> Some k) \<longrightarrow>
         current_job (cleanup_dead_jobs t) = current_job t
         \<and> previous_job (cleanup_dead_jobs t) = previous_job t)"
proof -
  let ?dead = "map fst (filter (\<lambda>(_, job). dead_notified job) (jobs t))"
  let ?t' = "foldl (\<lambda>t jid. drop_job_entry jid t) t ?dead"
  have wf: "bt_wf (jobs t)" using table_ok_wf(1) [OF assms] .
  have dead: "k \<in> set ?dead \<longleftrightarrow> (\<exists>e. bt_get (jobs t) k = Some e \<and> dead_notified e)" for k
    using bt_get_Some_iff [OF wf] by (force simp: image_iff)
  note keeps = reset_current_keeps [OF drop_jobs_wf [OF wf]]
  have jobs_eq: "jobs (cleanup_dead_jobs t) = jobs ?t'"
    and statuses: "completed_statuses (cleanup_dead_jobs t) = completed_statuses t"
    by (simp_all add: cleanup_dead_jobs_def Let_def keeps)
  have "bt_get (jobs (cleanup_dead_jobs t)) jid =
           (case bt_get (jobs t) jid of None \<Rightarrow> None | Some e \<Rightarrow> if dead_notified e then None else Some e)"
    unfolding jobs_eq jobs_drop_jobs dead by (auto split: option.split)
  moreover have "cleanup_dead_jobs t = ?t'"
    if "\<forall>k e. bt_get (jobs t) k = Some e \<and> dead_notified e \<longrightarrow>
           current_job t \<noteq> Some k \<and> previous_job t \<noteq> Some k"
  proof -
    have "\<not> list_ex (\<lambda>jid. Some jid = current_job t \<or> Some jid = previous_job t) ?dead"
      unfolding list_ex_iff Bex_def dead using that by auto
    then show ?thesis by (simp only: cleanup_dead_jobs_def Let_def if_False)
  qed
  ultimately show ?thesis using statuses by auto
qed

definition notified_jobs :: job_table where
  "notified_jobs = mark_job_notified_by_pid 21 done_jobs"

lemma notified_jobs_reachable: "job_reachable notified_jobs"
  unfolding notified_jobs_def by (rule reach_step [OF done_jobs_reachable]) (rule step_mark_notified)

theorem cleanup_exact_witness:
  "bt_get (jobs (cleanup_dead_jobs notified_jobs)) 2 = None
   \<and> bt_get (completed_statuses (cleanup_dead_jobs notified_jobs)) 21 = Some 7"
proof -
  have "case bt_get (jobs notified_jobs) 2 of None \<Rightarrow> False | Some e \<Rightarrow> dead_notified e" by code_simp
  moreover have "bt_get (completed_statuses notified_jobs) 21 = Some 7" by code_simp
  ultimately show ?thesis
    using cleanup_exact [OF jobs.reach_inv [OF notified_jobs_reachable], of 2]
    by (auto split: option.splits)
qed

subsection \<open>Waiting\<close>

lemma completed_statuses_mark_completed [simp]:
  "completed_statuses (mark_completed pid st t) = bt_insert pid st (completed_statuses t)"
  by (simp add: mark_completed_def recompute_job_def Let_def split: option.split)

lemma completed_statuses_reap:
  "completed_statuses (reap_finished sts t)
     = foldl (\<lambda>m (pid, st). bt_insert pid st m) (completed_statuses t) sts"
  unfolding reap_finished_def by (induction sts arbitrary: t) auto



subsection \<open>Deferred stop and continue marks\<close>

text \<open>The recorded state of a process, as \<open>wait\<close> and \<open>jobs\<close> find it through the pid index.\<close>

definition process_of :: "job_table \<Rightarrow> u32 \<Rightarrow> process_entry option" where
  "process_of t pid = (case job_of_pid t pid of None \<Rightarrow> None | Some job \<Rightarrow> bt_get (je_processes job) pid)"

definition state_of_mark :: "deferred_job_state \<Rightarrow> process_state" where
  "state_of_mark st = (case st of Deferred_Stopped _ \<Rightarrow> Stopped | Deferred_Running \<Rightarrow> Running)"

lemma set_current_job_wf_keeps:
  "table_ok t \<Longrightarrow> bt_get (jobs t) jid \<noteq> None \<Longrightarrow>
     jobs (set_current_job jid t) = jobs t \<and> pid_to_job (set_current_job jid t) = pid_to_job t
     \<and> deferred_state_marks (set_current_job jid t) = deferred_state_marks t"
  using set_current_job_shape table_ok_wf by fastforce

lemma process_of_cong:
  "jobs t' = jobs t \<Longrightarrow> pid_to_job t' = pid_to_job t \<Longrightarrow> process_of t' = process_of t"
  by (rule ext) (simp add: process_of_def job_of_pid_def split: option.split)

lemma process_of_marks [simp]: "process_of (t\<lparr>deferred_state_marks := ms\<rparr>) = process_of t"
  by (rule process_of_cong) simp_all

lemma publish_mark_process:
  assumes ok: "table_ok t"
  shows "process_of (publish_mark q st t) pid =
      (if pid = q then map_option (\<lambda>p. p\<lparr>pe_state := state_of_mark st\<rparr>) (process_of t pid)
       else process_of t pid)
    \<and> deferred_state_marks (publish_mark q st t) = deferred_state_marks t"
proof (cases "bt_get (pid_to_job t) q")
  case None
  then show ?thesis
    by (cases st) (auto simp: publish_mark_def mark_stopped_def mark_running_def process_of_def job_of_pid_def)
next
  case (Some jid)
  define g :: "job_entry \<Rightarrow> job_entry" where "g = (case st of
      Deferred_Stopped s \<Rightarrow> (\<lambda>job. job\<lparr>je_processes := bt_modify q (\<lambda>p. p\<lparr>pe_state := Stopped\<rparr>) (je_processes job),
                                 je_stop_signal := s, je_notified := False\<rparr>)
    | Deferred_Running \<Rightarrow> (\<lambda>job. job\<lparr>je_processes := bt_modify q (\<lambda>p. p\<lparr>pe_state := Running\<rparr>) (je_processes job),
                                 je_stop_signal := None\<rparr>))"
  let ?t = "recompute_job jid (t\<lparr>jobs := bt_modify jid g (jobs t)\<rparr>)"
  have procs: "je_processes (g job) = bt_modify q (\<lambda>p. p\<lparr>pe_state := state_of_mark st\<rparr>) (je_processes job)" for job
    by (simp add: g_def state_of_mark_def split: deferred_job_state.split)
  have ids: "je_id (g e) = je_id e \<and> je_pids (g e) = je_pids e \<and> je_stage_commands (g e) = je_stage_commands e" for e
    by (simp add: g_def split: deferred_job_state.split)
  have ok': "table_ok ?t"
    by (rule table_ok_update_process [OF ok Some]) (simp add: procs ids)
  have live: "bt_get (jobs ?t) jid \<noteq> None"
    using pid_job_live [OF ok Some] by (auto simp: recompute_job_def)
  have "jobs (publish_mark q st t) = jobs ?t \<and> pid_to_job (publish_mark q st t) = pid_to_job ?t
      \<and> deferred_state_marks (publish_mark q st t) = deferred_state_marks ?t"
    using set_current_job_wf_keeps [OF ok' live] Some
    by (cases st) (auto simp: publish_mark_def mark_stopped_def mark_running_def g_def)
  then show ?thesis
    using Some
    by (auto simp: process_of_def job_of_pid_def recompute_job_def procs option.map_comp o_def
        split: option.split)
qed

lemma publish_all_process:
  assumes "table_ok t" and "distinct (map fst ms)"
  shows "process_of (foldl (\<lambda>t (q, st, _). publish_mark q st t) t ms) pid =
      (case map_of ms pid of None \<Rightarrow> process_of t pid
       | Some (st, _) \<Rightarrow> map_option (\<lambda>p. p\<lparr>pe_state := state_of_mark st\<rparr>) (process_of t pid))
    \<and> deferred_state_marks (foldl (\<lambda>t (q, st, _). publish_mark q st t) t ms) = deferred_state_marks t"
  using assms
proof (induction ms arbitrary: t)
  case (Cons m ms)
  obtain q st x where m: "m = (q, st, x)" by (cases m)
  have fresh: "map_of ms q = None" using Cons.prems(2) by (auto simp: m map_of_eq_None_iff)
  have "table_ok (publish_mark q st t)" using Cons.prems(1) by (rule table_ok_publish)
  from Cons.IH [OF this] Cons.prems(2) show ?case
    using fresh by (auto simp: m publish_mark_process [OF Cons.prems(1)] split: option.split)
qed simp

text \<open>
  A stop or continue the shell sent itself is learnt at the next observation event, and only
  then: a newer signal to the same pid replaces the pending one; before the event the recorded
  process is as it was; the event (without the wait's hold) publishes to the process the last signal
  sent and leaves no mark pending.
\<close>

theorem deferred_mark_published:
  assumes "table_ok t"
  shows "process_of (defer_state_mark pid st now t) pid = process_of t pid
    \<and> process_of (apply_deferred_state_marks True False clock
          (defer_state_mark pid st now (defer_state_mark pid st' now' t))) pid
        = map_option (\<lambda>p. p\<lparr>pe_state := state_of_mark st\<rparr>) (process_of t pid)
    \<and> deferred_state_marks (apply_deferred_state_marks True False clock t) = []"
proof -
  let ?t1 = "defer_state_mark pid st' now' t" and ?t2 = "defer_state_mark pid st now (defer_state_mark pid st' now' t)"
  have ok2: "table_ok ?t2" using assms by (intro table_ok_defer)
  have none: "mark_retained t' True False clock = (\<lambda>_. False)" for t'
    by (auto simp: mark_retained_def mark_held_def)
  have ok3: "table_ok (t'\<lparr>deferred_state_marks := []\<rparr>)" if "table_ok t'" for t'
    using table_ok_marks_update [OF that, of "[]" "fresh_fatal_marks t'"] marks_okD(2) [OF table_okD(3) [OF that]]
    by auto
  have eq: "apply_deferred_state_marks True False clock t' =
      foldl (\<lambda>t (q, st, _). publish_mark q st t) (t'\<lparr>deferred_state_marks := []\<rparr>) (deferred_state_marks t')" for t'
    unfolding apply_deferred_state_marks_def Let_def none by simp
  have all: "process_of (apply_deferred_state_marks True False clock t') pid =
      (case map_of (deferred_state_marks t') pid of None \<Rightarrow> process_of t' pid
       | Some (st, _) \<Rightarrow> map_option (\<lambda>p. p\<lparr>pe_state := state_of_mark st\<rparr>) (process_of t' pid))
    \<and> deferred_state_marks (apply_deferred_state_marks True False clock t') = []" if "table_ok t'" for t'
    using publish_all_process [OF ok3 [OF that] marks_okD(1) [OF table_okD(3) [OF that]], of pid]
    unfolding eq process_of_marks by simp
  have "map_of (deferred_state_marks ?t2) pid = Some (st, reader_command_seq t, now)"
    by (auto simp: defer_state_mark_def map_add_def dest!: map_of_SomeD split: option.split)
  moreover have "process_of ?t2 = process_of t" "process_of (defer_state_mark pid st now t) = process_of t"
    by (simp_all add: defer_state_mark_def)
  ultimately show ?thesis
    using all [OF ok2] all [OF assms, THEN conjunct2] by (simp del: process_of_marks)
qed

theorem deferred_mark_published_witness:
  "map_option pe_state (process_of (apply_deferred_state_marks True False 9
      (defer_state_mark 10 Deferred_Running 2 (defer_state_mark 10 (Deferred_Stopped (Some 19)) 1 two_jobs))) 10)
    = Some Running"
proof -
  have "\<exists>p. process_of two_jobs 10 = Some p"
    by (rule exI [of _ "new_process 10"]) code_simp
  then show ?thesis
    using deferred_mark_published [OF two_jobs_ok, of 10 Deferred_Running 2 9 "Deferred_Stopped (Some 19)" 1]
    by (auto simp: state_of_mark_def)
qed

subsection \<open>Fresh fatal signals\<close>

lemma fresh_live_iff:
  "fresh_fatal_live ((note_reader_command ^^ n) t) pid \<longleftrightarrow>
     (\<exists>seq. (pid, seq) \<in> set (fresh_fatal_marks t) \<and> reader_command_seq t + n \<le> seq + 1)"
proof (induction n arbitrary: t)
  case 0
  then show ?case by (force simp: fresh_fatal_live_def list_ex_iff)
next
  case (Suc n)
  show ?case
    unfolding funpow.simps(2) funpow_swap1 comp_apply Suc by (auto simp: note_reader_command_def Let_def)
qed

lemma reader_seq_note_fatal: "reader_command_seq (note_fatal_signal pid t) = reader_command_seq t"
  by (simp add: note_fatal_signal_def)

lemma fresh_mark_in: "distinct (map fst fs) \<Longrightarrow> remove_nth i fs = fs' \<Longrightarrow> i < length fs \<Longrightarrow> fst (fs ! i) \<notin> fst ` set fs'"
proof -
  assume d: "distinct (map fst fs)" and fs': "remove_nth i fs = fs'" and i: "i < length fs"
  have "fs = take i fs @ fs ! i # drop (Suc i) fs" using i by (rule id_take_nth_drop)
  then have "distinct (map fst (take i fs @ fs ! i # drop (Suc i) fs))" using d by simp
  then show ?thesis unfolding fs' [symmetric] remove_nth_def by auto
qed

text \<open>
  The window of a fatal signal the shell sent itself spans the current and the next reader
  command: on a well-formed table, for a pid not yet marked, the mark is live through the first
  command boundary and dead from the second on; the first reap in the window takes it, and a later
  reap of a recycled pid does not find it.
\<close>

theorem fresh_fatal_window:
  assumes "table_ok t" and "pid \<notin> fst ` set (fresh_fatal_marks t)"
  shows "(fresh_fatal_live ((note_reader_command ^^ n) (note_fatal_signal pid t)) pid \<longleftrightarrow> n \<le> 1)
    \<and> fst (take_fresh_fatal pid (note_fatal_signal pid t))
    \<and> \<not> fresh_fatal_live (snd (take_fresh_fatal pid (note_fatal_signal pid t))) pid"
proof -
  let ?t = "note_fatal_signal pid t" and ?live = "\<lambda>(m, seq). m = pid \<and> reader_command_seq t \<le> seq + 1"
  have marks: "fresh_fatal_marks ?t = fresh_fatal_marks t @ [(pid, reader_command_seq t)]"
    and seq: "reader_command_seq ?t = reader_command_seq t"
    using assms(2) by (force simp: note_fatal_signal_def list_ex_iff)+
  have "(pid, s) \<in> set (fresh_fatal_marks ?t) \<longleftrightarrow> s = reader_command_seq t" for s
    using assms(2) unfolding marks by force
  then have window: "fresh_fatal_live ((note_reader_command ^^ n) ?t) pid \<longleftrightarrow> n \<le> 1"
    unfolding fresh_live_iff seq by auto
  have "position ?live (fresh_fatal_marks ?t) \<noteq> None"
    unfolding marks position_None by simp
  then obtain i where i: "position ?live (fresh_fatal_marks ?t) = Some i" by blast
  have d: "distinct (map fst (fresh_fatal_marks ?t))"
    using marks_okD(2) [OF table_okD(3) [OF table_ok_note_fatal [OF assms(1)]]] .
  have "fst (fresh_fatal_marks ?t ! i) = pid" using position_Some [OF i] by auto
  then have "pid \<notin> fst ` set (remove_nth i (fresh_fatal_marks ?t))"
    using fresh_mark_in [OF d refl, of i] position_Some [OF i] by simp
  then have "\<not> fresh_fatal_live (?t\<lparr>fresh_fatal_marks := remove_nth i (fresh_fatal_marks ?t)\<rparr>) pid"
    by (force simp: fresh_fatal_live_def list_ex_iff)
  then show ?thesis using window i by (simp add: take_fresh_fatal_def seq)
qed

theorem fresh_fatal_window_witness:
  "fresh_fatal_live (note_reader_command (note_fatal_signal 10 two_jobs)) 10
   \<and> \<not> fresh_fatal_live (note_reader_command (note_reader_command (note_fatal_signal 10 two_jobs))) 10"
proof -
  have "fresh_fatal_marks two_jobs = []" by code_simp
  then show ?thesis
    using fresh_fatal_window [OF two_jobs_ok, of 10 1] fresh_fatal_window [OF two_jobs_ok, of 10 2]
    by (simp add: numeral_2_eq_2)
qed

text \<open>
  The mark keeps its first stamp: a fatal signal sent again in the following reader command does
  not reopen the window, so one boundary later the mark is dead although the pid was
  signalled in the immediately preceding command.
\<close>

theorem fresh_fatal_not_restamped:
  assumes "table_ok t" and "pid \<notin> fst ` set (fresh_fatal_marks t)"
  shows "\<not> fresh_fatal_live (note_reader_command
      (note_fatal_signal pid (note_reader_command (note_fatal_signal pid t)))) pid"
proof -
  let ?t = "note_reader_command (note_fatal_signal pid t)"
  have "(pid, s) \<in> set (fresh_fatal_marks (note_fatal_signal pid t)) \<longleftrightarrow> s = reader_command_seq t" for s
    using assms(2) by (force simp: note_fatal_signal_def list_ex_iff)
  then have marks: "(pid, s) \<in> set (fresh_fatal_marks ?t) \<longleftrightarrow> s = reader_command_seq t" for s
    by (auto simp: note_reader_command_def Let_def reader_seq_note_fatal)
  then have "list_ex (\<lambda>(marked, _). marked = pid) (fresh_fatal_marks ?t)"
    by (force simp: list_ex_iff)
  then have "note_fatal_signal pid ?t = ?t"
    unfolding note_fatal_signal_def by (simp only: if_True)
  then have "note_reader_command (note_fatal_signal pid ?t) = (note_reader_command ^^ 1) ?t" by simp
  also have "\<not> fresh_fatal_live \<dots> pid"
    unfolding fresh_live_iff marks by (auto simp: note_reader_command_def Let_def reader_seq_note_fatal)
  finally show ?thesis .
qed

theorem fresh_fatal_not_restamped_witness:
  "\<not> fresh_fatal_live (note_reader_command
      (note_fatal_signal 10 (note_reader_command (note_fatal_signal 10 two_jobs)))) 10"
proof -
  have "fresh_fatal_marks two_jobs = []" by code_simp
  then show ?thesis using fresh_fatal_not_restamped [OF two_jobs_ok, of 10] by simp
qed

text \<open>
  A pid recorded for a job can be registered again while that job is still listed (the kernel
  recycles pids).  The index then leads to the new job only, and removing the old one also removes
  that index entry: the new job stays in the table, but a completion of its process changes no job.
\<close>

theorem recycled_pid_loses_index:
  assumes "table_ok t" and "bt_get (jobs t) old = Some e" and "pid \<in> set (je_pids e)"
    and "job_id_for_pid t pid = Some new" and "new \<noteq> old"
  shows "job_id_for_pid (snd (remove_job old t)) pid = None
    \<and> bt_get (jobs (snd (remove_job old t))) new = bt_get (jobs t) new \<and> bt_get (jobs t) new \<noteq> None
    \<and> jobs (mark_completed pid status (snd (remove_job old t))) = jobs (snd (remove_job old t))"
proof -
  let ?t = "t\<lparr>jobs := bt_remove old (jobs t),
    pid_to_job := foldl (\<lambda>m pid. bt_remove pid m) (pid_to_job t) (je_pids e),
    completed_statuses := foldl (\<lambda>m pid. bt_remove pid m) (completed_statuses t) (je_pids e)\<rparr>"
  have wf: "bt_wf (jobs ?t)" using table_ok_wf(1) [OF assms(1)] by (simp add: bt_wf_remove)
  have snd: "snd (remove_job old t) =
      (if Some old = current_job ?t \<or> Some old = previous_job ?t then reset_current ?t else ?t)"
    using assms(2) by (simp add: remove_job_def Let_def)
  have same: "jobs (snd (remove_job old t)) = jobs ?t" "pid_to_job (snd (remove_job old t)) = pid_to_job ?t"
    unfolding snd using reset_current_keeps(1,2) [OF wf] by simp_all
  have none: "bt_get (pid_to_job (snd (remove_job old t))) pid = None"
    using assms(3) table_ok_wf(2) [OF assms(1)] by (simp add: same bt.get_del_all)
  then have "jobs (mark_completed pid status (snd (remove_job old t))) = jobs (snd (remove_job old t))"
    by (simp add: mark_completed_def Let_def)
  moreover have "bt_get (jobs t) new \<noteq> None"
    using pid_job_live [OF assms(1)] assms(4) by (auto simp: job_id_for_pid_def)
  ultimately show ?thesis
    using none assms(5) by (simp add: job_id_for_pid_def same bt_get_remove)
qed

definition recycled :: job_table where
  "recycled = snd (register_process 10 ''new'' True 10 (mark_completed 10 0 one_job))"

lemma recycled_reachable: "job_reachable recycled"
  unfolding recycled_def register_process_def
  by (rule reach_step [OF reach_step [OF one_job_reachable step_mark_completed]],
      rule step_register, simp, code_simp)

theorem recycled_pid_loses_index_witness:
  "jobs (mark_completed 10 5 (snd (remove_job 1 recycled))) = jobs (snd (remove_job 1 recycled))"
proof -
  have "case bt_get (jobs recycled) 1 of None \<Rightarrow> False | Some e \<Rightarrow> 10 \<in> set (je_pids e)"
    and "job_id_for_pid recycled 10 = Some 2" by code_simp+
  then show ?thesis
    using recycled_pid_loses_index [OF jobs.reach_inv [OF recycled_reachable], of 1 _ 10 2 5]
    by (auto split: option.splits)
qed

end
