(* ===== verification/Braces.thy ===== *)
theory Braces
  imports Prelude
begin

section \<open>Brace expansion (\<open>src/src/expand/braces.rs\<close>)\<close>

text \<open>
  A word is its UTF-8 bytes; the scanners are functions of the bytes and an index, as in the code,
  terminating on the bytes left.  An index may run past the end (a skipped escape at the end of the
  word), where the loops stop.  Sequence endpoints are \<open>i64\<close>: parsing is checked, the increments wrap
  (\<open>wrap_i64\<close>) and the lemmas of \<open>BracesCorrect\<close> show that no wrap happens.  \<open>i64::abs\<close> is the release
  build's, which maps the minimum to itself.
\<close>

subsection \<open>Skipping opaque spans\<close>

definition DQUOTE_CARRIER :: bytes where
  "DQUOTE_CARRIER = [CHR 0xEE, CHR 0x8C, CHR 0x82]"

definition SQUOTE_CARRIER :: bytes where
  "SQUOTE_CARRIER = [CHR 0xEE, CHR 0x8C, CHR 0x81]"

definition DATA_DOLLAR_BYTE :: char where
  "DATA_DOLLAR_BYTE = CHR 0x1F"

definition is_dollar_or_carrier :: "char \<Rightarrow> bool" where
  "is_dollar_or_carrier c \<longleftrightarrow> c = CHR ''$'' \<or> c = DATA_DOLLAR_BYTE"

definition data_quote_carrier_at :: "bytes \<Rightarrow> nat \<Rightarrow> bytes option" where
  "data_quote_carrier_at b i =
     (if starts_at b i DQUOTE_CARRIER then Some DQUOTE_CARRIER
      else if starts_at b i SQUOTE_CARRIER then Some SQUOTE_CARRIER else None)"

text \<open>The skippers promise to move forward; the callers' loops terminate because of that.\<close>

locale byte_skipper =
  fixes skip :: "bytes \<Rightarrow> nat \<Rightarrow> nat"
  assumes skip_progress: "i < length b \<Longrightarrow> i < skip b i"
begin

lemma skip_shrinks: "i < length b \<Longrightarrow> length b - skip b i < length b - i"
  using skip_progress [of i b] by simp

end

function skip_carrier_from :: "bytes \<Rightarrow> bytes \<Rightarrow> nat \<Rightarrow> nat" where
  "skip_carrier_from carrier b j =
     (if j + length carrier \<le> length b
      then if starts_at b j carrier then j + length carrier else skip_carrier_from carrier b (j + 1)
      else length b)"
  by pat_completeness auto
termination by (relation "measure (\<lambda>(_, b, j). length b + 1 - j)") auto

definition skip_data_quote_carrier :: "bytes \<Rightarrow> nat \<Rightarrow> bytes \<Rightarrow> nat" where
  "skip_data_quote_carrier b i carrier = skip_carrier_from carrier b (i + length carrier)"

text \<open>
  The search shared by \<open>skip_dollar_brace_body\<close> and \<open>skip_dollar_paren_body\<close>, which differ in the
  bracket only.
\<close>

function skip_nested :: "char \<Rightarrow> char \<Rightarrow> bytes \<Rightarrow> nat \<Rightarrow> nat \<Rightarrow> bool \<Rightarrow> bool \<Rightarrow> nat" where
  "skip_nested opener closer b i depth single double =
     (if i < length b then
        let ch = b ! i in
        if ch = CHR 0x5C \<and> \<not> single then skip_nested opener closer b (i + 2) depth single double
        else if ch = CHR 0x27 \<and> \<not> double
        then skip_nested opener closer b (i + 1) depth (\<not> single) double
        else if ch = CHR 0x22 \<and> \<not> single
        then skip_nested opener closer b (i + 1) depth single (\<not> double)
        else if \<not> single \<and> \<not> double \<and> ch = opener
        then skip_nested opener closer b (i + 1) (depth + 1) single double
        else if \<not> single \<and> \<not> double \<and> ch = closer
        then if depth - 1 = 0 then i + 1
             else skip_nested opener closer b (i + 1) (depth - 1) single double
        else skip_nested opener closer b (i + 1) depth single double
      else length b)"
  by pat_completeness auto
termination by (relation "measure (\<lambda>(_, _, b, i, _). length b - i)") auto

definition skip_dollar_brace_body :: "bytes \<Rightarrow> nat \<Rightarrow> nat" where
  "skip_dollar_brace_body b start = skip_nested (CHR ''{'') (CHR ''}'') b (start + 2) 1 False False"

definition skip_dollar_paren_body :: "bytes \<Rightarrow> nat \<Rightarrow> nat" where
  "skip_dollar_paren_body b start = skip_nested (CHR ''('') (CHR '')'') b (start + 2) 1 False False"

text \<open>The search shared by \<open>skip_backtick_body\<close> and \<open>skip_single_quoted\<close>.\<close>

function skip_until :: "char \<Rightarrow> bytes \<Rightarrow> nat \<Rightarrow> nat" where
  "skip_until closer b i =
     (if i < length b then
        if b ! i = CHR 0x5C then skip_until closer b (i + 2)
        else if b ! i = closer then i + 1
        else skip_until closer b (i + 1)
      else length b)"
  by pat_completeness auto
termination by (relation "measure (\<lambda>(_, b, i). length b - i)") auto

definition skip_backtick_body :: "bytes \<Rightarrow> nat \<Rightarrow> nat" where
  "skip_backtick_body b start = skip_until (CHR 0x60) b (start + 1)"

definition skip_single_quoted :: "bytes \<Rightarrow> nat \<Rightarrow> nat" where
  "skip_single_quoted b start = skip_until (CHR 0x27) b (start + 1)"

text \<open>The inline loops of \<open>find_first_valid_brace\<close> over a quoted string: the index after the quote.\<close>

function quote_end :: "char \<Rightarrow> bytes \<Rightarrow> nat \<Rightarrow> nat" where
  "quote_end q b i =
     (if i < length b \<and> b ! i \<noteq> q
      then quote_end q b (if b ! i = CHR 0x5C then i + 2 else i + 1) else i)"
  by pat_completeness auto
termination by (relation "measure (\<lambda>(_, b, i). length b - i)") auto

definition skip_quoted :: "char \<Rightarrow> bytes \<Rightarrow> nat \<Rightarrow> nat" where
  "skip_quoted q b i = quote_end q b (i + 1) + 1"

declare skip_carrier_from.simps [simp del] skip_nested.simps [simp del] skip_until.simps [simp del]
  quote_end.simps [simp del]

lemma length_carriers [simp]: "length DQUOTE_CARRIER = 3" "length SQUOTE_CARRIER = 3"
  by (simp_all add: DQUOTE_CARRIER_def SQUOTE_CARRIER_def)

lemma data_quote_carrier_length: "data_quote_carrier_at b i = Some c \<Longrightarrow> length c = 3"
  by (auto simp: data_quote_carrier_at_def split: if_splits)

text \<open>Every search ends between its start and the end of the word.\<close>

lemma skip_carrier_from_range:
  "min (length b) j \<le> skip_carrier_from c b j \<and> skip_carrier_from c b j \<le> length b"
proof (induction c b j rule: skip_carrier_from.induct)
  case (1 c b j)
  then show ?case by (subst (1 2) skip_carrier_from.simps) auto
qed

lemma skip_nested_range:
  "min (length b) i \<le> skip_nested opn cls b i depth single double
   \<and> skip_nested opn cls b i depth single double \<le> length b"
proof (induction "length b - i" arbitrary: i depth single double rule: less_induct)
  case less
  show ?case
  proof (cases "i < length b")
    case True
    then have IH: "i' = i + 1 \<or> i' = i + 2 \<Longrightarrow> min (length b) i' \<le> skip_nested opn cls b i' d s s'
        \<and> skip_nested opn cls b i' d s s' \<le> length b" for i' d s s'
      by (intro less) auto
    have "i < skip_nested opn cls b (i + 1) d s s'" "skip_nested opn cls b (i + 1) d s s' \<le> length b"
      "i < skip_nested opn cls b (i + 2) d s s'" "skip_nested opn cls b (i + 2) d s s' \<le> length b" for d s s'
      using IH [of "i + 1" d s s'] IH [of "i + 2" d s s'] True by (auto simp: min_def split: if_splits)
    note step = this this(1,3) [THEN less_imp_le]
    show ?thesis
      unfolding skip_nested.simps [of opn cls b i depth] using True
      by (simp add: Let_def step [simplified])
  qed (simp add: skip_nested.simps)
qed

lemma skip_until_range: "min (length b) i \<le> skip_until c b i \<and> skip_until c b i \<le> length b"
proof (induction c b i rule: skip_until.induct)
  case (1 c b i)
  then show ?case by (subst (1 2) skip_until.simps) (auto simp: min_def split: if_splits)
qed

lemma quote_end_ge: "i \<le> quote_end q b i"
proof (induction q b i rule: quote_end.induct)
  case (1 q b i)
  then show ?case by (subst quote_end.simps) (auto split: if_splits)
qed

lemma past_start: "i < length b \<Longrightarrow> i < k \<Longrightarrow> min (length b) k \<le> r \<Longrightarrow> i < (r :: nat)"
  by (auto simp: min_def split: if_splits)

lemma skip_until_after: "i < length b \<Longrightarrow> i < k \<Longrightarrow> i < skip_until c b k"
  by (rule past_start [OF _ _ skip_until_range [THEN conjunct1]])

lemma skip_nested_after: "i < length b \<Longrightarrow> i < k \<Longrightarrow> i < skip_nested opn cls b k d s s'"
  by (rule past_start [OF _ _ skip_nested_range [THEN conjunct1]])

interpretation backtick: byte_skipper skip_backtick_body
  by unfold_locales (simp add: skip_backtick_body_def skip_until_after)

interpretation single_quoted: byte_skipper "\<lambda>b i. skip_single_quoted b (i + 1)"
  by unfold_locales (simp add: skip_single_quoted_def skip_until_after)

interpretation dollar_brace: byte_skipper skip_dollar_brace_body
  by unfold_locales (simp add: skip_dollar_brace_body_def skip_nested_after)

interpretation dollar_paren: byte_skipper skip_dollar_paren_body
  by unfold_locales (simp add: skip_dollar_paren_body_def skip_nested_after)

interpretation quoted: byte_skipper "skip_quoted q" for q
proof unfold_locales
  show "i < skip_quoted q b i" for i b
    using quote_end_ge [of "i + 1" q b] by (simp add: skip_quoted_def)
qed

lemma skip_data_quote_progress:
  "data_quote_carrier_at b i = Some c \<Longrightarrow> i < length b \<Longrightarrow> i < skip_data_quote_carrier b i c"
  using skip_carrier_from_range [of b "i + 3" c]
  by (auto simp: skip_data_quote_carrier_def data_quote_carrier_length min_def split: if_splits)

subsection \<open>Finding the first group\<close>

definition BRACE_COMMA :: nat where "BRACE_COMMA = 1"
definition BRACE_SEQ :: nat where "BRACE_SEQ = 2"

fun find_dots :: "bytes \<Rightarrow> nat option" where
  "find_dots (a # c # cs) =
     (if a = CHR ''.'' \<and> c = CHR ''.'' then Some 0 else map_option Suc (find_dots (c # cs)))"
| "find_dots _ = None"

text \<open>The test on one endpoint: \<open>lhs_is_int\<close>/\<open>rhs_is_int\<close> and \<open>lhs_is_char\<close>/\<open>rhs_is_char\<close>.\<close>

definition seqterm_is_int :: "bytes \<Rightarrow> bool" where
  "seqterm_is_int s \<longleftrightarrow> (case s of [] \<Rightarrow> False
     | c # cs \<Rightarrow> is_ascii_digit c
         \<or> (c = CHR ''+'' \<or> c = CHR ''-'') \<and> (case cs of [] \<Rightarrow> False | d # _ \<Rightarrow> is_ascii_digit d))"

definition seqterm_is_char :: "bytes \<Rightarrow> bool" where
  "seqterm_is_char s \<longleftrightarrow> length s = 1 \<and> is_ascii_alphabetic (hd s)"

definition valid_seqterm :: "bytes \<Rightarrow> bool" where
  "valid_seqterm amble = (case find_dots amble of
       None \<Rightarrow> False
     | Some pos \<Rightarrow>
         let lhs = take pos amble; rhs = drop (pos + 2) amble
         in if lhs = [] \<or> rhs = [] then False
            else if hd lhs = CHR ''.'' \<or> hd rhs = CHR ''}'' then False
            else if \<not> seqterm_is_int lhs \<and> \<not> seqterm_is_char lhs then False
            else
              let rhs_first = (case find_dots rhs of Some p \<Rightarrow> take p rhs | None \<Rightarrow> rhs)
              in if rhs_first = [] then False
                 else if \<not> seqterm_is_int rhs_first \<and> \<not> seqterm_is_char rhs_first then False
                 else seqterm_is_int lhs = seqterm_is_int rhs_first)"

record brace_scan =
  bs_j :: nat
  bs_depth :: nat
  bs_comma :: bool
  bs_dots :: bool
  bs_escaped :: bool
  bs_single :: bool
  bs_double :: bool

text \<open>
  The inner loop, from just after an opener to its closing brace (where it stops with depth 0): the
  body of one iteration at position \<open>bs_j\<close>, then the loop.
\<close>

definition group_step :: "bytes \<Rightarrow> brace_scan \<Rightarrow> brace_scan" where
  "group_step b st =
     (let j = bs_j st; single = bs_single st; double = bs_double st in
      if bs_escaped st then st\<lparr>bs_j := j + 1, bs_escaped := False\<rparr>
      else if b ! j = CHR 0x27 \<and> \<not> double then st\<lparr>bs_j := j + 1, bs_single := \<not> single\<rparr>
      else if b ! j = CHR 0x22 \<and> \<not> single then st\<lparr>bs_j := j + 1, bs_double := \<not> double\<rparr>
      else (case data_quote_carrier_at b j of
        Some carrier \<Rightarrow>
          (if carrier = DQUOTE_CARRIER \<and> \<not> single
           then st\<lparr>bs_j := j + length carrier, bs_double := \<not> double\<rparr>
           else if carrier = SQUOTE_CARRIER \<and> \<not> double
           then st\<lparr>bs_j := j + length carrier, bs_single := \<not> single\<rparr>
           else st\<lparr>bs_j := j + length carrier\<rparr>)
      | None \<Rightarrow>
          if single \<or> double then st\<lparr>bs_j := j + 1\<rparr>
          else if b ! j = CHR 0x5C then st\<lparr>bs_j := j + 1, bs_escaped := True\<rparr>
          else if is_dollar_or_carrier (b ! j) \<and> j + 1 < length b \<and> b ! (j + 1) = CHR ''{''
          then st\<lparr>bs_j := skip_dollar_brace_body b j\<rparr>
          else if is_dollar_or_carrier (b ! j) \<and> j + 1 < length b \<and> b ! (j + 1) = CHR ''(''
          then st\<lparr>bs_j := skip_dollar_paren_body b j\<rparr>
          else if b ! j = CHR 0x60 then st\<lparr>bs_j := skip_backtick_body b j\<rparr>
          else if b ! j = CHR ''{'' then st\<lparr>bs_j := j + 1, bs_depth := bs_depth st + 1\<rparr>
          else if b ! j = CHR ''}''
          then if bs_depth st - 1 = 0 then st\<lparr>bs_depth := 0\<rparr>
               else st\<lparr>bs_j := j + 1, bs_depth := bs_depth st - 1\<rparr>
          else if b ! j = CHR '','' \<and> bs_depth st = 1 then st\<lparr>bs_j := j + 1, bs_comma := True\<rparr>
          else if b ! j = CHR ''.'' \<and> bs_depth st = 1 \<and> j + 1 < length b \<and> b ! (j + 1) = CHR ''.''
          then st\<lparr>bs_j := j + 1, bs_dots := True\<rparr>
          else st\<lparr>bs_j := j + 1\<rparr>))"

lemma group_step_cases:
  "bs_j st < length b \<Longrightarrow>
     bs_j st < bs_j (group_step b st) \<and> (bs_depth st \<noteq> 0 \<longrightarrow> bs_depth (group_step b st) \<noteq> 0)
     \<or> bs_j (group_step b st) = bs_j st \<and> bs_depth (group_step b st) = 0 \<and> b ! bs_j st = CHR ''}''"
  unfolding group_step_def Let_def
  by (simp add: data_quote_carrier_length dollar_brace.skip_progress dollar_paren.skip_progress
      backtick.skip_progress split: option.split)

definition group_done :: "bytes \<Rightarrow> brace_scan \<Rightarrow> bool" where
  "group_done b st \<longleftrightarrow> \<not> (bs_j st < length b \<and> 0 < bs_depth st)"

function scan_group :: "bytes \<Rightarrow> brace_scan \<Rightarrow> brace_scan" where
  "scan_group b st = (if group_done b st then st else scan_group b (group_step b st))"
  by pat_completeness auto
termination
proof (relation "measure (\<lambda>(b, st). (if bs_depth st = 0 then 0 else 1) + (length b - bs_j st))")
  show "((b, group_step b st), b, st)
      \<in> measure (\<lambda>(b, st). (if bs_depth st = 0 then 0 else 1) + (length b - bs_j st))"
    if "\<not> group_done b st" for b st
    using group_step_cases [of st b] that by (auto simp: group_done_def)
qed simp

declare scan_group.simps [simp del]

definition brace_kind :: "brace_scan \<Rightarrow> nat" where
  "brace_kind st = (if bs_comma st then BRACE_COMMA else if bs_dots st then BRACE_SEQ else 0)"

text \<open>
  One iteration of the outer loop of \<open>find_first_valid_brace\<close>: where to look next, or the opener,
  closer and kind of the first valid group.
\<close>

definition group_start :: "nat \<Rightarrow> brace_scan" where
  "group_start i = \<lparr>bs_j = i + 1, bs_depth = 1, bs_comma = False, bs_dots = False,
     bs_escaped = False, bs_single = False, bs_double = False\<rparr>"

definition group_at :: "bytes \<Rightarrow> nat \<Rightarrow> (nat \<times> bool) + (nat \<times> nat \<times> nat)" where
  "group_at b i =
     (let st = scan_group b (group_start i); etype = brace_kind st
      in if bs_depth st \<noteq> 0 then Inl (i + 1, False)
         else if etype = 0 then Inl (i + 1, False)
         else if etype = BRACE_SEQ \<and> \<not> valid_seqterm (slice (i + 1) (bs_j st) b) then Inl (i + 1, False)
         else Inr (i, bs_j st, etype))"

definition find_step :: "bytes \<Rightarrow> nat \<Rightarrow> bool \<Rightarrow> (nat \<times> bool) + (nat \<times> nat \<times> nat)" where
  "find_step b i escaped =
     (if escaped then Inl (i + 1, False)
      else if b ! i = CHR 0x5C then Inl (i + 1, True)
      else (case data_quote_carrier_at b i of
        Some carrier \<Rightarrow> Inl (skip_data_quote_carrier b i carrier, False)
      | None \<Rightarrow>
          if b ! i = CHR 0x27 then Inl (skip_quoted (CHR 0x27) b i, False)
          else if b ! i = CHR 0x22 then Inl (skip_quoted (CHR 0x22) b i, False)
          else if b ! i = CHR 0x60 then Inl (skip_backtick_body b i, False)
          else if is_dollar_or_carrier (b ! i) \<and> i + 1 < length b \<and> b ! (i + 1) = CHR ''(''
          then Inl (skip_dollar_paren_body b i, False)
          else if b ! i = CHR ''$'' \<and> i + 1 < length b \<and> b ! (i + 1) = CHR 0x27
          then Inl (skip_single_quoted b (i + 1), False)
          else if is_dollar_or_carrier (b ! i) \<and> i + 1 < length b \<and> b ! (i + 1) = CHR ''{''
          then Inl (skip_dollar_brace_body b i, False)
          else if b ! i \<noteq> CHR ''{'' then Inl (i + 1, False)
          else if (i = 0 \<or> is_ascii_whitespace (b ! (i - 1)))
            \<and> (length b \<le> i + 1 \<or> is_ascii_whitespace (b ! (i + 1)) \<or> b ! (i + 1) = CHR ''}'')
          then Inl (i + 1, False)
          else if 0 < i \<and> is_dollar_or_carrier (b ! (i - 1)) then Inl (i + 1, False)
          else group_at b i))"

lemma find_step_progress:
  "find_step b i escaped = Inl (i', e') \<Longrightarrow> i < length b \<Longrightarrow> i < i'"
  unfolding find_step_def group_at_def Let_def
  by (auto simp: dollar_brace.skip_progress dollar_paren.skip_progress backtick.skip_progress
      quoted.skip_progress skip_data_quote_progress single_quoted.skip_progress [simplified]
      split: if_splits option.splits)

function find_brace_from :: "bytes \<Rightarrow> nat \<Rightarrow> bool \<Rightarrow> (nat \<times> nat \<times> nat) option" where
  "find_brace_from b i escaped =
     (if i < length b
      then (case find_step b i escaped of
              Inl (i', escaped') \<Rightarrow> find_brace_from b i' escaped'
            | Inr found \<Rightarrow> Some found)
      else None)"
  by pat_completeness auto
termination
  by (relation "measure (\<lambda>(b, i, _). length b - i)")
    (auto dest: find_step_progress intro!: diff_less_mono2)

declare find_brace_from.simps [simp del]

definition find_first_valid_brace :: "bytes \<Rightarrow> (nat \<times> nat \<times> nat) option" where
  "find_first_valid_brace text = find_brace_from text 0 False"

subsection \<open>Splitting the members of a group\<close>

text \<open>\<open>depth\<close> saturates at zero.\<close>

record split_state =
  sp_parts :: "bytes list"
  sp_start :: nat
  sp_i :: nat
  sp_depth :: nat
  sp_escaped :: bool
  sp_single :: bool
  sp_double :: bool

definition split_step :: "bytes \<Rightarrow> split_state \<Rightarrow> split_state" where
  "split_step s st =
     (let i = sp_i st; single = sp_single st; double = sp_double st in
      if sp_escaped st then st\<lparr>sp_i := i + 1, sp_escaped := False\<rparr>
      else if s ! i = CHR 0x5C then st\<lparr>sp_i := i + 1, sp_escaped := True\<rparr>
      else if s ! i = CHR 0x27 \<and> \<not> double then st\<lparr>sp_i := i + 1, sp_single := \<not> single\<rparr>
      else if s ! i = CHR 0x22 \<and> \<not> single then st\<lparr>sp_i := i + 1, sp_double := \<not> double\<rparr>
      else (case data_quote_carrier_at s i of
        Some carrier \<Rightarrow>
          (if carrier = DQUOTE_CARRIER \<and> \<not> single then st\<lparr>sp_i := i + 3, sp_double := \<not> double\<rparr>
           else if carrier = SQUOTE_CARRIER \<and> \<not> double then st\<lparr>sp_i := i + 3, sp_single := \<not> single\<rparr>
           else st\<lparr>sp_i := i + 3\<rparr>)
      | None \<Rightarrow>
          if s ! i = CHR ''{'' \<and> \<not> single \<and> \<not> double
          then st\<lparr>sp_i := i + 1, sp_depth := sp_depth st + 1\<rparr>
          else if s ! i = CHR ''}'' \<and> \<not> single \<and> \<not> double
          then st\<lparr>sp_i := i + 1, sp_depth := sp_depth st - 1\<rparr>
          else if s ! i = CHR '','' \<and> sp_depth st = 0 \<and> \<not> single \<and> \<not> double
          then st\<lparr>sp_parts := sp_parts st @ [slice (sp_start st) i s], sp_start := i + 1, sp_i := i + 1\<rparr>
          else st\<lparr>sp_i := i + 1\<rparr>))"

lemma split_step_progress: "sp_i st < sp_i (split_step s st)"
  by (simp add: split_step_def Let_def split: option.split)

function split_loop :: "bytes \<Rightarrow> split_state \<Rightarrow> split_state" where
  "split_loop s st = (if sp_i st < length s then split_loop s (split_step s st) else st)"
  by pat_completeness auto
termination
  using split_step_progress
  by (relation "measure (\<lambda>(s, st). length s - sp_i st)") (auto intro: diff_less_mono2)

declare split_loop.simps [simp del]

definition split_brace_commas :: "bytes \<Rightarrow> bytes list" where
  "split_brace_commas s =
     (let st = split_loop s \<lparr>sp_parts = [], sp_start = 0, sp_i = 0, sp_depth = 0,
        sp_escaped = False, sp_single = False, sp_double = False\<rparr>
      in sp_parts st @ [drop (sp_start st) s])"

subsection \<open>Sequences\<close>

text \<open>\<open>s.split("..")\<close>.\<close>

fun split_dots :: "bytes \<Rightarrow> bytes list" where
  "split_dots (a # c # cs) =
     (if a = CHR ''.'' \<and> c = CHR ''.'' then [] # split_dots cs
      else (case split_dots (c # cs) of [] \<Rightarrow> [[a]] | p # ps \<Rightarrow> (a # p) # ps))"
| "split_dots s = [s]"

definition wrap_i64 :: "int \<Rightarrow> int" where
  "wrap_i64 v = (v + 2 ^ 63) mod 2 ^ 64 - 2 ^ 63"

definition as_i32 :: "int \<Rightarrow> int" where
  "as_i32 v = (v + 2 ^ 31) mod 2 ^ 32 - 2 ^ 31"

text \<open>\<open>step.abs().max(1)\<close>; \<open>abs\<close> wraps at the minimum.\<close>

definition step_magnitude :: "int \<Rightarrow> int" where
  "step_magnitude v = max (wrap_i64 \<bar>v\<bar>) 1"

definition checked_sub :: "int \<Rightarrow> int \<Rightarrow> int option" where
  "checked_sub a c = (if in_i64 (a - c) then Some (a - c) else None)"

definition numeric_range_width :: "bytes \<Rightarrow> bytes \<Rightarrow> nat option" where
  "numeric_range_width left right =
     (let left_digits = dropWhile (\<lambda>c. c = CHR ''-'') left;
          right_digits = dropWhile (\<lambda>c. c = CHR ''-'') right;
          padded = list_ex (\<lambda>value. 1 < length value \<and> hd value = CHR ''0'') [left_digits, right_digits]
      in if padded then Some (max (length left) (length right)) else None)"

definition format_numeric_range_value :: "int \<Rightarrow> nat option \<Rightarrow> bytes" where
  "format_numeric_range_value v width = (case width of
       None \<Rightarrow> int_to_string v
     | Some w \<Rightarrow> if v < 0 then CHR ''-'' # zero_pad (w - 1) (nat_digits (nat (- v)))
                else zero_pad w (nat_digits (nat v)))"

text \<open>The two emitting loops: \<open>count\<close> elements, the increment only between elements.\<close>

fun numeric_values :: "nat \<Rightarrow> int \<Rightarrow> int \<Rightarrow> int list" where
  "numeric_values 0 n incr = []"
| "numeric_values (Suc k) n incr =
     n # (if 0 < k then numeric_values k (wrap_i64 (n + incr)) incr else [])"

fun char_values :: "nat \<Rightarrow> int \<Rightarrow> int \<Rightarrow> bytes list" where
  "char_values 0 cur incr = []"
| "char_values (Suc k) cur incr =
     (let c = char_of (nat (cur mod 256)) :: char
      in (if c = CHR 0x5C then [] else [c])
           # (if 0 < k then char_values k (as_i32 (cur + incr)) incr else []))"

definition numeric_range :: "bytes \<Rightarrow> bytes \<Rightarrow> int \<Rightarrow> int \<Rightarrow> int \<Rightarrow> bytes list option" where
  "numeric_range left right start end step =
     (let incr = (if start \<le> end then step else wrap_i64 (- step))
      in case (if start < end then checked_sub end start else checked_sub start end) of
           None \<Rightarrow> None
         | Some prevn \<Rightarrow>
             let count = nat (prevn div step) + 1
             in Some (map (\<lambda>v. format_numeric_range_value v (numeric_range_width left right))
                        (numeric_values count start incr)))"

definition char_range :: "char \<Rightarrow> char \<Rightarrow> int \<Rightarrow> bytes list" where
  "char_range start end step =
     (let s = int (byte start); e = int (byte end);
          count = nat \<bar>s - e\<bar> div nat step + 1;
          dir = (if s \<le> e then 1 else - 1)
      in char_values count s (dir * as_i32 step))"

definition expand_range :: "bytes \<Rightarrow> bytes list option" where
  "expand_range s =
     (let parts = split_dots s;
          left = parts ! 0; right = parts ! 1
      in if length parts \<noteq> 2 \<and> length parts \<noteq> 3 then None
         else if left = [] \<or> right = [] then None
         else case (if length parts = 2 then Some 1
                    else map_option step_magnitude (parse_i64_str (parts ! 2))) of
           None \<Rightarrow> None
         | Some step \<Rightarrow>
             (case (parse_i64_str left, parse_i64_str right) of
                (Some start, Some end) \<Rightarrow> numeric_range left right start end step
              | _ \<Rightarrow>
                  if length left = 1 \<and> length right = 1
                     \<and> is_ascii_alphabetic (hd left) \<and> is_ascii_alphabetic (hd right)
                  then Some (char_range (hd left) (hd right) step) else None))"

subsection \<open>The expansion\<close>

text \<open>What a found group needs for the recursion: it lies inside the word.\<close>

lemma scan_group_close:
  "bs_depth st \<noteq> 0 \<Longrightarrow> bs_depth (scan_group b st) = 0 \<Longrightarrow>
     bs_j st \<le> bs_j (scan_group b st) \<and> bs_j (scan_group b st) < length b
     \<and> b ! bs_j (scan_group b st) = CHR ''}''"
proof (induction b st rule: scan_group.induct)
  case (1 b st)
  show ?case
  proof (cases "group_done b st")
    case True
    then show ?thesis using 1 by (simp add: scan_group.simps)
  next
    case False
    then have step: "scan_group b st = scan_group b (group_step b st)" and j: "bs_j st < length b"
      by (simp_all add: scan_group.simps [of b st] group_done_def)
    show ?thesis
    proof (cases "bs_depth (group_step b st) = 0")
      case True
      then have "scan_group b (group_step b st) = group_step b st"
        by (simp add: scan_group.simps [of _ "group_step b st"] group_done_def)
      then show ?thesis using True group_step_cases [OF j] 1 j step by auto
    next
      case running: False
      then show ?thesis using 1(1) [OF False running] 1(3) step group_step_cases [OF j] by auto
    qed
  qed
qed

lemma find_brace_from_range:
  "find_brace_from b i e = Some (open, close, etype) \<Longrightarrow>
     i \<le> open \<and> open < close \<and> close < length b \<and> b ! close = CHR ''}''
     \<and> (etype = BRACE_COMMA \<or> etype = BRACE_SEQ \<and> valid_seqterm (slice (open + 1) close b))"
proof (induction b i e rule: find_brace_from.induct)
  case (1 b i e)
  then have i: "i < length b" by (subst (asm) find_brace_from.simps) (simp split: if_splits)
  show ?case
  proof (cases "find_step b i e")
    case (Inl a)
    then show ?thesis
      using 1 i find_step_progress [of b i e]
      by (cases a) (force simp: find_brace_from.simps [of b i])
  next
    case (Inr found)
    then have "group_at b i = Inr (open, close, etype)"
      using 1(2) i
      by (auto simp: find_brace_from.simps [of b i] find_step_def split: if_splits option.splits)
    then show ?thesis
      using scan_group_close [of "group_start i" b]
      by (auto simp: group_at_def Let_def brace_kind_def group_start_def split: if_splits)
  qed
qed

lemma split_loop_parts:
  "p \<in> set (sp_parts (split_loop s st)) \<Longrightarrow> p \<in> set (sp_parts st) \<or> length p \<le> length s"
proof (induction s st rule: split_loop.induct)
  case (1 s st)
  then show ?case
    using length_slice_le [of "sp_start st" "sp_i st" s]
    by (cases "sp_i st < length s")
      (fastforce simp: split_loop.simps [of s st] split_step_def [of s st] Let_def split: if_splits option.splits)+
qed

lemma split_brace_commas_length: "p \<in> set (split_brace_commas s) \<Longrightarrow> length p \<le> length s"
  by (auto simp: split_brace_commas_def Let_def dest!: split_loop_parts)

text \<open>\<open>array_concat\<close>: every left word with every right word.\<close>

definition array_concat :: "bytes list \<Rightarrow> bytes list \<Rightarrow> bytes list" where
  "array_concat ls rs = concat (map (\<lambda>l. map (\<lambda>r. l @ r) rs) ls)"

definition attach_preamble :: "bytes \<Rightarrow> bytes list \<Rightarrow> bytes list" where
  "attach_preamble preamble tack =
     (let result =
        (if preamble = [] \<and> tack = [] then [[]]
         else if preamble = [] then tack
         else if tack = [] then [preamble]
         else map (\<lambda>t. preamble @ t) tack)
      in if result = [] then [preamble] else result)"

lemma find_first_range:
  "find_first_valid_brace b = Some (open, close, etype) \<Longrightarrow>
     open < close \<and> close < length b \<and> b ! close = CHR ''}''
     \<and> (etype = BRACE_COMMA \<or> etype = BRACE_SEQ \<and> valid_seqterm (slice (open + 1) close b))"
  unfolding find_first_valid_brace_def using find_brace_from_range by blast

function brace_expand :: "bytes \<Rightarrow> bytes list" and expand_amble :: "bytes \<Rightarrow> bytes list" where
  "brace_expand text = (case find_first_valid_brace text of
       None \<Rightarrow> [text]
     | Some (open, close, etype) \<Rightarrow>
         let preamble = take open text; amble = slice (open + 1) close text;
             postamble = drop (close + 1) text;
             tack = (if etype = BRACE_SEQ then
                       (case expand_range amble of
                          Some seq \<Rightarrow> Some seq
                        | None \<Rightarrow> if postamble \<noteq> [] then Some [CHR ''{'' # amble @ ''}''] else None)
                     else if etype = BRACE_COMMA then Some (expand_amble amble)
                     else Some [CHR ''{'' # amble @ ''}''])
         in case tack of
              None \<Rightarrow> [text]
            | Some ts \<Rightarrow>
                let result = attach_preamble preamble ts
                in if postamble = [] then result
                   else let final_result = array_concat result (brace_expand postamble)
                        in if final_result = [] then result else final_result)"
| "expand_amble amble =
     (let result = concat (map brace_expand (split_brace_commas amble))
      in if result = [] then [[]] else result)"
  by pat_completeness auto

termination
  by (relation "measure (\<lambda>x. case x of Inl text \<Rightarrow> 2 * length text | Inr amble \<Rightarrow> 2 * length amble + 1)")
    (auto dest!: find_first_range split_brace_commas_length)

definition expand_braces :: "bytes \<Rightarrow> bytes list" where
  "expand_braces word = brace_expand word"

declare brace_expand.simps [simp del] expand_amble.simps [simp del]

end
