(* ===== verification/BracesCorrect.thy ===== *)
theory BracesCorrect
  imports Braces Machine
begin

section \<open>Brace expansion: what the expansion promises\<close>

text \<open>
  The group scanner is a \<open>consuming_machine\<close>.  Then: the recursive expansion is the product of the
  preamble, the members and the expanded postamble, and is never empty; the member split is
  undone by joining with commas; numeric sequences are exactly the arithmetic progression and never
  leave \<open>i64\<close>; padding keeps the value; character sequences step through the letters.
\<close>

subsection \<open>The group scanner stops\<close>

interpretation group: consuming_machine "group_done b" "group_step b"
    "\<lambda>st. length b - bs_j st" "\<lambda>st. True" for b
proof unfold_locales
  show "length b - bs_j (group_step b s) < length b - bs_j s \<or> group_done b (group_step b s)"
    if "\<not> group_done b s" for s
    using group_step_cases [of s b] that by (auto simp: group_done_def)
qed simp

lemma scan_group_iter: "iter (group_done b) (group_step b) n st = Some st' \<Longrightarrow> scan_group b st = st'"
proof (induction n arbitrary: st)
  case 0
  then show ?case by (simp add: scan_group.simps [of b st] split: if_splits)
next
  case (Suc n)
  then show ?case using scan_group.simps [of b st] by (cases "group_done b st") auto
qed

text \<open>
  The scan of a group from its opener takes at most one iteration per byte that is left (the
  loop machine with that fuel gives the scan's result), and a scan that ends with depth zero
  ends on an unskipped closing brace of the word.
\<close>

theorem scan_group_bounded:
  "iter (group_done b) (group_step b) (length b - i) (group_start i) = Some (scan_group b (group_start i))
   \<and> (bs_depth (scan_group b (group_start i)) = 0 \<longrightarrow>
        i < bs_j (scan_group b (group_start i)) \<and> bs_j (scan_group b (group_start i)) < length b
        \<and> b ! bs_j (scan_group b (group_start i)) = CHR ''}'')"
proof (cases "i + 1 < length b")
  case True
  then have "length b - bs_j (group_start i) < length b - i" by (simp add: group_start_def)
  then obtain st where "iter (group_done b) (group_step b) (length b - i) (group_start i) = Some st"
    using group.iter_total [OF TrueI] by blast
  then show ?thesis
    using scan_group_iter scan_group_close [of "group_start i" b] by (force simp: group_start_def)
next
  case False
  then have halted: "group_done b (group_start i)" by (simp add: group_done_def group_start_def)
  then have "scan_group b (group_start i) = group_start i" by (simp add: scan_group.simps)
  then show ?thesis using halted by (cases "length b - i") (auto simp: group_start_def)
qed

theorem scan_group_bounded_witness:
  "0 < bs_j (scan_group ''{a}b'' (group_start 0)) \<and> bs_j (scan_group ''{a}b'' (group_start 0)) < 4"
proof -
  have "bs_depth (scan_group ''{a}b'' (group_start 0)) = 0" by code_simp
  then show ?thesis using scan_group_bounded [of "''{a}b''" 0] by simp
qed

subsection \<open>The product structure\<close>

lemma array_concat_Nil [simp]: "array_concat ls [[]] = ls"
  by (induction ls) (auto simp: array_concat_def)

lemma array_concat_empty [simp]: "array_concat ls rs = [] \<longleftrightarrow> ls = [] \<or> rs = []"
  by (auto simp: array_concat_def)

lemma set_array_concat: "set (array_concat ls rs) = {l @ r |l r. l \<in> set ls \<and> r \<in> set rs}"
  by (auto simp: array_concat_def)

lemma length_array_concat: "length (array_concat ls rs) = length ls * length rs"
  by (induction ls) (auto simp: array_concat_def)

lemma find_brace_empty [simp]: "find_first_valid_brace [] = None"
  by (simp add: find_first_valid_brace_def find_brace_from.simps)

lemma brace_expand_empty [simp]: "brace_expand [] = [[]]"
  by (simp add: brace_expand.simps)

lemma attach_preamble_eq: "tack \<noteq> [] \<Longrightarrow> attach_preamble p tack = map ((@) p) tack"
proof -
  have "(@) [] = (\<lambda>t :: bytes. t)" by (rule ext) simp
  then show "tack \<noteq> [] \<Longrightarrow> ?thesis" by (auto simp: attach_preamble_def Let_def)
qed

lemma attach_preamble_nonempty [simp]: "attach_preamble p tack \<noteq> []"
  by (simp add: attach_preamble_def Let_def)

lemma expand_amble_nonempty [simp]: "expand_amble amble \<noteq> []"
  by (simp add: expand_amble.simps Let_def)

lemma brace_expand_nonempty [simp]: "brace_expand text \<noteq> []"
  by (subst brace_expand.simps) (simp add: Let_def split: option.split)

lemma split_brace_commas_nonempty [simp]: "split_brace_commas s \<noteq> []"
  by (simp add: split_brace_commas_def Let_def)

lemma expand_amble_eq: "expand_amble amble = concat (map brace_expand (split_brace_commas amble))"
  by (subst expand_amble.simps) (cases "split_brace_commas amble", auto simp: Let_def)



lemma find_brace_from_opener:
  "find_brace_from b i e = Some (open, close, etype) \<Longrightarrow>
     b ! open = CHR ''{'' \<and> open < length b \<and> (open = 0 \<or> \<not> is_dollar_or_carrier (b ! (open - 1)))"
proof (induction b i e rule: find_brace_from.induct)
  case (1 b i e)
  then have i: "i < length b" by (subst (asm) find_brace_from.simps) (simp split: if_splits)
  show ?case
  proof (cases "find_step b i e")
    case (Inl a)
    then show ?thesis using 1 i by (cases a) (simp add: find_brace_from.simps [of b i])
  next
    case (Inr found)
    then have "found = (open, close, etype)"
      using 1(2) i by (simp add: find_brace_from.simps [of b i])
    then show ?thesis
      using Inr i
      by (auto simp: find_step_def group_at_def Let_def split: if_splits option.splits)
  qed
qed

text \<open>
  Expansion never loses the word: the result is never empty, a word with no valid group (in
  particular one with no opening brace at all) expands to itself, and a group is only ever
  opened by a brace that no \<open>$\<close> or data-dollar carrier precedes, so \<open>${...}\<close> stays parameter text.
\<close>

theorem brace_expand_total:
  "brace_expand text \<noteq> []
   \<and> (CHR ''{'' \<notin> set text \<longrightarrow> brace_expand text = [text])
   \<and> (case find_first_valid_brace text of
        None \<Rightarrow> brace_expand text = [text]
      | Some (open, close, _) \<Rightarrow> text ! open = CHR ''{'' \<and> text ! close = CHR ''}'' \<and> open < close
          \<and> close < length text \<and> (open = 0 \<or> \<not> is_dollar_or_carrier (text ! (open - 1))))"
proof (cases "find_first_valid_brace text")
  case None
  then show ?thesis by (simp add: brace_expand.simps [of "text"])
next
  case (Some found)
  obtain opn cls etype where found: "found = (opn, cls, etype)" by (cases found)
  have opener: "text ! opn = CHR ''{'' \<and> opn < length text
      \<and> (opn = 0 \<or> \<not> is_dollar_or_carrier (text ! (opn - 1)))"
    using Some unfolding found find_first_valid_brace_def by (rule find_brace_from_opener)
  then have "CHR ''{'' \<in> set text" using nth_mem by metis
  then show ?thesis using Some opener find_first_range [of "text" opn cls etype] by (simp add: found)
qed

theorem brace_expand_total_witness: "brace_expand ''hello'' = [''hello'']"
proof -
  have "CHR ''{'' \<notin> set ''hello''" by simp
  then show ?thesis using brace_expand_total [of "''hello''"] by blast
qed

subsection \<open>Splitting the members\<close>

fun join_commas :: "bytes list \<Rightarrow> bytes" where
  "join_commas [] = []"
| "join_commas [p] = p"
| "join_commas (p # ps) = p @ [CHR '',''] @ join_commas ps"

lemma join_commas_snoc: "ps \<noteq> [] \<Longrightarrow> join_commas (ps @ [p]) = (join_commas ps @ [CHR '','']) @ p"
  by (induction ps rule: join_commas.induct) auto

definition split_ok :: "bytes \<Rightarrow> split_state \<Rightarrow> bool" where
  "split_ok s st \<longleftrightarrow> sp_start st \<le> sp_i st \<and> sp_start st \<le> length s
     \<and> (if sp_parts st = [] then sp_start st = 0
        else join_commas (sp_parts st) @ [CHR '',''] = take (sp_start st) s)"

lemma split_ok_step: "split_ok s st \<Longrightarrow> sp_i st < length s \<Longrightarrow> split_ok s (split_step s st)"
proof -
  assume ok: "split_ok s st" and i: "sp_i st < length s"
  have "take (sp_start st) s @ slice (sp_start st) (sp_i st) s = take (sp_i st) s"
    using ok take_add [of "sp_start st" "sp_i st - sp_start st" s] by (simp add: split_ok_def slice_def)
  then have cut: "(take (sp_start st) s @ slice (sp_start st) (sp_i st) s) @ [s ! sp_i st] = take (sp_i st + 1) s"
    using i by (simp add: take_Suc_conv_app_nth del: append_assoc)
  have "join_commas (sp_parts st @ [slice (sp_start st) (sp_i st) s]) @ [CHR '','']
      = take (sp_i st + 1) s" if "s ! sp_i st = CHR '',''"
    using ok cut that
    by (cases "sp_parts st = []")
      (auto simp: split_ok_def join_commas_snoc simp del: append_assoc)
  then show ?thesis
    using ok i by (auto simp: split_step_def split_ok_def Let_def split: option.split)
qed

lemma split_ok_loop: "split_ok s st \<Longrightarrow> split_ok s (split_loop s st)"
  by (induction s st rule: split_loop.induct) (subst split_loop.simps, auto simp: split_ok_step)

text \<open>
  The member split loses nothing: joining the members with commas gives back the text between
  the braces, whatever escapes, quotes, carriers and nested braces it holds; there is
  always at least one member.
\<close>

theorem split_join:
  "join_commas (split_brace_commas s) = s \<and> split_brace_commas s \<noteq> []"
proof -
  define st where "st = split_loop s \<lparr>sp_parts = [], sp_start = 0, sp_i = 0, sp_depth = 0,
    sp_escaped = False, sp_single = False, sp_double = False\<rparr>"
  have "split_ok s st" unfolding st_def by (rule split_ok_loop) (simp add: split_ok_def)
  then have "join_commas (sp_parts st @ [drop (sp_start st) s]) = s"
    by (cases "sp_parts st = []")
      (auto simp: split_ok_def join_commas_snoc simp del: append_assoc)
  then show ?thesis by (simp add: split_brace_commas_def st_def Let_def)
qed

subsection \<open>Sequences\<close>

lemma wrap_i64_id [rust_simps]: "in_i64 v \<Longrightarrow> wrap_i64 v = v"
  by (simp add: in_i64_iff wrap_i64_def)

lemma numeric_values_eq:
  "(\<And>i. i < count \<Longrightarrow> in_i64 (start + int i * incr)) \<Longrightarrow>
     numeric_values count start incr = map (\<lambda>i. start + int i * incr) [0..<count]"
proof (induction count arbitrary: start)
  case (Suc k)
  show ?case
  proof (cases "k = 0")
    case False
    then have wrap: "wrap_i64 (start + incr) = start + incr"
      using Suc.prems [of 1] by (simp add: wrap_i64_id)
    have "numeric_values k (start + incr) incr = map (\<lambda>i. start + incr + int i * incr) [0..<k]"
    proof (rule Suc.IH)
      show "in_i64 (start + incr + int i * incr)" if "i < k" for i
        using Suc.prems [of "Suc i"] that by (simp add: algebra_simps)
    qed
    moreover have "[0..<Suc k] = 0 # map Suc [0..<k]" by (simp add: upt_conv_Cons map_Suc_upt)
    ultimately show ?thesis using False wrap by (simp add: o_def algebra_simps del: upt_Suc)
  qed simp
qed simp

text \<open>The distance divides into \<open>q\<close> steps: every element stays between the endpoints.\<close>

lemma progression_between:
  fixes start step :: int
  assumes "1 \<le> step" and "i \<le> nat (\<bar>end - start\<bar> div step)"
  shows "min start end \<le> start + int i * (if start \<le> end then step else - step)
    \<and> start + int i * (if start \<le> end then step else - step) \<le> max start end"
proof -
  have "int i \<le> \<bar>end - start\<bar> div step"
    using assms by (simp add: le_nat_iff pos_imp_zdiv_nonneg_iff)
  then have "int i * step \<le> (\<bar>end - start\<bar> div step) * step"
    using assms(1) by (intro mult_right_mono) auto
  also have "\<dots> \<le> \<bar>end - start\<bar>"
    using assms(1) by (metis mult.commute pos_mod_sign div_mult_mod_eq le_add_same_cancel1 zless_iff_Suc_zadd less_le_trans zero_less_one)
  finally show ?thesis using assms(1) by (auto simp: abs_if min_def max_def split: if_splits)
qed

lemma numeric_range_aux:
  assumes "in_i64 start" "in_i64 end" "1 \<le> step" "in_i64 step"
  shows "numeric_range left right start end step =
      (if in_i64 \<bar>end - start\<bar>
       then Some (map (\<lambda>i. format_numeric_range_value
                (start + int i * (if start \<le> end then step else - step)) (numeric_range_width left right))
              [0..<nat (\<bar>end - start\<bar> div step) + 1])
       else None)"
proof -
  let ?incr = "if start \<le> end then step else - step"
  have incr: "(if start \<le> end then step else wrap_i64 (- step)) = ?incr"
    using assms(3,4) by (auto simp: in_i64_iff intro!: wrap_i64_id)
  have sub: "(if start < end then checked_sub end start else checked_sub start end)
      = (if in_i64 \<bar>end - start\<bar> then Some \<bar>end - start\<bar> else None)"
    by (simp add: checked_sub_def abs_if) (simp add: in_i64_iff)
  have vals: "numeric_values (nat (\<bar>end - start\<bar> div step) + 1) start ?incr
      = map (\<lambda>i. start + int i * ?incr) [0..<nat (\<bar>end - start\<bar> div step) + 1]"
  proof (rule numeric_values_eq)
    show "in_i64 (start + int i * ?incr)" if "i < nat (\<bar>end - start\<bar> div step) + 1" for i
      using progression_between [OF assms(3), of i "end" start] that assms(1,2)
      by (auto simp: in_i64_iff min_def max_def split: if_splits)
  qed
  have "numeric_range left right start end step =
      (if in_i64 \<bar>end - start\<bar>
       then Some (map (\<lambda>v. format_numeric_range_value v (numeric_range_width left right))
              (numeric_values (nat (\<bar>end - start\<bar> div step) + 1) start ?incr))
       else None)"
    unfolding numeric_range_def Let_def incr sub by simp
  then show ?thesis
    unfolding vals by (simp add: o_def del: upt_Suc)
qed

text \<open>
  A numeric sequence is the exact arithmetic progression: from the first endpoint towards the
  second by the step, as many elements as whole steps fit, each printed with the common width; no
  element leaves the endpoints' interval (so the 64-bit increment never wraps), and the
  sequence is refused exactly when the distance itself does not fit in \<open>i64\<close>.
\<close>

theorem numeric_range_progression:
  assumes "in_i64 start" "in_i64 end" "1 \<le> step" "in_i64 step"
  shows "numeric_range left right start end step =
      (if in_i64 \<bar>end - start\<bar>
       then Some (map (\<lambda>i. format_numeric_range_value
                (start + int i * (if start \<le> end then step else - step)) (numeric_range_width left right))
              [0..<nat (\<bar>end - start\<bar> div step) + 1])
       else None)
    \<and> (\<forall>i \<le> nat (\<bar>end - start\<bar> div step).
         min start end \<le> start + int i * (if start \<le> end then step else - step)
         \<and> start + int i * (if start \<le> end then step else - step) \<le> max start end)"
  using numeric_range_aux [OF assms] progression_between [OF assms(3)] by auto

theorem numeric_range_progression_witness:
  "numeric_range ''7'' ''1'' 7 1 4 = Some [''7'', ''3'']"
proof -
  have "nat (6 div 4 :: int) + 1 = 2" "[0..<2::nat] = [0, 1]" by (simp_all add: upt_rec)
  moreover have "numeric_range_width ''7'' ''1'' = None" by (simp add: numeric_range_width_def)
  moreover have "int_to_string 7 = ''7''" "int_to_string 3 = ''3''" by code_simp+
  ultimately show ?thesis
    using numeric_range_progression [of 7 1 4 "''7''" "''1''"]
    by (simp add: in_i64_iff format_numeric_range_value_def)
qed

text \<open>Splitting at \<open>..\<close>, and endpoints as printed numbers.\<close>

lemma split_dots_no_dot: "CHR ''.'' \<notin> set s \<Longrightarrow> split_dots s = [s]"
  by (induction s rule: split_dots.induct) auto

lemma split_dots_append:
  "CHR ''.'' \<notin> set x \<Longrightarrow> x \<noteq> [] \<Longrightarrow> split_dots (x @ ''..'' @ y) = x # split_dots y"
proof (induction x)
  case (Cons a x)
  then show ?case by (cases x) (auto split: list.split)
qed simp

lemma digit_not_dot: "is_ascii_digit c \<Longrightarrow> c \<noteq> CHR ''.''"
  by (auto simp: is_ascii_digit_def)

lemma no_dot_int_to_string: "CHR ''.'' \<notin> set (int_to_string v)" "int_to_string v \<noteq> []"
proof -
  have "CHR ''.'' \<notin> set (nat_digits n)" for n
    using list_all_nat_digits [of n] digit_not_dot unfolding list_all_iff by blast
  then show "CHR ''.'' \<notin> set (int_to_string v)" "int_to_string v \<noteq> []" by (auto simp: int_to_string_def)
qed

lemma digit_char_zero: "d < 10 \<Longrightarrow> digit_char d = CHR ''0'' \<longleftrightarrow> d = 0"
proof -
  assume d: "d < 10"
  have "CHR ''0'' = digit_char 0" by code_simp
  then show ?thesis using of_char_digit_char [OF d] of_char_digit_char [of 0] by auto
qed

lemma nat_digits_no_leading_zero: "n \<noteq> 0 \<Longrightarrow> hd (nat_digits n) \<noteq> CHR ''0''"
proof (induction n rule: nat_digits.induct)
  case (1 n)
  then show ?case
    by (cases "n < 10") (simp_all add: nat_digits.simps [of n] digit_char_zero hd_append)
qed

lemma dropWhile_sign: "dropWhile (\<lambda>c. c = CHR ''-'') (int_to_string v) = nat_digits (nat \<bar>v\<bar>)"
proof -
  have "dropWhile (\<lambda>c. c = CHR ''-'') (nat_digits n) = nat_digits n" for n
    using hd_nat_digits [of n] digit_not_sign by (cases "nat_digits n") auto
  then show ?thesis by (auto simp: int_to_string_def)
qed

lemma width_canonical: "numeric_range_width (int_to_string a) (int_to_string c) = None"
proof -
  have "\<not> (1 < length (nat_digits n) \<and> hd (nat_digits n) = CHR ''0'')" for n
    using nat_digits_no_leading_zero [of n] by (cases "n = 0") (auto simp: nat_digits.simps)
  then show ?thesis by (simp add: numeric_range_width_def dropWhile_sign Let_def)
qed

lemma upto_as_map: "a \<le> c \<Longrightarrow> [a..c] = map (\<lambda>i. a + int i) [0..<nat (c - a) + 1]"
  by (rule nth_equalityI) (auto simp: nth_append nat_add_distrib)

lemma rev_upto_as_map: "c < a \<Longrightarrow> rev [c..a] = map (\<lambda>i. a - int i) [0..<nat (a - c) + 1]"
  by (rule nth_equalityI) (auto simp: rev_nth nth_append)

text \<open>
  End to end on text: two printed 64-bit numbers with \<open>..\<close> between them expand to every
  integer from the first to the second, in that direction and printed the same way, or the sequence
  is refused when the distance exceeds \<open>i64\<close>.
\<close>

theorem expand_range_integers:
  assumes "in_i64 a" "in_i64 c"
  shows "expand_range (int_to_string a @ ''..'' @ int_to_string c) =
      (if in_i64 \<bar>c - a\<bar> then Some (map int_to_string (if a \<le> c then [a..c] else rev [c..a])) else None)"
proof -
  have "split_dots (int_to_string a @ ''..'' @ int_to_string c) = [int_to_string a, int_to_string c]"
    by (simp add: split_dots_append split_dots_no_dot no_dot_int_to_string del: append_Cons append_Nil)
  then have "expand_range (int_to_string a @ ''..'' @ int_to_string c)
      = numeric_range (int_to_string a) (int_to_string c) a c 1"
    using assms by (simp add: expand_range_def Let_def no_dot_int_to_string parse_int_to_string)
  also have "\<dots> = (if in_i64 \<bar>c - a\<bar> then Some (map (\<lambda>i. int_to_string
      (a + int i * (if a \<le> c then 1 else - 1))) [0..<nat \<bar>c - a\<bar> + 1]) else None)"
    using numeric_range_aux [OF assms, of 1 "int_to_string a" "int_to_string c"]
    by (simp add: width_canonical format_numeric_range_value_def in_i64_iff del: upt_Suc)
  finally have eq: "expand_range (int_to_string a @ ''..'' @ int_to_string c) = (if in_i64 \<bar>c - a\<bar>
      then Some (map (\<lambda>i. int_to_string (a + int i * (if a \<le> c then 1 else - 1))) [0..<nat \<bar>c - a\<bar> + 1])
      else None)" .
  show ?thesis
  proof (cases "a \<le> c")
    case True
    then show ?thesis unfolding eq by (simp add: upto_as_map o_def del: upt_Suc)
  next
    case False
    then show ?thesis unfolding eq by (simp add: rev_upto_as_map o_def del: upt_Suc)
  qed
qed

theorem expand_range_integers_witness:
  "expand_range (int_to_string 9 @ ''..'' @ int_to_string 11) = Some [''9'', ''10'', ''11'']"
proof -
  have "map int_to_string [9..11] = [''9'', ''10'', ''11'']" by code_simp
  then show ?thesis using expand_range_integers [of 9 11] by (simp add: in_i64_iff)
qed

text \<open>Zero padding.\<close>

lemma digits_value_zero: "digits_value (CHR ''0'' # s) = digits_value s"
  by (simp add: digits_value_def)

lemma digits_value_pad: "digits_value (zero_pad w s) = digits_value s"
proof -
  have "digits_value (replicate n (CHR ''0'') @ s) = digits_value s" for n
    by (induction n) (simp_all add: digits_value_zero)
  then show ?thesis by (simp add: zero_pad_def)
qed

lemma list_all_pad: "list_all is_ascii_digit s \<Longrightarrow> list_all is_ascii_digit (zero_pad w s)"
  by (auto simp: zero_pad_def list_all_iff is_ascii_digit_def)

lemma hd_pad: "list_all is_ascii_digit s \<Longrightarrow> s \<noteq> [] \<Longrightarrow> is_ascii_digit (hd (zero_pad w s))"
  using list_all_pad [of s w] by (cases "zero_pad w s") (simp_all, simp add: zero_pad_def)

lemma parse_padded:
  "in_i64 (int n) \<Longrightarrow> parse_i64_str (zero_pad w (nat_digits n)) = Some (int n)"
  "in_i64 (- int n) \<Longrightarrow> parse_i64_str (CHR ''-'' # zero_pad w (nat_digits n)) = Some (- int n)"
proof -
  have ne: "zero_pad w (nat_digits n) \<noteq> []" by (simp add: zero_pad_def)
  show "in_i64 (int n) \<Longrightarrow> parse_i64_str (zero_pad w (nat_digits n)) = Some (int n)"
    using digit_not_sign [OF hd_pad [of "nat_digits n" w]] ne
    by (simp add: parse_i64_str_def Let_def list_all_pad digits_value_pad)
  show "in_i64 (- int n) \<Longrightarrow> parse_i64_str (CHR ''-'' # zero_pad w (nat_digits n)) = Some (- int n)"
    using ne by (simp add: parse_i64_str_def Let_def list_all_pad digits_value_pad)
qed

text \<open>
  Padding a sequence element changes neither its value nor its sign: parsing the printed element
  gives it back, whatever the width, and the element is at least as wide as asked.
\<close>

theorem format_range_value_roundtrip:
  assumes "in_i64 v"
  shows "parse_i64_str (format_numeric_range_value v width) = Some v
    \<and> (case width of None \<Rightarrow> True | Some w \<Rightarrow> w \<le> length (format_numeric_range_value v width))"
proof (cases width)
  case None
  then show ?thesis using parse_int_to_string [OF assms] by (simp add: format_numeric_range_value_def)
next
  case (Some w)
  then show ?thesis
    using assms parse_padded(1) [of "nat v" w] parse_padded(2) [of "nat (- v)" "w - 1"]
    by (cases "v < 0") (auto simp: format_numeric_range_value_def zero_pad_def)
qed

theorem format_range_value_roundtrip_witness:
  "parse_i64_str (format_numeric_range_value (- 3) (Some 4)) = Some (- 3)"
  using format_range_value_roundtrip [of "- 3" "Some 4"] by (simp add: in_i64_iff)

subsection \<open>Character sequences\<close>

definition char_element :: "int \<Rightarrow> bytes" where
  "char_element v = (let c = char_of (nat (v mod 256)) :: char in if c = CHR 0x5C then [] else [c])"

lemma char_values_eq:
  "(\<And>i. i < count \<Longrightarrow> - 2147483648 \<le> cur + int i * incr \<and> cur + int i * incr < 2147483648) \<Longrightarrow>
     char_values count cur incr = map (\<lambda>i. char_element (cur + int i * incr)) [0..<count]"
proof (induction count arbitrary: cur)
  case (Suc k)
  show ?case
  proof (cases "k = 0")
    case False
    then have wrap: "as_i32 (cur + incr) = cur + incr"
      using Suc.prems [of 1] by (simp add: as_i32_def)
    have "char_values k (cur + incr) incr = map (\<lambda>i. char_element (cur + incr + int i * incr)) [0..<k]"
    proof (rule Suc.IH)
      show "- 2147483648 \<le> cur + incr + int i * incr \<and> cur + incr + int i * incr < 2147483648" if "i < k" for i
        using Suc.prems [of "Suc i"] that by (simp add: algebra_simps)
    qed
    moreover have "[0..<Suc k] = 0 # map Suc [0..<k]" by (simp add: upt_conv_Cons map_Suc_upt)
    ultimately show ?thesis
      using False wrap by (simp add: o_def char_element_def Let_def algebra_simps del: upt_Suc)
  qed (simp add: char_element_def Let_def)
qed simp

text \<open>
  A character sequence steps from the first letter towards the second, as many elements as
  whole steps fit, and every element is a character between the two letters (a backslash on the
  way becomes the empty word); the 64-bit step is narrowed to 32 bits without ever changing an
  element, whatever its size.
\<close>

theorem char_range_steps:
  assumes "is_ascii_alphabetic s" "is_ascii_alphabetic e" "1 \<le> step"
  shows "char_range s e step =
      map (\<lambda>i. char_element (int (byte s) + int i * (if byte s \<le> byte e then step else - step)))
        [0..<nat (\<bar>int (byte e) - int (byte s)\<bar> div step) + 1]
    \<and> (\<forall>i \<le> nat (\<bar>int (byte e) - int (byte s)\<bar> div step).
         int (min (byte s) (byte e)) \<le> int (byte s) + int i * (if byte s \<le> byte e then step else - step)
         \<and> int (byte s) + int i * (if byte s \<le> byte e then step else - step) \<le> int (max (byte s) (byte e)))"
proof -
  let ?s = "int (byte s)" and ?e = "int (byte e)"
  let ?count = "nat (\<bar>?e - ?s\<bar> div step) + 1" and ?dir = "if ?s \<le> ?e then 1 else - 1 :: int"
  have letters: "65 \<le> ?s" "?s \<le> 122" "65 \<le> ?e" "?e \<le> 122"
    using assms by (auto simp: is_ascii_alphabetic_def is_ascii_lowercase_def is_ascii_uppercase_def)
  have between: "min ?s ?e \<le> ?s + int i * (if ?s \<le> ?e then step else - step)
      \<and> ?s + int i * (if ?s \<le> ?e then step else - step) \<le> max ?s ?e" if "i < ?count" for i
    using progression_between [OF assms(3), of i ?e ?s] that by simp
  have "nat \<bar>?s - ?e\<bar> div nat step = nat (\<bar>?e - ?s\<bar> div step)"
    using assms(3) by (simp add: nat_div_distrib abs_minus_commute)
  then have def: "char_range s e step = char_values ?count ?s (?dir * as_i32 step)"
    by (simp add: char_range_def Let_def)
  have eq: "char_values ?count ?s (?dir * as_i32 step)
      = map (\<lambda>i. char_element (?s + int i * (if ?s \<le> ?e then step else - step))) [0..<?count]"
  proof (cases "?count = 1")
    case True
    then show ?thesis by (simp add: char_element_def Let_def)
  next
    case False
    then have "step \<le> \<bar>?e - ?s\<bar>"
      using assms(3) by (cases "step \<le> \<bar>?e - ?s\<bar>") (auto simp: div_pos_pos_trivial)
    then have "as_i32 step = step" using letters assms(3) by (simp add: as_i32_def)
    moreover have "char_values ?count ?s (?dir * step)
        = map (\<lambda>i. char_element (?s + int i * (?dir * step))) [0..<?count]"
    proof (rule char_values_eq)
      show "- 2147483648 \<le> ?s + int i * (?dir * step) \<and> ?s + int i * (?dir * step) < 2147483648" if "i < ?count" for i
        using between [OF that] letters by (auto simp: min_def max_def split: if_splits)
    qed
    ultimately show ?thesis by auto
  qed
  show ?thesis
    unfolding def eq using between by (auto simp: of_nat_min of_nat_max)
qed

theorem char_range_steps_witness: "length (char_range (CHR ''a'') (CHR ''Z'') 1) = 8"
proof -
  have "is_ascii_alphabetic (CHR ''a'')" "is_ascii_alphabetic (CHR ''Z'')" by code_simp+
  from char_range_steps [OF this, of 1] show ?thesis by simp
qed

text \<open>
  The step's magnitude is at least one for every 64-bit step, so a zero step cannot loop; the one
  value whose magnitude does not fit, the minimum, is silently taken as one instead of
  falling back to the literal word.
\<close>

theorem step_magnitude_positive:
  assumes "in_i64 v"
  shows "1 \<le> step_magnitude v \<and> in_i64 (step_magnitude v)
    \<and> step_magnitude v = (if v = 0 \<or> v = i64_min then 1 else \<bar>v\<bar>)"
proof -
  have "wrap_i64 \<bar>i64_min\<bar> = i64_min" by (simp add: wrap_i64_def i64_min_def)
  moreover have "v \<noteq> i64_min \<Longrightarrow> in_i64 \<bar>v\<bar>" using assms by (auto simp: in_i64_iff i64_min_def)
  ultimately show ?thesis
    using assms by (cases "v = i64_min") (auto simp: step_magnitude_def wrap_i64_id i64_min_def in_i64_iff)
qed

theorem step_magnitude_positive_witness: "step_magnitude i64_min = 1"
  using step_magnitude_positive [of i64_min] by (simp add: in_i64_iff i64_min_def)

end
