(* ===== verification/Breakpoints.thy ===== *)
theory Breakpoints
  imports Ordmap
begin

section \<open>The debugger's breakpoint table (\<open>src/src/debugger/breakpoints.rs\<close>)\<close>

text \<open>
  The four entry kinds, one table keyed by id.  Ids and lines are 32-bit, hit counts 64-bit words, so
  the unchecked increments wrap as in the release build.  \<open>file_identity\<close>, which asks the file
  system (\<open>resolution.rs\<close>), is a parameter \<open>fid\<close> of the operations that use it.
\<close>

subsection \<open>Data\<close>

datatype breakpoint_id = BreakpointId u32

primrec number :: "breakpoint_id \<Rightarrow> u32" where
  "number (BreakpointId n) = n"

instantiation breakpoint_id :: linorder
begin

definition less_eq_breakpoint_id :: "breakpoint_id \<Rightarrow> breakpoint_id \<Rightarrow> bool" where
  "less_eq_breakpoint_id a b \<longleftrightarrow> number a \<le> number b"

definition less_breakpoint_id :: "breakpoint_id \<Rightarrow> breakpoint_id \<Rightarrow> bool" where
  "less_breakpoint_id a b \<longleftrightarrow> number a < number b"

instance
proof
  fix a b c :: breakpoint_id
  show "a < b \<longleftrightarrow> a \<le> b \<and> \<not> b \<le> a"
    by (simp add: less_eq_breakpoint_id_def less_breakpoint_id_def less_le_not_le)
  show "a \<le> a" by (simp add: less_eq_breakpoint_id_def)
  show "a \<le> b \<Longrightarrow> b \<le> c \<Longrightarrow> a \<le> c" by (auto simp: less_eq_breakpoint_id_def intro: order_trans)
  show "a \<le> b \<Longrightarrow> b \<le> a \<Longrightarrow> a = b"
    by (cases a; cases b) (auto simp: less_eq_breakpoint_id_def)
  show "a \<le> b \<or> b \<le> a" by (auto simp: less_eq_breakpoint_id_def)
qed

end

datatype breakpoint_kind = Line | Function | Watch | WatchExpression

definition is_watch :: "breakpoint_kind \<Rightarrow> bool" where
  "is_watch k \<longleftrightarrow> k = Watch \<or> k = WatchExpression"

datatype breakpoint_target = Line_Target string u32 | Function_Target string | Expression_Target string

datatype breakpoint_resolution = Verified | Unverified string | Pending

record watch_snapshot =
  ws_rendered :: "string option"
  ws_epoch :: "64 word option"

record breakpoint =
  bp_id :: breakpoint_id
  bp_kind :: breakpoint_kind
  bp_target :: breakpoint_target
  bp_enabled :: bool
  bp_one_shot :: bool
  bp_ignore_remaining :: u32
  bp_hit_count :: "64 word"
  bp_condition :: "string option"
  bp_commands :: "string list"
  bp_resolution :: breakpoint_resolution
  bp_watch_snapshot :: "watch_snapshot option"

definition breakpoint_new :: "breakpoint_id \<Rightarrow> breakpoint_kind \<Rightarrow> breakpoint_target \<Rightarrow> breakpoint" where
  "breakpoint_new i kind target =
     \<lparr>bp_id = i, bp_kind = kind, bp_target = target, bp_enabled = True, bp_one_shot = False,
      bp_ignore_remaining = 0, bp_hit_count = 0, bp_condition = None, bp_commands = [],
      bp_resolution = Verified, bp_watch_snapshot = None\<rparr>"

definition breakpoint_line :: "breakpoint_id \<Rightarrow> string \<Rightarrow> u32 \<Rightarrow> breakpoint" where
  "breakpoint_line i file line = breakpoint_new i Line (Line_Target file line)"

definition breakpoint_function :: "breakpoint_id \<Rightarrow> string \<Rightarrow> breakpoint" where
  "breakpoint_function i name =
     (breakpoint_new i Function (Function_Target name))\<lparr>bp_resolution := Pending\<rparr>"

definition breakpoint_watch :: "breakpoint_id \<Rightarrow> string \<Rightarrow> breakpoint" where
  "breakpoint_watch i name = breakpoint_new i Watch (Expression_Target name)"

definition breakpoint_watch_expression :: "breakpoint_id \<Rightarrow> string \<Rightarrow> breakpoint" where
  "breakpoint_watch_expression i expr = breakpoint_new i WatchExpression (Expression_Target expr)"

subsection \<open>One entry: hits and watch differences\<close>

datatype hit_flow = Flow_Disabled | Flow_Ignored | Flow_NeedsCondition | Flow_Stop

definition entry_register_hit :: "breakpoint \<Rightarrow> hit_flow \<times> breakpoint" where
  "entry_register_hit e =
     (if \<not> bp_enabled e then (Flow_Disabled, e)
      else let e1 = e\<lparr>bp_hit_count := bp_hit_count e + 1\<rparr>
           in if 0 < bp_ignore_remaining e1
              then (Flow_Ignored, e1\<lparr>bp_ignore_remaining := bp_ignore_remaining e1 - 1\<rparr>)
              else if bp_condition e1 \<noteq> None then (Flow_NeedsCondition, e1)
              else (Flow_Stop, e1))"

definition commands_are_silent :: "breakpoint \<Rightarrow> bool" where
  "commands_are_silent e = (case bp_commands e of [] \<Rightarrow> False | line # _ \<Rightarrow> str_trim line = ''silent'')"

definition diff_watch ::
    "string option \<Rightarrow> 64 word option \<Rightarrow> breakpoint \<Rightarrow> (string option \<times> string option) option \<times> breakpoint" where
  "diff_watch rendered epoch e = (case bp_watch_snapshot e of
       None \<Rightarrow> (None, e\<lparr>bp_watch_snapshot := Some \<lparr>ws_rendered = rendered, ws_epoch = epoch\<rparr>\<rparr>)
     | Some previous \<Rightarrow>
         (if ws_epoch previous \<noteq> None \<and> epoch \<noteq> None \<and> ws_epoch previous = epoch
          then (None, e\<lparr>bp_watch_snapshot := Some previous\<rparr>)
          else let changed = (ws_rendered previous \<noteq> rendered);
                   e' = e\<lparr>bp_watch_snapshot := Some \<lparr>ws_rendered = rendered, ws_epoch = epoch\<rparr>\<rparr>
               in (if changed then Some (ws_rendered previous, rendered) else None, e')))"

subsection \<open>The table\<close>

datatype hit_outcome =
    NoSuchEntry | Disabled | Ignored
  | NeedsCondition breakpoint_id
  | Stop breakpoint_id bool

record breakpoint_table =
  bt_entries :: "(breakpoint_id, breakpoint) btree_map"
  bt_next_number :: u32

definition breakpoint_table_new :: breakpoint_table where
  "breakpoint_table_new = \<lparr>bt_entries = [], bt_next_number = 1\<rparr>"

definition alloc_id :: "breakpoint_table \<Rightarrow> breakpoint_id \<times> breakpoint_table" where
  "alloc_id t = (BreakpointId (bt_next_number t), t\<lparr>bt_next_number := bt_next_number t + 1\<rparr>)"

definition insert_entry ::
    "(breakpoint_id \<Rightarrow> breakpoint) \<Rightarrow> breakpoint_table \<Rightarrow> breakpoint_id \<times> breakpoint_table" where
  "insert_entry mk t =
     (let (i, t') = alloc_id t in (i, t'\<lparr>bt_entries := bt_insert i (mk i) (bt_entries t')\<rparr>))"

definition insert_line ::
    "(string \<Rightarrow> string) \<Rightarrow> string \<Rightarrow> u32 \<Rightarrow> breakpoint_table \<Rightarrow> breakpoint_id \<times> breakpoint_table" where
  "insert_line fid file line = insert_entry (\<lambda>i. breakpoint_line i (fid file) line)"

definition insert_function :: "string \<Rightarrow> breakpoint_table \<Rightarrow> breakpoint_id \<times> breakpoint_table" where
  "insert_function name = insert_entry (\<lambda>i. breakpoint_function i name)"

definition insert_watch :: "string \<Rightarrow> breakpoint_table \<Rightarrow> breakpoint_id \<times> breakpoint_table" where
  "insert_watch name = insert_entry (\<lambda>i. breakpoint_watch i name)"

definition insert_watch_expression :: "string \<Rightarrow> breakpoint_table \<Rightarrow> breakpoint_id \<times> breakpoint_table" where
  "insert_watch_expression expr = insert_entry (\<lambda>i. breakpoint_watch_expression i expr)"

definition get_entry :: "breakpoint_table \<Rightarrow> breakpoint_id \<Rightarrow> breakpoint option" where
  "get_entry t i = bt_get (bt_entries t) i"

text \<open>A write through \<open>get_mut\<close>, as a function of the entry.\<close>

definition modify_entry :: "breakpoint_id \<Rightarrow> (breakpoint \<Rightarrow> breakpoint) \<Rightarrow> breakpoint_table \<Rightarrow> breakpoint_table" where
  "modify_entry i f t = t\<lparr>bt_entries := bt_modify i f (bt_entries t)\<rparr>"

definition remove_entry :: "breakpoint_id \<Rightarrow> breakpoint_table \<Rightarrow> breakpoint option \<times> breakpoint_table" where
  "remove_entry i t = (get_entry t i, t\<lparr>bt_entries := bt_remove i (bt_entries t)\<rparr>)"

definition clear_entries :: "breakpoint_table \<Rightarrow> breakpoint_table" where
  "clear_entries t = t\<lparr>bt_entries := []\<rparr>"

definition clear_at :: "(string \<Rightarrow> string) \<Rightarrow> string \<Rightarrow> u32 \<Rightarrow> breakpoint_table \<Rightarrow> nat \<times> breakpoint_table" where
  "clear_at fid file line t =
     (let doomed = map bp_id (filter (\<lambda>e. bp_target e = Line_Target (fid file) line)
                                (bt_values (bt_entries t)))
      in (length doomed, t\<lparr>bt_entries := foldl (\<lambda>m i. bt_remove i m) (bt_entries t) doomed\<rparr>))"

definition table_len :: "breakpoint_table \<Rightarrow> nat" where
  "table_len t = length (bt_entries t)"

definition table_is_empty :: "breakpoint_table \<Rightarrow> bool" where
  "table_is_empty t \<longleftrightarrow> bt_entries t = []"

definition table_iter :: "breakpoint_table \<Rightarrow> breakpoint list" where
  "table_iter t = bt_values (bt_entries t)"

definition line_entries_at :: "(string \<Rightarrow> string) \<Rightarrow> breakpoint_table \<Rightarrow> string \<Rightarrow> u32 \<Rightarrow> breakpoint list" where
  "line_entries_at fid t file line =
     filter (\<lambda>e. bp_enabled e \<and> bp_target e = Line_Target (fid file) line) (bt_values (bt_entries t))"

definition function_entries_named :: "breakpoint_table \<Rightarrow> string \<Rightarrow> breakpoint list" where
  "function_entries_named t name =
     filter (\<lambda>e. bp_enabled e \<and> bp_target e = Function_Target name) (bt_values (bt_entries t))"

definition watch_entries :: "breakpoint_table \<Rightarrow> breakpoint list" where
  "watch_entries t = filter (\<lambda>e. is_watch (bp_kind e)) (bt_values (bt_entries t))"

definition has_enabled_seam_entries :: "breakpoint_table \<Rightarrow> bool" where
  "has_enabled_seam_entries t =
     list_ex (\<lambda>e. bp_enabled e \<and> (bp_kind e = Line \<or> bp_kind e = Function)) (bt_values (bt_entries t))"

text \<open>The setters: false, and nothing changed, for an unknown id.\<close>

definition set_field ::
    "breakpoint_id \<Rightarrow> (breakpoint \<Rightarrow> breakpoint) \<Rightarrow> breakpoint_table \<Rightarrow> bool \<times> breakpoint_table" where
  "set_field i f t = (case get_entry t i of None \<Rightarrow> (False, t) | Some _ \<Rightarrow> (True, modify_entry i f t))"

definition set_enabled :: "breakpoint_id \<Rightarrow> bool \<Rightarrow> breakpoint_table \<Rightarrow> bool \<times> breakpoint_table" where
  "set_enabled i enabled = set_field i (\<lambda>e. e\<lparr>bp_enabled := enabled\<rparr>)"

definition set_ignore :: "breakpoint_id \<Rightarrow> u32 \<Rightarrow> breakpoint_table \<Rightarrow> bool \<times> breakpoint_table" where
  "set_ignore i count = set_field i (\<lambda>e. e\<lparr>bp_ignore_remaining := count\<rparr>)"

definition set_condition :: "breakpoint_id \<Rightarrow> string option \<Rightarrow> breakpoint_table \<Rightarrow> bool \<times> breakpoint_table" where
  "set_condition i condition = set_field i (\<lambda>e. e\<lparr>bp_condition := condition\<rparr>)"

definition set_commands :: "breakpoint_id \<Rightarrow> string list \<Rightarrow> breakpoint_table \<Rightarrow> bool \<times> breakpoint_table" where
  "set_commands i commands = set_field i (\<lambda>e. e\<lparr>bp_commands := commands\<rparr>)"

definition set_resolution ::
    "breakpoint_id \<Rightarrow> breakpoint_resolution \<Rightarrow> breakpoint_table \<Rightarrow> bool \<times> breakpoint_table" where
  "set_resolution i resolution = set_field i (\<lambda>e. e\<lparr>bp_resolution := resolution\<rparr>)"

definition register_hit :: "breakpoint_id \<Rightarrow> breakpoint_table \<Rightarrow> hit_outcome \<times> breakpoint_table" where
  "register_hit i t = (case get_entry t i of
       None \<Rightarrow> (NoSuchEntry, t)
     | Some e \<Rightarrow>
         let one_shot = bp_one_shot e;
             (flow, e') = entry_register_hit e;
             t' = t\<lparr>bt_entries := bt_insert i e' (bt_entries t)\<rparr>
         in case flow of
              Flow_Disabled \<Rightarrow> (Disabled, t')
            | Flow_Ignored \<Rightarrow> (Ignored, t')
            | Flow_NeedsCondition \<Rightarrow> (NeedsCondition i, t')
            | Flow_Stop \<Rightarrow>
                (Stop i one_shot,
                 if one_shot then t'\<lparr>bt_entries := bt_remove i (bt_entries t')\<rparr> else t'))"

definition commit_conditional_stop :: "breakpoint_id \<Rightarrow> breakpoint_table \<Rightarrow> bool \<times> breakpoint_table" where
  "commit_conditional_stop i t =
     (let consumed = (case get_entry t i of None \<Rightarrow> False | Some e \<Rightarrow> bp_one_shot e)
      in (consumed, if consumed then t\<lparr>bt_entries := bt_remove i (bt_entries t)\<rparr> else t))"

end
