(* ===== verification/Session.thy ===== *)
theory Session
  imports Breakpoints
begin

section \<open>The debug session (\<open>src/src/debugger/session.rs\<close>, \<open>event.rs\<close>, \<open>stepping.rs\<close>)\<close>

text \<open>
  The event vocabulary, the stepping rules and the session state machine.  Values the session only
  stores for the executor (the inspection snapshot, an evaluation outcome, a syntax view) are type
  variables.  Frame depths are \<open>usize\<close> and only compared, so \<open>nat\<close>; statuses and signals are
  \<open>int\<close>.  The atomic stop flag is a boolean of the session: its stores and swaps are steps.  A
  transition returns \<open>Inl\<close> of the error and the unchanged session, or \<open>Inr ()\<close>.
\<close>

subsection \<open>Events\<close>

record source_location =
  sl_file :: string
  sl_line :: u32

datatype seam_kind =
    SimpleCommand | Conditional | Arithmetic | TimeInner | BackgroundLaunch | CaseHead | SelectHead
  | ForHead | ArithForInit | ArithForTest | ArithForUpdate | PipelineElement | FunctionEntry
  | FunctionReturn | SourceReturn | BoundaryPoll | ExitPath

datatype exception_kind = ErrTrap | Errexit | ParseError

datatype stop_reason =
    Entry
  | Breakpoint breakpoint_id
  | FunctionBreakpoint breakpoint_id
  | Step
  | Watchpoint breakpoint_id
  | Pause
  | Exception exception_kind

record stop_info =
  si_reason :: stop_reason
  si_location :: "source_location option"
  si_seam :: "seam_kind option"
  si_frame_depth :: nat
  si_command_text :: "string option"

definition stop_info_entry :: stop_info where
  "stop_info_entry = \<lparr>si_reason = Entry, si_location = None, si_seam = None, si_frame_depth = 0,
     si_command_text = None\<rparr>"

datatype return_route = Route_Completed | EntrySkipped | EntryForceReturn | SourcedFile

record frame_return =
  fr_function :: "string option"
  fr_frame_depth :: nat
  fr_status :: int
  fr_route :: return_route

record watch_change =
  wc_id :: breakpoint_id
  wc_expression :: string
  wc_old_value :: "string option"
  wc_new_value :: "string option"

record exception_site =
  ex_kind :: exception_kind
  ex_status :: int
  ex_location :: "source_location option"

datatype synthesized_frame_kind = Subshell | CommandSubstitution

datatype output_stream = Stdout | Stderr | Console

datatype debug_event =
    SessionStarted
  | Stopped_Event stop_info
  | FrameReturned frame_return
  | WatchChanged watch_change
  | ExceptionSite exception_site
  | AsyncStopServiced
  | DebuggeeDied int
  | SessionExited int
  | OutputProduced output_stream string
  | BreakpointResolved breakpoint_id breakpoint_resolution
  | SynthesizedFrameEntered synthesized_frame_kind nat
  | SynthesizedFrameExited synthesized_frame_kind nat

fun catalogue_id :: "debug_event \<Rightarrow> string" where
  "catalogue_id SessionStarted = ''DE-01''"
| "catalogue_id (Stopped_Event info) = (if si_seam info = Some FunctionEntry then ''DE-03'' else ''DE-02'')"
| "catalogue_id (FrameReturned _) = ''DE-04''"
| "catalogue_id (WatchChanged _) = ''DE-05''"
| "catalogue_id (ExceptionSite _) = ''DE-06''"
| "catalogue_id AsyncStopServiced = ''DE-07''"
| "catalogue_id (DebuggeeDied _) = ''DE-08''"
| "catalogue_id (SessionExited _) = ''DE-09''"
| "catalogue_id (OutputProduced _ _) = ''DE-10''"
| "catalogue_id (BreakpointResolved _ _) = ''DE-11''"
| "catalogue_id (SynthesizedFrameEntered _ _) = ''DE-12''"
| "catalogue_id (SynthesizedFrameExited _ _) = ''DE-12''"

subsection \<open>Stepping rules\<close>

datatype step_arming =
    Continue
  | StepInto
  | StepOver nat
  | Finish nat
  | StepInFile
  | StepOutOfFrame nat

fun arming_stops_at_seam :: "step_arming \<Rightarrow> nat \<Rightarrow> bool" where
  "arming_stops_at_seam Continue depth = False"
| "arming_stops_at_seam StepInto depth = True"
| "arming_stops_at_seam (StepOver max_depth) depth = (depth \<le> max_depth)"
| "arming_stops_at_seam (Finish frame_depth) depth = (depth < frame_depth)"
| "arming_stops_at_seam (StepOutOfFrame frame_depth) depth = (depth < frame_depth)"
| "arming_stops_at_seam StepInFile depth = False"

definition arming_stops_at_seam_in_file ::
    "step_arming \<Rightarrow> nat \<Rightarrow> string option \<Rightarrow> string option \<Rightarrow> bool" where
  "arming_stops_at_seam_in_file arming depth seam_identity step_file_scope =
     (case arming of
        StepInFile \<Rightarrow> (case (seam_identity, step_file_scope) of
            (Some seam, Some scope) \<Rightarrow> seam = scope | _ \<Rightarrow> False)
      | other \<Rightarrow> arming_stops_at_seam other depth)"

definition arming_stops_at_frame_return :: "step_arming \<Rightarrow> frame_return \<Rightarrow> bool" where
  "arming_stops_at_frame_return arming frame =
     (case arming of Finish frame_depth \<Rightarrow> frame_depth = fr_frame_depth frame | _ \<Rightarrow> False)"

subsection \<open>The session\<close>

datatype session_state = Stopped | Running | Terminated

datatype session_end = Exited int | Killed int

fun termination_status :: "session_end \<Rightarrow> int" where
  "termination_status (Exited status) = status"
| "termination_status (Killed signal) = 128 + signal"

datatype session_error = NotStopped | NotRunning | AlreadyTerminated

definition EXCEPTION_FILTER_IDS :: "string list" where
  "EXCEPTION_FILTER_IDS = [''err-trap'', ''set -e'', ''parse-error'']"

fun exception_filter_id :: "exception_kind \<Rightarrow> string" where
  "exception_filter_id ErrTrap = ''err-trap''"
| "exception_filter_id Errexit = ''set -e''"
| "exception_filter_id ParseError = ''parse-error''"

record ('insp, 'eval, 'view) debug_session =
  ds_state :: session_state
  ds_last_stop :: "stop_info option"
  ds_arming :: step_arming
  ds_breakpoints :: breakpoint_table
  ds_async_stop :: bool
  ds_termination :: "session_end option"
  ds_pending_events :: "debug_event list"
  ds_inspection :: "'insp option"
  ds_last_evaluation :: "'eval option"
  ds_syntax_views :: "string \<rightharpoonup> 'view"
  ds_defined_functions :: "string set"
  ds_step_file_scope :: "string option"
  ds_exception_filters :: "string set"
  ds_last_exception :: "exception_site option"

definition emit :: "debug_event \<Rightarrow> ('i, 'e, 'v) debug_session \<Rightarrow> ('i, 'e, 'v) debug_session" where
  "emit ev s = s\<lparr>ds_pending_events := ds_pending_events s @ [ev]\<rparr>"

definition session_new :: "('i, 'e, 'v) debug_session" where
  "session_new =
     emit (Stopped_Event stop_info_entry) (emit SessionStarted
       \<lparr>ds_state = Stopped, ds_last_stop = Some stop_info_entry, ds_arming = Continue,
        ds_breakpoints = breakpoint_table_new, ds_async_stop = False, ds_termination = None,
        ds_pending_events = [], ds_inspection = None, ds_last_evaluation = None,
        ds_syntax_views = Map.empty, ds_defined_functions = {}, ds_step_file_scope = None,
        ds_exception_filters = {}, ds_last_exception = None\<rparr>)"

definition is_running :: "('i, 'e, 'v) debug_session \<Rightarrow> bool" where
  "is_running s \<longleftrightarrow> ds_state s = Running"

definition is_stopped :: "('i, 'e, 'v) debug_session \<Rightarrow> bool" where
  "is_stopped s \<longleftrightarrow> ds_state s = Stopped"

definition is_terminated :: "('i, 'e, 'v) debug_session \<Rightarrow> bool" where
  "is_terminated s \<longleftrightarrow> ds_state s = Terminated"

definition set_inspection :: "'i \<Rightarrow> ('i, 'e, 'v) debug_session \<Rightarrow> ('i, 'e, 'v) debug_session" where
  "set_inspection inspection s = s\<lparr>ds_inspection := Some inspection\<rparr>"

definition set_last_evaluation :: "'e \<Rightarrow> ('i, 'e, 'v) debug_session \<Rightarrow> ('i, 'e, 'v) debug_session" where
  "set_last_evaluation outcome s = s\<lparr>ds_last_evaluation := Some outcome\<rparr>"

definition set_step_file_scope :: "string option \<Rightarrow> ('i, 'e, 'v) debug_session \<Rightarrow> ('i, 'e, 'v) debug_session" where
  "set_step_file_scope identity s = s\<lparr>ds_step_file_scope := identity\<rparr>"

definition set_exception_filters ::
    "string list \<Rightarrow> ('i, 'e, 'v) debug_session \<Rightarrow> (string list + unit) \<times> ('i, 'e, 'v) debug_session" where
  "set_exception_filters ids s =
     (let selected = filter (\<lambda>i. i \<in> set EXCEPTION_FILTER_IDS) ids;
          unknown = filter (\<lambda>i. i \<notin> set EXCEPTION_FILTER_IDS) ids
      in if unknown \<noteq> [] then (Inl unknown, s)
         else (Inr (), s\<lparr>ds_exception_filters := set selected\<rparr>))"

definition exception_filters :: "('i, 'e, 'v) debug_session \<Rightarrow> string list" where
  "exception_filters s = filter (\<lambda>i. i \<in> ds_exception_filters s) EXCEPTION_FILTER_IDS"

definition exception_filter_covers :: "('i, 'e, 'v) debug_session \<Rightarrow> exception_kind \<Rightarrow> bool" where
  "exception_filter_covers s kind \<longleftrightarrow> exception_filter_id kind \<in> ds_exception_filters s"

definition note_exception_site :: "exception_site \<Rightarrow> ('i, 'e, 'v) debug_session \<Rightarrow> ('i, 'e, 'v) debug_session" where
  "note_exception_site site s = s\<lparr>ds_last_exception := Some site\<rparr>"

definition can_stop_at_seam :: "('i, 'e, 'v) debug_session \<Rightarrow> bool" where
  "can_stop_at_seam s \<longleftrightarrow>
     is_running s \<and> (ds_arming s \<noteq> Continue \<or> has_enabled_seam_entries (ds_breakpoints s))"

definition drain_events :: "('i, 'e, 'v) debug_session \<Rightarrow> debug_event list \<times> ('i, 'e, 'v) debug_session" where
  "drain_events s = (ds_pending_events s, s\<lparr>ds_pending_events := []\<rparr>)"

definition pending_event_count :: "('i, 'e, 'v) debug_session \<Rightarrow> nat" where
  "pending_event_count s = length (ds_pending_events s)"

definition resume ::
    "step_arming \<Rightarrow> ('i, 'e, 'v) debug_session \<Rightarrow> (session_error + unit) \<times> ('i, 'e, 'v) debug_session" where
  "resume arming s = (case ds_state s of
       Terminated \<Rightarrow> (Inl AlreadyTerminated, s)
     | Running \<Rightarrow> (Inl NotStopped, s)
     | Stopped \<Rightarrow> (Inr (), s\<lparr>ds_state := Running, ds_arming := arming\<rparr>))"

definition is_exception_reason :: "stop_reason \<Rightarrow> bool" where
  "is_exception_reason r = (case r of Exception _ \<Rightarrow> True | _ \<Rightarrow> False)"

definition stop_session ::
    "stop_info \<Rightarrow> ('i, 'e, 'v) debug_session \<Rightarrow> (session_error + unit) \<times> ('i, 'e, 'v) debug_session" where
  "stop_session info s = (case ds_state s of
       Terminated \<Rightarrow> (Inl AlreadyTerminated, s)
     | Stopped \<Rightarrow> (Inl NotRunning, s)
     | Running \<Rightarrow>
         let s1 = s\<lparr>ds_state := Stopped, ds_arming := Continue\<rparr>;
             s2 = (if \<not> is_exception_reason (si_reason info) then s1\<lparr>ds_last_exception := None\<rparr> else s1);
             s3 = s2\<lparr>ds_last_stop := Some info\<rparr>
         in (Inr (), emit (Stopped_Event info) s3))"

definition exit_session ::
    "int \<Rightarrow> ('i, 'e, 'v) debug_session \<Rightarrow> (session_error + unit) \<times> ('i, 'e, 'v) debug_session" where
  "exit_session status s =
     (if ds_state s = Terminated then (Inl AlreadyTerminated, s)
      else (Inr (), emit (SessionExited status)
              (s\<lparr>ds_state := Terminated, ds_termination := Some (Exited status)\<rparr>)))"

definition die_session ::
    "int \<Rightarrow> ('i, 'e, 'v) debug_session \<Rightarrow> (session_error + unit) \<times> ('i, 'e, 'v) debug_session" where
  "die_session signal s =
     (if ds_state s = Terminated then (Inl AlreadyTerminated, s)
      else (Inr (), emit (DebuggeeDied signal)
              (s\<lparr>ds_state := Terminated, ds_termination := Some (Killed signal)\<rparr>)))"

definition request_async_stop :: "('i, 'e, 'v) debug_session \<Rightarrow> ('i, 'e, 'v) debug_session" where
  "request_async_stop s = s\<lparr>ds_async_stop := True\<rparr>"

definition take_async_stop :: "('i, 'e, 'v) debug_session \<Rightarrow> bool \<times> ('i, 'e, 'v) debug_session" where
  "take_async_stop s = (ds_async_stop s, s\<lparr>ds_async_stop := False\<rparr>)"

end
