(* ===== verification/BreakpointsCorrect.thy ===== *)
theory BreakpointsCorrect
  imports Breakpoints Machine
begin

section \<open>The breakpoint table: invariant and behaviour\<close>

text \<open>
  \<open>bps_ok\<close>: entries are keyed by their own id, every id was allocated, kinds agree with targets, and
  line targets hold canonical identities.  It is an invariant of \<open>bp_step\<close> (an interpretation of
  \<open>machine_invariant\<close>).  Then: ids are never reused, the account of a hit, the exact effect of
  \<open>clear\<close> at a line, the seam fast exit, and the differences a watch reports.
\<close>

subsection \<open>Well-formed tables\<close>

definition kind_target_ok :: "(string \<Rightarrow> string) \<Rightarrow> breakpoint \<Rightarrow> bool" where
  "kind_target_ok fid e = (case bp_target e of
       Line_Target f _ \<Rightarrow> bp_kind e = Line \<and> (\<exists>g. f = fid g)
     | Function_Target _ \<Rightarrow> bp_kind e = Function
     | Expression_Target _ \<Rightarrow> is_watch (bp_kind e))"

definition entry_ok :: "(string \<Rightarrow> string) \<Rightarrow> u32 \<Rightarrow> breakpoint_id \<Rightarrow> breakpoint \<Rightarrow> bool" where
  "entry_ok fid next_n i e \<longleftrightarrow> bp_id e = i \<and> 0 < number i \<and> number i < next_n \<and> kind_target_ok fid e"

definition bps_ok :: "(string \<Rightarrow> string) \<Rightarrow> breakpoint_table \<Rightarrow> bool" where
  "bps_ok fid t \<longleftrightarrow> bt_wf (bt_entries t) \<and> 0 < bt_next_number t
     \<and> (\<forall>i e. get_entry t i = Some e \<longrightarrow> entry_ok fid (bt_next_number t) i e)"

lemma bps_okD:
  "bps_ok fid t \<Longrightarrow> bt_wf (bt_entries t)" "bps_ok fid t \<Longrightarrow> 0 < bt_next_number t"
  "bps_ok fid t \<Longrightarrow> get_entry t i = Some e \<Longrightarrow> entry_ok fid (bt_next_number t) i e"
  by (simp_all add: bps_ok_def)

lemma bps_ok_subset:
  assumes "bps_ok fid t" "bt_wf m" "\<And>i e. bt_get m i = Some e \<Longrightarrow> get_entry t i = Some e"
  shows "bps_ok fid (t\<lparr>bt_entries := m\<rparr>)"
  using assms by (auto simp: bps_ok_def get_entry_def)

lemma bps_ok_remove: "bps_ok fid t \<Longrightarrow> bps_ok fid (t\<lparr>bt_entries := bt_remove i (bt_entries t)\<rparr>)"
  by (rule bps_ok_subset) (auto simp: bps_ok_def bt_wf_remove bt_get_remove get_entry_def split: if_splits)

lemma bps_ok_insert:
  assumes ok: "bps_ok fid t" and room: "bt_next_number t \<noteq> - 1"
    and mk: "bp_id (mk (BreakpointId (bt_next_number t))) = BreakpointId (bt_next_number t)"
    and target: "kind_target_ok fid (mk (BreakpointId (bt_next_number t)))"
  shows "bps_ok fid (snd (insert_entry mk t))"
proof -
  have less: "bt_next_number t < bt_next_number t + 1" using room by (rule word_less_succ)
  then have "0 < bt_next_number t + 1" using bps_okD(2) [OF ok] by (rule order.strict_trans [rotated])
  moreover have "entry_ok fid (bt_next_number t + 1) i e" if "get_entry t i = Some e" for i e
    using bps_okD(3) [OF ok that] less by (auto simp: entry_ok_def)
  ultimately show ?thesis
    using ok less mk target bps_okD(2) [OF ok]
    by (auto simp: bps_ok_def insert_entry_def alloc_id_def get_entry_def bt_wf_insert bt_get_insert
        entry_ok_def split: if_splits)
qed

lemma kind_target_ok_new [simp]:
  "kind_target_ok fid (breakpoint_line i (fid f) l)" "kind_target_ok fid (breakpoint_function i name)"
  "kind_target_ok fid (breakpoint_watch i name)" "kind_target_ok fid (breakpoint_watch_expression i name)"
  by (auto simp: kind_target_ok_def breakpoint_line_def breakpoint_function_def breakpoint_watch_def
      breakpoint_watch_expression_def breakpoint_new_def is_watch_def)

lemma bp_id_new [simp]:
  "bp_id (breakpoint_line i f l) = i" "bp_id (breakpoint_function i name) = i"
  "bp_id (breakpoint_watch i name) = i" "bp_id (breakpoint_watch_expression i name) = i"
  by (simp_all add: breakpoint_line_def breakpoint_function_def breakpoint_watch_def
      breakpoint_watch_expression_def breakpoint_new_def)

text \<open>An update that keeps identity, kind and target.\<close>

definition keeps_identity :: "(breakpoint \<Rightarrow> breakpoint) \<Rightarrow> bool" where
  "keeps_identity f \<longleftrightarrow> (\<forall>e. bp_id (f e) = bp_id e \<and> bp_kind (f e) = bp_kind e \<and> bp_target (f e) = bp_target e)"

lemma entry_ok_keeps: "keeps_identity f \<Longrightarrow> entry_ok fid n i (f e) = entry_ok fid n i e"
  by (simp add: keeps_identity_def entry_ok_def kind_target_ok_def split: breakpoint_target.split)

lemma bps_ok_modify: "bps_ok fid t \<Longrightarrow> keeps_identity f \<Longrightarrow> bps_ok fid (modify_entry i f t)"
  by (auto simp: bps_ok_def modify_entry_def get_entry_def entry_ok_keeps split: if_splits)

lemma bps_ok_clear: "bps_ok fid t \<Longrightarrow> bps_ok fid (t\<lparr>bt_entries := []\<rparr>)"
  by (rule bps_ok_subset) simp_all

lemma bps_ok_set_field: "bps_ok fid t \<Longrightarrow> keeps_identity f \<Longrightarrow> bps_ok fid (snd (set_field i f t))"
  by (auto simp: set_field_def bps_ok_modify split: option.split)

lemmas setters = set_enabled_def set_ignore_def set_condition_def set_commands_def set_resolution_def

lemma get_entry_modify:
  "get_entry (modify_entry i f t) k = (if k = i then map_option f (get_entry t i) else get_entry t k)"
  by (simp add: get_entry_def modify_entry_def)

text \<open>A hit on a present entry rewrites it in place, and deletes it when it was a one-shot that stops.\<close>

lemma register_hit_present:
  assumes ok: "bps_ok fid t" and e: "get_entry t i = Some e"
  shows "snd (register_hit i t) =
    (if fst (entry_register_hit e) = Flow_Stop \<and> bp_one_shot e
     then t\<lparr>bt_entries := bt_remove i (bt_modify i (snd \<circ> entry_register_hit) (bt_entries t))\<rparr>
     else modify_entry i (snd \<circ> entry_register_hit) t)"
  using bt_insert_present [of "bt_entries t" i e "snd \<circ> entry_register_hit"] bps_okD(1) [OF ok] e
  by (auto simp: register_hit_def modify_entry_def get_entry_def Let_def split: prod.split hit_flow.split)

lemma keeps_identity_hit [simp]: "keeps_identity (snd \<circ> entry_register_hit)"
  by (auto simp: keeps_identity_def entry_register_hit_def Let_def)

lemma bps_ok_register_hit: "bps_ok fid t \<Longrightarrow> bps_ok fid (snd (register_hit i t))"
proof (cases "get_entry t i")
  case (Some e)
  assume ok: "bps_ok fid t"
  then have "bps_ok fid (modify_entry i (snd \<circ> entry_register_hit) t)" by (rule bps_ok_modify) simp
  from this bps_ok_remove [OF this, of i] show ?thesis
    by (simp add: register_hit_present [OF ok Some] modify_entry_def)
qed (simp add: register_hit_def)

lemma remove_all_filter:
  "foldl (\<lambda>m i. bt_remove i m) m is = filter (\<lambda>kv. fst kv \<notin> set is) m"
proof (induction "is" arbitrary: m)
  case (Cons a "is")
  show ?case unfolding foldl.simps Cons by (auto simp: bt_remove_def intro!: filter_cong)
qed simp

lemma bps_ok_clear_at: "bps_ok fid t \<Longrightarrow> bps_ok fid (snd (clear_at fid file line t))"
  unfolding clear_at_def Let_def snd_conv
  by (rule bps_ok_subset)
    (auto simp: bps_ok_def bt.wf_del_all bt.get_del_all get_entry_def split: if_splits)

subsection \<open>The step relation\<close>

text \<open>
  One rule per operation; \<open>get_mut\<close> is any update that keeps the identity fields, as its callers do.
  An insertion needs an id left (the counter is 32 bits wide).
\<close>

inductive bp_step :: "(string \<Rightarrow> string) \<Rightarrow> breakpoint_table \<Rightarrow> breakpoint_table \<Rightarrow> bool"
  for fid :: "string \<Rightarrow> string" where
  bp_insert_line: "bt_next_number t \<noteq> - 1 \<Longrightarrow> bp_step fid t (snd (insert_line fid file line t))"
| bp_insert_function: "bt_next_number t \<noteq> - 1 \<Longrightarrow> bp_step fid t (snd (insert_function name t))"
| bp_insert_watch: "bt_next_number t \<noteq> - 1 \<Longrightarrow> bp_step fid t (snd (insert_watch name t))"
| bp_insert_watche: "bt_next_number t \<noteq> - 1 \<Longrightarrow> bp_step fid t (snd (insert_watch_expression name t))"
| bp_get_mut: "keeps_identity f \<Longrightarrow> bp_step fid t (modify_entry i f t)"
| bp_remove: "bp_step fid t (snd (remove_entry i t))"
| bp_clear: "bp_step fid t (clear_entries t)"
| bp_clear_at: "bp_step fid t (snd (clear_at fid file line t))"
| bp_set_enabled: "bp_step fid t (snd (set_enabled i b t))"
| bp_set_ignore: "bp_step fid t (snd (set_ignore i n t))"
| bp_set_condition: "bp_step fid t (snd (set_condition i c t))"
| bp_set_commands: "bp_step fid t (snd (set_commands i cs t))"
| bp_set_resolution: "bp_step fid t (snd (set_resolution i r t))"
| bp_register_hit: "bp_step fid t (snd (register_hit i t))"
| bp_commit: "bp_step fid t (snd (commit_conditional_stop i t))"

inductive_cases bp_stepE: "bp_step fid t t'"

lemmas inserts = insert_line_def insert_function_def insert_watch_def insert_watch_expression_def

lemma bps_ok_step: "bps_ok fid t \<Longrightarrow> bp_step fid t t' \<Longrightarrow> bps_ok fid t'"
  by (erule bp_stepE)
    (simp_all add: inserts bps_ok_insert bps_ok_modify remove_entry_def bps_ok_remove clear_entries_def
      bps_ok_clear bps_ok_clear_at setters bps_ok_set_field keeps_identity_def bps_ok_register_hit
      commit_conditional_stop_def Let_def)

lemma bps_ok_new: "bps_ok fid breakpoint_table_new"
  by (simp add: bps_ok_def breakpoint_table_new_def get_entry_def)

interpretation breakpoints: machine_invariant "\<lambda>t. t = breakpoint_table_new" "bp_step fid" "bps_ok fid" for fid
  by unfold_locales (auto simp: bps_ok_new intro: bps_ok_step)

abbreviation bp_reachable :: "(string \<Rightarrow> string) \<Rightarrow> breakpoint_table \<Rightarrow> bool" where
  "bp_reachable fid \<equiv> reach (\<lambda>t. t = breakpoint_table_new) (bp_step fid)"

text \<open>A table with an entry of each kind, for a file system without links.\<close>

definition plain :: "string \<Rightarrow> string" where
  "plain f = f"

definition sample_table :: breakpoint_table where
  "sample_table = snd (set_ignore (BreakpointId 1) 2
     (snd (insert_watch ''x'' (snd (insert_line plain ''a.sh'' 10 breakpoint_table_new)))))"

lemma sample_reachable: "bp_reachable plain sample_table"
proof -
  have new: "bp_reachable plain breakpoint_table_new" by (rule reach_init) (rule refl)
  have line: "bp_reachable plain (snd (insert_line plain ''a.sh'' 10 breakpoint_table_new))"
    by (rule reach_step [OF new], rule bp_insert_line, code_simp)
  have watch: "bp_reachable plain (snd (insert_watch ''x'' (snd (insert_line plain ''a.sh'' 10 breakpoint_table_new))))"
    by (rule reach_step [OF line], rule bp_insert_watch, code_simp)
  show ?thesis unfolding sample_table_def by (rule reach_step [OF watch], rule bp_set_ignore)
qed

lemma sample_ok: "bps_ok plain sample_table"
  by (rule breakpoints.reach_inv [OF sample_reachable])

text \<open>
  C16. Every reachable table keys each entry by its own id; every id in it was handed out (it is at
  least one and below the counter), the kind agrees with the target, and a line target holds a
  canonical file identity, whatever spelling it was set with.
\<close>

theorem breakpoint_table_invariant:
  assumes "bp_reachable fid t" and "get_entry t i = Some e"
  shows "bp_id e = i \<and> 0 < number i \<and> number i < bt_next_number t \<and> kind_target_ok fid e"
  using bps_okD(3) [OF breakpoints.reach_inv [OF assms(1)] assms(2)] by (simp add: entry_ok_def)

theorem breakpoint_table_invariant_witness:
  "case get_entry sample_table (BreakpointId 2) of None \<Rightarrow> False
   | Some e \<Rightarrow> bp_id e = BreakpointId 2 \<and> kind_target_ok plain e"
proof -
  have "get_entry sample_table (BreakpointId 2) \<noteq> None" by code_simp
  then show ?thesis using breakpoint_table_invariant [OF sample_reachable] by (auto split: option.split)
qed

subsection \<open>Ids are never reused\<close>

lemma next_number_step: "bp_step fid t t' \<Longrightarrow> bt_next_number t \<le> bt_next_number t'"
proof (erule bp_stepE)
  have ins: "bt_next_number t \<noteq> - 1 \<Longrightarrow> bt_next_number t \<le> bt_next_number (snd (insert_entry mk t))" for mk
    using word_less_succ [of "bt_next_number t"] by (simp add: insert_entry_def alloc_id_def)
  have set: "bt_next_number (snd (set_field i f t)) = bt_next_number t" for i f
    by (simp add: set_field_def modify_entry_def split: option.split)
  show "t' = snd (register_hit i t) \<Longrightarrow> ?thesis" for i
    by (simp add: register_hit_def Let_def split: option.split prod.split hit_flow.split)
  show "t' = snd (insert_line fid f l t) \<Longrightarrow> bt_next_number t \<noteq> - 1 \<Longrightarrow> ?thesis" for f l
    using ins by (simp add: inserts)
  show "t' = snd (insert_function n t) \<Longrightarrow> bt_next_number t \<noteq> - 1 \<Longrightarrow> ?thesis" for n
    using ins by (simp add: inserts)
  show "t' = snd (insert_watch n t) \<Longrightarrow> bt_next_number t \<noteq> - 1 \<Longrightarrow> ?thesis" for n
    using ins by (simp add: inserts)
  show "t' = snd (insert_watch_expression n t) \<Longrightarrow> bt_next_number t \<noteq> - 1 \<Longrightarrow> ?thesis" for n
    using ins by (simp add: inserts)
qed (simp_all add: modify_entry_def remove_entry_def clear_entries_def clear_at_def setters
    set_field_def commit_conditional_stop_def Let_def split: option.split)

lemma next_number_steps: "(bp_step fid)\<^sup>*\<^sup>* t t' \<Longrightarrow> bt_next_number t \<le> bt_next_number t'"
  by (induction rule: rtranclp_induct) (auto intro: order_trans next_number_step)

text \<open>
  An id is never handed out twice in a session: whatever happens to the table after an
  insertion (deletions and \<open>clear\<close> included), every later insertion gets a greater id, as long as the
  32-bit counter has not been exhausted.
\<close>

theorem breakpoint_ids_fresh:
  assumes "bt_next_number t \<noteq> - 1" and "insert_entry mk t = (i, t1)"
    and "(bp_step fid)\<^sup>*\<^sup>* t1 t2" and "insert_entry mk' t2 = (i', t3)"
  shows "i < i'"
proof -
  have "number i < bt_next_number t1" "bt_next_number t1 \<le> bt_next_number t2" "number i' = bt_next_number t2"
    using assms word_less_succ [of "bt_next_number t"] next_number_steps
    by (auto simp: insert_entry_def alloc_id_def)
  then show ?thesis by (simp add: less_breakpoint_id_def)
qed

theorem breakpoint_ids_fresh_witness:
  "BreakpointId 1 < fst (insert_line plain ''b.sh'' 3 (clear_entries (snd (insert_function ''f'' breakpoint_table_new))))"
proof -
  let ?t1 = "snd (insert_function ''f'' breakpoint_table_new)"
  have room: "bt_next_number breakpoint_table_new \<noteq> - 1" by code_simp
  have first: "insert_entry (\<lambda>i. breakpoint_function i ''f'') breakpoint_table_new = (BreakpointId 1, ?t1)"
    by code_simp
  have steps: "(bp_step plain)\<^sup>*\<^sup>* ?t1 (clear_entries ?t1)"
    by (rule r_into_rtranclp) (rule bp_clear)
  show ?thesis
    unfolding insert_line_def by (rule breakpoint_ids_fresh [OF room first steps prod.collapse [symmetric]])
qed

subsection \<open>The account of hits\<close>

fun hit_run :: "nat \<Rightarrow> breakpoint_id \<Rightarrow> breakpoint_table \<Rightarrow> hit_outcome list \<times> breakpoint_table" where
  "hit_run 0 i t = ([], t)"
| "hit_run (Suc n) i t =
     (let (out, t1) = register_hit i t; (outs, t2) = hit_run n i t1 in (out # outs, t2))"

text \<open>What the \<open>k\<close>-th hit of an enabled entry must answer.\<close>

definition expected_outcome :: "breakpoint \<Rightarrow> nat \<Rightarrow> hit_outcome" where
  "expected_outcome e k =
     (if k < unat (bp_ignore_remaining e) then Ignored
      else if bp_condition e \<noteq> None then NeedsCondition (bp_id e)
      else if \<not> bp_one_shot e then Stop (bp_id e) False
      else if k = unat (bp_ignore_remaining e) then Stop (bp_id e) True
      else NoSuchEntry)"

lemma hit_run_absent: "get_entry t i = None \<Longrightarrow> hit_run n i t = (replicate n NoSuchEntry, t)"
  by (induction n) (auto simp: register_hit_def)

lemma expected_outcome_shift:
  "0 < bp_ignore_remaining e \<Longrightarrow>
     expected_outcome (e\<lparr>bp_hit_count := h, bp_ignore_remaining := bp_ignore_remaining e - 1\<rparr>) k
       = expected_outcome e (Suc k)"
proof -
  assume "0 < bp_ignore_remaining e"
  then have "unat (bp_ignore_remaining e) = Suc (unat (bp_ignore_remaining e - 1))"
    by (metis Suc_pred' unat_gt_0 unat_minus_one word_greater_zero_iff)
  then show ?thesis by (auto simp: expected_outcome_def)
qed

lemma map_upt_shift: "map f [0..<Suc n] = f 0 # map (\<lambda>k. f (Suc k)) [0..<n]"
  by (simp add: upt_conv_Cons map_Suc_upt [symmetric] del: upt_Suc)

lemma hit_run_outcomes:
  "bps_ok fid t \<Longrightarrow> get_entry t i = Some e \<Longrightarrow> bp_enabled e \<Longrightarrow>
     fst (hit_run n i t) = map (expected_outcome e) [0..<n]"
proof (induction n arbitrary: t e)
  case (Suc n)
  have i: "bp_id e = i" using bps_okD(3) [OF Suc.prems(1,2)] by (simp add: entry_ok_def)
  let ?e = "snd (entry_register_hit e)" and ?t = "snd (register_hit i t)"
  have ok: "bps_ok fid ?t" using Suc.prems(1) by (rule bps_ok_register_hit)
  have run: "fst (hit_run (Suc n) i t) = fst (register_hit i t) # fst (hit_run n i ?t)"
    by (simp add: case_prod_beta)
  have stop: "fst (register_hit i t) = expected_outcome e 0"
    using Suc.prems(2,3) i
    by (auto simp: register_hit_def entry_register_hit_def expected_outcome_def Let_def
        word_greater_zero_iff unat_eq_0 split: option.split)
  show ?case
  proof (cases "fst (entry_register_hit e) = Flow_Stop \<and> bp_one_shot e")
    case True
    then have "get_entry ?t i = None"
      by (simp add: register_hit_present [OF Suc.prems(1,2)] get_entry_def bt_get_remove)
    moreover have "expected_outcome e (Suc k) = NoSuchEntry" for k
      using True Suc.prems(3)
      by (auto simp: entry_register_hit_def expected_outcome_def Let_def word_greater_zero_iff split: if_splits)
    ultimately show ?thesis
      using run stop by (simp add: hit_run_absent map_upt_shift map_replicate_const del: upt_Suc hit_run.simps)
  next
    case False
    have "?t = modify_entry i (snd \<circ> entry_register_hit) t"
      unfolding register_hit_present [OF Suc.prems(1,2)] if_not_P [OF False] ..
    then have "get_entry ?t i = Some ?e" using Suc.prems(2) by (simp add: get_entry_modify)
    moreover have "bp_enabled ?e" using Suc.prems(3) by (simp add: entry_register_hit_def Let_def)
    moreover have "expected_outcome ?e k = expected_outcome e (Suc k)" for k
      using False Suc.prems(3) expected_outcome_shift [of e "bp_hit_count e + 1" k]
      by (auto simp: entry_register_hit_def expected_outcome_def Let_def word_greater_zero_iff split: if_splits)
    ultimately show ?thesis
      using run stop Suc.IH [OF ok] by (simp add: map_upt_shift del: upt_Suc hit_run.simps)
  qed
qed simp

text \<open>
  C17. The account of any number of hits on an enabled entry: the ignore count is spent first and
  silently; only then is a condition asked for, at every hit and without consuming a one-shot entry;
  an unconditional entry stops, each time, or exactly once when it is one-shot, after
  which it is gone.
\<close>

theorem hit_account:
  assumes "bp_reachable fid t" and "get_entry t i = Some e" and "bp_enabled e"
  shows "fst (hit_run n i t) = map (expected_outcome e) [0..<n]"
  using hit_run_outcomes [OF breakpoints.reach_inv [OF assms(1)] assms(2,3)] .

theorem hit_account_witness:
  "fst (hit_run 4 (BreakpointId 1) sample_table)
     = [Ignored, Ignored, Stop (BreakpointId 1) False, Stop (BreakpointId 1) False]"
proof -
  let ?e = "(breakpoint_line (BreakpointId 1) ''a.sh'' 10)\<lparr>bp_ignore_remaining := 2\<rparr>"
  have e: "get_entry sample_table (BreakpointId 1) = Some ?e" by code_simp
  have "bp_enabled ?e" by code_simp
  moreover have "map (expected_outcome ?e) [0..<4]
      = [Ignored, Ignored, Stop (BreakpointId 1) False, Stop (BreakpointId 1) False]" by code_simp
  ultimately show ?thesis using hit_account [OF sample_reachable e, of 4] by simp
qed

subsection \<open>Clearing a line\<close>

lemma bt_values_entry:
  "bt_wf (bt_entries t) \<Longrightarrow> e \<in> set (bt_values (bt_entries t)) \<longleftrightarrow> (\<exists>i. get_entry t i = Some e)"
  by (simp add: bt_values_iff get_entry_def)

text \<open>
  \<open>clear\<close> at a file and line deletes exactly the line entries whose canonical identity and line
  match, in any spelling of the file, reports how many that were, and leaves every other
  entry as it was; afterwards no entry is bound there.
\<close>

theorem clear_at_exact:
  assumes "bp_reachable fid t" and "clear_at fid file line t = (n, t')"
  shows "get_entry t' i = (case get_entry t i of None \<Rightarrow> None
        | Some e \<Rightarrow> if bp_target e = Line_Target (fid file) line then None else Some e)
    \<and> table_len t = table_len t' + n
    \<and> line_entries_at fid t' file line = []"
proof -
  have ok: "bps_ok fid t" using breakpoints.reach_inv [OF assms(1)] .
  let ?hit = "\<lambda>e. bp_target e = Line_Target (fid file) line"
  let ?doomed = "map bp_id (filter ?hit (bt_values (bt_entries t)))"
  have t': "bt_entries t' = filter (\<lambda>kv. fst kv \<notin> set ?doomed) (bt_entries t)" and n: "n = length ?doomed"
    using assms(2) by (auto simp: clear_at_def Let_def remove_all_filter)
  have keyed: "fst kv \<in> set ?doomed \<longleftrightarrow> ?hit (snd kv)" if "kv \<in> set (bt_entries t)" for kv
  proof -
    have kv: "get_entry t (fst kv) = Some (snd kv)"
      using that bps_okD(1) [OF ok] by (simp add: get_entry_def bt_get_Some_iff)
    have ids: "bp_id e = i" if "get_entry t i = Some e" for i e
      using bps_okD(3) [OF ok that] by (simp add: entry_ok_def)
    have "fst kv \<in> set ?doomed \<longleftrightarrow> (\<exists>e i. get_entry t i = Some e \<and> ?hit e \<and> fst kv = bp_id e)"
      by (auto simp: bt_values_entry [OF bps_okD(1) [OF ok]])
    also have "\<dots> \<longleftrightarrow> ?hit (snd kv)" using kv ids by (metis option.inject)
    finally show ?thesis .
  qed
  then have entries: "bt_entries t' = filter (\<lambda>kv. \<not> ?hit (snd kv)) (bt_entries t)"
    unfolding t' by (intro filter_cong) auto
  have wf: "bt_wf (bt_entries t)" "bt_wf (bt_entries t')"
    using bps_okD(1) [OF ok] unfolding entries bt_wf_def by (auto simp: sorted_wrt_map intro: sorted_wrt_filter)
  have get: "get_entry t' i = Some e \<longleftrightarrow> get_entry t i = Some e \<and> \<not> ?hit e" for i e
    using wf by (auto simp: get_entry_def bt_get_Some_iff entries)
  have "n = length (filter (\<lambda>kv. ?hit (snd kv)) (bt_entries t))"
    unfolding n bt_values_def by (simp add: filter_map o_def)
  then have "table_len t = table_len t' + n"
    using sum_length_filter_compl [of "\<lambda>kv. ?hit (snd kv)" "bt_entries t"]
    by (simp add: table_len_def entries)
  moreover have "line_entries_at fid t' file line = []"
    using get by (auto simp: line_entries_at_def filter_empty_conv bt_values_entry [OF wf(2)])
  moreover have "get_entry t' i = (case get_entry t i of None \<Rightarrow> None | Some e \<Rightarrow> if ?hit e then None else Some e)"
  proof (cases "get_entry t i")
    case None
    then have "get_entry t' i = None" using get [of i] by (metis not_Some_eq)
    then show ?thesis using None by simp
  next
    case (Some e)
    then have "\<not> ?hit e \<Longrightarrow> get_entry t' i = Some e" "?hit e \<Longrightarrow> get_entry t' i = None"
      using get [of i] by (metis option.inject not_Some_eq)+
    then show ?thesis using Some by simp
  qed
  ultimately show ?thesis by blast
qed

theorem clear_at_exact_witness:
  "get_entry (snd (clear_at plain ''a.sh'' 10 sample_table)) (BreakpointId 1) = None
   \<and> fst (clear_at plain ''a.sh'' 10 sample_table) = 1"
proof -
  have "fst (clear_at plain ''a.sh'' 10 sample_table) = 1"
    and "case get_entry sample_table (BreakpointId 1) of None \<Rightarrow> False
         | Some e \<Rightarrow> bp_target e = Line_Target (plain ''a.sh'') 10" by code_simp+
  then show ?thesis
    using clear_at_exact [OF sample_reachable prod.collapse [symmetric], of "''a.sh''" 10 "BreakpointId 1"]
    by (auto split: option.splits)
qed

subsection \<open>The seam fast exit\<close>

text \<open>
  \<open>has_enabled_seam_entries\<close> answers exactly whether some seam could find a candidate: on a
  reachable table it is false precisely when no file and line and no function name has an enabled
  entry, so the consult that skips its search on a false answer misses no breakpoint.
\<close>

theorem seam_fast_exit:
  assumes "bp_reachable fid t"
  shows "\<not> has_enabled_seam_entries t \<longleftrightarrow>
    (\<forall>file line. line_entries_at fid t file line = []) \<and> (\<forall>name. function_entries_named t name = [])"
proof -
  have ok: "bps_ok fid t" using breakpoints.reach_inv [OF assms] .
  note vals = bt_values_entry [OF bps_okD(1) [OF ok]]
  have kind: "kind_target_ok fid e" if "e \<in> set (bt_values (bt_entries t))" for e
    using that bps_okD(3) [OF ok] by (auto simp: vals entry_ok_def)
  have seam: "bp_kind e = Line \<or> bp_kind e = Function \<longleftrightarrow>
      (\<exists>file line. bp_target e = Line_Target (fid file) line) \<or> (\<exists>name. bp_target e = Function_Target name)"
    if "e \<in> set (bt_values (bt_entries t))" for e
    using kind [OF that] by (cases "bp_target e") (auto simp: kind_target_ok_def is_watch_def)
  show ?thesis
    unfolding has_enabled_seam_entries_def line_entries_at_def function_entries_named_def
      list_ex_iff filter_empty_conv using seam by blast
qed

theorem seam_fast_exit_witness:
  "line_entries_at plain (snd (set_enabled (BreakpointId 1) False sample_table)) ''a.sh'' 10 = []"
proof -
  have "bp_reachable plain (snd (set_enabled (BreakpointId 1) False sample_table))"
    by (rule reach_step [OF sample_reachable bp_set_enabled])
  moreover have "\<not> has_enabled_seam_entries (snd (set_enabled (BreakpointId 1) False sample_table))" by code_simp
  ultimately show ?thesis using seam_fast_exit by blast
qed

subsection \<open>Watch differences\<close>

fun watch_run ::
    "(string option \<times> 64 word option) list \<Rightarrow> breakpoint \<Rightarrow> (string option \<times> string option) option list" where
  "watch_run [] e = []"
| "watch_run ((rendered, epoch) # evals) e =
     (let (report, e') = diff_watch rendered epoch e in report # watch_run evals e')"

text \<open>What an entry that last rendered \<open>old\<close> must report for the values that follow.\<close>

fun value_changes :: "string option \<Rightarrow> string option list \<Rightarrow> (string option \<times> string option) option list" where
  "value_changes old [] = []"
| "value_changes old (v # vs) = (if v = old then None else Some (old, v)) # value_changes v vs"

lemma watch_run_snapshot:
  assumes "list_all (\<lambda>ev. snd ev = None) evals"
  shows "bp_watch_snapshot e = Some s \<Longrightarrow> watch_run evals e = value_changes (ws_rendered s) (map fst evals)"
  using assms
proof (induction evals arbitrary: e s)
  case (Cons ev evals)
  obtain r where ev: "ev = (r, None)" using Cons.prems(2) by (cases ev) auto
  let ?e' = "e\<lparr>bp_watch_snapshot := Some \<lparr>ws_rendered = r, ws_epoch = None\<rparr>\<rparr>"
  have "watch_run evals ?e' = value_changes r (map fst evals)"
    using Cons.IH [of ?e' "\<lparr>ws_rendered = r, ws_epoch = None\<rparr>"] Cons.prems(2) by (simp)
  then show ?case using Cons.prems(1) by (auto simp: ev diff_watch_def Let_def)
qed simp

text \<open>
  A watch reports changes and only changes: over any run of evaluations of a name that carries no
  freshness epoch, the first one sets the baseline silently and each later one is reported, with the
  previous value, exactly when it differs from the one before; and an evaluation whose epoch is
  the snapshot's is silent and adopts nothing, whatever was rendered.
\<close>

theorem watch_reports_changes:
  assumes "bp_watch_snapshot e = None" and "list_all (\<lambda>ev. snd ev = None) evals"
  shows "watch_run ((first, None) # evals) e = None # value_changes first (map fst evals)
    \<and> diff_watch rendered (Some ep) (e\<lparr>bp_watch_snapshot := Some \<lparr>ws_rendered = old, ws_epoch = Some ep\<rparr>\<rparr>)
        = (None, e\<lparr>bp_watch_snapshot := Some \<lparr>ws_rendered = old, ws_epoch = Some ep\<rparr>\<rparr>)"
  using assms watch_run_snapshot [of evals "e\<lparr>bp_watch_snapshot := Some \<lparr>ws_rendered = first, ws_epoch = None\<rparr>\<rparr>"]
  by (auto simp: diff_watch_def)

theorem watch_reports_changes_witness:
  "watch_run [(Some ''1'', None), (Some ''1'', None), (Some ''2'', None)] (breakpoint_watch (BreakpointId 1) ''x'')
     = [None, None, Some (Some ''1'', Some ''2'')]"
  using watch_reports_changes [of "breakpoint_watch (BreakpointId 1) ''x''" "[(Some ''1'', None), (Some ''2'', None)]"
      "Some ''1''"]
  by (simp add: breakpoint_watch_def breakpoint_new_def)

end
