(* ===== verification/SessionCorrect.thy ===== *)
theory SessionCorrect
  imports Session BreakpointsCorrect
begin

section \<open>The debug session: contract, invariant, event stream\<close>

text \<open>
  The three-state contract \<open>transition\<close> and the refinement of the session operations to it; the step
  relation \<open>session_step\<close>, labelled with the events each step queues, and its invariant (an
  interpretation of \<open>machine_invariant\<close>, on the session together with the log of every event queued
  so far); the stepping rules over call/return walks; exception filters; the stop flag.
\<close>

subsection \<open>Refinement of the state diagram\<close>

datatype transition_op = Op_Resume | Op_Stop | Op_Exit | Op_Die

text \<open>The diagram of the module's documentation.\<close>

fun transition :: "transition_op \<Rightarrow> session_state \<Rightarrow> session_error + session_state" where
  "transition Op_Resume Stopped = Inr Running"
| "transition Op_Resume Running = Inl NotStopped"
| "transition Op_Stop Running = Inr Stopped"
| "transition Op_Stop Stopped = Inl NotRunning"
| "transition Op_Exit Stopped = Inr Terminated"
| "transition Op_Exit Running = Inr Terminated"
| "transition Op_Die Stopped = Inr Terminated"
| "transition Op_Die Running = Inr Terminated"
| "transition _ Terminated = Inl AlreadyTerminated"

definition refines ::
    "transition_op \<Rightarrow> (session_error + unit) \<times> ('i, 'e, 'v) debug_session \<Rightarrow> ('i, 'e, 'v) debug_session \<Rightarrow> bool" where
  "refines oper res s = (case transition oper (ds_state s) of
       Inl err \<Rightarrow> res = (Inl err, s)
     | Inr st \<Rightarrow> fst res = Inr () \<and> ds_state (snd res) = st)"

text \<open>
  C18. The four transition operations implement the documented three-state diagram: each succeeds
  exactly where the diagram has an edge and then moves to its target; elsewhere it returns the
  diagram's error and changes nothing at all.
\<close>

theorem session_refines_diagram:
  "refines Op_Resume (resume arming s) s \<and> refines Op_Stop (stop_session info s) s
   \<and> refines Op_Exit (exit_session status s) s \<and> refines Op_Die (die_session signal s) s"
  by (cases "ds_state s")
    (simp_all add: refines_def resume_def stop_session_def exit_session_def die_session_def emit_def Let_def)

subsection \<open>Steps and their events\<close>

definition lifecycle_event :: "debug_event \<Rightarrow> bool" where
  "lifecycle_event ev = (case ev of SessionStarted \<Rightarrow> True | Stopped_Event _ \<Rightarrow> True
     | DebuggeeDied _ \<Rightarrow> True | SessionExited _ \<Rightarrow> True | _ \<Rightarrow> False)"

definition end_event :: "debug_event \<Rightarrow> bool" where
  "end_event ev = (case ev of DebuggeeDied _ \<Rightarrow> True | SessionExited _ \<Rightarrow> True | _ \<Rightarrow> False)"

text \<open>
  One rule per operation, successful transitions only (a refused one changes nothing); the producers
  emit the events that are not the transitions' own, and record an exception site only while the
  debuggee runs, in the breath before they park it.
\<close>

inductive session_step ::
    "('i, 'e, 'v) debug_session \<Rightarrow> debug_event list \<Rightarrow> ('i, 'e, 'v) debug_session \<Rightarrow> bool" where
  ss_resume: "resume arming s = (Inr (), s') \<Longrightarrow> session_step s [] s'"
| ss_stop: "stop_session info s = (Inr (), s') \<Longrightarrow> session_step s [Stopped_Event info] s'"
| ss_exit: "exit_session status s = (Inr (), s') \<Longrightarrow> session_step s [SessionExited status] s'"
| ss_die: "die_session signal s = (Inr (), s') \<Longrightarrow> session_step s [DebuggeeDied signal] s'"
| ss_emit: "\<not> lifecycle_event ev \<Longrightarrow> session_step s [ev] (emit ev s)"
| ss_drain: "session_step s [] (snd (drain_events s))"
| ss_inspection: "session_step s [] (set_inspection x s)"
| ss_evaluation: "session_step s [] (set_last_evaluation x s)"
| ss_scope: "session_step s [] (set_step_file_scope scope s)"
| ss_filters: "session_step s [] (snd (set_exception_filters ids s))"
| ss_site: "is_running s \<Longrightarrow> session_step s [] (note_exception_site site s)"
| ss_breakpoints: "bp_step fid (ds_breakpoints s) t \<Longrightarrow> session_step s [] (s\<lparr>ds_breakpoints := t\<rparr>)"
| ss_request: "session_step s [] (request_async_stop s)"
| ss_take: "session_step s [] (snd (take_async_stop s))"

inductive_cases session_stepE: "session_step s evs s'"

definition session_ok :: "('i, 'e, 'v) debug_session \<Rightarrow> bool" where
  "session_ok s \<longleftrightarrow> (ds_state s = Terminated \<longleftrightarrow> ds_termination s \<noteq> None)
     \<and> (ds_state s = Stopped \<longrightarrow> ds_arming s = Continue)
     \<and> ds_exception_filters s \<subseteq> set EXCEPTION_FILTER_IDS
     \<and> (\<exists>info. ds_last_stop s = Some info
          \<and> (ds_state s = Stopped \<and> \<not> is_exception_reason (si_reason info) \<longrightarrow> ds_last_exception s = None))"

text \<open>The log against the session: nothing is lost or reordered, and the end is announced once.\<close>

definition end_of :: "session_end \<Rightarrow> debug_event" where
  "end_of e = (case e of Exited status \<Rightarrow> SessionExited status | Killed signal \<Rightarrow> DebuggeeDied signal)"

definition log_ok :: "('i, 'e, 'v) debug_session \<Rightarrow> debug_event list \<Rightarrow> bool" where
  "log_ok s log \<longleftrightarrow> take 2 log = [SessionStarted, Stopped_Event stop_info_entry]
     \<and> (\<exists>drained. log = drained @ ds_pending_events s)
     \<and> filter end_event log = (case ds_termination s of None \<Rightarrow> [] | Some e \<Rightarrow> [end_of e])
     \<and> (\<exists>info. ds_last_stop s = Some info
          \<and> (\<exists>pre post. log = pre @ Stopped_Event info # post \<and> (\<forall>i. Stopped_Event i \<notin> set post)))"

definition logged_step ::
    "('i, 'e, 'v) debug_session \<times> debug_event list \<Rightarrow> ('i, 'e, 'v) debug_session \<times> debug_event list \<Rightarrow> bool" where
  "logged_step a b \<longleftrightarrow> (\<exists>evs. session_step (fst a) evs (fst b) \<and> snd b = snd a @ evs)"

definition logged_init :: "('i, 'e, 'v) debug_session \<times> debug_event list \<Rightarrow> bool" where
  "logged_init a \<longleftrightarrow> a = (session_new, [SessionStarted, Stopped_Event stop_info_entry])"

definition logged_ok :: "('i, 'e, 'v) debug_session \<times> debug_event list \<Rightarrow> bool" where
  "logged_ok a \<longleftrightarrow> session_ok (fst a) \<and> log_ok (fst a) (snd a)"

lemma session_ok_new: "session_ok session_new"
  by (simp add: session_ok_def session_new_def emit_def stop_info_entry_def is_exception_reason_def)

lemma log_ok_new: "log_ok session_new [SessionStarted, Stopped_Event stop_info_entry]"
  unfolding log_ok_def
proof (intro conjI)
  show "\<exists>drained. [SessionStarted, Stopped_Event stop_info_entry] = drained @ ds_pending_events session_new"
    by (rule exI [of _ "[]"]) (simp add: session_new_def emit_def)
  show "\<exists>info. ds_last_stop session_new = Some info
      \<and> (\<exists>pre post. [SessionStarted, Stopped_Event stop_info_entry] = pre @ Stopped_Event info # post
           \<and> (\<forall>i. Stopped_Event i \<notin> set post))"
    by (intro exI [of _ stop_info_entry] conjI exI [of _ "[SessionStarted]"] exI [of _ "[]"])
      (simp_all add: session_new_def emit_def)
qed (simp_all add: session_new_def emit_def end_event_def)

lemma session_ok_step: "session_ok s \<Longrightarrow> session_step s evs s' \<Longrightarrow> session_ok s'"
  by (erule session_stepE)
    (auto simp: session_ok_def resume_def stop_session_def exit_session_def die_session_def emit_def
      drain_events_def set_inspection_def set_last_evaluation_def set_step_file_scope_def
      set_exception_filters_def note_exception_site_def is_running_def request_async_stop_def
      take_async_stop_def Let_def split: session_state.splits if_splits)

lemma take_2_append: "take 2 log = [a, b] \<Longrightarrow> take 2 (log @ evs) = [a, b]"
  by (cases log; cases "tl log") auto

text \<open>The shape of a step: which of the logged fields it changes.\<close>

lemma session_step_shape:
  assumes "session_step s evs s'"
  shows "(ds_pending_events s' = ds_pending_events s @ evs \<or> evs = [] \<and> ds_pending_events s' = [])
    \<and> (ds_last_stop s' = ds_last_stop s \<and> (\<forall>i. Stopped_Event i \<notin> set evs)
       \<or> (\<exists>info. evs = [Stopped_Event info] \<and> ds_last_stop s' = Some info))
    \<and> (ds_termination s' = ds_termination s \<and> filter end_event evs = []
       \<or> ds_state s \<noteq> Terminated \<and> (\<exists>e. ds_termination s' = Some e \<and> evs = [end_of e]))"
  using assms
  by (cases rule: session_step.cases)
    (auto simp: resume_def stop_session_def exit_session_def die_session_def emit_def end_of_def
      drain_events_def set_inspection_def set_last_evaluation_def set_step_file_scope_def
      set_exception_filters_def note_exception_site_def request_async_stop_def take_async_stop_def
      end_event_def lifecycle_event_def Let_def
      split: session_state.splits if_splits debug_event.splits)

lemma end_event_end_of [simp]: "end_event (end_of e)"
  by (simp add: end_event_def end_of_def split: session_end.split)

lemma last_stop_logged_append:
  assumes "log = pre @ Stopped_Event info # post" and "\<forall>i. Stopped_Event i \<notin> set post"
    and "\<forall>i. Stopped_Event i \<notin> set evs"
  shows "\<exists>pre post. log @ evs = pre @ Stopped_Event info # post \<and> (\<forall>i. Stopped_Event i \<notin> set post)"
  using assms by (intro exI [of _ pre] exI [of _ "post @ evs"]) auto

lemma log_ok_step:
  assumes ok: "session_ok s" and log: "log_ok s log" and step: "session_step s evs s'"
  shows "log_ok s' (log @ evs)"
  unfolding log_ok_def
proof (intro conjI)
  note shape = session_step_shape [OF step]
  show "take 2 (log @ evs) = [SessionStarted, Stopped_Event stop_info_entry]"
    using log unfolding log_ok_def by (intro take_2_append) simp
  show "\<exists>drained. log @ evs = drained @ ds_pending_events s'"
  proof -
    obtain drained where "log = drained @ ds_pending_events s" using log unfolding log_ok_def by blast
    then have "log @ evs = drained @ (ds_pending_events s @ evs)" "log @ evs = (log @ evs) @ []" by simp_all
    then show ?thesis using shape by metis
  qed
  have ends: "filter end_event log = (case ds_termination s of None \<Rightarrow> [] | Some e \<Rightarrow> [end_of e])"
    using log by (simp add: log_ok_def)
  show "filter end_event (log @ evs) = (case ds_termination s' of None \<Rightarrow> [] | Some e \<Rightarrow> [end_of e])"
    using shape ends ok by (auto simp: session_ok_def)
  show "\<exists>info. ds_last_stop s' = Some info
      \<and> (\<exists>pre post. log @ evs = pre @ Stopped_Event info # post \<and> (\<forall>i. Stopped_Event i \<notin> set post))"
  proof (cases "ds_last_stop s' = ds_last_stop s \<and> (\<forall>i. Stopped_Event i \<notin> set evs)")
    case True
    then show ?thesis using log last_stop_logged_append unfolding log_ok_def by metis
  next
    case False
    then obtain info where "evs = [Stopped_Event info]" "ds_last_stop s' = Some info" using shape by blast
    then show ?thesis by (intro exI [of _ info] conjI exI [of _ log] exI [of _ "[]"]) auto
  qed
qed

interpretation sessions: machine_invariant logged_init logged_step logged_ok
  by unfold_locales
    (auto simp: logged_init_def logged_ok_def logged_step_def session_ok_new log_ok_new
      intro: session_ok_step log_ok_step)

abbreviation session_reachable ::
    "('i, 'e, 'v) debug_session \<Rightarrow> debug_event list \<Rightarrow> bool" where
  "session_reachable s log \<equiv> reach logged_init logged_step (s, log)"

lemma session_reach_step:
  "session_reachable s log \<Longrightarrow> session_step s evs s' \<Longrightarrow> log' = log @ evs \<Longrightarrow> session_reachable s' log'"
  by (erule reach_step) (auto simp: logged_step_def)

text \<open>
  C19. In every reachable session, a parked session has no arming in force, the termination record
  exists exactly in the terminated state, only known exception filters are selected, and at a stop
  that is not an exception stop no exception site is recorded, so \<open>exceptionInfo\<close> never answers with a
  stale site.
\<close>

theorem session_invariant:
  assumes "session_reachable s log"
  shows "(is_stopped s \<longrightarrow> ds_arming s = Continue)
    \<and> (is_terminated s \<longleftrightarrow> ds_termination s \<noteq> None)
    \<and> set (exception_filters s) = ds_exception_filters s
    \<and> (\<exists>info. ds_last_stop s = Some info
        \<and> (is_stopped s \<and> \<not> is_exception_reason (si_reason info) \<longrightarrow> ds_last_exception s = None))"
  using sessions.reach_inv [OF assms]
  by (auto simp: logged_ok_def session_ok_def is_stopped_def is_terminated_def exception_filters_def)

text \<open>
  C20. The event stream tells the session's story once and in order: it opens with the start and the
  entry stop; what is pending is the undrained end of it; its last stop event is the session's
  last stop; and it announces the end at most once, exactly when the session has terminated
  and with the recorded termination.
\<close>

theorem session_event_stream:
  assumes "session_reachable s log"
  shows "take 2 log = [SessionStarted, Stopped_Event stop_info_entry]
    \<and> (\<exists>drained. log = drained @ ds_pending_events s)
    \<and> filter end_event log = (case ds_termination s of None \<Rightarrow> [] | Some e \<Rightarrow> [end_of e])
    \<and> (\<exists>info pre post. ds_last_stop s = Some info \<and> log = pre @ Stopped_Event info # post
         \<and> (\<forall>i. Stopped_Event i \<notin> set post))"
  using sessions.reach_inv [OF assms] unfolding logged_ok_def log_ok_def by auto

text \<open>A session that ran, stopped at an exception site, and died.\<close>

definition pause_stop :: stop_info where
  "pause_stop = stop_info_entry\<lparr>si_reason := Pause\<rparr>"

definition paused_session :: "(unit, unit, unit) debug_session" where
  "paused_session = snd (stop_session pause_stop (snd (resume StepInto session_new)))"

definition dead_session :: "(unit, unit, unit) debug_session" where
  "dead_session = snd (die_session 9 paused_session)"

lemma new_reachable:
  "session_reachable (session_new :: (unit, unit, unit) debug_session) [SessionStarted, Stopped_Event stop_info_entry]"
  by (rule reach_init) (simp add: logged_init_def)

lemma paused_reachable:
  "session_reachable paused_session [SessionStarted, Stopped_Event stop_info_entry, Stopped_Event pause_stop]"
proof -
  have "session_step (session_new :: (unit, unit, unit) debug_session) [] (snd (resume StepInto session_new))"
    by (rule ss_resume) (simp add: resume_def session_new_def emit_def)
  from session_reach_step [OF new_reachable this refl]
  have running: "session_reachable (snd (resume StepInto (session_new :: (unit, unit, unit) debug_session)))
      [SessionStarted, Stopped_Event stop_info_entry]" by simp
  have "session_step (snd (resume StepInto session_new)) [Stopped_Event pause_stop] paused_session"
    by (rule ss_stop)
      (simp add: paused_session_def stop_session_def resume_def session_new_def emit_def Let_def)
  from session_reach_step [OF running this refl] show ?thesis by simp
qed

lemma dead_reachable:
  "session_reachable dead_session
     [SessionStarted, Stopped_Event stop_info_entry, Stopped_Event pause_stop, DebuggeeDied 9]"
proof -
  have "ds_state paused_session \<noteq> Terminated"
    by (simp add: paused_session_def stop_session_def resume_def session_new_def emit_def Let_def)
  then have "session_step paused_session [DebuggeeDied 9] dead_session"
    by (intro ss_die [where signal = 9]) (simp add: dead_session_def die_session_def)
  from session_reach_step [OF paused_reachable this refl] show ?thesis by simp
qed

theorem session_invariant_witness: "ds_arming paused_session = Continue \<and> ds_last_exception paused_session = None"
proof -
  have "is_stopped paused_session" "ds_last_stop paused_session = Some pause_stop"
    "\<not> is_exception_reason (si_reason pause_stop)"
    by (simp_all add: is_stopped_def paused_session_def stop_session_def resume_def session_new_def
        emit_def Let_def pause_stop_def is_exception_reason_def)
  then show ?thesis using session_invariant [OF paused_reachable] by auto
qed

theorem session_event_stream_witness:
  "filter end_event [SessionStarted, Stopped_Event stop_info_entry, Stopped_Event pause_stop, DebuggeeDied 9]
     = [end_of (Killed 9)]"
proof -
  have "ds_termination dead_session = Some (Killed 9)"
    by (simp add: dead_session_def die_session_def paused_session_def stop_session_def resume_def
        session_new_def emit_def Let_def)
  then show ?thesis using session_event_stream [OF dead_reachable] by simp
qed

subsection \<open>Exception filters and the stop flag\<close>

text \<open>
  Selecting filters is all or nothing: a batch of known ids replaces the selection and lists back
  in canonical order without duplicates, whatever order and repetition it came in; a batch
  with an unknown id changes nothing and returns exactly the unknown ones.
\<close>

theorem exception_filters_batch:
  "set_exception_filters ids s =
     (if list_all (\<lambda>i. i \<in> set EXCEPTION_FILTER_IDS) ids
      then (Inr (), s\<lparr>ds_exception_filters := set ids\<rparr>)
      else (Inl (filter (\<lambda>i. i \<notin> set EXCEPTION_FILTER_IDS) ids), s))
   \<and> exception_filters (s\<lparr>ds_exception_filters := set ids\<rparr>) = filter (\<lambda>i. i \<in> set ids) EXCEPTION_FILTER_IDS
   \<and> distinct (exception_filters s)
   \<and> (exception_filter_covers s kind \<longleftrightarrow> exception_filter_id kind \<in> set (exception_filters s))"
proof -
  have "list_all (\<lambda>i. i \<in> set EXCEPTION_FILTER_IDS) ids \<longleftrightarrow> filter (\<lambda>i. i \<notin> set EXCEPTION_FILTER_IDS) ids = []"
    by (auto simp: list_all_iff filter_empty_conv)
  moreover have "list_all (\<lambda>i. i \<in> set EXCEPTION_FILTER_IDS) ids \<Longrightarrow>
      filter (\<lambda>i. i \<in> set EXCEPTION_FILTER_IDS) ids = ids"
    by (simp add: list_all_iff)
  moreover have "exception_filter_id kind \<in> set EXCEPTION_FILTER_IDS"
    by (cases kind) (simp_all add: EXCEPTION_FILTER_IDS_def)
  moreover have "distinct EXCEPTION_FILTER_IDS" by (simp add: EXCEPTION_FILTER_IDS_def)
  ultimately show ?thesis
    by (simp add: set_exception_filters_def exception_filters_def exception_filter_covers_def Let_def)
qed

subsection \<open>Stepping over call/return walks\<close>

text \<open>An execution as the engine counts it: frames entered and left, and seams at the current depth.\<close>

datatype walk_event = Frame_Enter | Frame_Leave | Seam

fun seam_depths :: "nat \<Rightarrow> walk_event list \<Rightarrow> nat list" where
  "seam_depths d [] = []"
| "seam_depths d (Frame_Enter # es) = seam_depths (d + 1) es"
| "seam_depths d (Frame_Leave # es) = seam_depths (d - 1) es"
| "seam_depths d (Seam # es) = d # seam_depths d es"

fun final_depth :: "nat \<Rightarrow> walk_event list \<Rightarrow> nat" where
  "final_depth d [] = d"
| "final_depth d (Frame_Enter # es) = final_depth (d + 1) es"
| "final_depth d (Frame_Leave # es) = final_depth (d - 1) es"
| "final_depth d (Seam # es) = final_depth d es"

text \<open>A walk that starts in a frame and never leaves it: the frame's body, with whatever it calls.\<close>

fun stays_in :: "nat \<Rightarrow> nat \<Rightarrow> walk_event list \<Rightarrow> bool" where
  "stays_in base d [] = (base \<le> d)"
| "stays_in base d (Frame_Enter # es) = (base \<le> d \<and> stays_in base (d + 1) es)"
| "stays_in base d (Frame_Leave # es) = (base < d \<and> stays_in base (d - 1) es)"
| "stays_in base d (Seam # es) = (base \<le> d \<and> stays_in base d es)"

lemma stays_in_depths: "stays_in base d es \<Longrightarrow> list_all (\<lambda>k. base \<le> k) (seam_depths d es)"
  by (induction base d es rule: stays_in.induct) auto

lemma seam_depths_append: "seam_depths d (xs @ ys) = seam_depths d xs @ seam_depths (final_depth d xs) ys"
  by (induction d xs rule: seam_depths.induct) auto

text \<open>
  Stepping over a call from depth \<open>d\<close>: for any body of the called frame, with nested calls and
  recursion, no seam inside it stops a step-over armed at \<open>d\<close>, a finish of the frame, or a step out of
  it; the first seam back in the caller stops all three, while a step into stops at the very first
  seam of the body; and only the finish is serviced at the frame's return site.
\<close>

theorem step_over_call:
  assumes "stays_in (d + 1) (d + 1) body" and "final_depth (d + 1) body = d + 1"
  shows "(\<forall>arming \<in> {StepOver d, Finish (d + 1), StepOutOfFrame (d + 1)}.
      map (arming_stops_at_seam arming) (seam_depths d (Frame_Enter # body @ [Frame_Leave, Seam]))
        = replicate (length (seam_depths (d + 1) body)) False @ [True])
    \<and> list_all (arming_stops_at_seam StepInto) (seam_depths (d + 1) body)
    \<and> (\<forall>fr. arming_stops_at_frame_return arming' fr \<longleftrightarrow> arming' = Finish (fr_frame_depth fr))"
proof -
  have depths: "seam_depths d (Frame_Enter # body @ [Frame_Leave, Seam]) = seam_depths (d + 1) body @ [d]"
    using assms(2) by (simp add: seam_depths_append)
  have "map (arming_stops_at_seam arming) (seam_depths (d + 1) body)
      = replicate (length (seam_depths (d + 1) body)) False"
    if "arming \<in> {StepOver d, Finish (d + 1), StepOutOfFrame (d + 1)}" for arming
  proof -
    have "arming_stops_at_seam arming k = False" if "k \<in> set (seam_depths (d + 1) body)" for k
      using that \<open>arming \<in> _\<close> stays_in_depths [OF assms(1)] by (auto simp: list_all_iff)
    then show ?thesis by (simp add: map_replicate_const [symmetric] cong: map_cong)
  qed
  then show ?thesis
    unfolding depths by (auto simp: list_all_iff arming_stops_at_frame_return_def split: step_arming.splits)
qed

theorem step_over_call_witness:
  "map (arming_stops_at_seam (StepOver 1))
     (seam_depths 1 (Frame_Enter # [Seam, Frame_Enter, Seam, Frame_Leave, Seam] @ [Frame_Leave, Seam]))
     = [False, False, False, True]"
  using step_over_call [of 1 "[Seam, Frame_Enter, Seam, Frame_Leave, Seam]"] by simp

text \<open>
  The consult's inert test is sound: when it says that a running session cannot stop at a seam,
  then at every depth and in every file the arming does not stop, and no line or function entry of
  the session's table is a candidate there.
\<close>

theorem inert_session_never_stops:
  assumes "bp_reachable fid (ds_breakpoints s)" and "is_running s" and "\<not> can_stop_at_seam s"
  shows "\<not> arming_stops_at_seam_in_file (ds_arming s) depth file scope
    \<and> line_entries_at fid (ds_breakpoints s) path line = []
    \<and> function_entries_named (ds_breakpoints s) name = []"
proof -
  have "ds_arming s = Continue" and none: "\<not> has_enabled_seam_entries (ds_breakpoints s)"
    using assms(2,3) by (auto simp: can_stop_at_seam_def)
  then have "\<not> arming_stops_at_seam_in_file (ds_arming s) depth file scope"
    by (simp add: arming_stops_at_seam_in_file_def)
  moreover have "e \<notin> set (bt_values (bt_entries (ds_breakpoints s)))"
    if "bp_enabled e" "bp_kind e = Line \<or> bp_kind e = Function" for e
    using that none by (auto simp: has_enabled_seam_entries_def list_ex_iff)
  moreover have "kind_target_ok fid e" if "e \<in> set (bt_values (bt_entries (ds_breakpoints s)))" for e
    using that bps_okD [OF breakpoints.reach_inv [OF assms(1)]]
    by (auto simp: bt_values_entry entry_ok_def)
  ultimately show ?thesis
    by (force simp: line_entries_at_def function_entries_named_def filter_empty_conv kind_target_ok_def)
qed

definition idle_session :: "(unit, unit, unit) debug_session" where
  "idle_session = (snd (resume Continue session_new))
     \<lparr>ds_breakpoints := snd (set_enabled (BreakpointId 1) False sample_table)\<rparr>"

theorem inert_session_never_stops_witness:
  "line_entries_at plain (ds_breakpoints idle_session) ''a.sh'' 10 = []"
proof -
  have "bp_reachable plain (ds_breakpoints idle_session)"
    using reach_step [OF sample_reachable bp_set_enabled] by (simp add: idle_session_def)
  moreover have "is_running idle_session"
    by (simp add: idle_session_def is_running_def resume_def session_new_def emit_def)
  moreover have "\<not> has_enabled_seam_entries (snd (set_enabled (BreakpointId 1) False sample_table))" by code_simp
  then have "\<not> can_stop_at_seam idle_session"
    by (simp add: can_stop_at_seam_def idle_session_def resume_def session_new_def emit_def)
  ultimately show ?thesis using inert_session_never_stops by blast
qed

end
