(* ===== verification/Utf8.thy ===== *)
theory Utf8
  imports Prelude
begin

section \<open>Characters of a \<open>&str\<close>\<close>

text \<open>
  A \<open>&str\<close> is the UTF-8 byte string of a list of Unicode scalar values.  Code that iterates over
  \<open>chars()\<close> is modelled on the list of code points; \<open>decode_utf8\<close> is the iterator and
  \<open>encode_utf8\<close> is \<open>String::push\<close> repeated.  Decoding undoes encoding (\<open>decode_encode_utf8\<close>), and
  the ASCII part is the identity (\<open>decode_utf8_ascii\<close>).
\<close>

type_synonym code_point = nat

definition cont_byte :: "nat \<Rightarrow> char" where
  "cont_byte n = char_of (128 + n mod 64)"

definition encode_char :: "code_point \<Rightarrow> bytes" where
  "encode_char n =
     (if n < 0x80 then [char_of n]
      else if n < 0x800 then [char_of (192 + n div 64), cont_byte n]
      else if n < 0x10000 then [char_of (224 + n div 4096), cont_byte (n div 64), cont_byte n]
      else [char_of (240 + n div 262144), cont_byte (n div 4096), cont_byte (n div 64), cont_byte n])"

definition encode_utf8 :: "code_point list \<Rightarrow> bytes" where
  "encode_utf8 cs = concat (map encode_char cs)"

definition utf8_width :: "char \<Rightarrow> nat" where
  "utf8_width b = (if byte b < 128 then 1 else if byte b < 224 then 2 else if byte b < 240 then 3 else 4)"

definition lead_bits :: "char \<Rightarrow> nat" where
  "lead_bits b = (if byte b < 128 then byte b else if byte b < 224 then byte b mod 32
                  else if byte b < 240 then byte b mod 16 else byte b mod 8)"

definition decode_char :: "char \<Rightarrow> bytes \<Rightarrow> code_point" where
  "decode_char b rest = foldl (\<lambda>v c. v * 64 + byte c mod 64) (lead_bits b) rest"

fun decode_utf8 :: "bytes \<Rightarrow> code_point list" where
  "decode_utf8 [] = []"
| "decode_utf8 (b # bs) =
     decode_char b (take (utf8_width b - 1) bs) # decode_utf8 (drop (utf8_width b - 1) bs)"

text \<open>The scalar values a \<open>char\<close> can hold (below \<open>0x110000\<close>).\<close>

definition scalar :: "code_point \<Rightarrow> bool" where
  "scalar n \<longleftrightarrow> n < 0x110000"

lemma byte_char_of [simp]: "n < 256 \<Longrightarrow> byte (char_of (n :: nat)) = n"
  by simp

lemma byte_cont_byte [simp]: "byte (cont_byte n) = 128 + n mod 64"
proof -
  have "128 + n mod 64 < 256" by (simp add: add_less_le_mono [of _ 128 _ 64, simplified])
  then show ?thesis unfolding cont_byte_def by (rule byte_char_of)
qed

lemma base64_digits2: "(n div 4096 * 64 + n div 64 mod 64) * 64 + n mod 64 = n" for n :: nat
proof -
  have "n div 4096 = n div 64 div 64" by (simp add: div_mult2_eq [symmetric])
  then show ?thesis by simp
qed

lemma base64_digits3:
  "((n div 262144 * 64 + n div 4096 mod 64) * 64 + n div 64 mod 64) * 64 + n mod 64 = n" for n :: nat
proof -
  have "n div 262144 = n div 4096 div 64" by (simp add: div_mult2_eq [symmetric])
  then have "n div 262144 * 64 + n div 4096 mod 64 = n div 4096" by simp
  then show ?thesis using base64_digits2 [of n] by metis
qed

lemma lead_mods:
  "k < 32 \<Longrightarrow> (192 + k) mod 32 = k" "k < 16 \<Longrightarrow> (224 + k) mod 16 = k" "k < 8 \<Longrightarrow> (240 + k) mod 8 = k"
  "(128 + k mod 64) mod 64 = k mod 64" for k :: nat
  using mod_mult_self3 [of 6 32 k] mod_mult_self3 [of 14 16 k] mod_mult_self3 [of 30 8 k]
    mod_mult_self3 [of 2 64 "k mod 64"] by simp_all

lemma decode_encode_char_append:
  assumes "scalar n"
  shows "decode_utf8 (encode_char n @ bs) = n # decode_utf8 bs"
proof -
  consider "n < 0x80" | "0x80 \<le> n" "n < 0x800" | "0x800 \<le> n" "n < 0x10000" | "0x10000 \<le> n" "n < 0x110000"
    using assms unfolding scalar_def by linarith
  then show ?thesis
  proof cases
    case 1
    then show ?thesis by (simp add: encode_char_def utf8_width_def decode_char_def lead_bits_def)
  next
    case 2
    then have k: "n div 64 < 32" by linarith
    then have "byte (char_of (192 + n div 64)) = 192 + n div 64" by (intro byte_char_of) linarith
    then show ?thesis using 2 k
      by (simp add: encode_char_def utf8_width_def decode_char_def lead_bits_def lead_mods del: byte_char_of)
  next
    case 3
    then have k: "n div 4096 < 16" by linarith
    then have "byte (char_of (224 + n div 4096)) = 224 + n div 4096" by (intro byte_char_of) linarith
    then show ?thesis using 3 k base64_digits2 [of n]
      by (simp add: encode_char_def utf8_width_def decode_char_def lead_bits_def lead_mods del: byte_char_of)
  next
    case 4
    then have k: "n div 262144 < 8" by linarith
    then have "byte (char_of (240 + n div 262144)) = 240 + n div 262144" by (intro byte_char_of) linarith
    then show ?thesis using 4 k base64_digits3 [of n]
      by (simp add: encode_char_def utf8_width_def decode_char_def lead_bits_def lead_mods del: byte_char_of)
  qed
qed

lemma decode_encode_utf8: "list_all scalar cs \<Longrightarrow> decode_utf8 (encode_utf8 cs) = cs"
  by (induction cs) (simp_all add: encode_utf8_def decode_encode_char_append)

lemma decode_utf8_ascii: "list_all (\<lambda>b. byte b < 128) s \<Longrightarrow> decode_utf8 s = map byte s"
  by (induction s) (simp_all add: utf8_width_def decode_char_def lead_bits_def)

lemma encode_utf8_append [simp]: "encode_utf8 (cs @ ds) = encode_utf8 cs @ encode_utf8 ds"
  by (simp add: encode_utf8_def)

end
