(* ===== verification/Markers.thy ===== *)
theory Markers
  imports Utf8
begin

section \<open>Transport markers\<close>

text \<open>
  \<open>src/src/executor/markers.rs\<close>: the private-use characters that carry raw bytes and literal
  characters through shell text, and the reader of \<open>substitution_metadata.rs\<close> that gives each byte back
  as the character of that number.
\<close>

abbreviation (input) RAW_BYTE_MARKER_ESCAPE :: code_point where "RAW_BYTE_MARKER_ESCAPE \<equiv> 0xE000"
abbreviation (input) RAW_BYTE_MARKER_FIRST :: code_point where "RAW_BYTE_MARKER_FIRST \<equiv> 0xE001"
abbreviation (input) RAW_BYTE_MARKER_LAST :: code_point where "RAW_BYTE_MARKER_LAST \<equiv> 0xE100"
abbreviation (input) COMSUB_PAYLOAD_SENTINEL :: code_point where "COMSUB_PAYLOAD_SENTINEL \<equiv> 0xE319"
abbreviation (input) LITERAL_CHAR_ESCAPE :: code_point where "LITERAL_CHAR_ESCAPE \<equiv> 0xE400"

definition marker_payload :: "code_point \<Rightarrow> bool" where
  "marker_payload c \<longleftrightarrow> RAW_BYTE_MARKER_FIRST \<le> c \<and> c \<le> RAW_BYTE_MARKER_LAST"

fun decode_raw_byte_markers_to_byte_chars :: "code_point list \<Rightarrow> code_point list" where
  "decode_raw_byte_markers_to_byte_chars [] = []"
| "decode_raw_byte_markers_to_byte_chars (c # cs) =
     (if c = LITERAL_CHAR_ESCAPE then
        (case cs of
           n # rest \<Rightarrow> n # decode_raw_byte_markers_to_byte_chars rest
         | [] \<Rightarrow> [c])
      else if c \<noteq> RAW_BYTE_MARKER_ESCAPE then c # decode_raw_byte_markers_to_byte_chars cs
      else case cs of
             n # rest \<Rightarrow>
               if n = RAW_BYTE_MARKER_ESCAPE then c # decode_raw_byte_markers_to_byte_chars rest
               else if marker_payload n then
                 (n - RAW_BYTE_MARKER_FIRST) # decode_raw_byte_markers_to_byte_chars rest
               else c # decode_raw_byte_markers_to_byte_chars cs
           | [] \<Rightarrow> [c])"

end
