(* ===== verification/Diag.thy ===== *)
theory Diag
  imports Markers
begin

section \<open>Diagnostics of a builtin call: \<open>executor/builtin_diag.rs\<close>\<close>

text \<open>
  A \<open>Diag\<close> collects the diagnostic lines of one builtin call and the exit status they imply; the
  dispatcher flushes it afterwards with the shell's prolog.  The sink is the byte string written so
  far.  Of \<open>BuiltinRow\<close> (\<open>builtin_table.rs\<close>) the fields read here are kept: the name, the
  option specification and \<open>doc.short_doc()\<close>, the usage text of the row's help topic.

  \<open>valid_number\<close> and \<open>valid_identifier\<close> are the operand checks builtins share; the former first
  undoes the raw-byte markers of \<open>substitution_metadata.rs\<close>.
\<close>

subsection \<open>Data\<close>

datatype opt_spec = Getopt bytes | Grammar | NoScan

record builtin_row =
  row_name :: bytes
  row_opt_spec :: opt_spec
  row_short_doc :: "bytes option"

record prolog =
  interactive :: bool
  shell_basename :: bytes
  error_name :: bytes
  script_file :: "bytes option"
  prolog_line :: "bytes option"

definition render :: "prolog \<Rightarrow> bytes" where
  "render p =
     (if interactive p then shell_basename p @ '': ''
      else case (script_file p, prolog_line p) of
             (Some script, Some line) \<Rightarrow> script @ '': line '' @ line @ '': ''
           | (None, Some line) \<Rightarrow> error_name p @ '': line '' @ line @ '': ''
           | _ \<Rightarrow> error_name p @ '': '')"

datatype diag_kind =
    InvalidOpt bytes
  | NeedArg bytes
  | NeedNumArg bytes
  | InvalidNum bytes
  | InvalidId bytes
  | Readonly bytes
  | Erange "bytes option" bytes
  | BadPid bytes
  | NoJobs "bytes option"
  | Restricted "bytes option"
  | TooManyArgs
  | NoArgs

datatype numeric_fatal = Soft | ExitShell | AbortCommand

record diag =
  diag_row :: builtin_row
  diag_sink :: bytes
  diag_status :: int
  diag_pending :: "(bool \<times> bytes) list"

definition EX_USAGE :: int where "EX_USAGE = 2"
definition EX_BADUSAGE :: int where "EX_BADUSAGE = 2"

definition diag_new :: "builtin_row \<Rightarrow> bytes \<Rightarrow> diag" where
  "diag_new row sink = \<lparr>diag_row = row, diag_sink = sink, diag_status = 0, diag_pending = []\<rparr>"

subsection \<open>Recording and flushing\<close>

definition has_pending :: "diag \<Rightarrow> bool" where
  "has_pending d \<longleftrightarrow> diag_pending d \<noteq> []"

fun flush_lines :: "bytes \<Rightarrow> (bool \<times> bytes) list \<Rightarrow> bytes \<Rightarrow> bytes" where
  "flush_lines head [] sink = sink"
| "flush_lines head ((with_prolog, body) # rest) sink =
     flush_lines head rest (sink @ (if with_prolog then head @ body else body))"

definition flush_with :: "prolog \<Rightarrow> diag \<Rightarrow> diag" where
  "flush_with p d =
     (if diag_pending d = [] then d
      else d\<lparr>diag_sink := flush_lines (render p) (diag_pending d) (diag_sink d), diag_pending := []\<rparr>)"

definition invalid_num_message :: "bytes \<Rightarrow> bytes" where
  "invalid_num_message s =
     (if 2 \<le> length s \<and> starts_at s 0 ''0'' \<and> is_ascii_digit (s ! 1) then ''invalid octal number''
      else if starts_at s 0 ''0x'' then ''invalid hex number'' else ''invalid number'')"

definition quoted :: "bytes \<Rightarrow> bytes" where
  "quoted s = ''`'' @ s @ [CHR 0x27]"

fun diag_body :: "diag_kind \<Rightarrow> bytes" where
  "diag_body (InvalidOpt s) = s @ '': invalid option''"
| "diag_body (NeedArg s) = s @ '': option requires an argument''"
| "diag_body (NeedNumArg s) = s @ '': numeric argument required''"
| "diag_body (InvalidNum s) = s @ '': '' @ invalid_num_message s"
| "diag_body (InvalidId s) = quoted s @ '': not a valid identifier''"
| "diag_body (Readonly s) = s @ '': readonly variable''"
| "diag_body (Erange (Some n) desc) = n @ '': '' @ desc @ '' out of range''"
| "diag_body (Erange None desc) = desc @ '' out of range''"
| "diag_body (BadPid s) = quoted s @ '': not a pid or valid job spec''"
| "diag_body (NoJobs (Some n)) = n @ '': no job control''"
| "diag_body (NoJobs None) = ''no job control''"
| "diag_body (Restricted (Some n)) = n @ '': restricted''"
| "diag_body (Restricted None) = ''restricted''"
| "diag_body TooManyArgs = ''too many arguments''"
| "diag_body NoArgs = ''no arguments''"

definition newline :: bytes where "newline = [CHR 0x0A]"

definition push_pending :: "bool \<Rightarrow> bytes \<Rightarrow> diag \<Rightarrow> diag" where
  "push_pending with_prolog line d = d\<lparr>diag_pending := diag_pending d @ [(with_prolog, line)]\<rparr>"

definition report :: "diag_kind \<Rightarrow> diag \<Rightarrow> diag" where
  "report kind d = push_pending True (row_name (diag_row d) @ '': '' @ diag_body kind @ newline) d"

definition diag_error :: "diag_kind \<Rightarrow> diag \<Rightarrow> diag" where
  "diag_error kind d =
     report kind (case kind of
         InvalidOpt _ \<Rightarrow> d\<lparr>diag_status := EX_USAGE\<rparr>
       | NeedArg _ \<Rightarrow> d\<lparr>diag_status := EX_USAGE\<rparr>
       | NeedNumArg _ \<Rightarrow> d\<lparr>diag_status := EX_USAGE\<rparr>
       | _ \<Rightarrow> d)"

definition diag_usage :: "diag \<Rightarrow> diag" where
  "diag_usage d = (case row_short_doc (diag_row d) of
       None \<Rightarrow> d
     | Some short \<Rightarrow> push_pending False (row_name (diag_row d) @ '': usage: '' @ short @ newline) d)"

text \<open>\<open>os_error\<close> receives the text \<open>posix_errors::message\<close> gives the error; \<open>free\<close> a formatted line.\<close>

definition os_error :: "bytes \<Rightarrow> bytes \<Rightarrow> diag \<Rightarrow> diag" where
  "os_error ctx msg d = push_pending True (row_name (diag_row d) @ '': '' @ ctx @ '': '' @ msg @ newline) d"

definition diag_free :: "bytes \<Rightarrow> diag \<Rightarrow> diag" where
  "diag_free msg d = push_pending True (row_name (diag_row d) @ '': '' @ msg @ newline) d"

subsection \<open>Operand checks\<close>

definition c_space :: "code_point \<Rightarrow> bool" where
  "c_space c \<longleftrightarrow> c \<in> {32, 9, 10, 11, 12, 13}"

definition trim_matches :: "(code_point \<Rightarrow> bool) \<Rightarrow> code_point list \<Rightarrow> code_point list" where
  "trim_matches p cs = rev (dropWhile p (rev (dropWhile p cs)))"

definition valid_number :: "bytes \<Rightarrow> int option" where
  "valid_number s =
     (let chars = decode_utf8 s;
          decoded = (if RAW_BYTE_MARKER_ESCAPE \<in> set chars then decode_raw_byte_markers_to_byte_chars chars else chars);
          trimmed = trim_matches c_space decoded
      in if trimmed = [] then None else parse_i64_str (encode_utf8 trimmed))"

definition valid_identifier :: "bytes \<Rightarrow> bool" where
  "valid_identifier name = (case name of
       [] \<Rightarrow> False
     | first # chars \<Rightarrow>
         (is_ascii_alphabetic first \<or> first = CHR ''_'')
         \<and> list_all (\<lambda>c. is_ascii_alphanumeric c \<or> c = CHR ''_'') chars)"

definition numeric_arg :: "bytes list \<Rightarrow> numeric_fatal \<Rightarrow> diag \<Rightarrow> int option \<times> diag" where
  "numeric_arg ws fatal d =
     (let ws = (if ws \<noteq> [] \<and> hd ws = ''--'' then tl ws else ws);
          fail = (\<lambda>kind. let d = report kind d
                         in (None, if fatal \<noteq> Soft then d\<lparr>diag_status := EX_BADUSAGE\<rparr> else d))
      in case ws of
           [] \<Rightarrow> (Some 1, d)
         | arg # extra \<Rightarrow>
             (case valid_number arg of
                None \<Rightarrow> fail (NeedNumArg arg)
              | Some value \<Rightarrow> if extra \<noteq> [] then fail TooManyArgs else (Some value, d)))"

definition check_identifier :: "bytes \<Rightarrow> diag \<Rightarrow> bool \<times> diag" where
  "check_identifier name d =
     (if valid_identifier name then (True, d) else (False, diag_error (InvalidId name) d))"

end
