(* ===== verification/Getopt.thy ===== *)
theory Getopt
  imports Diag Machine
begin

section \<open>The option scanner of the builtins: \<open>executor/builtin_opt.rs\<close>\<close>

text \<open>
  \<open>BuiltinOpt\<close> is a record of the scanner's fields; the borrowed \<open>Diag\<close> is one of them.  Every
  call of \<open>next\<close> returns an event and the updated scanner.  A byte of an option word is an Isabelle
  \<open>char\<close>.  The scanner indexes \<open>bytes[0]\<close> and \<open>bytes[sp]\<close> without a check; that these
  positions exist is the invariant \<open>scanner_ok\<close> of the theory \<open>GetoptCorrect\<close>.
\<close>

datatype opt_event = Opt char | OptArg char bytes | Help | End

datatype arg_kind = NoArg | Required | Optional | Numeric

record builtin_opt =
  opt_row :: builtin_row
  words :: "bytes list"
  opt_diag :: diag
  spec :: "(char \<times> arg_kind) list"
  plus :: bool
  index :: nat
  sp :: nat
  finished :: bool
  optopt :: "char option"
  opttype :: char
  scannable :: bool

subsection \<open>The specification string\<close>

text \<open>\<open>spec_kind rest\<close> reads the argument marker after an option letter and the rest of the string.\<close>

fun spec_kind :: "bytes \<Rightarrow> arg_kind \<times> bytes" where
  "spec_kind [] = (NoArg, [])"
| "spec_kind (m # rest) =
     (if m = CHR '':'' then (Required, rest)
      else if m = CHR '';'' then (Optional, rest)
      else if m = CHR ''#'' then (Numeric, rest)
      else (NoArg, m # rest))"

lemma spec_kind_length: "length (snd (spec_kind s)) \<le> length s"
  by (cases s) auto

function parse_spec_from :: "bytes \<Rightarrow> (char \<times> arg_kind) list" where
  "parse_spec_from [] = []"
| "parse_spec_from (c # rest) =
     (if c = CHR '':'' then parse_spec_from rest
      else (c, fst (spec_kind rest)) # parse_spec_from (snd (spec_kind rest)))"
  by pat_completeness auto
termination
  by (relation "measure length") (auto simp: spec_kind_length less_Suc_eq_le)

definition parse_spec :: "bytes \<Rightarrow> (char \<times> arg_kind) list" where
  "parse_spec s = parse_spec_from (if starts_at s 0 ''+'' then tl s else s)"

subsection \<open>The scanner\<close>

definition is_option_word :: "bytes \<Rightarrow> bool \<Rightarrow> bool" where
  "is_option_word word allow_plus \<longleftrightarrow>
     2 \<le> length word \<and> (word ! 0 = CHR ''-'' \<or> allow_plus \<and> word ! 0 = CHR ''+'')"

text \<open>An ASCII byte stands for itself, any other byte for U+FFFD (\<open>from_utf8_lossy\<close> of one byte).\<close>

definition diagnostic_byte :: "char \<Rightarrow> bytes" where
  "diagnostic_byte b = (if byte b < 128 then [b] else [CHR 0xEF, CHR 0xBF, CHR 0xBD])"

definition builtin_opt_new :: "builtin_row \<Rightarrow> bytes list \<Rightarrow> diag \<Rightarrow> builtin_opt" where
  "builtin_opt_new row ws d =
     \<lparr>opt_row = row, words = ws, opt_diag = d,
      spec = (case row_opt_spec row of Getopt s \<Rightarrow> parse_spec s | _ \<Rightarrow> []),
      plus = (case row_opt_spec row of Getopt s \<Rightarrow> starts_at s 0 ''+'' | _ \<Rightarrow> False),
      index = 0, sp = 1, finished = False, optopt = None, opttype = CHR ''-'',
      scannable = (case row_opt_spec row of Getopt _ \<Rightarrow> True | _ \<Rightarrow> False)\<rparr>"

definition operands :: "builtin_opt \<Rightarrow> bytes list" where
  "operands bo = drop (min (index bo) (length (words bo))) (words bo)"

definition finish :: "builtin_opt \<Rightarrow> builtin_opt" where
  "finish bo = bo\<lparr>finished := True\<rparr>"

definition skip_words :: "nat \<Rightarrow> builtin_opt \<Rightarrow> builtin_opt" where
  "skip_words n bo = bo\<lparr>index := index bo + n, sp := 1\<rparr>"

definition advance_sp :: "builtin_opt \<Rightarrow> builtin_opt" where
  "advance_sp bo =
     (let bo = bo\<lparr>sp := sp bo + 1\<rparr>
      in if length (words bo ! index bo) \<le> sp bo then bo\<lparr>index := index bo + 1, sp := 1\<rparr> else bo)"

definition advance_past_bad_char :: "builtin_opt \<Rightarrow> builtin_opt" where
  "advance_past_bad_char bo = bo\<lparr>index := index bo + 1, sp := 1\<rparr>"

text \<open>The errors record the option character and speak through the \<open>Diag\<close>.\<close>

definition opt_fail :: "(bytes \<Rightarrow> diag_kind) \<Rightarrow> char \<Rightarrow> char \<Rightarrow> builtin_opt \<Rightarrow> builtin_opt" where
  "opt_fail kind sign c bo =
     bo\<lparr>optopt := Some c, opt_diag := diag_error (kind (encode_char (byte sign) @ diagnostic_byte c)) (opt_diag bo)\<rparr>"

definition spec_lookup :: "char \<Rightarrow> builtin_opt \<Rightarrow> arg_kind option" where
  "spec_lookup c bo =
     (if c = CHR '':'' then None else map_option snd (find (\<lambda>e. fst e = c) (spec bo)))"

definition next_word :: "builtin_opt \<Rightarrow> bytes option" where
  "next_word bo = (if index bo + 1 < length (words bo) then Some (words bo ! (index bo + 1)) else None)"

text \<open>The four shapes of an option character at \<open>sp\<close> of the current word.\<close>

definition take_argument :: "arg_kind \<Rightarrow> bytes \<Rightarrow> char \<Rightarrow> char \<Rightarrow> builtin_opt \<Rightarrow> opt_event \<times> builtin_opt" where
  "take_argument kind word sign c bo =
     (if sp bo + 1 < length word then (OptArg c (drop (sp bo + 1) word), skip_words 1 bo)
      else case next_word bo of
             Some nxt \<Rightarrow>
               if kind = Required \<or> \<not> is_option_word nxt (plus bo) then (OptArg c nxt, skip_words 2 bo)
               else (Opt c, skip_words 1 bo)
           | None \<Rightarrow>
               if kind = Optional then (Opt c, skip_words 1 bo)
               else (End, finish ((opt_fail NeedArg sign c bo)\<lparr>sp := 1\<rparr>)))"

definition take_numeric :: "bytes \<Rightarrow> char \<Rightarrow> char \<Rightarrow> builtin_opt \<Rightarrow> opt_event \<times> builtin_opt" where
  "take_numeric word sign c bo =
     (if sp bo + 1 < length word
      then (if is_ascii_digit (word ! (sp bo + 1)) then OptArg c (drop (sp bo + 1) word) else Opt c,
            skip_words 1 bo)
      else case next_word bo of
             Some nxt \<Rightarrow>
               if valid_number nxt \<noteq> None then (OptArg c nxt, skip_words 2 bo)
               else (End, finish ((opt_fail NeedNumArg sign c bo)\<lparr>sp := 1\<rparr>))
           | None \<Rightarrow> (End, finish ((opt_fail NeedNumArg sign c bo)\<lparr>sp := 1\<rparr>)))"

definition scan_char :: "builtin_opt \<Rightarrow> opt_event \<times> builtin_opt" where
  "scan_char bo =
     (let word = words bo ! index bo;
          sign = word ! 0;
          bo = bo\<lparr>opttype := sign\<rparr>;
          c = word ! sp bo
      in case spec_lookup c bo of
           None \<Rightarrow> (End, finish (advance_past_bad_char (opt_fail InvalidOpt sign c bo)))
         | Some NoArg \<Rightarrow> (Opt c, advance_sp bo)
         | Some Numeric \<Rightarrow> take_numeric word sign c bo
         | Some kind \<Rightarrow> take_argument kind word sign c bo)"

definition opt_next :: "builtin_opt \<Rightarrow> opt_event \<times> builtin_opt" where
  "opt_next bo =
     (if finished bo \<or> \<not> scannable bo then (End, finish bo)
      else if length (words bo) \<le> index bo then (End, finish bo)
      else let word = words bo ! index bo
           in if sp bo = 1 \<and> \<not> is_option_word word (plus bo) then (End, finish bo)
              else if sp bo = 1 \<and> word = ''--help'' then (Help, finish bo)
              else if sp bo = 1 \<and> word = ''--'' then (End, finish (skip_words 1 bo))
              else scan_char bo)"

text \<open>
  The loop of a builtin that stops on \<open>End\<close> and \<open>Help\<close>, collecting the option events; a builtin's own
  loop maps them to its flags.  The fuel bounds the calls of \<open>next\<close>.
\<close>

fun scan_all :: "nat \<Rightarrow> builtin_opt \<Rightarrow> (opt_event list \<times> builtin_opt) option" where
  "scan_all 0 bo = None"
| "scan_all (Suc n) bo =
     (case opt_next bo of
        (End, bo') \<Rightarrow> Some ([End], bo')
      | (Help, bo') \<Rightarrow> Some ([Help], bo')
      | (ev, bo') \<Rightarrow> map_option (\<lambda>(evs, bo''). (ev # evs, bo'')) (scan_all n bo'))"

text \<open>The bytes still ahead of the scanner, the fuel of a whole scan.\<close>

definition bytes_left :: "builtin_opt \<Rightarrow> nat" where
  "bytes_left bo = sum_list (map length (drop (index bo) (words bo))) - (sp bo - 1)"

end
