(* ===== verification/GetoptCorrect.thy ===== *)
theory GetoptCorrect
  imports Getopt
begin

section \<open>Correctness of the option scanner\<close>

text \<open>
  The invariant \<open>scanner_ok\<close> makes every unchecked index of \<open>next\<close> in range; \<open>step_shape\<close> says
  what one call of \<open>next\<close> does to the scanner, and carries the interpretation of
  \<open>consuming_machine\<close> (a call that does not end the scan consumes a byte), the account of
  diagnostics, and the equivalence with a word-by-word reference for specifications of plain flags.
\<close>

definition scanner_ok :: "builtin_opt \<Rightarrow> bool" where
  "scanner_ok bo \<longleftrightarrow> 1 \<le> sp bo \<and>
     (sp bo \<noteq> 1 \<longrightarrow> scannable bo \<and> index bo < length (words bo) \<and> sp bo < length (words bo ! index bo)
                  \<and> is_option_word (words bo ! index bo) (plus bo))"

named_theorems scan_defs \<open>the pieces of one scanner call\<close>

lemmas [scan_defs] = finish_def skip_words_def advance_sp_def advance_past_bad_char_def opt_fail_def
  take_argument_def take_numeric_def next_word_def

lemma is_option_word_length: "is_option_word w p \<Longrightarrow> 2 \<le> length w"
  by (simp add: is_option_word_def)

text \<open>The position read by \<open>scan_char\<close> lies inside the current word.\<close>

definition readable :: "builtin_opt \<Rightarrow> bool" where
  "readable bo \<longleftrightarrow> scannable bo \<and> index bo < length (words bo) \<and> 1 \<le> sp bo \<and> sp bo < length (words bo ! index bo)
     \<and> is_option_word (words bo ! index bo) (plus bo)"

text \<open>What a call leaves alone, and where it may leave the scanner.\<close>

definition same_input :: "builtin_opt \<Rightarrow> builtin_opt \<Rightarrow> bool" where
  "same_input bo bo' \<longleftrightarrow> words bo' = words bo \<and> spec bo' = spec bo \<and> plus bo' = plus bo
     \<and> scannable bo' = scannable bo \<and> opt_row bo' = opt_row bo"

definition moved :: "builtin_opt \<Rightarrow> builtin_opt \<Rightarrow> bool" where
  "moved bo bo' \<longleftrightarrow> (index bo < index bo' \<and> sp bo' = 1)
     \<or> (index bo' = index bo \<and> sp bo' = sp bo + 1 \<and> sp bo' < length (words bo ! index bo))"

definition ends :: "opt_event \<Rightarrow> bool" where
  "ends ev \<longleftrightarrow> ev = End \<or> ev = Help"

lemma scan_char_shape:
  assumes "readable bo" "\<not> finished bo" "scan_char bo = (ev, bo')"
  shows "same_input bo bo' \<and> (ends ev = finished bo') \<and> ev \<noteq> Help
    \<and> (if finished bo' then index bo \<le> index bo' \<and> sp bo' = 1 else moved bo bo')"
  using assms
  by (auto simp: scan_char_def scan_defs same_input_def moved_def readable_def ends_def Let_def
      split: option.splits arg_kind.splits if_splits)

text \<open>One line is added and the usage status is set.\<close>

definition usage_error :: "diag \<Rightarrow> diag \<Rightarrow> bool" where
  "usage_error d d' \<longleftrightarrow> (\<exists>line. d' = d\<lparr>diag_status := EX_USAGE, diag_pending := diag_pending d @ [(True, line)]\<rparr>)"

lemma usage_error_kinds [simp]:
  "usage_error d (diag_error (InvalidOpt s) d)" "usage_error d (diag_error (NeedArg s) d)"
  "usage_error d (diag_error (NeedNumArg s) d)"
  by (auto simp: usage_error_def diag_error_def report_def push_pending_def)

lemma scan_char_diag:
  assumes "scan_char bo = (ev, bo')"
  shows "(optopt bo' = optopt bo \<and> opt_diag bo' = opt_diag bo)
    \<or> (ev = End \<and> optopt bo' \<noteq> None \<and> usage_error (opt_diag bo) (opt_diag bo'))"
  using assms
  by (auto simp: scan_char_def scan_defs Let_def split: option.splits arg_kind.splits if_splits)

text \<open>A call of \<open>next\<close> either ends the scan at a word boundary or reads one character.\<close>

lemma opt_next_cases:
  assumes "scanner_ok bo" "\<not> finished bo"
  shows "(\<exists>ev n. opt_next bo = (ev, finish (bo\<lparr>index := index bo + n, sp := 1\<rparr>)) \<and> ends ev)
    \<or> (readable bo \<and> opt_next bo = scan_char bo)"
proof (cases "opt_next bo = scan_char bo \<and> scannable bo \<and> index bo < length (words bo)
    \<and> (sp bo = 1 \<longrightarrow> is_option_word (words bo ! index bo) (plus bo))")
  case True
  then have "readable bo"
    using assms(1) is_option_word_length [of "words bo ! index bo" "plus bo"]
    by (cases "sp bo = 1") (auto simp: readable_def scanner_ok_def)
  then show ?thesis using True by blast
next
  case False
  have "sp bo = 1"
    using False assms by (cases "sp bo = 1") (auto simp: opt_next_def scanner_ok_def Let_def)
  then have "\<exists>n. opt_next bo = (fst (opt_next bo), finish (bo\<lparr>index := index bo + n, sp := 1\<rparr>))
      \<and> ends (fst (opt_next bo))"
    using False assms(2)
    by (auto simp: opt_next_def Let_def finish_def skip_words_def ends_def intro: exI [of _ 0] exI [of _ 1])
  then show ?thesis by blast
qed

text \<open>Everything a caller needs to know about one call.\<close>

lemma step_shape:
  assumes "scanner_ok bo" "\<not> finished bo" "opt_next bo = (ev, bo')"
  shows "same_input bo bo'" "scanner_ok bo'" "finished bo' = ends ev" "index bo \<le> index bo'"
    "\<not> ends ev \<Longrightarrow> moved bo bo' \<and> readable bo"
    "(optopt bo' = optopt bo \<and> opt_diag bo' = opt_diag bo)
     \<or> (ev = End \<and> optopt bo' \<noteq> None \<and> usage_error (opt_diag bo) (opt_diag bo'))"
  using opt_next_cases [OF assms(1,2)] scan_char_shape [OF _ assms(2), of ev bo'] scan_char_diag [of bo ev bo'] assms
  by (auto simp: finish_def same_input_def scanner_ok_def moved_def readable_def split: if_splits)

subsection \<open>The scan consumes its words\<close>

lemma bytes_left_ahead:
  assumes "index bo < length (words bo)"
  shows "sum_list (map length (drop (index bo) (words bo)))
    = length (words bo ! index bo) + sum_list (map length (drop (Suc (index bo)) (words bo)))"
  using assms by (simp add: Cons_nth_drop_Suc [symmetric])

lemma sum_list_drop_le: "i \<le> j \<Longrightarrow> sum_list (map f (drop j xs)) \<le> sum_list (map f (drop i xs))" for f :: "'a \<Rightarrow> nat"
proof (induction xs arbitrary: i j)
  case (Cons x xs)
  then show ?case by (cases i; cases j) (auto intro: order_trans [OF _ le_add2] simp: Cons.IH [of 0, simplified])
qed simp

lemma moved_bytes_left:
  assumes "readable bo" "moved bo bo'" "same_input bo bo'"
  shows "bytes_left bo' < bytes_left bo"
proof -
  note ahead = bytes_left_ahead [of bo]
  have w: "words bo' = words bo" using assms(3) by (simp add: same_input_def)
  consider "index bo < index bo'" "sp bo' = 1"
    | "index bo' = index bo" "sp bo' = sp bo + 1" "sp bo' < length (words bo ! index bo)"
    using assms(2) by (auto simp: moved_def)
  then show ?thesis
  proof cases
    case 1
    then have "sum_list (map length (drop (index bo') (words bo)))
        \<le> sum_list (map length (drop (Suc (index bo)) (words bo)))"
      by (intro sum_list_drop_le) simp
    then show ?thesis
      using 1(2) assms(1) ahead unfolding bytes_left_def readable_def w by linarith
  next
    case 2
    then show ?thesis using assms ahead by (simp add: bytes_left_def same_input_def readable_def)
  qed
qed

interpretation scan: consuming_machine finished "\<lambda>bo. snd (opt_next bo)" bytes_left scanner_ok
proof unfold_locales
  fix bo
  assume h: "scanner_ok bo" "\<not> finished bo"
  obtain ev bo' where nxt: "opt_next bo = (ev, bo')" by fastforce
  note shape = step_shape [OF h nxt]
  show "scanner_ok (snd (opt_next bo))" using shape(2) nxt by simp
  show "bytes_left (snd (opt_next bo)) < bytes_left bo \<or> finished (snd (opt_next bo))"
    using shape(1,3,5) moved_bytes_left [of bo bo'] nxt by auto
qed

text \<open>What holds along a whole scan that starts at \<open>bo\<close>.\<close>

definition scan_account :: "builtin_opt \<Rightarrow> opt_event list \<Rightarrow> builtin_opt \<Rightarrow> bool" where
  "scan_account bo evs bo' \<longleftrightarrow>
     evs \<noteq> [] \<and> ends (last evs) \<and> list_all (\<lambda>ev. \<not> ends ev) (butlast evs)
     \<and> same_input bo bo' \<and> finished bo' \<and> index bo \<le> index bo'
     \<and> ((optopt bo' = optopt bo \<and> opt_diag bo' = opt_diag bo)
        \<or> (last evs = End \<and> optopt bo' \<noteq> None \<and> usage_error (opt_diag bo) (opt_diag bo')))"

lemma scan_all_step:
  "opt_next bo = (ev, bo') \<Longrightarrow> scan_all (Suc n) bo =
     (if ends ev then Some ([ev], bo') else map_option (\<lambda>(evs, t). (ev # evs, t)) (scan_all n bo'))"
  by (cases ev) (auto simp: ends_def)

declare scan_all.simps(2) [simp del]

lemma scan_all_iter:
  assumes "scanner_ok bo" "\<not> finished bo" "iter finished (\<lambda>bo. snd (opt_next bo)) n bo = Some t"
  shows "\<exists>evs. scan_all n bo = Some (evs, t) \<and> scan_account bo evs t"
  using assms
proof (induction n arbitrary: bo)
  case (Suc n)
  obtain ev bo' where nxt: "opt_next bo = (ev, bo')" by fastforce
  note shape = step_shape [OF Suc.prems(1,2) nxt]
  show ?case
  proof (cases "ends ev")
    case True
    then have "t = bo'" using Suc.prems(2,3) nxt shape(3) by (cases n) auto
    then show ?thesis
      using True shape by (auto simp: scan_all_step [OF nxt] scan_account_def)
  next
    case False
    then have "iter finished (\<lambda>bo. snd (opt_next bo)) n bo' = Some t"
      using Suc.prems(2,3) nxt by simp
    then obtain evs where evs: "scan_all n bo' = Some (evs, t)" "scan_account bo' evs t"
      using Suc.IH [OF shape(2)] False shape(3) by blast
    have "optopt bo' = optopt bo \<and> opt_diag bo' = opt_diag bo" using shape(6) False by (auto simp: ends_def)
    then have "scan_account bo (ev # evs) t"
      using evs(2) shape(1,4) False by (auto simp: scan_account_def same_input_def)
    then show ?thesis using evs(1) False by (auto simp: scan_all_step [OF nxt])
  qed
qed simp

lemma scanner_ok_new [simp]: "scanner_ok (builtin_opt_new row ws d)" "\<not> finished (builtin_opt_new row ws d)"
  by (simp_all add: scanner_ok_def builtin_opt_new_def)

lemma scan_all_more: "scan_all n bo = Some r \<Longrightarrow> n \<le> m \<Longrightarrow> scan_all m bo = Some r"
proof (induction n arbitrary: bo m r)
  case (Suc n)
  obtain ev bo' where nxt: "opt_next bo = (ev, bo')" by fastforce
  obtain k where k: "m = Suc k" "n \<le> k" using Suc.prems(2) by (cases m) auto
  show ?case
  proof (cases "ends ev")
    case True
    then show ?thesis using Suc.prems(1) k(1) by (simp add: scan_all_step [OF nxt])
  next
    case False
    then obtain q where q: "scan_all n bo' = Some q" "r = (ev # fst q, snd q)"
      using Suc.prems(1) by (auto simp: scan_all_step [OF nxt])
    then show ?thesis using Suc.IH [OF q(1) k(2)] False k(1) by (simp add: scan_all_step [OF nxt] split_beta)
  qed
qed simp

lemma scan_fuel: "bytes_left (builtin_opt_new row ws d) = sum_list (map length ws)"
  by (simp add: bytes_left_def builtin_opt_new_def)

lemma scan_new_account:
  "\<exists>evs bo'. scan_all (Suc (sum_list (map length ws))) (builtin_opt_new row ws d) = Some (evs, bo')
     \<and> scan_account (builtin_opt_new row ws d) evs bo'"
proof -
  obtain t where "iter finished (\<lambda>bo. snd (opt_next bo)) (Suc (sum_list (map length ws))) (builtin_opt_new row ws d) = Some t"
    using scan.iter_total [of "builtin_opt_new row ws d" "Suc (sum_list (map length ws))"] by (auto simp: scan_fuel)
  from scan_all_iter [OF scanner_ok_new this] show ?thesis by blast
qed

text \<open>
  C21. Every option scan ends.  For any row, argument words and \<open>Diag\<close>, calling \<open>next\<close> at most
  once per byte of the words plus once yields an \<open>End\<close> or \<open>Help\<close>, with only option events
  before it; the words are never altered and the operands are a suffix of them.
\<close>

theorem option_scan_ends:
  "\<exists>evs last_ev bo'. scan_all (Suc (sum_list (map length ws))) (builtin_opt_new row ws d) = Some (evs @ [last_ev], bo')
     \<and> last_ev \<in> {End, Help} \<and> set evs \<inter> {End, Help} = {}
     \<and> finished bo' \<and> words bo' = ws \<and> (\<exists>scanned. ws = scanned @ operands bo')"
proof -
  let ?bo = "builtin_opt_new row ws d"
  obtain evs bo' where r: "scan_all (Suc (sum_list (map length ws))) ?bo = Some (evs, bo')" "scan_account ?bo evs bo'"
    using scan_new_account by blast
  have w: "words bo' = ws" using r(2) by (simp add: scan_account_def same_input_def builtin_opt_new_def)
  moreover have "ws = take (min (index bo') (length ws)) ws @ operands bo'" by (simp only: operands_def w append_take_drop_id)
  moreover have "evs = butlast evs @ [last evs]" using r(2) by (simp add: scan_account_def)
  moreover have "last evs \<in> {End, Help}" "set (butlast evs) \<inter> {End, Help} = {}" "finished bo'"
    using r(2) by (auto simp: scan_account_def ends_def list_all_iff)
  ultimately show ?thesis using r(1) by metis
qed


definition wait_row :: builtin_row where
  "wait_row = \<lparr>row_name = ''wait'', row_opt_spec = Getopt ''fnp:'', row_short_doc = None\<rparr>"


subsection \<open>Plain flags: a word-by-word reference\<close>

text \<open>
  Most rows take options without arguments (\<open>umask\<close> has \<open>Sp\<close>).  For them the scan is described word
  by word: the event list and the operands that are left.
\<close>

fun flag_words :: "(char \<Rightarrow> bool) \<Rightarrow> bool \<Rightarrow> bytes list \<Rightarrow> opt_event list \<times> bytes list" where
  "flag_words ok allow_plus [] = ([End], [])"
| "flag_words ok allow_plus (w # ws) =
     (if \<not> is_option_word w allow_plus then ([End], w # ws)
      else if w = ''--help'' then ([Help], w # ws)
      else if w = ''--'' then ([End], ws)
      else if list_all ok (tl w)
           then (map Opt (tl w) @ fst (flag_words ok allow_plus ws), snd (flag_words ok allow_plus ws))
           else (map Opt (takeWhile ok (tl w)) @ [End], ws))"

definition flags_only :: "(char \<times> arg_kind) list \<Rightarrow> bool" where
  "flags_only es \<longleftrightarrow> list_all (\<lambda>e. snd e = NoArg) es"

definition allowed :: "(char \<times> arg_kind) list \<Rightarrow> char \<Rightarrow> bool" where
  "allowed es c \<longleftrightarrow> c \<noteq> CHR '':'' \<and> c \<in> fst ` set es"

lemma spec_lookup_flags:
  "flags_only (spec bo) \<Longrightarrow> spec_lookup c bo = (if allowed (spec bo) c then Some NoArg else None)"
proof -
  assume f: "flags_only (spec bo)"
  have "find (\<lambda>e. fst e = c) es = (if c \<in> fst ` set es then Some (c, NoArg) else None)"
    if "list_all (\<lambda>e. snd e = NoArg) es" for es
    using that by (induction es) (auto simp: prod_eq_iff)
  then show ?thesis using f by (simp add: spec_lookup_def allowed_def flags_only_def)
qed

definition scans :: "builtin_opt \<Rightarrow> opt_event list \<Rightarrow> builtin_opt \<Rightarrow> bool" where
  "scans bo evs t \<longleftrightarrow> (\<exists>n. scan_all n bo = Some (evs, t))"

lemma scans_more: "opt_next bo = (ev, bo') \<Longrightarrow> \<not> ends ev \<Longrightarrow> scans bo' evs t \<Longrightarrow> scans bo (ev # evs) t"
  unfolding scans_def using scan_all_step [of bo ev bo'] by (metis option.simps(9) case_prod_conv)

lemma scans_end: "opt_next bo = (ev, bo') \<Longrightarrow> ends ev \<Longrightarrow> scans bo [ev] bo'"
  unfolding scans_def using scan_all_step [of bo ev bo' 0] by (intro exI [of _ 1]) simp

lemma not_ends_Opt [simp]: "\<not> ends (Opt c)" "ends End" "ends Help"
  by (simp_all add: ends_def)

text \<open>The scanner at the start of the word after \<open>bo\<close>'s, with the same input.\<close>

definition at_next_word :: "builtin_opt \<Rightarrow> builtin_opt \<Rightarrow> bool" where
  "at_next_word bo bo' \<longleftrightarrow> same_input bo bo' \<and> index bo' = Suc (index bo) \<and> sp bo' = 1"

lemma flag_char:
  assumes "flags_only (spec bo)" "readable bo" "allowed (spec bo) (words bo ! index bo ! sp bo)"
  shows "\<exists>bo'. scan_char bo = (Opt (words bo ! index bo ! sp bo), bo') \<and> finished bo' = finished bo
    \<and> (if Suc (sp bo) < length (words bo ! index bo)
       then same_input bo bo' \<and> index bo' = index bo \<and> sp bo' = Suc (sp bo)
       else at_next_word bo bo')"
  using assms spec_lookup_flags [of "bo\<lparr>opttype := words bo ! index bo ! 0\<rparr>" "words bo ! index bo ! sp bo"]
  by (auto simp: scan_char_def advance_sp_def at_next_word_def same_input_def Let_def)

lemma bad_flag_char:
  assumes "flags_only (spec bo)" "\<not> allowed (spec bo) (words bo ! index bo ! sp bo)"
  shows "\<exists>t. scan_char bo = (End, t) \<and> same_input bo t \<and> index t = Suc (index bo)"
  using assms spec_lookup_flags [of "bo\<lparr>opttype := words bo ! index bo ! 0\<rparr>" "words bo ! index bo ! sp bo"]
  by (auto simp: scan_char_def same_input_def Let_def scan_defs)

lemma inside_word: "readable bo \<Longrightarrow> \<not> finished bo \<Longrightarrow> sp bo \<noteq> 1 \<Longrightarrow> opt_next bo = scan_char bo"
  by (auto simp: opt_next_def readable_def Let_def)

lemma flag_word_good:
  assumes "flags_only (spec bo)" "readable bo" "\<not> finished bo" "opt_next bo = scan_char bo"
    "drop (sp bo) (words bo ! index bo) = r" "list_all (allowed (spec bo)) r"
  shows "\<exists>bo'. at_next_word bo bo' \<and> \<not> finished bo'
    \<and> (\<forall>evs t. scans bo' evs t \<longrightarrow> scans bo (map Opt r @ evs) t)"
  using assms
proof (induction r arbitrary: bo)
  case Nil
  then show ?case by (simp add: readable_def)
next
  case (Cons c r)
  have len: "sp bo < length (words bo ! index bo)" using Cons.prems(2) by (simp add: readable_def)
  have c: "c = words bo ! index bo ! sp bo" "r = drop (Suc (sp bo)) (words bo ! index bo)"
    using Cons.prems(5) Cons_nth_drop_Suc [OF len] by simp_all
  obtain bo1 where b: "scan_char bo = (Opt c, bo1)" "\<not> finished bo1"
    "if Suc (sp bo) < length (words bo ! index bo)
     then same_input bo bo1 \<and> index bo1 = index bo \<and> sp bo1 = Suc (sp bo) else at_next_word bo bo1"
    using flag_char [OF Cons.prems(1,2)] Cons.prems(3,6) c(1) by auto
  have step: "scans bo (Opt c # evs) t" if "scans bo1 evs t" for evs t
    using scans_more [OF _ _ that] b(1) Cons.prems(4) by simp
  show ?case
  proof (cases "r = []")
    case True
    then have "at_next_word bo bo1" using b(3) c(2) by simp
    then show ?thesis using True b(2) step by auto
  next
    case False
    then have s: "same_input bo bo1" "index bo1 = index bo" "sp bo1 = Suc (sp bo)"
      using b(3) c(2) by (auto split: if_splits)
    have rd: "readable bo1" using s Cons.prems(2) False c(2) by (auto simp: readable_def same_input_def)
    have "opt_next bo1 = scan_char bo1" using inside_word [OF rd b(2)] s(3) len Cons.prems(2) by (simp add: readable_def)
    then obtain bo2 where "at_next_word bo1 bo2" "\<not> finished bo2"
      "\<And>evs t. scans bo2 evs t \<Longrightarrow> scans bo1 (map Opt r @ evs) t"
      using Cons.IH [of bo1] Cons.prems(1,6) rd b(2) s c(2) by (auto simp: same_input_def)
    then show ?thesis using s step by (auto simp: at_next_word_def same_input_def)
  qed
qed

lemma flag_word_bad:
  assumes "flags_only (spec bo)" "readable bo" "\<not> finished bo" "opt_next bo = scan_char bo"
    "drop (sp bo) (words bo ! index bo) = r" "\<not> list_all (allowed (spec bo)) r"
  shows "\<exists>t. scans bo (map Opt (takeWhile (allowed (spec bo)) r) @ [End]) t
    \<and> same_input bo t \<and> index t = Suc (index bo)"
  using assms
proof (induction r arbitrary: bo)
  case (Cons c r)
  have len: "sp bo < length (words bo ! index bo)" using Cons.prems(2) by (simp add: readable_def)
  have c: "c = words bo ! index bo ! sp bo" "r = drop (Suc (sp bo)) (words bo ! index bo)"
    using Cons.prems(5) Cons_nth_drop_Suc [OF len] by simp_all
  show ?case
  proof (cases "allowed (spec bo) c")
    case False
    then show ?thesis using bad_flag_char [of bo] Cons.prems(1,4) c(1) scans_end [of bo End] by auto
  next
    case True
    then have ne: "r \<noteq> []" using Cons.prems(6) by auto
    obtain bo1 where b: "scan_char bo = (Opt c, bo1)" "\<not> finished bo1"
      "same_input bo bo1" "index bo1 = index bo" "sp bo1 = Suc (sp bo)"
      using flag_char [OF Cons.prems(1,2)] Cons.prems(3) True c ne by (auto split: if_splits)
    have rd: "readable bo1" using b Cons.prems(2) ne c(2) by (auto simp: readable_def same_input_def)
    have "opt_next bo1 = scan_char bo1" using inside_word [OF rd b(2)] b(5) len Cons.prems(2) by (simp add: readable_def)
    then obtain t where "scans bo1 (map Opt (takeWhile (allowed (spec bo)) r) @ [End]) t"
      "same_input bo1 t" "index t = Suc (index bo1)"
      using Cons.IH [of bo1] Cons.prems(1,6) rd b c(2) True by (auto simp: same_input_def)
    then show ?thesis using True b scans_more [of bo "Opt c" bo1] Cons.prems(4) by (auto simp: same_input_def)
  qed
qed simp

lemma flag_scan:
  assumes "flags_only (spec bo)" "scannable bo" "\<not> finished bo" "sp bo = 1" "drop (index bo) (words bo) = ws"
  shows "\<exists>t. scans bo (fst (flag_words (allowed (spec bo)) (plus bo) ws)) t
    \<and> operands t = snd (flag_words (allowed (spec bo)) (plus bo) ws)"
  using assms
proof (induction ws arbitrary: bo)
  case Nil
  have "opt_next bo = (End, finish bo)" using Nil.prems by (simp add: opt_next_def)
  then show ?case using Nil.prems(5) scans_end [of bo End] by (auto simp: operands_def finish_def)
next
  case (Cons w ws)
  have i: "index bo < length (words bo)" using Cons.prems(5) by (metis drop_eq_Nil list.distinct(1) not_le)
  have w: "words bo ! index bo = w" "drop (Suc (index bo)) (words bo) = ws"
    using Cons.prems(5) Cons_nth_drop_Suc [OF i] by simp_all
  have rest: "operands t = ws" if "same_input bo t" "index t = Suc (index bo)" for t
    using that i w(2) by (simp add: operands_def same_input_def)
  let ?ok = "allowed (spec bo)"
  show ?case
  proof (cases "is_option_word w (plus bo) \<and> w \<noteq> ''--help'' \<and> w \<noteq> ''--''")
    case False
    then consider "\<not> is_option_word w (plus bo)" | "w = ''--help''" | "w = ''--''" "is_option_word w (plus bo)"
      by blast
    then obtain ev k where nx: "opt_next bo = (ev, finish (bo\<lparr>index := index bo + k\<rparr>))"
      "flag_words ?ok (plus bo) (w # ws) = ([ev], if k = 0 then w # ws else ws)" "ends ev" "k \<le> 1"
    proof cases
      case 1
      with Cons.prems(2,3,4) i w(1) show ?thesis by (intro that [of End 0]) (simp_all add: opt_next_def finish_def)
    next
      case 2
      with Cons.prems(2,3,4) i w(1) show ?thesis
        by (intro that [of Help 0]) (simp_all add: opt_next_def finish_def is_option_word_def)
    next
      case 3
      with Cons.prems(2,3,4) i w(1) show ?thesis
        by (intro that [of End 1]) (simp_all add: opt_next_def finish_def skip_words_def)
    qed
    then have "operands (finish (bo\<lparr>index := index bo + k\<rparr>)) = snd (flag_words ?ok (plus bo) (w # ws))"
      using Cons.prems(5) i w(2) by (cases k) (auto simp: operands_def finish_def)
    then show ?thesis using scans_end [OF nx(1,3)] nx(2) by auto
  next
    case True
    then obtain c r where wc: "w = c # r" "r \<noteq> []"
      using is_option_word_length by (cases w; cases "tl w") fastforce+
    have rd: "readable bo" using True i w(1) Cons.prems(2,4) by (simp add: readable_def is_option_word_def)
    have nx: "opt_next bo = scan_char bo" using True i w(1) Cons.prems(2,3) by (auto simp: opt_next_def)
    have r: "drop (sp bo) (words bo ! index bo) = r" using Cons.prems(4) w(1) wc by simp
    show ?thesis
    proof (cases "list_all ?ok r")
      case False
      then obtain t where "scans bo (map Opt (takeWhile ?ok r) @ [End]) t" "operands t = ws"
        using flag_word_bad [OF Cons.prems(1) rd Cons.prems(3) nx r] rest by blast
      then show ?thesis using True False wc by auto
    next
      case good: True
      obtain bo1 where b: "at_next_word bo bo1" "\<not> finished bo1"
        "\<And>evs t. scans bo1 evs t \<Longrightarrow> scans bo (map Opt r @ evs) t"
        using flag_word_good [OF Cons.prems(1) rd Cons.prems(3) nx r good] by blast
      have "\<exists>t. scans bo1 (fst (flag_words ?ok (plus bo) ws)) t \<and> operands t = snd (flag_words ?ok (plus bo) ws)"
        using Cons.IH [of bo1] b(1,2) Cons.prems(1,2) w(2) by (simp add: at_next_word_def same_input_def)
      then show ?thesis using True good wc b(3) by auto
    qed
  qed
qed

lemma scans_unique: "scans bo evs t \<Longrightarrow> scan_all n bo = Some (evs', t') \<Longrightarrow> evs' = evs \<and> t' = t"
proof -
  assume "scans bo evs t" "scan_all n bo = Some (evs', t')"
  then obtain m where "scan_all (max n m) bo = Some (evs, t)" "scan_all (max n m) bo = Some (evs', t')"
    unfolding scans_def using scan_all_more max.cobounded1 max.cobounded2 by blast
  then show ?thesis by simp
qed

text \<open>
  Scanning plain flags.  For a row whose specification has no argument-taking option (such as
  \<open>umask\<close>'s \<open>Sp\<close>), a whole scan gives exactly the events and operands of the word-by-word
  reference \<open>flag_words\<close>: grouped flags are reported one by one, \<open>--help\<close> stays in front of the
  operands, \<open>--\<close> is consumed, the first word that is no option word starts the operands, and a
  flag the specification does not list stops the scan behind its word.
\<close>

theorem flag_scan_exact:
  assumes "row_opt_spec row = Getopt s" "flags_only (parse_spec s)"
  shows "\<exists>bo'. scan_all (Suc (sum_list (map length ws))) (builtin_opt_new row ws d)
      = Some (fst (flag_words (allowed (parse_spec s)) (starts_at s 0 ''+'') ws), bo')
    \<and> operands bo' = snd (flag_words (allowed (parse_spec s)) (starts_at s 0 ''+'') ws)"
proof -
  let ?bo = "builtin_opt_new row ws d"
  have new: "spec ?bo = parse_spec s" "plus ?bo = starts_at s 0 ''+''" "scannable ?bo" "\<not> finished ?bo"
    "sp ?bo = 1" "drop (index ?bo) (words ?bo) = ws"
    using assms(1) by (simp_all add: builtin_opt_new_def)
  obtain t where t: "scans ?bo (fst (flag_words (allowed (parse_spec s)) (starts_at s 0 ''+'') ws)) t"
    "operands t = snd (flag_words (allowed (parse_spec s)) (starts_at s 0 ''+'') ws)"
    using flag_scan [of ?bo ws] assms(2) new by auto
  obtain evs bo' where "scan_all (Suc (sum_list (map length ws))) ?bo = Some (evs, bo')"
    using scan_new_account by blast
  then show ?thesis using scans_unique [OF t(1)] t(2) by auto
qed

definition umask_row :: builtin_row where
  "umask_row = \<lparr>row_name = ''umask'', row_opt_spec = Getopt ''Sp'',
     row_short_doc = Some ''umask [-p] [-S] [mode]''\<rparr>"

lemma flag_scan_exact_witness:
  "operands (snd (the (scan_all 9 (builtin_opt_new umask_row [''-Sp'', ''022'', ''-S''] (diag_new umask_row [])))))
     = [''022'', ''-S'']"
proof -
  have s: "row_opt_spec umask_row = Getopt ''Sp''" "flags_only (parse_spec ''Sp'')" by code_simp+
  have e: "snd (flag_words (allowed (parse_spec ''Sp'')) (starts_at ''Sp'' 0 ''+'') [''-Sp'', ''022'', ''-S''])
      = [''022'', ''-S'']" by code_simp
  have n: "Suc (sum_list (map length [''-Sp'', ''022'', ''-S''])) = 9" by simp
  show ?thesis
    using flag_scan_exact [OF s, of "[''-Sp'', ''022'', ''-S'']" "diag_new umask_row []"] unfolding n e
    by (elim exE conjE) (simp only: option.sel snd_conv)
qed

subsection \<open>Option arguments\<close>

lemma find_spec: "map_of es c = Some k \<Longrightarrow> map_option snd (find (\<lambda>e. fst e = c) es) = Some k"
  by (induction es) auto

text \<open>
  The two spellings of an option argument.  An option that takes a required argument yields the
  same event and leaves the same operands whether its non-empty argument is attached to the option
  word or is the next word, whatever that argument looks like (also \<open>--\<close> or another option).
\<close>

theorem optarg_attached_or_next:
  assumes "row_opt_spec row = Getopt s" "map_of (parse_spec s) c = Some Required"
    "c \<noteq> CHR '':''" "c \<noteq> CHR ''-''" "arg \<noteq> []"
  shows "fst (opt_next (builtin_opt_new row ((CHR ''-'' # c # arg) # ws) d)) = OptArg c arg
    \<and> fst (opt_next (builtin_opt_new row ([CHR ''-'', c] # arg # ws) d)) = OptArg c arg
    \<and> operands (snd (opt_next (builtin_opt_new row ((CHR ''-'' # c # arg) # ws) d))) = ws
    \<and> operands (snd (opt_next (builtin_opt_new row ([CHR ''-'', c] # arg # ws) d))) = ws"
  using assms find_spec [OF assms(2)]
  by (auto simp: opt_next_def builtin_opt_new_def is_option_word_def scan_char_def spec_lookup_def Let_def
      take_argument_def next_word_def skip_words_def operands_def)

lemma optarg_attached_or_next_witness:
  "operands (snd (opt_next (builtin_opt_new wait_row [''-p'', ''--'', ''%1''] (diag_new wait_row [])))) = [''%1'']"
proof -
  have s: "row_opt_spec wait_row = Getopt ''fnp:''" "map_of (parse_spec ''fnp:'') CHR ''p'' = Some Required"
    "CHR ''p'' \<noteq> CHR '':''" "CHR ''p'' \<noteq> CHR ''-''" "''--'' \<noteq> []"
    by code_simp+
  show ?thesis using optarg_attached_or_next [OF s, of "[''%1'']" "diag_new wait_row []"] by blast
qed

end
