(* ===== verification/Umask.thy ===== *)
theory Umask
  imports GetoptCorrect
begin

section \<open>The \<open>umask\<close> builtin: \<open>builtins/umask.rs\<close>\<close>

text \<open>
  The state is the variable \<open>__RUBASH_UMASK\<close> (the shell's record of the mask, octal text) and the
  mask of the process, both read and written by the builtin.  Masks are 32-bit words.  The symbolic
  mode is scanned over the code points of its text, as the code scans \<open>chars()\<close>; the two nested
  loops are mutually recursive functions on what is left of the text.

  The octal constants of the code are written in hexadecimal, bit by bit the same: \<open>0777\<close> is
  \<open>0x1FF\<close>, the classes \<open>0700\<close>, \<open>0070\<close>, \<open>0007\<close> are \<open>0x1C0\<close>, \<open>0x38\<close>, \<open>0x7\<close>, and read, write,
  execute for all (\<open>0444\<close>, \<open>0222\<close>, \<open>0111\<close>) are \<open>0x124\<close>, \<open>0x92\<close>, \<open>0x49\<close>.

  Output is a list of pieces: the help text of the row (\<open>print_builtin_help\<close>, a table of the help
  builtin) or bytes.
\<close>

unbundle bit_operations_syntax

subsection \<open>Octal text\<close>

fun oct_digits :: "nat \<Rightarrow> string" where
  "oct_digits n = (if n < 8 then [digit_char n] else oct_digits (n div 8) @ [digit_char (n mod 8)])"

declare oct_digits.simps [simp del]

definition format_octal4 :: "u32 \<Rightarrow> bytes" where
  "format_octal4 m = zero_pad 4 (oct_digits (unat m))"

text \<open>\<open>u32::from_str_radix(s, 8)\<close>: an optional plus sign, at least one octal digit, no overflow.\<close>

definition is_octal_digit :: "char \<Rightarrow> bool" where
  "is_octal_digit c \<longleftrightarrow> 48 \<le> byte c \<and> byte c \<le> 55"

definition octal_value :: "string \<Rightarrow> nat" where
  "octal_value s = foldl (\<lambda>v c. 8 * v + (byte c - 48)) 0 s"

definition from_octal :: "bytes \<Rightarrow> u32 option" where
  "from_octal s =
     (let body = (if s \<noteq> [] \<and> hd s = CHR ''+'' then tl s else s)
      in if body = [] \<or> \<not> list_all is_octal_digit body then None
         else if octal_value body < 2 ^ 32 then Some (word_of_nat (octal_value body)) else None)"

subsection \<open>The state\<close>

record umask_state =
  umask_var :: "bytes option"
  process_mask :: u32

definition current_mask :: "umask_state \<Rightarrow> u32" where
  "current_mask st =
     (case umask_var st of
        None \<Rightarrow> process_mask st
      | Some s \<Rightarrow> (case from_octal s of Some m \<Rightarrow> m | None \<Rightarrow> process_mask st))"

subsection \<open>Modes\<close>

definition parse_mask :: "bytes \<Rightarrow> u32 option" where
  "parse_mask mode = (if list_all is_octal_digit mode then from_octal mode else None)"

datatype symbolic_mode_error = OperatorError code_point | CharacterError code_point

definition copy_class :: "u32 \<Rightarrow> u32 \<Rightarrow> u32 \<Rightarrow> u32 \<Rightarrow> u32" where
  "copy_class initial_bits read write exec =
     (if initial_bits AND read \<noteq> 0 then 0x124 else 0)
     OR (if initial_bits AND write \<noteq> 0 then 0x92 else 0)
     OR (if initial_bits AND exec \<noteq> 0 then 0x49 else 0)"

abbreviation ch :: "char \<Rightarrow> code_point" where
  "ch c \<equiv> of_char c"

text \<open>The \<open>who\<close> letters: the classes they name and the text behind them.\<close>

fun parse_who :: "code_point list \<Rightarrow> u32 \<Rightarrow> u32 \<times> code_point list" where
  "parse_who [] who = (who, [])"
| "parse_who (c # rest) who =
     (if c = ch CHR ''u'' then parse_who rest (who OR 0x1C0)
      else if c = ch CHR ''g'' then parse_who rest (who OR 0x38)
      else if c = ch CHR ''o'' then parse_who rest (who OR 0x7)
      else if c = ch CHR ''a'' then parse_who rest (who OR 0x1FF)
      else (who, c # rest))"

fun parse_perm :: "u32 \<Rightarrow> code_point list \<Rightarrow> u32 \<Rightarrow> u32 \<times> code_point list" where
  "parse_perm initial_bits [] perm = (perm, [])"
| "parse_perm initial_bits (c # rest) perm =
     (if c = ch CHR ''u'' then parse_perm initial_bits rest (copy_class initial_bits 0x100 0x80 0x40)
      else if c = ch CHR ''g'' then parse_perm initial_bits rest (copy_class initial_bits 0x20 0x10 0x8)
      else if c = ch CHR ''o'' then parse_perm initial_bits rest (copy_class initial_bits 0x4 0x2 0x1)
      else if c = ch CHR ''r'' then parse_perm initial_bits rest (perm OR 0x124)
      else if c = ch CHR ''w'' then parse_perm initial_bits rest (perm OR 0x92)
      else if c = ch CHR ''X'' then
        parse_perm initial_bits rest (if initial_bits AND 0x49 \<noteq> 0 then perm OR 0x49 else perm)
      else if c = ch CHR ''x'' then parse_perm initial_bits rest (perm OR 0x49)
      else if c = ch CHR ''s'' then parse_perm initial_bits rest (perm OR 0xC00)
      else if c = ch CHR ''t'' then parse_perm initial_bits rest (perm OR 0x200)
      else (perm, c # rest))"

lemma parse_who_length: "length (snd (parse_who cs who)) \<le> length cs"
  by (induction cs who rule: parse_who.induct) (auto simp: le_Suc_eq)

lemma parse_perm_length: "length (snd (parse_perm ib cs perm)) \<le> length cs"
  by (induction ib cs perm rule: parse_perm.induct) (auto simp: le_Suc_eq)

lemma parse_perm_behind:
  "(perm, d # behind) = parse_perm ib cs k \<Longrightarrow> length behind < length cs"
  using parse_perm_length [of ib cs k] by (metis length_Cons less_eq_Suc_le snd_conv)

definition is_op :: "code_point \<Rightarrow> bool" where
  "is_op c \<longleftrightarrow> c = ch CHR ''+'' \<or> c = ch CHR ''-'' \<or> c = ch CHR ''=''"

definition apply_op :: "code_point \<Rightarrow> u32 \<Rightarrow> u32 \<Rightarrow> u32 \<Rightarrow> u32" where
  "apply_op c who perm bits =
     (if c = ch CHR ''+'' then bits OR perm
      else if c = ch CHR ''-'' then bits AND NOT perm
      else (bits AND NOT who) OR perm)"

definition clause_who :: "code_point list \<Rightarrow> u32" where
  "clause_who cs = (let who = fst (parse_who cs 0) in if who = 0 then 0x1FF else who)"

text \<open>
  \<open>ops initial_bits who cs bits\<close> is the inner loop (\<open>start_op\<close>) for one clause: the operator at the
  front, its actions, and then the end, a new clause, another operator, or an error.
\<close>

function ops :: "u32 \<Rightarrow> u32 \<Rightarrow> code_point list \<Rightarrow> u32 \<Rightarrow> symbolic_mode_error + u32" where
  "ops initial_bits who cs bits =
     (case cs of
        [] \<Rightarrow> Inl (OperatorError 0)
      | c # rest \<Rightarrow>
          if \<not> is_op c then Inl (OperatorError c)
          else let (perm, behind) = parse_perm initial_bits rest 0;
                   bits = apply_op c who (perm AND who) bits
               in case behind of
                    [] \<Rightarrow> Inr (NOT bits AND 0x1FF)
                  | d # more_text \<Rightarrow>
                      if d = ch CHR '','' then
                        ops initial_bits (clause_who more_text) (snd (parse_who more_text 0)) bits
                      else if is_op d then ops initial_bits who (d # more_text) bits
                      else Inl (CharacterError d))"
  by pat_completeness auto
termination
  by (relation "measure (\<lambda>(_, _, cs, _). length cs)")
    (auto dest!: parse_perm_behind intro: le_less_trans [OF parse_who_length])

declare ops.simps [simp del]

definition parse_symbolic_mask :: "bytes \<Rightarrow> u32 \<Rightarrow> symbolic_mode_error + u32" where
  "parse_symbolic_mask mode m =
     (let initial_bits = NOT m AND 0x1FF; cs = decode_utf8 mode
      in ops initial_bits (clause_who cs) (snd (parse_who cs 0)) initial_bits)"

subsection \<open>Printing\<close>

definition class_permissions :: "u32 \<Rightarrow> bytes" where
  "class_permissions bits =
     (if bits AND 4 \<noteq> 0 then ''r'' else [])
     @ (if bits AND 2 \<noteq> 0 then ''w'' else [])
     @ (if bits AND 1 \<noteq> 0 then ''x'' else [])"

definition symbolic_mask :: "u32 \<Rightarrow> bytes" where
  "symbolic_mask m =
     (let permitted = NOT m AND 0x1FF
      in ''u='' @ class_permissions (drop_bit 6 (permitted AND 0x1C0))
         @ '',g='' @ class_permissions (drop_bit 3 (permitted AND 0x38))
         @ '',o='' @ class_permissions (permitted AND 7))"

subsection \<open>The builtin\<close>

datatype umask_out = HelpText bytes | Text bytes

datatype umask_options = UmaskOptions (opt_symbolic: bool) (opt_reusable: bool) (opt_help: bool)

text \<open>
  The option loop sets a flag per event and stops on \<open>Help\<close> or \<open>End\<close>; any other event is the
  code's \<open>unreachable!\<close> (\<open>None\<close>).
\<close>

fun umask_flags :: "opt_event list \<Rightarrow> umask_options \<Rightarrow> umask_options option" where
  "umask_flags [] opts = None"
| "umask_flags (ev # evs) (UmaskOptions symb reus hlp) =
     (case ev of
        Opt c \<Rightarrow> if c = CHR ''S'' then umask_flags evs (UmaskOptions True reus hlp)
                 else if c = CHR ''p'' then umask_flags evs (UmaskOptions symb True hlp) else None
      | OptArg _ _ \<Rightarrow> None
      | Help \<Rightarrow> Some (UmaskOptions symb reus True)
      | End \<Rightarrow> Some (UmaskOptions symb reus hlp))"

definition umask_scan :: "builtin_row \<Rightarrow> bytes list \<Rightarrow> diag \<Rightarrow> (umask_options \<times> bytes list \<times> diag) option" where
  "umask_scan row args d =
     (case scan_all (Suc (sum_list (map length args))) (builtin_opt_new row args d) of
        None \<Rightarrow> None
      | Some (evs, bo) \<Rightarrow>
          map_option (\<lambda>opts. (opts, operands bo, opt_diag bo)) (umask_flags evs (UmaskOptions False False False)))"

text \<open>The mask a mode operand stands for, or the diagnostic it earns.\<close>

definition mode_mask :: "bytes \<Rightarrow> umask_state \<Rightarrow> bytes + u32" where
  "mode_mask mode st =
     (if mode \<noteq> [] \<and> is_ascii_digit (hd mode) then
        case parse_mask mode of
          Some m \<Rightarrow> if m \<le> 0xFFF then Inr (m AND 0x1FF) else Inl (mode @ '': octal number out of range'')
        | None \<Rightarrow> Inl (mode @ '': octal number out of range'')
      else case parse_symbolic_mask mode (current_mask st) of
             Inr m \<Rightarrow> Inr m
           | Inl (OperatorError c) \<Rightarrow> Inl (quoted (encode_char c) @ '': invalid symbolic mode operator'')
           | Inl (CharacterError c) \<Rightarrow> Inl (quoted (encode_char c) @ '': invalid symbolic mode character''))"

definition set_umask :: "u32 \<Rightarrow> umask_state \<Rightarrow> umask_state" where
  "set_umask m st = st\<lparr>umask_var := Some (format_octal4 m), process_mask := m\<rparr>"

definition show_umask :: "umask_options \<Rightarrow> u32 \<Rightarrow> bytes" where
  "show_umask opts m =
     (if opt_symbolic opts then (if opt_reusable opts then ''umask -S '' else []) @ symbolic_mask m @ newline
      else if opt_reusable opts then ''umask '' @ format_octal4 m @ newline
      else format_octal4 m @ newline)"

definition umask_execute ::
  "builtin_row \<Rightarrow> bytes list \<Rightarrow> umask_state \<Rightarrow> diag \<Rightarrow> (int \<times> umask_state \<times> diag \<times> umask_out list) option" where
  "umask_execute row args st d =
     (case umask_scan row args d of
        None \<Rightarrow> None
      | Some (opts, operand_words, d) \<Rightarrow> Some (
          if opt_help opts then (2, st, d, [HelpText (row_name row)])
          else if diag_status d \<noteq> 0 then (diag_status d, st, diag_usage d, [])
          else case operand_words of
                 mode # _ \<Rightarrow>
                   (case mode_mask mode st of
                      Inl msg \<Rightarrow> (1, st, diag_free msg d, [])
                    | Inr m \<Rightarrow> (0, set_umask m st, d,
                               if opt_symbolic opts then [Text (symbolic_mask m @ newline)] else []))
               | [] \<Rightarrow> (0, st, d, [Text (show_umask opts (current_mask st))])))"

end
