(* ===== verification/UmaskCorrect.thy ===== *)
theory UmaskCorrect
  imports Umask
begin

section \<open>Correctness of the \<open>umask\<close> builtin\<close>

text \<open>
  Round trips of the two printed forms of a mask, octal and symbolic, through the two parsers; the
  builtin never reaches its \<open>unreachable!\<close>, keeps the state on every failure and stores only
  nine-bit masks.
\<close>

subsection \<open>Octal text\<close>

lemma oct_digits_nonempty [simp]: "oct_digits n \<noteq> []"
  by (subst oct_digits.simps) simp

lemma is_octal_digit_digit_char [simp]: "d < 8 \<Longrightarrow> is_octal_digit (digit_char d)"
  by (simp add: is_octal_digit_def)

lemma oct_digits_octal: "list_all is_octal_digit (oct_digits n)"
proof (induction n rule: oct_digits.induct)
  case (1 n)
  then show ?case by (subst oct_digits.simps) auto
qed

lemma octal_value_append1: "octal_value (s @ [c]) = 8 * octal_value s + (byte c - 48)"
  by (simp add: octal_value_def)

lemma octal_value_oct_digits [simp]: "octal_value (oct_digits n) = n"
proof (induction n rule: oct_digits.induct)
  case (1 n)
  then show ?case
    by (subst oct_digits.simps) (auto simp: octal_value_append1, simp add: octal_value_def)
qed

lemma octal_value_padding [simp]: "octal_value (replicate k CHR ''0'' @ s) = octal_value s"
  by (induction k) (simp_all add: octal_value_def)

lemma format_octal4_octal: "list_all is_octal_digit (format_octal4 m)"
  using oct_digits_octal [of "unat m"]
  by (auto simp: format_octal4_def zero_pad_def list_all_iff is_octal_digit_def)

lemma format_octal4_nonempty [simp]: "format_octal4 m \<noteq> []"
  by (simp add: format_octal4_def zero_pad_def)

lemma hd_format_octal4: "is_octal_digit (hd (format_octal4 m))"
  using format_octal4_octal [of m] format_octal4_nonempty [of m] by (metis hd_in_set list_all_iff)

lemma from_octal_format [simp]: "from_octal (format_octal4 m) = Some m"
proof -
  have "hd (format_octal4 m) \<noteq> CHR ''+''"
    using hd_format_octal4 [of m] by (auto simp: is_octal_digit_def)
  moreover have "octal_value (format_octal4 m) = unat m" by (simp add: format_octal4_def zero_pad_def)
  moreover have "unat m < 2 ^ 32" using unsigned_less [of m] by simp
  ultimately show ?thesis using format_octal4_octal [of m] by (simp add: from_octal_def Let_def)
qed

lemma parse_mask_format [simp]: "parse_mask (format_octal4 m) = Some m"
  by (simp add: parse_mask_def format_octal4_octal)

subsection \<open>The symbolic form\<close>

text \<open>The permission word \<open>rwx\<close> letters of one class stand for, in all three classes.\<close>

definition expand_class :: "u32 \<Rightarrow> u32" where
  "expand_class b = (if b AND 4 \<noteq> 0 then 0x124 else 0) OR (if b AND 2 \<noteq> 0 then 0x92 else 0)
     OR (if b AND 1 \<noteq> 0 then 0x49 else 0)"

text \<open>A text the action loop stops at.\<close>

definition action_end :: "code_point list \<Rightarrow> bool" where
  "action_end cs \<longleftrightarrow> cs = [] \<or> hd cs = ch CHR '',''"

lemma parse_perm_end: "action_end cs \<Longrightarrow> parse_perm ib cs perm = (perm, cs)"
  by (cases cs) (auto simp: action_end_def)

lemma parse_perm_class:
  "action_end cs \<Longrightarrow> parse_perm ib (map ch (class_permissions b) @ cs) 0 = (expand_class b, cs)"
  by (simp add: class_permissions_def expand_class_def parse_perm_end)

lemma ops_assign:
  assumes "action_end cs"
  shows "ops ib who (ch CHR ''='' # map ch (class_permissions b) @ cs) bits =
    (let bits = (bits AND NOT who) OR (expand_class b AND who)
     in case cs of [] \<Rightarrow> Inr (NOT bits AND 0x1FF)
        | _ # rest \<Rightarrow> ops ib (clause_who rest) (snd (parse_who rest 0)) bits)"
  using assms
  by (subst ops.simps) (auto simp: is_op_def parse_perm_class apply_op_def Let_def action_end_def split: list.splits)

lemma three_bits:
  "x AND 0x1C0 = (x AND 0x100) OR (x AND 0x80) OR (x AND 0x40)"
  "x AND 0x38 = (x AND 0x20) OR (x AND 0x10) OR (x AND 8)"
  "x AND 7 = (x AND 4) OR (x AND 2) OR (x AND 1)" for x :: u32
  by (simp_all flip: bit.conj_disj_distrib)

lemma one_bit: "x AND 2 ^ n = (if bit x n then 2 ^ n else 0)" for x :: u32
  by (rule bit_word_eqI) (auto simp: bit_simps)

lemmas bit_masks = one_bit [of _ 8, simplified] one_bit [of _ 7, simplified] one_bit [of _ 6, simplified]
  one_bit [of _ 5, simplified] one_bit [of _ 4, simplified] one_bit [of _ 3, simplified]
  one_bit [of _ 2, simplified] one_bit [of _ 1, simplified] one_bit [of _ 0, simplified]

lemma expand_own_class:
  "expand_class (drop_bit 6 (x AND 0x1C0)) AND 0x1C0 = x AND 0x1C0"
  "expand_class (drop_bit 3 (x AND 0x38)) AND 0x38 = x AND 0x38"
  "expand_class (x AND 7) AND 7 = x AND 7" for x :: u32
  unfolding three_bits expand_class_def bit_masks by (auto simp: bit_simps)

lemma nine_bits: "x AND 0x1FF = (x AND 0x1C0) OR (x AND 0x38) OR (x AND 7)" for x :: u32
  by (simp flip: bit.conj_disj_distrib)

lemma disjoint_classes:
  "((((y AND NOT 0x1C0) OR (a AND 0x1C0)) AND NOT 0x38 OR (b AND 0x38)) AND NOT 7 OR (c AND 7)) AND 0x1FF
    = (a AND 0x1C0) OR (b AND 0x38) OR (c AND 7)" for y a b c :: u32
  unfolding nine_bits three_bits bit_masks by (auto simp: bit_simps)

lemma symbolic_chars:
  "decode_utf8 (symbolic_mask m) = (let p = NOT m AND 0x1FF in
     ch CHR ''u'' # ch CHR ''='' # map ch (class_permissions (drop_bit 6 (p AND 0x1C0)))
     @ ch CHR '','' # ch CHR ''g'' # ch CHR ''='' # map ch (class_permissions (drop_bit 3 (p AND 0x38)))
     @ ch CHR '','' # ch CHR ''o'' # ch CHR ''='' # map ch (class_permissions (p AND 7)) @ [])"
  by (subst decode_utf8_ascii) (auto simp: symbolic_mask_def class_permissions_def Let_def)

lemma who_letters:
  "clause_who (ch CHR ''u'' # ch CHR ''='' # cs) = 0x1C0" "snd (parse_who (ch CHR ''u'' # ch CHR ''='' # cs) 0) = ch CHR ''='' # cs"
  "clause_who (ch CHR ''g'' # ch CHR ''='' # cs) = 0x38" "snd (parse_who (ch CHR ''g'' # ch CHR ''='' # cs) 0) = ch CHR ''='' # cs"
  "clause_who (ch CHR ''o'' # ch CHR ''='' # cs) = 7" "snd (parse_who (ch CHR ''o'' # ch CHR ''='' # cs) 0) = ch CHR ''='' # cs"
  by (simp_all add: clause_who_def)

lemma ops_assign_last:
  "ops ib who (ch CHR ''='' # map ch (class_permissions b) @ []) bits
    = Inr (NOT ((bits AND NOT who) OR (expand_class b AND who)) AND 0x1FF)"
  by (subst ops_assign) (simp_all add: action_end_def Let_def)

lemma ops_assign_more:
  "ops ib who (ch CHR ''='' # map ch (class_permissions b) @ ch CHR '','' # rest) bits
    = ops ib (clause_who rest) (snd (parse_who rest 0)) ((bits AND NOT who) OR (expand_class b AND who))"
  by (subst ops_assign) (simp_all add: action_end_def Let_def)

lemma complement_nine: "(NOT z) AND 0x1FF = NOT (z AND 0x1FF) AND 0x1FF" for z :: u32
  by (simp add: bit.conj_disj_distrib2)

lemma parse_symbolic_print: "parse_symbolic_mask (symbolic_mask m) cur = Inr (m AND 0x1FF)"
proof -
  define p where "p = NOT m AND 0x1FF"
  let ?y = "NOT cur AND 0x1FF"
  let ?z = "((((?y AND NOT 0x1C0) OR (expand_class (drop_bit 6 (p AND 0x1C0)) AND 0x1C0)) AND NOT 0x38)
      OR (expand_class (drop_bit 3 (p AND 0x38)) AND 0x38)) AND NOT 7 OR (expand_class (p AND 7) AND 7)"
  have "parse_symbolic_mask (symbolic_mask m) cur = Inr (NOT ?z AND 0x1FF)"
    unfolding parse_symbolic_mask_def symbolic_chars Let_def who_letters ops_assign_more ops_assign_last p_def
    by (rule refl)
  moreover have "?z AND 0x1FF = p AND 0x1FF"
    unfolding disjoint_classes expand_own_class nine_bits [of p, symmetric] by (rule refl)
  ultimately have "parse_symbolic_mask (symbolic_mask m) cur = Inr (NOT (p AND 0x1FF) AND 0x1FF)"
    by (simp only: complement_nine [of ?z])
  moreover have "NOT (p AND 0x1FF) AND 0x1FF = m AND 0x1FF"
    unfolding p_def by (rule bit_word_eqI) (auto simp: bit_simps)
  ultimately show ?thesis by simp
qed

subsection \<open>The option loop\<close>

definition umask_flag :: "char \<Rightarrow> bool" where
  "umask_flag c \<longleftrightarrow> c = CHR ''S'' \<or> c = CHR ''p''"

lemma umask_spec: "flags_only (parse_spec ''Sp'')" "allowed (parse_spec ''Sp'') = umask_flag"
  by (auto simp: parse_spec_def starts_at_def flags_only_def allowed_def umask_flag_def fun_eq_iff)

lemma umask_flags_Opts:
  "list_all umask_flag cs \<Longrightarrow> (\<And>opts. umask_flags evs opts \<noteq> None)
    \<Longrightarrow> umask_flags (map Opt cs @ evs) opts \<noteq> None"
proof (induction cs arbitrary: opts)
  case (Cons c cs)
  then show ?case by (cases opts) (auto simp: umask_flag_def)
qed simp

lemma list_all_takeWhile: "list_all P (takeWhile P xs)"
  by (auto simp: list_all_iff dest: set_takeWhileD)

lemma umask_flags_words: "umask_flags (fst (flag_words umask_flag pl ws)) opts \<noteq> None"
proof (induction ws arbitrary: opts)
  case Nil
  then show ?case by (cases opts) simp
next
  case (Cons w ws)
  have stop: "umask_flags [ev] opts \<noteq> None" if "ev \<in> {End, Help}" for ev opts
    using that by (cases opts) auto
  have bad: "umask_flags (map Opt (takeWhile umask_flag (tl w)) @ [End]) opts \<noteq> None"
    by (rule umask_flags_Opts [OF list_all_takeWhile]) (simp add: stop)
  have good: "umask_flags (map Opt (tl w) @ fst (flag_words umask_flag pl ws)) opts \<noteq> None"
    if "list_all umask_flag (tl w)"
    by (rule umask_flags_Opts [OF that]) (rule Cons.IH)
  show ?case
    using stop [of End] stop [of Help] bad good by (simp del: not_None_eq)
qed

text \<open>Running the option loop of a row with the specification \<open>Sp\<close> always delivers the options.\<close>

lemma umask_scan_total:
  assumes "row_opt_spec row = Getopt ''Sp''"
  shows "\<exists>opts d'. umask_scan row args (diag_new row sink)
      = Some (opts, snd (flag_words (allowed (parse_spec ''Sp'')) False args), d')
    \<and> (diag_status d' = 0 \<or> diag_status d' = EX_USAGE)"
proof -
  have pl: "starts_at ''Sp'' 0 ''+'' = False" by code_simp
  obtain bo where bo: "scan_all (Suc (sum_list (map length args))) (builtin_opt_new row args (diag_new row sink))
      = Some (fst (flag_words (allowed (parse_spec ''Sp'')) False args), bo)"
    "operands bo = snd (flag_words (allowed (parse_spec ''Sp'')) False args)"
    using flag_scan [of "builtin_opt_new row args (diag_new row sink)" args]
      umask_spec(1) scan_new_account [of args row "diag_new row sink"] scans_unique assms pl
    by (fastforce simp: builtin_opt_new_def)
  obtain evs bo' where acc: "scan_all (Suc (sum_list (map length args))) (builtin_opt_new row args (diag_new row sink)) = Some (evs, bo')"
    "scan_account (builtin_opt_new row args (diag_new row sink)) evs bo'"
    using scan_new_account by blast
  have "diag_status (opt_diag bo) = 0 \<or> diag_status (opt_diag bo) = EX_USAGE"
    using acc bo(1) by (auto simp: scan_account_def usage_error_def builtin_opt_new_def diag_new_def)
  then show ?thesis
    using bo umask_flags_words [of False args "UmaskOptions False False False"]
    by (auto simp: umask_scan_def umask_spec)
qed

subsection \<open>The builtin\<close>

lemma nine_bit_mask: "m AND 0x1FF \<le> 0x1FF" for m :: u32
  by (rule word_and_le1)

lemma ops_nine_bits: "ops ib who cs bits = Inr m \<Longrightarrow> m \<le> 0x1FF"
proof (induction ib who cs bits rule: ops.induct)
  case (1 ib who cs bits)
  show ?case
    using "1.prems"
    by (subst (asm) ops.simps)
      (auto simp: Let_def nine_bit_mask split: list.splits if_splits prod.splits dest: "1.IH")
qed

lemma mode_mask_nine_bits: "mode_mask mode st = Inr m \<Longrightarrow> m \<le> 0x1FF"
  by (auto simp: mode_mask_def parse_symbolic_mask_def Let_def nine_bit_mask ops_nine_bits
      split: option.splits sum.splits symbolic_mode_error.splits if_splits)

lemma diag_status_new [simp]: "diag_status (diag_new row sink) = 0"
  by (simp add: diag_new_def)

lemma current_mask_set [simp]: "current_mask (set_umask m st) = m" "process_mask (set_umask m st) = m"
  by (simp_all add: current_mask_def set_umask_def)

text \<open>
  Every run of \<open>umask\<close>.  Whatever the arguments and the state, the builtin returns (its
  \<open>unreachable!\<close> is never reached) with status 0, 1 or 2.  It either leaves the state alone, always
  so when the status is not 0, or it sets variable and process mask to one nine-bit mask, which is
  what the next \<open>umask\<close> reads.
\<close>

theorem umask_total:
  assumes "row_opt_spec row = Getopt ''Sp''"
  shows "\<exists>status st' d' out. umask_execute row args st (diag_new row sink) = Some (status, st', d', out)
    \<and> status \<in> {0, 1, 2}
    \<and> (st' = st \<or> status = 0 \<and> (\<exists>m. m \<le> 0x1FF \<and> st' = set_umask m st \<and> current_mask st' = m \<and> process_mask st' = m))"
proof -
  obtain opts ws d' where scan: "umask_scan row args (diag_new row sink) = Some (opts, ws, d')"
    "diag_status d' = 0 \<or> diag_status d' = EX_USAGE"
    using umask_scan_total [OF assms] by blast
  show ?thesis
    using scan(2) mode_mask_nine_bits [of _ st]
    by (auto simp: umask_execute_def scan(1) EX_USAGE_def split: list.splits sum.splits)
qed

lemma umask_total_witness:
  "umask_execute umask_row [''027''] \<lparr>umask_var = None, process_mask = 0\<rparr> (diag_new umask_row [])
    = Some (0, set_umask 0x17 \<lparr>umask_var = None, process_mask = 0\<rparr>, diag_new umask_row [], [])"
proof -
  let ?st = "\<lparr>umask_var = None, process_mask = 0\<rparr>"
  have spec: "row_opt_spec umask_row = Getopt ''Sp''" by code_simp
  have scan: "umask_scan umask_row [''027''] (diag_new umask_row [])
      = Some (UmaskOptions False False False, [''027''], diag_new umask_row [])" by code_simp
  have mode: "mode_mask ''027'' ?st = Inr 0x17"
    by (simp add: mode_mask_def is_ascii_digit_def parse_mask_def from_octal_def is_octal_digit_def octal_value_def)
  obtain r where r: "umask_execute umask_row [''027''] ?st (diag_new umask_row []) = Some r"
    using umask_total [OF spec, of "[''027'']" ?st "[]"] by blast
  then show ?thesis by (simp add: umask_execute_def scan mode)
qed

subsection \<open>Printed masks as operands\<close>

lemma umask_scan_operand:
  assumes "row_opt_spec row = Getopt ''Sp''" "\<not> is_option_word w False"
  shows "umask_scan row [w] d = Some (UmaskOptions False False False, [w], d)"
  using assms
  by (auto simp: umask_scan_def scan_all.simps opt_next_def builtin_opt_new_def finish_def operands_def starts_at_def)

lemma umask_scan_nothing:
  assumes "row_opt_spec row = Getopt ''Sp''"
  shows "umask_scan row [] d = Some (UmaskOptions False False False, [], d)"
  using assms
  by (auto simp: umask_scan_def scan_all.simps opt_next_def builtin_opt_new_def finish_def operands_def)

lemma format_octal4_operand: "\<not> is_option_word (format_octal4 m) False" "is_ascii_digit (hd (format_octal4 m))"
  using hd_format_octal4 [of m] format_octal4_nonempty [of m]
  by (auto simp: is_option_word_def is_octal_digit_def is_ascii_digit_def hd_conv_nth)

lemma symbolic_mask_operand: "\<not> is_option_word (symbolic_mask m) False" "hd (symbolic_mask m) = CHR ''u''"
  by (auto simp: is_option_word_def symbolic_mask_def Let_def)

text \<open>
  C23. Printed masks are reusable.  Giving back what \<open>umask\<close> (octal) or \<open>umask -S\<close> (symbolic) prints
  for a mask sets exactly the nine bits of that mask, whatever the mask in force; the symbolic text
  is read back by the symbolic parser for every current mask; and after setting a mask a bare
  \<open>umask\<close> prints it in octal.
\<close>

theorem umask_printed_reusable:
  assumes "row_opt_spec row = Getopt ''Sp''"
  shows "umask_execute row [symbolic_mask m] st (diag_new row sink)
      = Some (0, set_umask (m AND 0x1FF) st, diag_new row sink, [])
    \<and> umask_execute row [format_octal4 (m AND 0x1FF)] st (diag_new row sink)
      = Some (0, set_umask (m AND 0x1FF) st, diag_new row sink, [])
    \<and> parse_symbolic_mask (symbolic_mask m) current = Inr (m AND 0x1FF)
    \<and> umask_execute row [] (set_umask m st) (diag_new row sink)
      = Some (0, set_umask m st, diag_new row sink, [Text (format_octal4 m @ newline)])"
proof -
  have le: "m AND 0x1FF \<le> 0xFFF" using nine_bit_mask [of m] by (rule order_trans) simp
  have oct: "mode_mask (format_octal4 (m AND 0x1FF)) st = Inr (m AND 0x1FF)"
    using le format_octal4_operand(2) [of "m AND 0x1FF"] by (simp add: mode_mask_def and.assoc)
  have "\<not> is_ascii_digit (CHR ''u'')" "symbolic_mask m \<noteq> []"
    by (auto simp: is_ascii_digit_def symbolic_mask_def Let_def)
  then have sym: "mode_mask (symbolic_mask m) st = Inr (m AND 0x1FF)"
    by (simp add: mode_mask_def symbolic_mask_operand parse_symbolic_print)
  show ?thesis
    by (simp add: umask_execute_def umask_scan_operand [OF assms] umask_scan_nothing [OF assms] format_octal4_operand
        symbolic_mask_operand oct sym parse_symbolic_print show_umask_def)
qed

lemma umask_printed_reusable_witness:
  "umask_execute umask_row [''u=rwx,g=rx,o=''] \<lparr>umask_var = None, process_mask = 0\<rparr> (diag_new umask_row [])
    = Some (0, set_umask 0x17 \<lparr>umask_var = None, process_mask = 0\<rparr>, diag_new umask_row [], [])"
proof -
  have spec: "row_opt_spec umask_row = Getopt ''Sp''" by code_simp
  have shown: "symbolic_mask 0x17 = ''u=rwx,g=rx,o=''" by (simp add: symbolic_mask_def class_permissions_def)
  show ?thesis using umask_printed_reusable [OF spec, where m = "0x17" and st = "\<lparr>umask_var = None, process_mask = 0\<rparr>" and sink = "[]"] by (simp add: shown)
qed

end
