(* ===== verification/DiagCorrect.thy ===== *)
theory DiagCorrect
  imports Diag
begin

section \<open>Correctness of the operand checks and of flushing\<close>

text \<open>
  Numbers survive any blank padding, plain or carried by raw-byte markers (\<open>valid_number_padded\<close>),
  identifiers are exactly the shell's, and flushing writes the recorded lines in order.
\<close>

subsection \<open>Numbers\<close>

text \<open>A blank arrives as itself or as the marker pair of its byte.\<close>

inductive blank_unit :: "code_point list \<Rightarrow> code_point \<Rightarrow> bool" where
  blank_plain: "c_space c \<Longrightarrow> blank_unit [c] c"
| blank_marked: "c_space c \<Longrightarrow> blank_unit [RAW_BYTE_MARKER_ESCAPE, RAW_BYTE_MARKER_FIRST + c] c"

inductive padding :: "code_point list \<Rightarrow> code_point list \<Rightarrow> bool" where
  padding_nil: "padding [] []"
| padding_cons: "blank_unit u c \<Longrightarrow> padding us cs \<Longrightarrow> padding (u @ us) (c # cs)"

lemma decode_blank_unit: "blank_unit u c \<Longrightarrow> decode_raw_byte_markers_to_byte_chars (u @ rest) = c # decode_raw_byte_markers_to_byte_chars rest"
  by (induction rule: blank_unit.induct) (cases rest; auto simp: marker_payload_def c_space_def)+

lemma decode_padding: "padding us cs \<Longrightarrow> decode_raw_byte_markers_to_byte_chars (us @ rest) = cs @ decode_raw_byte_markers_to_byte_chars rest"
  by (induction rule: padding.induct) (simp_all add: decode_blank_unit)

lemma padding_blank: "padding us cs \<Longrightarrow> list_all c_space cs \<and> list_all scalar us \<and> LITERAL_CHAR_ESCAPE \<notin> set us"
proof (induction rule: padding.induct)
  case (padding_cons u c us cs)
  then show ?case
    by (induction u c rule: blank_unit.induct) (auto simp: marker_payload_def c_space_def scalar_def)
qed simp

lemma decode_unmarked:
  "RAW_BYTE_MARKER_ESCAPE \<notin> set cs \<Longrightarrow> LITERAL_CHAR_ESCAPE \<notin> set cs \<Longrightarrow> decode_raw_byte_markers_to_byte_chars cs = cs"
  by (induction cs rule: decode_raw_byte_markers_to_byte_chars.induct) auto

lemma decode_ascii_tail: "decode_raw_byte_markers_to_byte_chars (map byte s @ rest) = map byte s @ decode_raw_byte_markers_to_byte_chars rest"
proof (induction s)
  case (Cons b s)
  have "byte b < 256" by simp
  then have "byte b \<noteq> LITERAL_CHAR_ESCAPE" "byte b \<noteq> RAW_BYTE_MARKER_ESCAPE"
    by linarith+
  then show ?case using Cons by (cases "map byte s @ rest") auto
qed simp

lemma trim_padded:
  assumes "list_all p xs" "list_all p zs" "ys \<noteq> []" "\<not> p (hd ys)" "\<not> p (last ys)"
  shows "trim_matches p (xs @ ys @ zs) = ys"
proof -
  have "dropWhile p (xs @ ys @ zs) = ys @ zs"
    using assms(1,3,4) by (cases ys) (auto simp: list_all_iff)
  moreover have "dropWhile p (rev zs @ rev ys) = rev ys"
    using assms(2,3,5) dropWhile_append2 [of "rev zs" p "rev ys"]
    by (cases ys rule: rev_cases) (auto simp: list_all_iff)
  ultimately show ?thesis by (simp add: trim_matches_def)
qed

lemma int_to_string_chars: "c \<in> set (int_to_string v) \<Longrightarrow> byte c = 45 \<or> 48 \<le> byte c \<and> byte c \<le> 57"
  using list_all_nat_digits [of "nat v"] list_all_nat_digits [of "nat (- v)"]
  by (auto simp: int_to_string_def list_all_iff is_ascii_digit_def split: if_splits)

lemma int_to_string_nonempty [simp]: "int_to_string v \<noteq> []"
  by (simp add: int_to_string_def)

lemma encode_ascii: "list_all (\<lambda>b. byte b < 128) s \<Longrightarrow> encode_utf8 (map byte s) = s"
  by (induction s) (auto simp: encode_utf8_def encode_char_def)

lemma parse_int_to_string_iff: "parse_i64_str (int_to_string v) = (if in_i64 v then Some v else None)"
  using digit_not_sign [OF hd_nat_digits [of "nat v"]]
  by (simp add: parse_i64_str_def int_to_string_def Let_def)

text \<open>
  Reading numbers.  A printed integer, with any blanks around it (each either as itself or as a
  raw-byte marker pair), is read back by \<open>valid_number\<close> exactly when it fits an \<open>i64\<close>; otherwise
  the word is refused.
\<close>

theorem valid_number_padded:
  assumes "padding us cs" "padding us' cs'"
  shows "valid_number (encode_utf8 (us @ map byte (int_to_string v) @ us')) = (if in_i64 v then Some v else None)"
proof -
  let ?n = "map byte (int_to_string v)" and ?all = "us @ map byte (int_to_string v) @ us'"
  have ascii: "list_all (\<lambda>b. byte b < 128) (int_to_string v)"
    using int_to_string_chars [of _ v] by (fastforce simp: list_all_iff)
  have "list_all scalar ?all"
    using padding_blank [OF assms(1)] padding_blank [OF assms(2)] ascii
    by (auto simp: list_all_iff scalar_def)
  then have chars: "decode_utf8 (encode_utf8 ?all) = ?all" by (rule decode_encode_utf8)
  have dec: "decode_raw_byte_markers_to_byte_chars ?all = cs @ ?n @ cs'"
    using decode_padding [OF assms(1)] decode_padding [OF assms(2), of "[]"] by (simp add: decode_ascii_tail)
  have nomark: "decode_raw_byte_markers_to_byte_chars ?all = ?all" if "RAW_BYTE_MARKER_ESCAPE \<notin> set ?all"
  proof (rule decode_unmarked [OF that])
    show "LITERAL_CHAR_ESCAPE \<notin> set ?all"
      using padding_blank [OF assms(1)] padding_blank [OF assms(2)] ascii
      by (auto simp: list_all_iff)
  qed
  have hd: "\<not> c_space (hd ?n)" and lst: "\<not> c_space (last ?n)"
    using int_to_string_chars [OF hd_in_set [of "int_to_string v"]] int_to_string_chars [OF last_in_set [of "int_to_string v"]]
    by (auto simp: hd_map last_map c_space_def)
  have "trim_matches c_space (cs @ ?n @ cs') = ?n"
    using padding_blank [OF assms(1)] padding_blank [OF assms(2)] hd lst by (intro trim_padded) auto
  then have "valid_number (encode_utf8 ?all) = parse_i64_str (encode_utf8 ?n)"
    unfolding valid_number_def Let_def chars using dec nomark by (auto simp del: encode_utf8_append)
  then show ?thesis by (simp add: encode_ascii [OF ascii] parse_int_to_string_iff)
qed

lemma valid_number_padded_witness:
  "valid_number (encode_utf8 ([0xE000, 0xE00D, 32] @ map byte (int_to_string (-42)) @ [10])) = Some (-42)"
proof -
  have "padding ([RAW_BYTE_MARKER_ESCAPE, RAW_BYTE_MARKER_FIRST + 12] @ [32] @ []) [12, 32]"
    "padding ([10] @ []) [10]"
    by (intro padding_nil padding_cons blank_plain blank_marked; simp add: c_space_def)+
  from valid_number_padded [OF this, of "-42"] show ?thesis by (simp add: in_i64_iff)
qed

subsection \<open>Identifiers and numeric arguments\<close>

lemma check_identifier_report:
  "check_identifier name d = (valid_identifier name,
     if valid_identifier name then d
     else push_pending True (row_name (diag_row d) @ '': `'' @ name @ [CHR 0x27] @ '': not a valid identifier'' @ newline) d)"
  by (simp add: check_identifier_def diag_error_def report_def quoted_def)

text \<open>A numeric argument leaves the handle alone exactly when it is delivered.\<close>

lemma numeric_arg_status:
  assumes "numeric_arg ws fatal d = (r, d')"
  shows "(r \<noteq> None \<longrightarrow> d' = d) \<and> (r = None \<longrightarrow> (\<exists>line. diag_pending d' = diag_pending d @ [(True, line)])
     \<and> diag_status d' = (if fatal = Soft then diag_status d else EX_BADUSAGE))"
  using assms
  by (auto simp: numeric_arg_def Let_def report_def push_pending_def dest: sym split: list.splits option.splits if_splits)

lemma numeric_arg_in_i64:
  assumes "numeric_arg ws fatal d = (Some v, d')" shows "in_i64 v"
  using assms
  by (auto simp: numeric_arg_def Let_def valid_number_def in_i64_iff dest!: parse_i64_str_in_i64
      split: list.splits option.splits if_splits)

subsection \<open>Flushing\<close>

lemma flush_lines_concat:
  "flush_lines head ps sink = sink @ concat (map (\<lambda>(with_prolog, body). if with_prolog then head @ body else body) ps)"
  by (induction ps arbitrary: sink) auto

lemma flush_with_writes:
  "diag_sink (flush_with p d) = diag_sink d
     @ concat (map (\<lambda>(with_prolog, body). if with_prolog then render p @ body else body) (diag_pending d))"
  "\<not> has_pending (flush_with p d)" "diag_status (flush_with p d) = diag_status d"
  by (auto simp: flush_with_def flush_lines_concat has_pending_def)

lemma flush_twice: "flush_with p (flush_with q d) = flush_with q d"
  by (simp add: flush_with_def)

end
