(* ===== verification/Arith.thy ===== *)
theory Arith
  imports Prelude "HOL-Library.Signed_Division"
begin

section \<open>Arithmetic evaluation: \<open>executor/arithmetic\<close>\<close>

text \<open>
  The evaluator of \<open>$((...))\<close>, \<open>((...))\<close> and \<open>let\<close>: a recursive-descent parser that computes
  while it parses (\<open>ConditionalArithParser\<close>; \<open>cursor.rs\<close>, \<open>expression.rs\<close>, \<open>factor.rs\<close>, and the
  scalar operands of \<open>lvalue.rs\<close> and \<open>value.rs\<close>).  The parser record has the fields of the Rust
  struct that scalar evaluation uses; \<open>ap_vars\<close> is the variable table (name to text) and
  \<open>ap_writes\<close> the log of \<open>record_arith_write\<close>.

  A Rust value \<open>Option<i128>\<close> is a \<open>Val\<close> or \<open>Fail\<close>; integers are HOL \<open>int\<close>s, wrapped to 64 bits
  where the code calls \<open>bash_arith\<close>.  \<open>Outside\<close> marks runs that leave the scalar fragment: an array
  subscript, a name with the nameref or an array attribute, or one of the shell's dynamic variables
  (the clock, the random generator, call-stack arrays).  Nothing else is left out of the six files'
  scalar paths.

  The mutually recursive functions are bodies over a common dispatcher: \<open>cmd\<close> has a constructor per
  parser function (and per loop of one), and \<open>arith_run\<close> ties the knot with fuel.  The theory
  \<open>ArithCorrect\<close> shows that enough fuel always exists.
\<close>

subsection \<open>Integers\<close>

text \<open>\<open>bash_arith\<close>: \<open>value as i64 as i128\<close>.\<close>

definition bash_arith :: "int \<Rightarrow> int" where
  "bash_arith v = (v + 2 ^ 63) mod 2 ^ 64 - 2 ^ 63"

lemma bash_arith_in_i64 [simp]: "in_i64 (bash_arith v)"
  using pos_mod_sign [of "2 ^ 64" "v + 2 ^ 63"] pos_mod_bound [of "2 ^ 64" "v + 2 ^ 63"]
  by (simp add: bash_arith_def in_i64_iff)

lemma bash_arith_id [simp]: "in_i64 v \<Longrightarrow> bash_arith v = v"
  by (simp add: bash_arith_def in_i64_iff)

text \<open>\<open>wrapping_shl\<close>, \<open>wrapping_shr\<close> on \<open>i64\<close> with a count cast to \<open>u32\<close>: the low six bits count.\<close>

definition shift_left :: "int \<Rightarrow> int \<Rightarrow> int" where
  "shift_left v count = bash_arith (v * 2 ^ nat (count mod 64))"

definition shift_right :: "int \<Rightarrow> int \<Rightarrow> int" where
  "shift_right v count = v div 2 ^ nat (count mod 64)"

definition arith_div :: "int \<Rightarrow> int \<Rightarrow> int" where
  "arith_div v d = bash_arith (v sdiv d)"

definition arith_rem :: "int \<Rightarrow> int \<Rightarrow> int" where
  "arith_rem v d = (if v = i64_min \<and> d = - 1 then 0 else v smod d)"

primrec pow_loop :: "int \<Rightarrow> nat \<Rightarrow> int" where
  "pow_loop base 0 = 1"
| "pow_loop base (Suc n) = bash_arith (pow_loop base n * base)"

definition checked_arithmetic_pow :: "int \<Rightarrow> int \<Rightarrow> int option" where
  "checked_arithmetic_pow base exponent =
     (if 0 \<le> exponent \<and> exponent < 2 ^ 32 then Some (pow_loop base (nat exponent)) else None)"

unbundle bit_operations_syntax

subsection \<open>Literals\<close>

definition valid_numchar :: "char \<Rightarrow> bool" where
  "valid_numchar c \<longleftrightarrow> is_ascii_alphanumeric c \<or> c = CHR ''_'' \<or> c = CHR ''@''"

definition numchar_digit :: "nat \<Rightarrow> char \<Rightarrow> nat" where
  "numchar_digit base c =
     (if is_ascii_digit c then byte c - 48
      else if is_ascii_lowercase c then byte c - 97 + 10
      else if is_ascii_uppercase c then byte c - 65 + (if base \<le> 36 then 10 else 36)
      else if c = CHR ''@'' then 62 else 63)"

fun strlong_loop :: "bytes \<Rightarrow> nat \<Rightarrow> bool \<Rightarrow> int \<Rightarrow> string + int" where
  "strlong_loop [] base foundbase v = Inr v"
| "strlong_loop (c # rest) base foundbase v =
     (if c = CHR ''#'' then
        if foundbase then Inl ''invalid number''
        else if \<not> (2 \<le> v \<and> v \<le> 64) then Inl ''invalid arithmetic base''
        else if rest = [] \<or> \<not> valid_numchar (hd rest) then Inl ''invalid integer constant''
        else strlong_loop rest (nat v) True 0
      else if \<not> valid_numchar c then Inr v
      else if base \<le> numchar_digit base c then Inl ''value too great for base''
      else strlong_loop rest base foundbase (bash_arith (v * int base + int (numchar_digit base c))))"

definition strlong_value :: "bytes \<Rightarrow> string + int" where
  "strlong_value num =
     (if num \<noteq> [] \<and> hd num = CHR ''0'' then
        if tl num = [] then Inr 0
        else if hd (tl num) = CHR ''x'' \<or> hd (tl num) = CHR ''X'' then strlong_loop (tl (tl num)) 16 True 0
        else strlong_loop (tl num) 8 True 0
      else strlong_loop num 10 False 0)"

subsection \<open>Values of variables that are plain numbers\<close>

definition sign_of :: "bytes \<Rightarrow> int" where
  "sign_of s = (if s \<noteq> [] \<and> hd s = CHR ''-'' then - 1 else 1)"

definition unsigned_part :: "bytes \<Rightarrow> bytes" where
  "unsigned_part s = (if s \<noteq> [] \<and> (hd s = CHR ''-'' \<or> hd s = CHR ''+'') then tl s else s)"

definition leading_zero_digit_string :: "bytes \<Rightarrow> bool" where
  "leading_zero_digit_string s =
     (let digits = unsigned_part s
      in 1 < length digits \<and> hd digits = CHR ''0'' \<and> list_all is_ascii_digit digits)"

definition in_i128 :: "int \<Rightarrow> bool" where
  "in_i128 v \<longleftrightarrow> - (2 ^ 127) \<le> v \<and> v < 2 ^ 127"

definition octal_number :: "string \<Rightarrow> nat" where
  "octal_number s = foldl (\<lambda>v c. 8 * v + (byte c - 48)) 0 s"

definition strlong_leading_zero_octal :: "bytes \<Rightarrow> int option" where
  "strlong_leading_zero_octal s =
     (let digits = unsigned_part s; rest = tl digits
      in if digits = [] \<or> hd digits \<noteq> CHR ''0'' \<or> rest = []
            \<or> \<not> list_all (\<lambda>b. 48 \<le> byte b \<and> byte b \<le> 55) rest
            \<or> \<not> in_i128 (int (octal_number rest)) then None
         else Some (sign_of s * int (octal_number rest)))"

text \<open>\<open>str::parse::<i128>\<close>.\<close>

definition parse_i128 :: "bytes \<Rightarrow> int option" where
  "parse_i128 s =
     (let body = unsigned_part s; v = sign_of s * int (digits_value body)
      in if body = [] \<or> \<not> list_all is_ascii_digit body \<or> \<not> in_i128 v then None else Some v)"

text \<open>The value of a text that needs no nested evaluation (the shortcuts of \<open>evaluate_variable_text\<close>).\<close>

definition plain_number :: "bytes \<Rightarrow> int option" where
  "plain_number s =
     (if s = [] then Some 0
      else case strlong_leading_zero_octal s of
             Some v \<Rightarrow> Some (bash_arith v)
           | None \<Rightarrow> if leading_zero_digit_string s then None else map_option bash_arith (parse_i128 s))"

subsection \<open>The parser\<close>

record arith_eval_error =
  ae_expr :: bytes
  ae_msg :: bytes
  ae_tok_start :: nat
  ae_display_end :: nat

type_synonym vars = "bytes \<Rightarrow> bytes option"

record arith_parser =
  ap_input :: bytes
  ap_pos :: nat
  ap_vars :: vars
  ap_writes :: "(bytes \<times> bytes option) list"
  ap_resolving :: "bytes list"
  ap_error :: "arith_eval_error option"
  ap_last_tok_start :: nat
  ap_last_tok_operand :: bool
  ap_noeval :: nat

text \<open>
  What an evaluation reads but never writes: the attribute of a name (\<open>is_marked_var\<close>) and the
  environment of the process (\<open>std::env::var\<close>).
\<close>

datatype attr = ReadonlyAttr | NamerefAttr | ArrayAttr | AssocAttr | Assoc128Attr

record arith_ctx =
  marked :: "attr \<Rightarrow> bytes \<Rightarrow> bool"
  process_env :: "bytes \<Rightarrow> bytes option"

datatype 'a res = Val 'a | Fail | Outside

type_synonym 'a action = "arith_parser \<Rightarrow> ('a res \<times> arith_parser) option"

definition ret :: "'a \<Rightarrow> 'a action" where
  "ret v s = Some (Val v, s)"

text \<open>The \<open>?\<close> operator: a failure ends the caller.\<close>

definition try_then :: "'a action \<Rightarrow> ('a \<Rightarrow> 'b action) \<Rightarrow> 'b action" where
  "try_then m f s = (case m s of
       None \<Rightarrow> None
     | Some (Val v, s') \<Rightarrow> f v s'
     | Some (Fail, s') \<Rightarrow> Some (Fail, s')
     | Some (Outside, s') \<Rightarrow> Some (Outside, s'))"

text \<open>A parse between \<open>noeval += 1\<close> and \<open>noeval -= 1\<close>.\<close>

definition under_noeval :: "'a action \<Rightarrow> 'a action" where
  "under_noeval m s =
     map_option (\<lambda>(r, s'). (r, s'\<lparr>ap_noeval := ap_noeval s' - 1\<rparr>)) (m (s\<lparr>ap_noeval := ap_noeval s + 1\<rparr>))"

subsection \<open>The cursor (\<open>cursor.rs\<close>) and the error record\<close>

definition left :: "arith_parser \<Rightarrow> bytes" where
  "left s = drop (ap_pos s) (ap_input s)"

definition peek :: "arith_parser \<Rightarrow> char option" where
  "peek s = (if ap_pos s < length (ap_input s) then Some (ap_input s ! ap_pos s) else None)"

definition starts_with :: "bytes \<Rightarrow> arith_parser \<Rightarrow> bool" where
  "starts_with t s = starts_at (ap_input s) (ap_pos s) t"

definition skip_from :: "bytes \<Rightarrow> nat \<Rightarrow> nat" where
  "skip_from inp p = p + length (takeWhile is_ascii_whitespace (drop p inp))"

definition skip_ws :: "arith_parser \<Rightarrow> arith_parser" where
  "skip_ws s = s\<lparr>ap_pos := skip_from (ap_input s) (ap_pos s)\<rparr>"

definition advance :: "nat \<Rightarrow> arith_parser \<Rightarrow> arith_parser" where
  "advance n s = s\<lparr>ap_pos := ap_pos s + n\<rparr>"

definition note_op :: "nat \<Rightarrow> arith_parser \<Rightarrow> arith_parser" where
  "note_op start s = s\<lparr>ap_last_tok_start := start, ap_last_tok_operand := False\<rparr>"

definition note_operand :: "nat \<Rightarrow> arith_parser \<Rightarrow> arith_parser" where
  "note_operand start s = s\<lparr>ap_last_tok_start := start, ap_last_tok_operand := True\<rparr>"

text \<open>\<open>note_op(self.pos); self.pos += n\<close>.\<close>

definition take_op :: "nat \<Rightarrow> arith_parser \<Rightarrow> arith_parser" where
  "take_op n s = advance n (note_op (ap_pos s) s)"

definition record_error :: "bytes \<Rightarrow> nat \<Rightarrow> nat \<Rightarrow> arith_parser \<Rightarrow> arith_parser" where
  "record_error msg tok_start display_end s =
     (if ap_error s \<noteq> None then s
      else s\<lparr>ap_error := Some \<lparr>ae_expr = ap_input s, ae_msg = msg,
        ae_tok_start = min tok_start (length (ap_input s)),
        ae_display_end = min display_end (length (ap_input s))\<rparr>\<rparr>)"

definition fail_display :: "bytes \<Rightarrow> nat \<Rightarrow> nat \<Rightarrow> 'a action" where
  "fail_display msg tok_start display_end s = Some (Fail, record_error msg tok_start display_end s)"

definition fail :: "bytes \<Rightarrow> nat \<Rightarrow> 'a action" where
  "fail msg tok_start s = fail_display msg tok_start (length (ap_input s)) s"

text \<open>The token an error at the current position points at: the last one when the input is used up.\<close>

definition error_token :: "arith_parser \<Rightarrow> nat" where
  "error_token s = (if ap_pos s < length (ap_input s) then ap_pos s else ap_last_tok_start s)"

definition fail_operand_expected :: "'a action" where
  "fail_operand_expected s = fail ''arithmetic syntax error: operand expected'' (error_token s) s"

definition fail_invalid_operator :: "'a action" where
  "fail_invalid_operator s = fail ''arithmetic syntax error: invalid arithmetic operator'' (ap_pos s) s"

definition arithop_chars :: "bytes" where
  "arithop_chars = ''=><+-*/%!()&|^~?:,''"

definition is_arithop_char :: "char \<Rightarrow> bool" where
  "is_arithop_char c \<longleftrightarrow> c \<in> set arithop_chars"

definition fail_operand_position :: "'a action" where
  "fail_operand_position s =
     (if (case peek s of Some c \<Rightarrow> \<not> is_arithop_char c | None \<Rightarrow> False) \<and> ap_last_tok_operand s
      then fail_invalid_operator s else fail_operand_expected s)"

definition token_can_start :: "char \<Rightarrow> bool" where
  "token_can_start c \<longleftrightarrow> is_ascii_alphanumeric c \<or> c = CHR ''_'' \<or> c \<in> set arithop_chars"

definition assignment_operators :: "bytes list" where
  "assignment_operators = [''<<='', ''>>='', ''+='', ''-='', ''*='', ''/='', ''%='', ''&='', ''^='', ''|='', ''='']"

definition assignment_operator_at :: "bytes \<Rightarrow> nat \<Rightarrow> bytes option" where
  "assignment_operator_at inp p =
     find (\<lambda>op. starts_at inp p op
        \<and> \<not> (op = ''='' \<and> (starts_at inp (p + 1) ''=''
              \<or> 0 < p \<and> p - 1 < length inp \<and> inp ! (p - 1) \<in> set ''!<>''))) assignment_operators"

definition at_assignment_op :: "arith_parser \<Rightarrow> bool" where
  "at_assignment_op s \<longleftrightarrow> assignment_operator_at (ap_input s) (ap_pos s) \<noteq> None"

definition record_trailing :: "arith_parser \<Rightarrow> arith_parser" where
  "record_trailing s =
     (if ap_error s \<noteq> None \<or> length (ap_input s) \<le> ap_pos s then s
      else record_error
        (if assignment_operator_at (left s) 0 \<noteq> None then ''attempted assignment to non-variable''
         else if \<not> token_can_start (hd (left s)) then ''arithmetic syntax error: invalid arithmetic operator''
         else ''arithmetic syntax error in expression'') (ap_pos s) (length (ap_input s)) s)"

subsection \<open>Names\<close>

definition is_shell_name_start :: "char \<Rightarrow> bool" where
  "is_shell_name_start c \<longleftrightarrow> c = CHR ''_'' \<or> is_ascii_alphabetic c"

definition is_shell_name_char :: "char \<Rightarrow> bool" where
  "is_shell_name_char c \<longleftrightarrow> c = CHR ''_'' \<or> is_ascii_alphanumeric c"

text \<open>Names whose reads or writes go through the dynamic variables of the shell.\<close>

definition dynamic_names :: "bytes list" where
  "dynamic_names =
     [''RANDOM'', ''SRANDOM'', ''SECONDS'', ''EPOCHSECONDS'', ''EPOCHREALTIME'', ''BASH_MONOSECONDS'',
      ''LINENO'', ''BASHPID'', ''BASH_SUBSHELL'', ''BASH_ARGV0'', ''BASH_ARGC'', ''BASH_ARGV'',
      ''BASH_LINENO'', ''BASH_SOURCE'', ''FUNCNAME'', ''GROUPS'', ''BASH_COMMAND'', ''SHELLOPTS'',
      ''BASHOPTS'', ''PIPESTATUS'']"

definition scalar_name :: "arith_ctx \<Rightarrow> bytes \<Rightarrow> bool" where
  "scalar_name c name \<longleftrightarrow> name \<notin> set dynamic_names \<and> \<not> marked c NamerefAttr name
     \<and> \<not> marked c ArrayAttr name \<and> \<not> marked c AssocAttr name"

definition name_length :: "bytes \<Rightarrow> nat" where
  "name_length t = length (takeWhile is_shell_name_char t)"

text \<open>
  \<open>parse_lvalue\<close> (and \<open>parse_lvalue_for_assignment\<close>, the same for a scalar): \<open>None\<close> when no name
  starts here.
\<close>

definition parse_lvalue :: "arith_ctx \<Rightarrow> bytes option action" where
  "parse_lvalue c s =
     (let s = skip_ws s; t = left s
      in if t = [] \<or> \<not> is_shell_name_start (hd t) then ret None s
         else let name = take (name_length t) t; s = advance (name_length t) s
              in if peek s = Some (CHR ''['') \<or> \<not> scalar_name c name then Some (Outside, s)
                 else ret (Some name) s)"

text \<open>
  \<open>assignment_op_start\<close>: the position of the assignment operator behind a name with an optional
  bracketed subscript, if that is what comes next.
\<close>

fun bracket_rest :: "nat \<Rightarrow> bytes \<Rightarrow> bytes option" where
  "bracket_rest depth [] = None"
| "bracket_rest depth (c # rest) =
     (if c = CHR ''['' then bracket_rest (Suc depth) rest
      else if c = CHR '']'' then if depth = 1 then Some rest else bracket_rest (depth - 1) rest
      else bracket_rest depth rest)"

definition skip_blanks :: "bytes \<Rightarrow> bytes" where
  "skip_blanks t = dropWhile is_ascii_whitespace t"

definition behind_subscript :: "bytes \<Rightarrow> bytes option" where
  "behind_subscript t = (if t \<noteq> [] \<and> hd t = CHR ''['' then bracket_rest 1 (tl t) else Some t)"

definition assignment_op_start :: "arith_parser \<Rightarrow> nat option" where
  "assignment_op_start s =
     (let t = skip_blanks (left s)
      in if t = [] \<or> \<not> is_shell_name_start (hd t) then None
         else case behind_subscript (skip_blanks (drop (name_length t) t)) of
                None \<Rightarrow> None
              | Some rest \<Rightarrow>
                  let p = length (ap_input s) - length (skip_blanks rest)
                  in if assignment_operator_at (ap_input s) p \<noteq> None then Some p else None)"

subsection \<open>Variables (\<open>value.rs\<close>)\<close>

definition HASH_TABLE :: bytes where "HASH_TABLE = ''__RUBASH_HASH_TABLE''"
definition READONLY_ERROR :: bytes where "READONLY_ERROR = ''__RUBASH_ARITH_READONLY_ERROR''"

text \<open>
  The end of \<open>set_variable\<close> for a scalar: the decimal text is stored and logged; binding \<open>PATH\<close>
  drops the command hash table.  (The mirror of a few names in the environment of the process is
  invisible to evaluation, which reads the table first.)
\<close>

definition set_variable :: "bytes \<Rightarrow> int \<Rightarrow> arith_parser \<Rightarrow> arith_parser" where
  "set_variable name v s =
     (let text = int_to_string (bash_arith v);
          vs = (ap_vars s)(name := Some text)
      in s\<lparr>ap_vars := (if name = ''PATH'' then vs(HASH_TABLE := None) else vs),
           ap_writes := ap_writes s @ [(name, ap_vars s name)]\<rparr>)"

definition lvalue_is_writable :: "arith_ctx \<Rightarrow> bytes \<Rightarrow> arith_parser \<Rightarrow> bool \<times> arith_parser" where
  "lvalue_is_writable c name s =
     (if marked c ReadonlyAttr name then (False, s\<lparr>ap_vars := (ap_vars s)(READONLY_ERROR := Some name)\<rparr>)
      else (True, s))"

text \<open>\<open>str::find\<close>: the first offset at which the needle occurs.\<close>

definition find_sub :: "bytes \<Rightarrow> bytes \<Rightarrow> nat option" where
  "find_sub needle hay = find (\<lambda>i. starts_at hay i needle) [0..<Suc (length hay)]"

definition MAX_DEPTH :: nat where "MAX_DEPTH = 1023"

definition record_recursion_error :: "bytes \<Rightarrow> arith_parser \<Rightarrow> arith_parser" where
  "record_recursion_error name s =
     (if ap_error s \<noteq> None then s
      else let (expr, tok_name) =
             (case position (\<lambda>r. r = name) (ap_resolving s) of
                Some j \<Rightarrow>
                  let l = length (ap_resolving s) - j;
                      expr_name = ap_resolving s ! (j + (1022 - j) mod l);
                      tok_name = ap_resolving s ! (j + (1023 - j) mod l)
                  in (case ap_vars s expr_name of Some t \<Rightarrow> t | None \<Rightarrow> expr_name, tok_name)
              | None \<Rightarrow> (ap_input s, name))
           in s\<lparr>ap_error := Some \<lparr>ae_expr = expr, ae_msg = ''expression recursion level exceeded'',
                ae_tok_start = (case find_sub tok_name expr of Some i \<Rightarrow> i | None \<Rightarrow> 0),
                ae_display_end = length expr\<rparr>\<rparr>)"

subsection \<open>The recursive functions and their loops\<close>

datatype cmd =
    Comma | CommaLoop int | Assignment | Conditional | LogicalOr | LogicalOrLoop int
  | LogicalAnd | LogicalAndLoop int | BitOr | BitOrLoop int | BitXor | BitXorLoop int
  | BitAnd | BitAndLoop int | Comparison | ComparisonLoop int | Shift | ShiftLoop int
  | Sum | SumLoop int | Term | TermLoop int | Power | Factor | VariableText bytes bytes

text \<open>
  Every body takes \<open>self\<close>, the dispatcher, for its recursive calls.  First \<open>value.rs\<close>: the text of a
  variable is a number or an expression of its own, evaluated by a fresh parser on the same variables.
\<close>

definition nested_parser :: "bytes \<Rightarrow> bytes \<Rightarrow> arith_parser \<Rightarrow> arith_parser" where
  "nested_parser name text s =
     s\<lparr>ap_input := text, ap_pos := 0, ap_resolving := ap_resolving s @ [name], ap_error := None,
       ap_last_tok_start := 0, ap_last_tok_operand := False, ap_noeval := 0\<rparr>"

text \<open>What the outer parser keeps of the nested one: the variables, the writes and its error.\<close>

definition adopt :: "arith_parser \<Rightarrow> arith_parser \<Rightarrow> arith_parser" where
  "adopt s inner =
     s\<lparr>ap_vars := ap_vars inner, ap_writes := ap_writes inner,
       ap_error := (case ap_error s of Some e \<Rightarrow> Some e | None \<Rightarrow> ap_error inner)\<rparr>"

definition evaluate_variable_text :: "(cmd \<Rightarrow> int action) \<Rightarrow> bytes \<Rightarrow> bytes \<Rightarrow> int action" where
  "evaluate_variable_text self name text s =
     (if MAX_DEPTH \<le> length (ap_resolving s) then Some (Fail, record_recursion_error name s)
      else case plain_number (str_trim text) of
             Some v \<Rightarrow> ret v s
           | None \<Rightarrow>
               (case self Comma (nested_parser name (str_trim text) s) of
                  None \<Rightarrow> None
                | Some (r, inner) \<Rightarrow>
                    let inner = skip_ws inner; complete = (ap_pos inner = length (ap_input inner));
                        s' = adopt s (if complete then inner else record_trailing inner)
                    in Some (if r = Outside then Outside else if complete then r else Fail, s')))"

definition variable_value :: "arith_ctx \<Rightarrow> (cmd \<Rightarrow> int action) \<Rightarrow> bytes \<Rightarrow> int action" where
  "variable_value c self name s =
     (if MAX_DEPTH \<le> length (ap_resolving s) then Some (Fail, record_recursion_error name s)
      else let text = (case ap_vars s name of Some t \<Rightarrow> t
                       | None \<Rightarrow> (case process_env c name of Some t \<Rightarrow> t | None \<Rightarrow> []))
           in self (VariableText name text) s)"

definition lvalue_value :: "arith_ctx \<Rightarrow> (cmd \<Rightarrow> int action) \<Rightarrow> bytes \<Rightarrow> int action" where
  "lvalue_value c self name s = (if 0 < ap_noeval s then ret 0 s else variable_value c self name s)"

definition update_lvalue :: "arith_ctx \<Rightarrow> (cmd \<Rightarrow> int action) \<Rightarrow> bytes \<Rightarrow> int \<Rightarrow> bool \<Rightarrow> int action" where
  "update_lvalue c self name delta prefix s =
     (if 0 < ap_noeval s then ret 0 s
      else let (writable, s) = lvalue_is_writable c name s
           in if \<not> writable then Some (Fail, s)
              else try_then (lvalue_value c self name)
                (\<lambda>current s. let updated = bash_arith (current + delta)
                   in ret (if prefix then updated else current) (set_variable name updated s)) s)"

text \<open>The value a compound assignment stores; \<open>None\<close> only for a zero divisor, refused before.\<close>

definition compound_value :: "bytes \<Rightarrow> int \<Rightarrow> int \<Rightarrow> int option" where
  "compound_value op current rhs =
     (if op = ''+='' then Some (bash_arith (current + rhs))
      else if op = ''-='' then Some (bash_arith (current - rhs))
      else if op = ''*='' then Some (bash_arith (current * rhs))
      else if op = ''<<='' then Some (shift_left current rhs)
      else if op = ''>>='' then Some (shift_right current rhs)
      else if op = ''&='' then Some (bash_arith (current AND rhs))
      else if op = ''^='' then Some (bash_arith (current XOR rhs))
      else if op = ''|='' then Some (bash_arith (current OR rhs))
      else if op = ''/='' \<and> rhs \<noteq> 0 then Some (arith_div current rhs)
      else if op = ''%='' \<and> rhs \<noteq> 0 then Some (arith_rem current rhs)
      else None)"

definition assign_lvalue_precaptured :: "arith_ctx \<Rightarrow> (cmd \<Rightarrow> int action) \<Rightarrow> bytes \<Rightarrow> bytes \<Rightarrow> int \<Rightarrow> int option \<Rightarrow> int action" where
  "assign_lvalue_precaptured c self name op rhs precaptured s =
     (if 0 < ap_noeval s then ret rhs s
      else let (writable, s) = lvalue_is_writable c name s
           in if \<not> writable then Some (Fail, s)
              else if op = ''='' then ret rhs (set_variable name rhs s)
              else try_then (case precaptured of Some v \<Rightarrow> ret v | None \<Rightarrow> lvalue_value c self name)
                (\<lambda>current s. case compound_value op current rhs of
                   None \<Rightarrow> Some (Fail, s)
                 | Some v \<Rightarrow> ret v (set_variable name v s)) s)"

subsection \<open>\<open>expression.rs\<close>\<close>

text \<open>\<open>parse_comma\<close> and its loop.\<close>

definition parse_comma :: "(cmd \<Rightarrow> int action) \<Rightarrow> int action" where
  "parse_comma self = try_then (self Assignment) (\<lambda>v. self (CommaLoop v))"

definition comma_loop :: "(cmd \<Rightarrow> int action) \<Rightarrow> int \<Rightarrow> int action" where
  "comma_loop self v s =
     (let s = skip_ws s
      in if peek s \<noteq> Some (CHR '','') then ret v s
         else try_then (self Assignment) (\<lambda>v. self (CommaLoop v)) (take_op 1 s))"

definition finish_assignment :: "(cmd \<Rightarrow> int action) \<Rightarrow> int action" where
  "finish_assignment self =
     try_then (self Conditional) (\<lambda>v s.
       let s = skip_ws s
       in if at_assignment_op s then fail ''attempted assignment to non-variable'' (ap_pos s) s else ret v s)"

definition bind_assignment :: "arith_ctx \<Rightarrow> (cmd \<Rightarrow> int action) \<Rightarrow> bytes \<Rightarrow> bytes \<Rightarrow> int action" where
  "bind_assignment c self name op s =
     (let s = skip_ws (take_op (length op) s)
      in try_then (if op = ''='' then ret None
                   else try_then (lvalue_value c self name) (\<lambda>v. ret (Some v)))
           (\<lambda>precaptured s. let rhs_start = ap_pos s in
              try_then (self Assignment) (\<lambda>rhs s.
                if (op = ''/='' \<or> op = ''%='') \<and> rhs = 0 \<and> ap_noeval s = 0
                then fail ''division by 0'' rhs_start s
                else assign_lvalue_precaptured c self name op rhs precaptured s) s) s)"

definition parse_assignment :: "arith_ctx \<Rightarrow> (cmd \<Rightarrow> int action) \<Rightarrow> int action" where
  "parse_assignment c self s =
     (let s = skip_ws s; start = ap_pos s
      in if assignment_op_start s = None then finish_assignment self s
         else try_then (parse_lvalue c) (\<lambda>lv s. case lv of
                  None \<Rightarrow> Some (Fail, s)
                | Some name \<Rightarrow>
                    let s = skip_ws s
                    in case assignment_operator_at (ap_input s) (ap_pos s) of
                         Some op \<Rightarrow> bind_assignment c self name op s
                       | None \<Rightarrow> finish_assignment self (s\<lparr>ap_pos := start\<rparr>)) s)"

text \<open>\<open>parse_conditional\<close>: one arm of the code per value of the condition.\<close>

definition expect_colon :: "int action \<Rightarrow> int action" where
  "expect_colon k s =
     (let s = skip_ws s
      in if peek s \<noteq> Some (CHR '':'') then fail ''`:' expected for conditional expression'' (error_token s) s
         else let s = skip_ws (take_op 1 s)
              in if length (ap_input s) \<le> ap_pos s then fail ''expression expected'' (ap_last_tok_start s) s
                 else k s)"

fun starts_with_any :: "bytes list \<Rightarrow> bytes \<Rightarrow> bool" where
  "starts_with_any bs t = list_ex (\<lambda>b. starts_at t 0 b) bs"

text \<open>\<open>skip_arithmetic_conditional_branch\<close>, on the text that is left.\<close>

fun skip_branch :: "bytes list \<Rightarrow> nat \<Rightarrow> nat \<Rightarrow> bytes \<Rightarrow> bytes" where
  "skip_branch bs depth ternary [] = []"
| "skip_branch bs depth ternary (c # t) =
     (if depth = 0 \<and> ternary = 0 \<and> starts_with_any bs (c # t) then c # t
      else if c = CHR ''('' then skip_branch bs (Suc depth) ternary t
      else if c = CHR '')'' then if depth = 0 then c # t else skip_branch bs (depth - 1) ternary t
      else if c = CHR ''?'' \<and> depth = 0 then skip_branch bs depth (Suc ternary) t
      else if c = CHR '':'' \<and> depth = 0 \<and> 0 < ternary then skip_branch bs depth (ternary - 1) t
      else skip_branch bs depth ternary t)"

definition skip_arithmetic_conditional_branch :: "bytes list \<Rightarrow> arith_parser \<Rightarrow> arith_parser" where
  "skip_arithmetic_conditional_branch bs s =
     s\<lparr>ap_pos := ap_pos s + (length (left s) - length (skip_branch bs 0 0 (left s)))\<rparr>"

definition conditional_false :: "(cmd \<Rightarrow> int action) \<Rightarrow> int action" where
  "conditional_false self =
     try_then (under_noeval (self Comma)) (\<lambda>_. expect_colon (self Conditional))"

definition conditional_true :: "(cmd \<Rightarrow> int action) \<Rightarrow> int action" where
  "conditional_true self =
     try_then (self Comma) (\<lambda>true_value. expect_colon (\<lambda>s.
       case assignment_op_start s of
         Some op_pos \<Rightarrow> fail ''attempted assignment to non-variable'' op_pos
           (skip_arithmetic_conditional_branch ['','', '')'', '':''] s)
       | None \<Rightarrow> try_then (under_noeval (self Conditional)) (\<lambda>_. ret true_value) s))"

definition parse_conditional :: "(cmd \<Rightarrow> int action) \<Rightarrow> int action" where
  "parse_conditional self =
     try_then (self LogicalOr) (\<lambda>condition s.
       let s = skip_ws s
       in if peek s \<noteq> Some (CHR ''?'') then ret condition s
          else let s = skip_ws (take_op 1 s)
               in if length (ap_input s) \<le> ap_pos s \<or> peek s = Some (CHR '':'')
                  then fail ''expression expected'' (error_token s) s
                  else if condition = 0 then conditional_false self s else conditional_true self s)"

definition of_flag :: "bool \<Rightarrow> int" where
  "of_flag b = (if b then 1 else 0)"

text \<open>The operand behind \<open>||\<close> and \<open>&&\<close> must not be an assignment.\<close>

definition logical_operand :: "int action \<Rightarrow> int action" where
  "logical_operand k s =
     (let s = skip_ws (take_op 2 s)
      in case assignment_op_start s of
           Some op_pos \<Rightarrow> fail ''attempted assignment to non-variable'' op_pos s
         | None \<Rightarrow> k s)"

definition parse_logical_or :: "(cmd \<Rightarrow> int action) \<Rightarrow> int action" where
  "parse_logical_or self = try_then (self LogicalAnd) (\<lambda>v. self (LogicalOrLoop v))"

definition logical_or_loop :: "(cmd \<Rightarrow> int action) \<Rightarrow> int \<Rightarrow> int action" where
  "logical_or_loop self v s =
     (let s = skip_ws s
      in if \<not> starts_with ''||'' s then ret v s
         else logical_operand
           (if v \<noteq> 0 then try_then (under_noeval (self LogicalAnd)) (\<lambda>_. self (LogicalOrLoop 1))
            else try_then (self LogicalAnd) (\<lambda>r. self (LogicalOrLoop (of_flag (v \<noteq> 0 \<or> r \<noteq> 0))))) s)"

definition parse_logical_and :: "(cmd \<Rightarrow> int action) \<Rightarrow> int action" where
  "parse_logical_and self = try_then (self BitOr) (\<lambda>v. self (LogicalAndLoop v))"

definition logical_and_loop :: "(cmd \<Rightarrow> int action) \<Rightarrow> int \<Rightarrow> int action" where
  "logical_and_loop self v s =
     (let s = skip_ws s
      in if \<not> starts_with ''&&'' s then ret v s
         else logical_operand
           (if v = 0 then try_then (under_noeval (self BitOr)) (\<lambda>_. self (LogicalAndLoop v))
            else try_then (self BitOr) (\<lambda>r. self (LogicalAndLoop (of_flag (v \<noteq> 0 \<and> r \<noteq> 0))))) s)"

definition parse_bitwise_or :: "(cmd \<Rightarrow> int action) \<Rightarrow> int action" where
  "parse_bitwise_or self = try_then (self BitXor) (\<lambda>v. self (BitOrLoop v))"

definition bitwise_or_loop :: "(cmd \<Rightarrow> int action) \<Rightarrow> int \<Rightarrow> int action" where
  "bitwise_or_loop self v s =
     (let s = skip_ws s
      in if starts_with ''||'' s \<or> at_assignment_op s then ret v s
         else if peek s = Some (CHR ''|'')
         then try_then (self BitXor) (\<lambda>r. self (BitOrLoop (bash_arith (v OR r)))) (take_op 1 s)
         else ret v s)"

definition parse_bitwise_xor :: "(cmd \<Rightarrow> int action) \<Rightarrow> int action" where
  "parse_bitwise_xor self = try_then (self BitAnd) (\<lambda>v. self (BitXorLoop v))"

definition bitwise_xor_loop :: "(cmd \<Rightarrow> int action) \<Rightarrow> int \<Rightarrow> int action" where
  "bitwise_xor_loop self v s =
     (let s = skip_ws s
      in if at_assignment_op s then ret v s
         else if peek s = Some (CHR ''^'')
         then try_then (self BitAnd) (\<lambda>r. self (BitXorLoop (bash_arith (v XOR r)))) (take_op 1 s)
         else ret v s)"

definition parse_bitwise_and :: "(cmd \<Rightarrow> int action) \<Rightarrow> int action" where
  "parse_bitwise_and self = try_then (self Comparison) (\<lambda>v. self (BitAndLoop v))"

definition bitwise_and_loop :: "(cmd \<Rightarrow> int action) \<Rightarrow> int \<Rightarrow> int action" where
  "bitwise_and_loop self v s =
     (let s = skip_ws s
      in if starts_with ''&&'' s \<or> at_assignment_op s then ret v s
         else if peek s = Some (CHR ''&'')
         then try_then (self Comparison) (\<lambda>r. self (BitAndLoop (bash_arith (v AND r)))) (take_op 1 s)
         else ret v s)"

text \<open>\<open>parse_comparison\<close>: all six comparison operators on one level.\<close>

definition comparison_at :: "arith_parser \<Rightarrow> (nat \<times> (int \<Rightarrow> int \<Rightarrow> bool)) option" where
  "comparison_at s =
     (if starts_with ''=='' s then Some (2, (=))
      else if starts_with ''!='' s then Some (2, (\<noteq>))
      else if starts_with ''>='' s then Some (2, (\<lambda>a b. b \<le> a))
      else if starts_with ''<='' s then Some (2, (\<le>))
      else if peek s = Some (CHR ''>'') then Some (1, (\<lambda>a b. b < a))
      else if peek s = Some (CHR ''<'') then Some (1, (<))
      else None)"

definition parse_comparison :: "(cmd \<Rightarrow> int action) \<Rightarrow> int action" where
  "parse_comparison self = try_then (self Shift) (\<lambda>v. self (ComparisonLoop v))"

definition comparison_loop :: "(cmd \<Rightarrow> int action) \<Rightarrow> int \<Rightarrow> int action" where
  "comparison_loop self v s =
     (let s = skip_ws s
      in case comparison_at s of
           None \<Rightarrow> ret v s
         | Some (n, test) \<Rightarrow>
             try_then (self Shift) (\<lambda>r. self (ComparisonLoop (of_flag (test v r)))) (take_op n s))"

definition parse_shift :: "(cmd \<Rightarrow> int action) \<Rightarrow> int action" where
  "parse_shift self = try_then (self Sum) (\<lambda>v. self (ShiftLoop v))"

definition shift_loop :: "(cmd \<Rightarrow> int action) \<Rightarrow> int \<Rightarrow> int action" where
  "shift_loop self v s =
     (let s = skip_ws s
      in if at_assignment_op s then ret v s
         else if starts_with ''<<'' s
         then try_then (self Sum) (\<lambda>r. self (ShiftLoop (shift_left v r))) (take_op 2 s)
         else if starts_with ''>>'' s
         then try_then (self Sum) (\<lambda>r. self (ShiftLoop (shift_right v r))) (take_op 2 s)
         else ret v s)"

text \<open>\<open>parse_expr\<close>.\<close>

definition parse_expr :: "(cmd \<Rightarrow> int action) \<Rightarrow> int action" where
  "parse_expr self = try_then (self Term) (\<lambda>v. self (SumLoop v))"

definition expr_loop :: "(cmd \<Rightarrow> int action) \<Rightarrow> int \<Rightarrow> int action" where
  "expr_loop self v s =
     (let s = skip_ws s
      in if at_assignment_op s then ret v s
         else if peek s = Some (CHR ''+'')
         then try_then (self Term) (\<lambda>r. self (SumLoop (bash_arith (v + r)))) (take_op 1 s)
         else if peek s = Some (CHR ''-'')
         then try_then (self Term) (\<lambda>r. self (SumLoop (bash_arith (v - r)))) (take_op 1 s)
         else ret v s)"

definition parse_term :: "(cmd \<Rightarrow> int action) \<Rightarrow> int action" where
  "parse_term self = try_then (self Power) (\<lambda>v. self (TermLoop v))"

text \<open>The divisor: zero is an error, except where values do not count.\<close>

definition divide_step :: "(cmd \<Rightarrow> int action) \<Rightarrow> (int \<Rightarrow> int) \<Rightarrow> int action" where
  "divide_step self f s =
     (let s = skip_ws (take_op 1 s); rhs_start = ap_pos s
      in try_then (self Power) (\<lambda>r s.
           if r = 0 \<and> ap_noeval s = 0 then fail ''division by 0'' rhs_start s
           else self (TermLoop (f (if r = 0 then 1 else r))) s) s)"

definition term_loop :: "(cmd \<Rightarrow> int action) \<Rightarrow> int \<Rightarrow> int action" where
  "term_loop self v s =
     (let s = skip_ws s
      in if at_assignment_op s then ret v s
         else if peek s = Some (CHR ''*'') then
           if starts_with ''**'' s then ret v s
           else try_then (self Power) (\<lambda>r. self (TermLoop (bash_arith (v * r)))) (take_op 1 s)
         else if peek s = Some (CHR ''/'') then divide_step self (arith_div v) s
         else if peek s = Some (CHR ''%'') then divide_step self (arith_rem v) s
         else ret v s)"

text \<open>\<open>parse_power\<close>: right-associative; the error token of a negative exponent skips its sign.\<close>

definition exponent_token :: "arith_parser \<Rightarrow> nat" where
  "exponent_token s =
     (if peek s = Some (CHR ''-'') \<or> peek s = Some (CHR ''+'')
      then skip_from (ap_input s) (ap_pos s + 1) else ap_pos s)"

definition parse_power :: "(cmd \<Rightarrow> int action) \<Rightarrow> int action" where
  "parse_power self =
     try_then (self Factor) (\<lambda>v s.
       let s = skip_ws s
       in if starts_with ''**'' s \<and> \<not> at_assignment_op s
          then let s = skip_ws (take_op 2 s); tok = exponent_token s
               in try_then (self Power) (\<lambda>r s.
                    if r < 0 then if ap_noeval s = 0 then fail ''exponent less than 0'' tok s else ret 1 s
                    else case checked_arithmetic_pow v r of None \<Rightarrow> Some (Fail, s) | Some p \<Rightarrow> ret p s) s
          else ret v s)"

subsection \<open>\<open>factor.rs\<close>\<close>

definition literal_char :: "char \<Rightarrow> bool" where
  "literal_char c \<longleftrightarrow> is_ascii_alphanumeric c \<or> c \<in> set ''#@_''"

definition parse_number :: "int action" where
  "parse_number s =
     (let start = ap_pos s;
          token = takeWhile literal_char (left s);
          s = note_operand start (advance (length token) s)
      in case strlong_value token of
           Inr v \<Rightarrow> ret v s
         | Inl msg \<Rightarrow> fail_display msg start (start + length token) s)"

definition parse_variable :: "arith_ctx \<Rightarrow> (cmd \<Rightarrow> int action) \<Rightarrow> int action" where
  "parse_variable c self s =
     (let tok_start = ap_pos s
      in try_then (parse_lvalue c) (\<lambda>lv s. case lv of
           None \<Rightarrow> Some (Fail, s)
         | Some name \<Rightarrow>
             let s = skip_ws s
             in if starts_with ''++'' s
                then update_lvalue c self name 1 False (note_operand tok_start (advance 2 s))
                else if starts_with ''--'' s
                then update_lvalue c self name (- 1) False (note_operand tok_start (advance 2 s))
                else case lvalue_value c self name (note_operand tok_start s) of
                       None \<Rightarrow> None
                     | Some (Fail, s) \<Rightarrow>
                         if ap_error s = None then fail_operand_expected s else Some (Fail, s)
                     | Some r \<Rightarrow> Some r) s)"

text \<open>A second increment behind a prefix one only records the error; the result stays.\<close>

definition post_incdec_after_preincdec :: "arith_parser \<Rightarrow> arith_parser" where
  "post_incdec_after_preincdec s =
     (let s = skip_ws s
      in if starts_with ''++'' s
         then record_error ''++: assignment requires lvalue'' (ap_pos s) (length (ap_input s)) s
         else if starts_with ''--'' s
         then record_error ''--: assignment requires lvalue'' (ap_pos s) (length (ap_input s)) s
         else s)"

text \<open>
  \<open>++name\<close> and \<open>--name\<close>; without a name behind, the position is put back and \<open>otherwise\<close> goes on.
\<close>

definition prefix_update :: "arith_ctx \<Rightarrow> (cmd \<Rightarrow> int action) \<Rightarrow> int \<Rightarrow> int action \<Rightarrow> int action" where
  "prefix_update c self delta otherwise s =
     (let op_start = ap_pos s
      in try_then (parse_lvalue c) (\<lambda>lv s. case lv of
           None \<Rightarrow> otherwise (s\<lparr>ap_pos := op_start\<rparr>)
         | Some name \<Rightarrow>
             (case update_lvalue c self name delta True (note_op op_start s) of
                Some (Val v, s) \<Rightarrow> Some (Val v, post_incdec_after_preincdec s)
              | r \<Rightarrow> r)) (advance 2 s))"

definition parse_paren :: "(cmd \<Rightarrow> int action) \<Rightarrow> int action" where
  "parse_paren self s =
     try_then (self Comma) (\<lambda>v s.
       let s = skip_ws s
       in if peek s \<noteq> Some (CHR '')'') then fail ''missing `)'' (error_token s) s
          else ret v (take_op 1 s)) (take_op 1 s)"

definition parse_primary :: "arith_ctx \<Rightarrow> (cmd \<Rightarrow> int action) \<Rightarrow> int action" where
  "parse_primary c self s =
     (case peek s of
        None \<Rightarrow> fail_operand_position s
      | Some b \<Rightarrow>
          if b \<in> set ''+-!'' \<and> starts_at (ap_input s) (ap_pos s + 1) ''='' then fail_operand_expected s
          else if b = CHR ''+'' then self Factor (take_op 1 s)
          else if b = CHR ''-'' then try_then (self Factor) (\<lambda>v. ret (bash_arith (- v))) (take_op 1 s)
          else if b = CHR ''!'' then try_then (self Factor) (\<lambda>v. ret (of_flag (v = 0))) (take_op 1 s)
          else if b = CHR ''~'' then try_then (self Factor) (\<lambda>v. ret (bash_arith (NOT v))) (take_op 1 s)
          else if b = CHR ''('' then parse_paren self s
          else if is_ascii_digit b then parse_number s
          else if is_shell_name_start b then parse_variable c self s
          else fail_operand_position s)"

definition parse_factor :: "arith_ctx \<Rightarrow> (cmd \<Rightarrow> int action) \<Rightarrow> int action" where
  "parse_factor c self s =
     (let s = skip_ws s;
          decrement = (\<lambda>s. if starts_with ''--'' s then prefix_update c self (- 1) (parse_primary c self) s
                           else parse_primary c self s)
      in if starts_with ''++'' s then prefix_update c self 1 decrement s else decrement s)"

subsection \<open>The dispatcher\<close>

definition arith_body :: "arith_ctx \<Rightarrow> (cmd \<Rightarrow> int action) \<Rightarrow> cmd \<Rightarrow> int action" where
  "arith_body c self k =
     (case k of
        Comma \<Rightarrow> parse_comma self | CommaLoop v \<Rightarrow> comma_loop self v
      | Assignment \<Rightarrow> parse_assignment c self | Conditional \<Rightarrow> parse_conditional self
      | LogicalOr \<Rightarrow> parse_logical_or self | LogicalOrLoop v \<Rightarrow> logical_or_loop self v
      | LogicalAnd \<Rightarrow> parse_logical_and self | LogicalAndLoop v \<Rightarrow> logical_and_loop self v
      | BitOr \<Rightarrow> parse_bitwise_or self | BitOrLoop v \<Rightarrow> bitwise_or_loop self v
      | BitXor \<Rightarrow> parse_bitwise_xor self | BitXorLoop v \<Rightarrow> bitwise_xor_loop self v
      | BitAnd \<Rightarrow> parse_bitwise_and self | BitAndLoop v \<Rightarrow> bitwise_and_loop self v
      | Comparison \<Rightarrow> parse_comparison self | ComparisonLoop v \<Rightarrow> comparison_loop self v
      | Shift \<Rightarrow> parse_shift self | ShiftLoop v \<Rightarrow> shift_loop self v
      | Sum \<Rightarrow> parse_expr self | SumLoop v \<Rightarrow> expr_loop self v
      | Term \<Rightarrow> parse_term self | TermLoop v \<Rightarrow> term_loop self v
      | Power \<Rightarrow> parse_power self | Factor \<Rightarrow> parse_factor c self
      | VariableText name text \<Rightarrow> evaluate_variable_text self name text)"

primrec arith_run :: "arith_ctx \<Rightarrow> nat \<Rightarrow> cmd \<Rightarrow> int action" where
  "arith_run c 0 k = (\<lambda>s. None)"
| "arith_run c (Suc fuel) k = arith_body c (arith_run c fuel) k"

subsection \<open>One evaluation (\<open>eval_mutable_arith_result\<close>, the parser path)\<close>

fun normalize_arithmetic_quotes :: "bytes \<Rightarrow> bytes" where
  "normalize_arithmetic_quotes (a # b # rest) =
     (if a = CHR 0x5C \<and> b = CHR 0x22 then b # normalize_arithmetic_quotes rest
      else a # normalize_arithmetic_quotes (b # rest))"
| "normalize_arithmetic_quotes t = t"

definition numeric_assignment_expression :: "bytes \<Rightarrow> bool" where
  "numeric_assignment_expression e =
     (case position (\<lambda>b. b = CHR ''='') e of
        None \<Rightarrow> False
      | Some i \<Rightarrow> let t = str_trim (take i e) in t \<noteq> [] \<and> list_all is_ascii_digit t)"

definition top_parser :: "bytes \<Rightarrow> vars \<Rightarrow> (bytes \<times> bytes option) list \<Rightarrow> arith_parser" where
  "top_parser input vs ws =
     \<lparr>ap_input = input, ap_pos = 0, ap_vars = vs, ap_writes = ws, ap_resolving = [], ap_error = None,
      ap_last_tok_start = 0, ap_last_tok_operand = False, ap_noeval = 0\<rparr>"

text \<open>The error record of a parse that left none behind.\<close>

definition final_error :: "int res \<Rightarrow> arith_parser \<Rightarrow> arith_eval_error option" where
  "final_error r s =
     (if ap_error s \<noteq> None then ap_error s
      else if ap_pos s \<noteq> length (ap_input s) then ap_error (record_trailing s)
      else if r = Fail then
        if numeric_assignment_expression (ap_input s) then
          ap_error (record_error ''attempted assignment to non-variable''
            (case position (\<lambda>b. b = CHR ''='') (ap_input s) of Some i \<Rightarrow> i | None \<Rightarrow> 0) (length (ap_input s)) s)
        else if ap_vars s READONLY_ERROR \<noteq> None then None
        else ap_error (record_error ''arithmetic syntax error: operand expected'' (error_token s)
               (length (ap_input s)) s)
      else None)"

record arith_result =
  ar_value :: "int res"
  ar_error :: "arith_eval_error option"
  ar_vars :: vars
  ar_writes :: "(bytes \<times> bytes option) list"

definition eval_slow :: "arith_ctx \<Rightarrow> nat \<Rightarrow> bytes \<Rightarrow> vars \<Rightarrow> (bytes \<times> bytes option) list \<Rightarrow> arith_result option" where
  "eval_slow c fuel value vs ws =
     (let normalized = normalize_arithmetic_quotes value
      in if str_trim normalized = []
         then Some \<lparr>ar_value = Val 0, ar_error = None, ar_vars = vs, ar_writes = ws\<rparr>
         else map_option (\<lambda>(r, s).
           let s = skip_ws s;
               r = (if r \<noteq> Outside \<and> ap_pos s \<noteq> length (ap_input s) then Fail else r)
           in \<lparr>ar_value = r, ar_error = final_error r s, ar_vars = ap_vars s, ar_writes = ap_writes s\<rparr>)
           (arith_run c fuel Comma (top_parser normalized vs ws)))"

end
