(* ===== verification/ArithCorrect.thy ===== *)
theory ArithCorrect
  imports Arith Machine
begin

section \<open>The arithmetic evaluator: fuel, invariants, totality\<close>

text \<open>
  Three passes over the bodies of the dispatcher, each a set of rules for the operators the bodies
  are written with (\<open>try_then\<close>, \<open>under_noeval\<close>, branches): more fuel never changes an answer; every
  function keeps its input, moves the position forward inside it, leaves the variables alone where
  values do not count, records at most one error and yields 64-bit values; and every evaluation ends.
\<close>

lemmas body_defs =
  parse_comma_def comma_loop_def parse_assignment_def finish_assignment_def bind_assignment_def
  parse_conditional_def conditional_false_def conditional_true_def expect_colon_def logical_operand_def
  parse_logical_or_def logical_or_loop_def parse_logical_and_def logical_and_loop_def
  parse_bitwise_or_def bitwise_or_loop_def parse_bitwise_xor_def bitwise_xor_loop_def
  parse_bitwise_and_def bitwise_and_loop_def parse_comparison_def comparison_loop_def
  parse_shift_def shift_loop_def parse_expr_def expr_loop_def parse_term_def term_loop_def divide_step_def
  parse_power_def parse_factor_def prefix_update_def parse_primary_def parse_paren_def parse_variable_def
  update_lvalue_def assign_lvalue_precaptured_def lvalue_value_def variable_value_def evaluate_variable_text_def

subsection \<open>More fuel never changes an answer\<close>

definition below :: "'a option \<Rightarrow> 'a option \<Rightarrow> bool" where
  "below x y \<longleftrightarrow> x = None \<or> x = y"

named_theorems below_intros \<open>monotonicity of the operators of the evaluator\<close>

lemma below_refl [below_intros]: "below x x"
  by (simp add: below_def)

lemma below_None [below_intros]: "below None x"
  by (simp add: below_def)

lemma below_try_then [below_intros]:
  "below (m s) (m' s) \<Longrightarrow> (\<And>v s. below (f v s) (f' v s)) \<Longrightarrow> below (try_then m f s) (try_then m' f' s)"
proof (cases "m s")
  case (Some a)
  assume m: "below (m s) (m' s)" and f: "\<And>v s. below (f v s) (f' v s)"
  obtain r s' where a: "m s = Some (r, s')" using Some by (cases a) simp
  then have "m' s = Some (r, s')" using m by (simp add: below_def)
  then show ?thesis using a f [of _ s'] by (cases r) (simp_all add: below_def try_then_def)
qed (simp add: below_def try_then_def)

lemma below_under_noeval [below_intros]:
  "(\<And>s. below (m s) (m' s)) \<Longrightarrow> below (under_noeval m s) (under_noeval m' s)"
proof -
  assume "\<And>s. below (m s) (m' s)"
  from this [of "s\<lparr>ap_noeval := ap_noeval s + 1\<rparr>"] show ?thesis by (auto simp: below_def under_noeval_def)
qed

lemma below_if [below_intros]:
  "(b \<Longrightarrow> below x x') \<Longrightarrow> (\<not> b \<Longrightarrow> below y y') \<Longrightarrow> below (if b then x else y) (if b then x' else y')"
  by simp

lemma below_if_fun [below_intros]:
  "(b \<Longrightarrow> below (x s) (x' s)) \<Longrightarrow> (\<not> b \<Longrightarrow> below (y s) (y' s))
    \<Longrightarrow> below ((if b then x else y) s) ((if b then x' else y') s)"
  by simp

lemma below_case_option [below_intros]:
  "(o' = None \<Longrightarrow> below x x') \<Longrightarrow> (\<And>a. o' = Some a \<Longrightarrow> below (f a) (f' a))
    \<Longrightarrow> below (case o' of None \<Rightarrow> x | Some a \<Rightarrow> f a) (case o' of None \<Rightarrow> x' | Some a \<Rightarrow> f' a)"
  by (simp split: option.split)

lemma below_case_option_fun [below_intros]:
  "(o' = None \<Longrightarrow> below (x s) (x' s)) \<Longrightarrow> (\<And>a. o' = Some a \<Longrightarrow> below (f a s) (f' a s))
    \<Longrightarrow> below ((case o' of None \<Rightarrow> x | Some a \<Rightarrow> f a) s) ((case o' of None \<Rightarrow> x' | Some a \<Rightarrow> f' a) s)"
  by (simp split: option.split)

lemma below_case_prod [below_intros]:
  "(\<And>a b. p = (a, b) \<Longrightarrow> below (f a b) (f' a b)) \<Longrightarrow> below (case p of (a, b) \<Rightarrow> f a b) (case p of (a, b) \<Rightarrow> f' a b)"
  by (simp split: prod.split)

lemma below_Let [below_intros]: "below (f x) (f' x) \<Longrightarrow> below (Let x f) (Let x f')"
  by simp

text \<open>A result inspected and passed on.\<close>

lemma below_inspect [below_intros]:
  "below x x' \<Longrightarrow> (\<And>r. below (f r) (f' r)) \<Longrightarrow>
    below (case x of None \<Rightarrow> None | Some r \<Rightarrow> f r) (case x' of None \<Rightarrow> None | Some r \<Rightarrow> f' r)"
  by (auto simp: below_def split: option.splits)

lemma parse_factor_mono:
  assumes "\<And>k s. below (self k s) (self' k s)"
  shows "below (parse_factor c self s) (parse_factor c self' s)"
  unfolding parse_factor_def Let_def body_defs by (intro below_intros assms)

lemma arith_body_mono:
  assumes "\<And>k s. below (self k s) (self' k s)"
  shows "below (arith_body c self k s) (arith_body c self' k s)"
proof (cases "k = Factor")
  case True
  then show ?thesis unfolding arith_body_def using parse_factor_mono [OF assms] by simp
next
  case False
  then show ?thesis unfolding arith_body_def
    by (cases k; simp only: cmd.case simp_thms; unfold body_defs; intro below_intros assms)
qed

lemma arith_run_Suc: "below (arith_run c n k s) (arith_run c (Suc n) k s)"
proof (induction n arbitrary: k s)
  case 0
  show ?case by (simp add: below_def)
next
  case (Suc n)
  have "below (arith_body c (arith_run c n) k s) (arith_body c (arith_run c (Suc n)) k s)"
    by (rule arith_body_mono) (rule Suc.IH)
  then show ?case by (simp only: arith_run.simps)
qed

theorem arith_run_mono:
  assumes "arith_run c n k s = Some r" and "n \<le> m"
  shows "arith_run c m k s = Some r"
  using assms(2) assms(1)
proof (induction m rule: dec_induct)
  case (step m)
  then show ?case using arith_run_Suc [of c m k s] by (simp add: below_def)
qed

subsection \<open>Every evaluation ends, inside its frame\<close>

text \<open>
  What an evaluation may do to the variables is a parameter: the interface \<open>write_effect\<close> asks for a
  preorder that contains one assignment to a variable that is not read-only and the mark a refused
  assignment leaves.  Inside it, one well-founded induction gives that every call of the dispatcher
  returns for all large enough fuel, keeps input, names being resolved and \<open>noeval\<close>, moves forward,
  keeps the first error and yields a 64-bit value.
\<close>

type_synonym effect = "vars \<times> (bytes \<times> bytes option) list"

definition effects :: "arith_parser \<Rightarrow> effect" where
  "effects s = (ap_vars s, ap_writes s)"

definition spans :: "arith_eval_error \<Rightarrow> bool" where
  "spans e \<longleftrightarrow> ae_tok_start e \<le> ae_display_end e \<and> ae_display_end e \<le> length (ae_expr e)"

definition frame :: "(effect \<Rightarrow> effect \<Rightarrow> bool) \<Rightarrow> arith_parser \<Rightarrow> arith_parser \<Rightarrow> bool" where
  "frame E s0 s \<longleftrightarrow>
     ap_input s = ap_input s0 \<and> ap_resolving s = ap_resolving s0 \<and> ap_noeval s = ap_noeval s0
     \<and> ap_pos s0 \<le> ap_pos s
     \<and> (if ap_noeval s0 = 0 then E (effects s0) (effects s) else effects s = effects s0)
     \<and> (ap_error s0 \<noteq> None \<longrightarrow> ap_error s = ap_error s0)
     \<and> (\<forall>e. ap_error s = Some e \<longrightarrow> ap_error s0 = Some e \<or> spans e)"

definition good :: "(effect \<Rightarrow> effect \<Rightarrow> bool) \<Rightarrow> arith_parser \<Rightarrow> ('a \<Rightarrow> bool) \<Rightarrow> (nat \<Rightarrow> ('a res \<times> arith_parser) option) \<Rightarrow> bool" where
  "good E s0 P x \<longleftrightarrow> (\<exists>N r s'. (\<forall>n \<ge> N. x n = Some (r, s')) \<and> frame E s0 s' \<and> (\<forall>v. r = Val v \<longrightarrow> P v))"

primrec rank :: "cmd \<Rightarrow> nat" where
  "rank Comma = 14" | "rank (CommaLoop v) = 0"
| "rank Assignment = 13" | "rank Conditional = 12"
| "rank LogicalOr = 11" | "rank (LogicalOrLoop v) = 0"
| "rank LogicalAnd = 10" | "rank (LogicalAndLoop v) = 0"
| "rank BitOr = 9" | "rank (BitOrLoop v) = 0"
| "rank BitXor = 8" | "rank (BitXorLoop v) = 0"
| "rank BitAnd = 7" | "rank (BitAndLoop v) = 0"
| "rank Comparison = 6" | "rank (ComparisonLoop v) = 0"
| "rank Shift = 5" | "rank (ShiftLoop v) = 0"
| "rank Sum = 4" | "rank (SumLoop v) = 0"
| "rank Term = 3" | "rank (TermLoop v) = 0"
| "rank Power = 2" | "rank Factor = 1" | "rank (VariableText name t) = 0"

text \<open>Loops carry 64-bit values; a variable is only looked up where values count.\<close>

primrec callable :: "cmd \<Rightarrow> arith_parser \<Rightarrow> bool" where
  "callable Comma s = True" | "callable (CommaLoop v) s = in_i64 v"
| "callable Assignment s = True" | "callable Conditional s = True"
| "callable LogicalOr s = True" | "callable (LogicalOrLoop v) s = in_i64 v"
| "callable LogicalAnd s = True" | "callable (LogicalAndLoop v) s = in_i64 v"
| "callable BitOr s = True" | "callable (BitOrLoop v) s = in_i64 v"
| "callable BitXor s = True" | "callable (BitXorLoop v) s = in_i64 v"
| "callable BitAnd s = True" | "callable (BitAndLoop v) s = in_i64 v"
| "callable Comparison s = True" | "callable (ComparisonLoop v) s = in_i64 v"
| "callable Shift s = True" | "callable (ShiftLoop v) s = in_i64 v"
| "callable Sum s = True" | "callable (SumLoop v) s = in_i64 v"
| "callable Term s = True" | "callable (TermLoop v) s = in_i64 v"
| "callable Power s = True" | "callable Factor s = True"
| "callable (VariableText name t) s = (ap_noeval s = 0)"

definition cmd_order :: "((cmd \<times> arith_parser) \<times> (cmd \<times> arith_parser)) set" where
  "cmd_order = inv_image (less_than <*lex*> less_than <*lex*> less_than)
     (\<lambda>(k, s). (MAX_DEPTH - length (ap_resolving s), length (ap_input s) - ap_pos s, rank k))"

lemma wf_cmd_order: "wf cmd_order"
  unfolding cmd_order_def by (intro wf_inv_image wf_lex_prod wf_less_than)

definition hyp :: "(effect \<Rightarrow> effect \<Rightarrow> bool) \<Rightarrow> arith_ctx \<Rightarrow> cmd \<Rightarrow> arith_parser \<Rightarrow> bool" where
  "hyp E c k0 s0 \<longleftrightarrow> (\<forall>k s. ((k, s), (k0, s0)) \<in> cmd_order \<longrightarrow> callable k s \<longrightarrow> good E s in_i64 (\<lambda>n. arith_run c n k s))"

lemma hyp_use: "hyp E c k0 s0 \<Longrightarrow> ((k, s), (k0, s0)) \<in> cmd_order \<Longrightarrow> callable k s
    \<Longrightarrow> good E s in_i64 (\<lambda>n. arith_run c n k s)"
  by (simp add: hyp_def)

lemma order_lower: "frame E s0 s \<Longrightarrow> rank k < rank k0 \<Longrightarrow> ((k, s), (k0, s0)) \<in> cmd_order"
  and order_ahead: "frame E s0 s \<Longrightarrow> ap_pos s0 < ap_pos s \<Longrightarrow> ap_pos s0 < length (ap_input s0)
    \<Longrightarrow> ((k, s), (k0, s0)) \<in> cmd_order"
  and order_deeper: "length (ap_resolving s0) < length (ap_resolving s) \<Longrightarrow> length (ap_resolving s0) < MAX_DEPTH
    \<Longrightarrow> ((k, s), (k0, s0)) \<in> cmd_order"
  by (auto simp: cmd_order_def frame_def)

lemmas hyp_lower = hyp_use [OF _ order_lower]
  and hyp_ahead = hyp_use [OF _ order_ahead]
  and hyp_deeper = hyp_use [OF _ order_deeper]

lemma frame_pos: "frame E s0 s \<Longrightarrow> ap_pos s0 \<le> ap_pos s"
  and frame_input: "frame E s0 s \<Longrightarrow> ap_input s = ap_input s0"
  and frame_noeval: "frame E s0 s \<Longrightarrow> ap_noeval s = ap_noeval s0"
  by (simp_all add: frame_def)

lemma find_in: "find P xs = Some x \<Longrightarrow> x \<in> set xs"
  by (auto simp: find_Some_iff)

locale write_effect =
  fixes c :: arith_ctx and E :: "effect \<Rightarrow> effect \<Rightarrow> bool"
  assumes E_refl: "E x x"
    and E_trans: "E x y \<Longrightarrow> E y z \<Longrightarrow> E x z"
    and E_set: "\<not> marked c ReadonlyAttr name \<Longrightarrow> E (effects s) (effects (set_variable name v s))"
    and E_refuse: "E (effects s) (effects (s\<lparr>ap_vars := (ap_vars s)(READONLY_ERROR := Some name)\<rparr>))"
begin

lemma frame_refl: "frame E s s"
  by (simp add: frame_def E_refl)

lemma frame_trans:
  assumes 1: "frame E s0 s1" and 2: "frame E s1 s2"
  shows "frame E s0 s2"
proof -
  have eff: "if ap_noeval s0 = 0 then E (effects s0) (effects s2) else effects s2 = effects s0"
    using 1 2 E_trans [of "effects s0" "effects s1" "effects s2"] by (simp add: frame_def split: if_splits)
  have "ap_error s2 = Some e \<Longrightarrow> ap_error s0 = Some e \<or> spans e" for e
    using 1 2 by (auto simp: frame_def)
  then show ?thesis using 1 2 eff by (simp add: frame_def)
qed

text \<open>A step that only moves the position forward and notes a token stays in the frame.\<close>

lemma frame_move:
  assumes "frame E s0 s" and "ap_pos s \<le> ap_pos t" and "ap_input t = ap_input s"
    and "ap_resolving t = ap_resolving s" and "ap_noeval t = ap_noeval s" and "effects t = effects s"
    and "ap_error t = ap_error s"
  shows "frame E s0 t"
  using assms by (simp add: frame_def)

lemma frame_skip_ws: "frame E s0 s \<Longrightarrow> frame E s0 (skip_ws s)"
  by (erule frame_move) (auto simp: skip_ws_def skip_from_def effects_def)

lemma frame_advance: "frame E s0 s \<Longrightarrow> frame E s0 (advance n s)"
  by (erule frame_move) (auto simp: advance_def effects_def)

lemma frame_note_op: "frame E s0 s \<Longrightarrow> frame E s0 (note_op p s)"
  by (erule frame_move) (auto simp: note_op_def effects_def)

lemma frame_note_operand: "frame E s0 s \<Longrightarrow> frame E s0 (note_operand p s)"
  by (erule frame_move) (auto simp: note_operand_def effects_def)

lemma frame_take_op: "frame E s0 s \<Longrightarrow> frame E s0 (take_op n s)"
  by (simp add: take_op_def frame_advance frame_note_op)

lemma frame_set_pos: "frame E s0 s \<Longrightarrow> ap_pos s0 \<le> p \<Longrightarrow> frame E s0 (s\<lparr>ap_pos := p\<rparr>)"
  unfolding frame_def effects_def by (simp split: if_splits)

lemma frame_error:
  assumes f: "frame E s0 s" and e: "spans e"
  shows "frame E s0 (if ap_error s \<noteq> None then s else s\<lparr>ap_error := Some e\<rparr>)"
proof (cases "ap_error s")
  case None
  have "effects (s\<lparr>ap_error := Some e\<rparr>) = effects s" by (simp add: effects_def)
  then show ?thesis using f e None by (cases "ap_error s0") (simp_all add: frame_def)
qed (use f in simp)

lemma frame_record_error: "frame E s0 s \<Longrightarrow> t \<le> d \<Longrightarrow> frame E s0 (record_error msg t d s)"
  unfolding record_error_def by (rule frame_error) (auto simp: spans_def)

lemma frame_record_full: "frame E s0 s \<Longrightarrow> frame E s0 (record_error msg t (length (ap_input s)) s)"
  unfolding record_error_def by (rule frame_error) (auto simp: spans_def)

lemma frame_record_trailing: "frame E s0 s \<Longrightarrow> frame E s0 (record_trailing s)"
  by (simp add: record_trailing_def frame_record_full)

lemma frame_recursion_error: "frame E s0 s \<Longrightarrow> frame E s0 (record_recursion_error name s)"
proof -
  assume f: "frame E s0 s"
  have find: "(case find_sub needle hay of Some i \<Rightarrow> i | None \<Rightarrow> 0) \<le> length hay" for needle hay
    using find_in [of _ "[0..<Suc (length hay)]"] by (fastforce simp: find_sub_def split: option.split)
  show ?thesis
  proof (cases "ap_error s")
    case None
    have step: "frame E s0 (s\<lparr>ap_error := Some e\<rparr>)" if "spans e" for e
      using frame_error [OF f that] None by simp
    show ?thesis unfolding record_recursion_error_def Let_def using None
      by (simp add: split_def) (rule step, simp add: spans_def find)
  qed (use f in \<open>simp add: record_recursion_error_def\<close>)
qed

lemma frame_set_variable:
  "frame E s0 s \<Longrightarrow> ap_noeval s = 0 \<Longrightarrow> \<not> marked c ReadonlyAttr name \<Longrightarrow> frame E s0 (set_variable name v s)"
  by (erule frame_trans) (simp add: frame_def E_set, simp add: set_variable_def Let_def)

lemma frame_refuse:
  "frame E s0 s \<Longrightarrow> ap_noeval s = 0 \<Longrightarrow> frame E s0 (s\<lparr>ap_vars := (ap_vars s)(READONLY_ERROR := Some name)\<rparr>)"
  by (erule frame_trans) (simp add: frame_def E_refuse)

lemmas frame_intros =
  frame_skip_ws frame_advance frame_note_op frame_note_operand frame_take_op frame_record_full
  frame_record_trailing frame_recursion_error

lemma good_frame: "good E s P x \<Longrightarrow> frame E s0 s \<Longrightarrow> good E s0 P x"
  unfolding good_def using frame_trans by blast

lemma good_ret: "frame E s0 s \<Longrightarrow> P v \<Longrightarrow> good E s0 P (\<lambda>n. ret v s)"
  by (auto simp: good_def ret_def)

lemma good_stop: "frame E s0 s \<Longrightarrow> r = Fail \<or> r = Outside \<Longrightarrow> good E s0 P (\<lambda>n. Some (r, s))"
  by (auto simp: good_def)

lemma good_pass: "frame E s0 s \<Longrightarrow> (\<And>v. r = Val v \<Longrightarrow> P v) \<Longrightarrow> good E s0 P (\<lambda>n. Some (r, s))"
  by (auto simp: good_def)

lemma good_fail_display: "frame E s0 s \<Longrightarrow> t \<le> d \<Longrightarrow> good E s0 P (\<lambda>n. fail_display msg t d s)"
  by (simp add: fail_display_def good_stop frame_record_error)

lemma good_fail: "frame E s0 s \<Longrightarrow> good E s0 P (\<lambda>n. fail msg t s)"
  by (simp add: fail_def fail_display_def good_stop frame_record_full)

lemma good_operand_expected: "frame E s0 s \<Longrightarrow> good E s0 P (\<lambda>n. fail_operand_expected s)"
  by (simp add: fail_operand_expected_def good_fail)

lemma good_operand_position: "frame E s0 s \<Longrightarrow> good E s0 P (\<lambda>n. fail_operand_position s)"
  by (simp add: fail_operand_position_def fail_invalid_operator_def good_fail good_operand_expected)

lemma good_inspect:
  assumes m: "good E s P' m" and s: "frame E s0 s"
    and f: "\<And>r s'. frame E s s' \<Longrightarrow> frame E s0 s' \<Longrightarrow> (\<And>v. r = Val v \<Longrightarrow> P' v) \<Longrightarrow> good E s0 P (\<lambda>n. g n r s')"
  shows "good E s0 P (\<lambda>n. case m n of None \<Rightarrow> None | Some (r, s') \<Rightarrow> g n r s')"
proof -
  from m obtain N r s' where 1: "\<forall>n\<ge>N. m n = Some (r, s')" "frame E s s'" "\<forall>v. r = Val v \<longrightarrow> P' v"
    by (auto simp: good_def)
  from f [OF 1(2) frame_trans [OF s 1(2)]] 1(3) have "good E s0 P (\<lambda>n. g n r s')" by blast
  then obtain M t s'' where 2: "\<forall>n\<ge>M. g n r s' = Some (t, s'')" "frame E s0 s''" "\<forall>v. t = Val v \<longrightarrow> P v"
    by (auto simp: good_def)
  have "\<forall>n \<ge> max N M. (case m n of None \<Rightarrow> None | Some (r, s') \<Rightarrow> g n r s') = Some (t, s'')"
    using 1(1) 2(1) by simp
  then show ?thesis unfolding good_def using 2(2,3) by blast
qed

lemma good_try:
  assumes m: "good E s P' (\<lambda>n. m n s)" and s: "frame E s0 s"
    and f: "\<And>v s'. P' v \<Longrightarrow> frame E s s' \<Longrightarrow> frame E s0 s' \<Longrightarrow> good E s0 P (\<lambda>n. f n v s')"
  shows "good E s0 P (\<lambda>n. try_then (m n) (f n) s)"
proof -
  have "good E s0 P (\<lambda>n. case m n s of None \<Rightarrow> None
      | Some (r, s') \<Rightarrow> (case r of Val v \<Rightarrow> f n v s' | Fail \<Rightarrow> Some (Fail, s') | Outside \<Rightarrow> Some (Outside, s')))"
  proof (rule good_inspect [OF m s])
    fix r :: "'a res" and s'
    assume "frame E s s'" and "frame E s0 s'" and "\<And>v. r = Val v \<Longrightarrow> P' v"
    then show "good E s0 P (\<lambda>n. case r of Val v \<Rightarrow> f n v s' | Fail \<Rightarrow> Some (Fail, s') | Outside \<Rightarrow> Some (Outside, s'))"
      by (cases r) (auto intro: f good_stop)
  qed
  moreover have "try_then (m n) (f n) s = (case m n s of None \<Rightarrow> None
      | Some (r, s') \<Rightarrow> (case r of Val v \<Rightarrow> f n v s' | Fail \<Rightarrow> Some (Fail, s') | Outside \<Rightarrow> Some (Outside, s')))" for n
    by (simp add: try_then_def split: option.split prod.split res.split)
  ultimately show ?thesis by simp
qed

lemma good_if: "(b \<Longrightarrow> good E s0 P x) \<Longrightarrow> (\<not> b \<Longrightarrow> good E s0 P y) \<Longrightarrow> good E s0 P (\<lambda>n. if b then x n else y n)"
  by (cases b) simp_all

lemma good_under_noeval:
  assumes "good E (s\<lparr>ap_noeval := ap_noeval s + 1\<rparr>) P (\<lambda>n. m n (s\<lparr>ap_noeval := ap_noeval s + 1\<rparr>))" and "frame E s0 s"
  shows "good E s0 P (\<lambda>n. under_noeval (m n) s)"
proof -
  from assms(1) obtain N r s' where 1: "\<forall>n\<ge>N. m n (s\<lparr>ap_noeval := ap_noeval s + 1\<rparr>) = Some (r, s')"
    "frame E (s\<lparr>ap_noeval := ap_noeval s + 1\<rparr>) s'" "\<forall>v. r = Val v \<longrightarrow> P v"
    by (auto simp: good_def)
  have "frame E s (s'\<lparr>ap_noeval := ap_noeval s' - 1\<rparr>)"
    using 1(2) E_refl by (auto simp: frame_def effects_def)
  then have "frame E s0 (s'\<lparr>ap_noeval := ap_noeval s' - 1\<rparr>)" using assms(2) frame_trans by blast
  moreover have "\<forall>n\<ge>N. under_noeval (m n) s = Some (r, s'\<lparr>ap_noeval := ap_noeval s' - 1\<rparr>)"
    using 1(1) by (simp add: under_noeval_def)
  ultimately show ?thesis unfolding good_def using 1(3) by blast
qed

end

subsection \<open>The functions one by one\<close>

lemma peek_Some: "peek s = Some b \<Longrightarrow> ap_pos s < length (ap_input s)"
  by (simp add: peek_def split: if_splits)

lemma starts_with_more: "starts_with (a # t) s \<Longrightarrow> ap_pos s < length (ap_input s)"
  by (cases "ap_pos s < length (ap_input s)") (simp_all add: starts_with_def starts_at_def)

lemma shift_left_in_i64 [simp]: "in_i64 (shift_left v r)"
  by (simp add: shift_left_def)

lemma arith_div_in_i64 [simp]: "in_i64 (arith_div v r)"
  by (simp add: arith_div_def)

lemma of_flag_in_i64 [simp]: "in_i64 (of_flag b)"
  by (simp add: of_flag_def in_i64_iff)

lemma const_in_i64 [simp]: "in_i64 0" "in_i64 1"
  by (simp_all add: in_i64_iff)

lemma div_between: "0 < d \<Longrightarrow> min v 0 \<le> v div d \<and> v div d \<le> max v 0" for v d :: int
proof (cases "0 \<le> v")
  case False
  then have "v div d < 0" if "0 < d" using that by (simp add: pos_imp_zdiv_neg_iff)
  then show "0 < d \<Longrightarrow> ?thesis" using False zdiv_mono2_neg [of v 1 d] by auto
qed (use zdiv_mono2 [of v 1 d] in \<open>auto simp: pos_imp_zdiv_nonneg_iff\<close>)

lemma smod_between: "r \<noteq> 0 \<Longrightarrow> min v 0 \<le> v smod r \<and> v smod r \<le> max v 0" for v r :: int
proof -
  have "0 \<le> \<bar>v\<bar> mod \<bar>r\<bar>" and "\<bar>v\<bar> mod \<bar>r\<bar> \<le> \<bar>v\<bar>" if "r \<noteq> 0"
    using that by (simp_all add: zmod_le_nonneg_dividend)
  then show "r \<noteq> 0 \<Longrightarrow> min v 0 \<le> v smod r \<and> v smod r \<le> max v 0"
    by (cases v "0::int" rule: linorder_cases) (simp_all add: signed_modulo_int_def)
qed

lemma shift_right_in_i64: "in_i64 v \<Longrightarrow> in_i64 (shift_right v r)"
  using div_between [of "2 ^ nat (r mod 64)" v] by (auto simp: shift_right_def in_i64_iff)

lemma arith_rem_in_i64: "in_i64 v \<Longrightarrow> r \<noteq> 0 \<Longrightarrow> in_i64 (arith_rem v r)"
  using smod_between [of r v] by (auto simp: arith_rem_def in_i64_iff)

lemma compound_value_in_i64: "compound_value op v r = Some w \<Longrightarrow> in_i64 v \<Longrightarrow> in_i64 w"
  by (auto simp: compound_value_def shift_right_in_i64 arith_rem_in_i64 split: if_splits)

lemma checked_pow_in_i64: "checked_arithmetic_pow v r = Some w \<Longrightarrow> in_i64 w"
proof -
  have "in_i64 (pow_loop v n)" for n by (cases n) simp_all
  then show "checked_arithmetic_pow v r = Some w \<Longrightarrow> in_i64 w"
    by (auto simp: checked_arithmetic_pow_def split: if_splits)
qed

lemma strlong_loop_in_i64: "strlong_loop t base foundbase v = Inr w \<Longrightarrow> in_i64 v \<Longrightarrow> in_i64 w"
  by (induction t base foundbase v rule: strlong_loop.induct) (auto split: if_splits)

lemma strlong_value_in_i64: "strlong_value t = Inr w \<Longrightarrow> in_i64 w"
  by (auto simp: strlong_value_def split: if_splits dest: strlong_loop_in_i64)

lemma plain_number_in_i64: "plain_number t = Some v \<Longrightarrow> in_i64 v"
  by (auto simp: plain_number_def split: if_splits option.splits)

definition ahead :: "(effect \<Rightarrow> effect \<Rightarrow> bool) \<Rightarrow> arith_parser \<Rightarrow> arith_parser \<Rightarrow> bool" where
  "ahead E s0 s \<longleftrightarrow> frame E s0 s \<and> ap_pos s0 < ap_pos s \<and> ap_pos s0 < length (ap_input s0)"

context write_effect begin

lemma ahead_frame: "ahead E s0 s \<Longrightarrow> frame E s0 s"
  by (simp add: ahead_def)

lemma ahead_trans: "ahead E s0 s \<Longrightarrow> frame E s t \<Longrightarrow> ahead E s0 t"
  using frame_trans frame_pos by (fastforce simp: ahead_def)

lemma ahead_skip_ws: "ahead E s0 s \<Longrightarrow> ahead E s0 (skip_ws s)"
  and ahead_note_operand: "ahead E s0 s \<Longrightarrow> ahead E s0 (note_operand p s)"
  and ahead_note_op: "ahead E s0 s \<Longrightarrow> ahead E s0 (note_op p s)"
  and ahead_take_op: "ahead E s0 s \<Longrightarrow> ahead E s0 (take_op n s)"
  by (erule ahead_trans, intro frame_intros frame_refl)+

lemma ahead_advance: "frame E s0 s \<Longrightarrow> ap_pos s < length (ap_input s) \<Longrightarrow> 0 < n \<Longrightarrow> ahead E s0 (advance n s)"
  using frame_advance [of s0 s n] frame_pos [of E s0 s] frame_input [of E s0 s]
  by (simp add: ahead_def) (simp add: advance_def)

lemma ahead_op: "frame E s0 s \<Longrightarrow> ap_pos s < length (ap_input s) \<Longrightarrow> 0 < n \<Longrightarrow> ahead E s0 (take_op n s)"
  using ahead_advance [OF frame_note_op, of s0 s "ap_pos s" n] by (simp add: take_op_def note_op_def)

lemma good_ahead: "hyp E c k0 s0 \<Longrightarrow> ahead E s0 s \<Longrightarrow> callable k s \<Longrightarrow> good E s in_i64 (\<lambda>n. arith_run c n k s)"
  unfolding ahead_def using hyp_ahead by blast

lemma good_call: "hyp E c k0 s0 \<Longrightarrow> ahead E s0 s \<Longrightarrow> callable k s \<Longrightarrow> good E s0 in_i64 (\<lambda>n. arith_run c n k s)"
  by (rule good_frame [OF good_ahead ahead_frame])

lemma good_lower: "hyp E c k0 s0 \<Longrightarrow> frame E s0 s \<Longrightarrow> rank k < rank k0 \<Longrightarrow> callable k s
    \<Longrightarrow> good E s0 in_i64 (\<lambda>n. arith_run c n k s)"
  by (rule good_frame [OF hyp_lower])

text \<open>An operand and the loop behind it; an operator, its operand and the rest of the loop.\<close>

lemma good_pair:
  assumes h: "hyp E c k0 s0" and "rank k1 < rank k0" "callable k1 s0"
    and "\<And>v s. in_i64 v \<Longrightarrow> rank (L v) < rank k0 \<and> callable (L v) s"
  shows "good E s0 in_i64 (\<lambda>n. try_then (arith_run c n k1) (\<lambda>v. arith_run c n (L v)) s0)"
  by (rule good_try, rule good_lower [OF h frame_refl])
    (use assms frame_refl in \<open>auto intro: good_lower\<close>)

lemma good_next:
  assumes h: "hyp E c k0 s0" and a: "ahead E s0 s" and "callable k1 s"
    and "\<And>r s. in_i64 r \<Longrightarrow> callable (L r) s"
  shows "good E s0 in_i64 (\<lambda>n. try_then (arith_run c n k1) (\<lambda>r. arith_run c n (L r)) s)"
  by (rule good_try, rule good_ahead [OF h a])
    (use assms ahead_frame in \<open>auto intro: good_call ahead_trans\<close>)

lemma good_next_noeval:
  assumes h: "hyp E c k0 s0" and a: "ahead E s0 s" and k: "\<And>s. callable k1 s"
    and "\<And>s. callable k2 s"
  shows "good E s0 in_i64 (\<lambda>n. try_then (under_noeval (arith_run c n k1)) (\<lambda>r. arith_run c n k2) s)"
proof (rule good_try)
  have "good E (s\<lparr>ap_noeval := ap_noeval s + 1\<rparr>) in_i64 (\<lambda>n. arith_run c n k1 (s\<lparr>ap_noeval := ap_noeval s + 1\<rparr>))"
    by (rule hyp_use [OF h _ k]) (use a in \<open>auto simp: ahead_def cmd_order_def frame_def\<close>)
  then show "good E s in_i64 (\<lambda>n. under_noeval (arith_run c n k1) s)"
    by (rule good_under_noeval) (rule frame_refl)
qed (use assms in \<open>auto intro: good_call ahead_trans ahead_frame\<close>)

end

context write_effect begin

lemma good_parse_comma: "hyp E c Comma s0 \<Longrightarrow> good E s0 in_i64 (\<lambda>n. parse_comma (arith_run c n) s0)"
  and good_parse_logical_or: "hyp E c LogicalOr s0 \<Longrightarrow> good E s0 in_i64 (\<lambda>n. parse_logical_or (arith_run c n) s0)"
  and good_parse_logical_and: "hyp E c LogicalAnd s0 \<Longrightarrow> good E s0 in_i64 (\<lambda>n. parse_logical_and (arith_run c n) s0)"
  and good_parse_bitwise_or: "hyp E c BitOr s0 \<Longrightarrow> good E s0 in_i64 (\<lambda>n. parse_bitwise_or (arith_run c n) s0)"
  and good_parse_bitwise_xor: "hyp E c BitXor s0 \<Longrightarrow> good E s0 in_i64 (\<lambda>n. parse_bitwise_xor (arith_run c n) s0)"
  and good_parse_bitwise_and: "hyp E c BitAnd s0 \<Longrightarrow> good E s0 in_i64 (\<lambda>n. parse_bitwise_and (arith_run c n) s0)"
  and good_parse_comparison: "hyp E c Comparison s0 \<Longrightarrow> good E s0 in_i64 (\<lambda>n. parse_comparison (arith_run c n) s0)"
  and good_parse_shift: "hyp E c Shift s0 \<Longrightarrow> good E s0 in_i64 (\<lambda>n. parse_shift (arith_run c n) s0)"
  and good_parse_expr: "hyp E c Sum s0 \<Longrightarrow> good E s0 in_i64 (\<lambda>n. parse_expr (arith_run c n) s0)"
  and good_parse_term: "hyp E c Term s0 \<Longrightarrow> good E s0 in_i64 (\<lambda>n. parse_term (arith_run c n) s0)"
  unfolding parse_comma_def parse_logical_or_def parse_logical_and_def parse_bitwise_or_def
    parse_bitwise_xor_def parse_bitwise_and_def parse_comparison_def parse_shift_def parse_expr_def parse_term_def
  by (erule good_pair; simp)+

lemmas frame_ws = frame_skip_ws [OF frame_refl]

lemma loop_op: "peek (skip_ws s0) = Some b \<Longrightarrow> 0 < n \<Longrightarrow> ahead E s0 (take_op n (skip_ws s0))"
  and loop_op_word: "starts_with (a # t) (skip_ws s0) \<Longrightarrow> 0 < n \<Longrightarrow> ahead E s0 (take_op n (skip_ws s0))"
  by (rule ahead_op [OF frame_ws]; simp add: peek_Some starts_with_more)+

lemma good_comma_loop: "hyp E c (CommaLoop v) s0 \<Longrightarrow> in_i64 v \<Longrightarrow> good E s0 in_i64 (\<lambda>n. comma_loop (arith_run c n) v s0)"
  unfolding comma_loop_def Let_def
  by (cases "peek (skip_ws s0) = Some (CHR '','')")
    (simp_all add: good_ret frame_ws, rule good_next [OF _ loop_op], auto)

lemma good_bitwise_or_loop: "hyp E c (BitOrLoop v) s0 \<Longrightarrow> in_i64 v \<Longrightarrow> good E s0 in_i64 (\<lambda>n. bitwise_or_loop (arith_run c n) v s0)"
  and good_bitwise_xor_loop: "hyp E c (BitXorLoop v) s0 \<Longrightarrow> in_i64 v \<Longrightarrow> good E s0 in_i64 (\<lambda>n. bitwise_xor_loop (arith_run c n) v s0)"
  and good_bitwise_and_loop: "hyp E c (BitAndLoop v) s0 \<Longrightarrow> in_i64 v \<Longrightarrow> good E s0 in_i64 (\<lambda>n. bitwise_and_loop (arith_run c n) v s0)"
  and good_expr_loop: "hyp E c (SumLoop v) s0 \<Longrightarrow> in_i64 v \<Longrightarrow> good E s0 in_i64 (\<lambda>n. expr_loop (arith_run c n) v s0)"
  and good_shift_loop: "hyp E c (ShiftLoop v) s0 \<Longrightarrow> in_i64 v \<Longrightarrow> good E s0 in_i64 (\<lambda>n. shift_loop (arith_run c n) v s0)"
  unfolding bitwise_or_loop_def bitwise_xor_loop_def bitwise_and_loop_def expr_loop_def shift_loop_def Let_def
  by (intro good_if; (simp add: good_ret frame_ws; fail
    | erule good_next, (erule loop_op | erule loop_op_word), simp_all add: shift_right_in_i64))+

lemma good_comparison_loop: "hyp E c (ComparisonLoop v) s0 \<Longrightarrow> in_i64 v \<Longrightarrow> good E s0 in_i64 (\<lambda>n. comparison_loop (arith_run c n) v s0)"
proof (cases "comparison_at (skip_ws s0)")
  case (Some p)
  assume h: "hyp E c (ComparisonLoop v) s0"
  obtain n test where p: "p = (n, test)" by (cases p)
  have "ahead E s0 (take_op n (skip_ws s0))"
    using Some p by (auto simp: comparison_at_def split: if_splits intro: loop_op loop_op_word)
  then show ?thesis unfolding comparison_loop_def Let_def using Some p by (simp add: good_next [OF h])
qed (simp add: comparison_loop_def Let_def good_ret frame_ws)

end

context write_effect begin

lemma good_logical_operand_at:
  "starts_with (a # t) (skip_ws s0) \<Longrightarrow> (\<And>t. ahead E s0 t \<Longrightarrow> good E s0 P (\<lambda>n. k n t))
    \<Longrightarrow> good E s0 P (\<lambda>n. logical_operand (k n) (skip_ws s0))"
proof -
  assume h: "starts_with (a # t) (skip_ws s0)" and k: "\<And>t. ahead E s0 t \<Longrightarrow> good E s0 P (\<lambda>n. k n t)"
  have a: "ahead E s0 (skip_ws (take_op 2 (skip_ws s0)))" by (rule ahead_skip_ws [OF loop_op_word [OF h]]) simp
  then show ?thesis
    by (cases "assignment_op_start (skip_ws (take_op 2 (skip_ws s0)))")
      (simp_all add: logical_operand_def Let_def k good_fail ahead_frame)
qed

lemma good_logical_or_loop: "hyp E c (LogicalOrLoop v) s0 \<Longrightarrow> in_i64 v \<Longrightarrow> good E s0 in_i64 (\<lambda>n. logical_or_loop (arith_run c n) v s0)"
  unfolding logical_or_loop_def Let_def
  by (rule good_if, simp add: good_ret frame_ws, simp, erule good_logical_operand_at, cases "v = 0")
    (simp_all add: good_next good_next_noeval)

lemma good_logical_and_loop: "hyp E c (LogicalAndLoop v) s0 \<Longrightarrow> in_i64 v \<Longrightarrow> good E s0 in_i64 (\<lambda>n. logical_and_loop (arith_run c n) v s0)"
  unfolding logical_and_loop_def Let_def
  by (rule good_if, simp add: good_ret frame_ws, simp, erule good_logical_operand_at, cases "v = 0")
    (simp_all add: good_next good_next_noeval)

lemma good_divide_step:
  assumes h: "hyp E c (TermLoop v) s0" and p: "peek (skip_ws s0) = Some b"
    and f: "\<And>r. r \<noteq> 0 \<Longrightarrow> in_i64 r \<Longrightarrow> in_i64 (f r)"
  shows "good E s0 in_i64 (\<lambda>n. divide_step (arith_run c n) f (skip_ws s0))"
proof -
  let ?s = "skip_ws (take_op 1 (skip_ws s0))"
  have a: "ahead E s0 ?s" by (rule ahead_skip_ws [OF loop_op [OF p]]) simp
  show ?thesis unfolding divide_step_def Let_def
  proof (rule good_try, rule good_ahead [OF h a])
    fix r s
    assume r: "in_i64 r" and s: "frame E ?s s" "frame E s0 s"
    have w: "in_i64 (f (if r = 0 then 1 else r))" using r f by simp
    have s': "ahead E s0 s" using ahead_trans [OF a] s(1) by simp
    show "good E s0 in_i64 (\<lambda>n. if r = 0 \<and> ap_noeval s = 0 then fail ''division by 0'' (ap_pos ?s) s
        else arith_run c n (TermLoop (f (if r = 0 then 1 else r))) s)"
      by (rule good_if) (simp_all only: good_fail s(2), rule good_call [OF h s'], simp add: w)
  qed (use a in \<open>simp_all add: ahead_frame\<close>)
qed

lemma good_term_loop: "hyp E c (TermLoop v) s0 \<Longrightarrow> in_i64 v \<Longrightarrow> good E s0 in_i64 (\<lambda>n. term_loop (arith_run c n) v s0)"
  unfolding term_loop_def Let_def
  by (intro good_if; (simp add: good_ret frame_ws; fail
    | erule good_next, (erule loop_op | erule loop_op_word), simp_all
    | erule good_divide_step, assumption, simp add: arith_rem_in_i64))

lemma good_parse_power: "hyp E c Power s0 \<Longrightarrow> good E s0 in_i64 (\<lambda>n. parse_power (arith_run c n) s0)"
proof -
  assume h: "hyp E c Power s0"
  show ?thesis unfolding parse_power_def Let_def
  proof (rule good_try, rule good_lower [OF h frame_refl])
    fix v s
    assume v: "in_i64 v" and s: "frame E s0 s"
    let ?s = "skip_ws (take_op 2 (skip_ws s))"
    have ws: "frame E s0 (skip_ws s)" using s by (rule frame_skip_ws)
    show "good E s0 in_i64 (\<lambda>n. if starts_with ''**'' (skip_ws s) \<and> \<not> at_assignment_op (skip_ws s)
        then try_then (arith_run c n Power) (\<lambda>r s. if r < 0 then if ap_noeval s = 0
               then fail ''exponent less than 0'' (exponent_token ?s) s else ret 1 s
             else case checked_arithmetic_pow v r of None \<Rightarrow> Some (Fail, s) | Some p \<Rightarrow> ret p s) ?s
        else ret v (skip_ws s))"
    proof (rule good_if)
      assume op: "starts_with ''**'' (skip_ws s) \<and> \<not> at_assignment_op (skip_ws s)"
      then have a: "ahead E s0 ?s" by (intro ahead_skip_ws ahead_op ws) (auto dest: starts_with_more)
      show "good E s0 in_i64 (\<lambda>n. try_then (arith_run c n Power) (\<lambda>r s. if r < 0 then if ap_noeval s = 0
               then fail ''exponent less than 0'' (exponent_token ?s) s else ret 1 s
             else case checked_arithmetic_pow v r of None \<Rightarrow> Some (Fail, s) | Some p \<Rightarrow> ret p s) ?s)"
        by (rule good_try, rule good_ahead [OF h a], simp, rule ahead_frame [OF a])
          (auto intro!: good_if good_fail good_ret good_stop dest: checked_pow_in_i64 split: option.split)
    qed (simp add: good_ret ws v)
  qed (simp_all add: frame_refl)
qed

end

context write_effect begin

text \<open>A name consumes at least one byte.\<close>

lemma good_parse_lvalue:
  assumes s: "frame E s0 s"
  shows "good E s (\<lambda>lv. True) (\<lambda>n. parse_lvalue c s)"
  by (auto simp: parse_lvalue_def Let_def good_ret frame_ws good_stop frame_advance intro!: good_ret good_stop)

lemma parse_lvalue_ahead:
  assumes s: "frame E s0 s" and p: "parse_lvalue c s = Some (Val (Some name), s')"
  shows "ahead E s0 s'"
proof -
  let ?s = "skip_ws s" and ?k = "name_length (left (skip_ws s))"
  have ne: "left ?s \<noteq> []" "is_shell_name_start (hd (left ?s))" and s': "s' = advance ?k ?s"
    using p by (auto simp: parse_lvalue_def Let_def ret_def split: if_splits)
  have "0 < ?k" using ne by (cases "left ?s")
    (auto simp: name_length_def is_shell_name_start_def is_shell_name_char_def is_ascii_alphanumeric_def)
  moreover have "ap_pos ?s < length (ap_input ?s)" using ne by (simp add: left_def)
  ultimately show ?thesis unfolding s' by (intro ahead_advance frame_skip_ws s)
qed

lemma good_try_lvalue:
  assumes s: "frame E s0 s"
    and none: "\<And>s'. frame E s0 s' \<Longrightarrow> good E s0 P (\<lambda>n. f n None s')"
    and some: "\<And>name s'. ahead E s0 s' \<Longrightarrow> good E s0 P (\<lambda>n. f n (Some name) s')"
  shows "good E s0 P (\<lambda>n. try_then (parse_lvalue c) (f n) s)"
proof -
  obtain r s' where p: "parse_lvalue c s = Some (r, s')"
    using good_parse_lvalue [OF s] by (auto simp: good_def)
  have f: "frame E s0 s'"
    using good_frame [OF good_parse_lvalue [OF s] s] p by (auto simp: good_def)
  have "good E s0 P (\<lambda>n. case r of Val v \<Rightarrow> f n v s' | Fail \<Rightarrow> Some (Fail, s') | Outside \<Rightarrow> Some (Outside, s'))"
  proof (cases r)
    case (Val lv)
    then show ?thesis using none [OF f] some [OF parse_lvalue_ahead [OF s]] p by (cases lv) auto
  qed (simp_all add: good_stop f)
  then show ?thesis by (cases r) (simp_all add: try_then_def p)
qed

lemma good_lvalue_value:
  assumes h: "hyp E c k0 s0" and a: "ahead E s0 s"
  shows "good E s in_i64 (\<lambda>n. lvalue_value c (arith_run c n) name s)"
  unfolding lvalue_value_def variable_value_def Let_def
  by (intro good_if good_ret good_stop good_ahead [OF h a] frame_refl frame_recursion_error) simp_all

lemma good_writable:
  assumes a: "ahead E s0 s" and n: "ap_noeval s = 0"
    and k: "\<And>t. ahead E s0 t \<Longrightarrow> ap_noeval t = 0 \<Longrightarrow> \<not> marked c ReadonlyAttr name \<Longrightarrow> good E s0 P (\<lambda>n. k n t)"
  shows "good E s0 P (\<lambda>n. let (writable, s) = lvalue_is_writable c name s in if \<not> writable then Some (Fail, s) else k n s)"
  using frame_refuse [OF ahead_frame [OF a] n] k [OF a n] by (auto simp: lvalue_is_writable_def Let_def good_stop)

lemma good_update_lvalue:
  assumes h: "hyp E c k0 s0" and a: "ahead E s0 s"
  shows "good E s0 in_i64 (\<lambda>n. update_lvalue c (arith_run c n) name delta prefix s)"
  unfolding update_lvalue_def
proof (rule good_if)
  assume "\<not> 0 < ap_noeval s"
  then have n: "ap_noeval s = 0" by simp
  show "good E s0 in_i64 (\<lambda>n. let (writable, s) = lvalue_is_writable c name s in if \<not> writable then Some (Fail, s)
      else try_then (lvalue_value c (arith_run c n) name)
        (\<lambda>current s. let updated = bash_arith (current + delta)
           in ret (if prefix then updated else current) (set_variable name updated s)) s)"
  proof (rule good_writable [OF a n])
    fix t
    assume t: "ahead E s0 t" "ap_noeval t = 0" "\<not> marked c ReadonlyAttr name"
    show "good E s0 in_i64 (\<lambda>n. try_then (lvalue_value c (arith_run c n) name)
        (\<lambda>current s. let updated = bash_arith (current + delta)
           in ret (if prefix then updated else current) (set_variable name updated s)) t)"
      by (rule good_try, rule good_lvalue_value [OF h t(1)], rule ahead_frame [OF t(1)])
        (use t(2,3) in \<open>auto simp: Let_def dest: frame_noeval intro!: good_ret frame_set_variable\<close>)
  qed
qed (simp add: good_ret ahead_frame a)

lemma good_assign_lvalue:
  assumes h: "hyp E c k0 s0" and a: "ahead E s0 s" and rhs: "in_i64 rhs" and pre: "\<And>v. precaptured = Some v \<Longrightarrow> in_i64 v"
  shows "good E s0 in_i64 (\<lambda>n. assign_lvalue_precaptured c (arith_run c n) name op rhs precaptured s)"
  unfolding assign_lvalue_precaptured_def
proof (rule good_if)
  assume "\<not> 0 < ap_noeval s"
  then have n: "ap_noeval s = 0" by simp
  show "good E s0 in_i64 (\<lambda>n. let (writable, s) = lvalue_is_writable c name s in if \<not> writable then Some (Fail, s)
      else if op = ''='' then ret rhs (set_variable name rhs s)
      else try_then (case precaptured of Some v \<Rightarrow> ret v | None \<Rightarrow> lvalue_value c (arith_run c n) name)
        (\<lambda>current s. case compound_value op current rhs of None \<Rightarrow> Some (Fail, s) | Some v \<Rightarrow> ret v (set_variable name v s)) s)"
  proof (rule good_writable [OF a n], rule good_if)
    fix t
    assume t: "ahead E s0 t" "ap_noeval t = 0" "\<not> marked c ReadonlyAttr name"
    show "good E s0 in_i64 (\<lambda>n. ret rhs (set_variable name rhs t))"
      using t rhs by (intro good_ret frame_set_variable ahead_frame)
    have "good E t in_i64 (\<lambda>n. (case precaptured of Some v \<Rightarrow> ret v | None \<Rightarrow> lvalue_value c (arith_run c n) name) t)"
      using pre by (cases precaptured) (auto intro: good_lvalue_value [OF h t(1)] good_ret frame_refl)
    then show "good E s0 in_i64 (\<lambda>n. try_then (case precaptured of Some v \<Rightarrow> ret v | None \<Rightarrow> lvalue_value c (arith_run c n) name)
        (\<lambda>current s. case compound_value op current rhs of None \<Rightarrow> Some (Fail, s) | Some v \<Rightarrow> ret v (set_variable name v s)) t)"
      by (rule good_try [OF _ ahead_frame [OF t(1)]])
        (use t(2,3) in \<open>auto split: option.split dest: frame_noeval compound_value_in_i64 intro!: good_stop good_ret frame_set_variable\<close>)
  qed
qed (simp add: good_ret ahead_frame a rhs)

end

context write_effect begin

lemma good_parse_number:
  assumes s: "frame E s0 s"
  shows "good E s0 in_i64 (\<lambda>n. parse_number s)"
proof -
  let ?token = "takeWhile literal_char (left s)"
  have f: "frame E s0 (note_operand (ap_pos s) (advance (length ?token) s))" by (intro frame_intros s)
  show ?thesis unfolding parse_number_def Let_def
    by (cases "strlong_value ?token") (simp_all add: good_fail_display f good_ret strlong_value_in_i64)
qed

lemma good_parse_variable:
  assumes h: "hyp E c k0 s0" and s: "frame E s0 s"
  shows "good E s0 in_i64 (\<lambda>n. parse_variable c (arith_run c n) s)"
  unfolding parse_variable_def Let_def
proof (rule good_try_lvalue [OF s])
  fix name s'
  assume a: "ahead E s0 s'"
  then have ws: "ahead E s0 (skip_ws s')" by (rule ahead_skip_ws)
  have upd: "ahead E s0 (note_operand (ap_pos s) (advance 2 (skip_ws s')))"
    by (rule ahead_note_operand, rule ahead_trans [OF ws], intro frame_intros frame_refl)
  have val: "good E (note_operand (ap_pos s) (skip_ws s')) in_i64
      (\<lambda>n. lvalue_value c (arith_run c n) name (note_operand (ap_pos s) (skip_ws s')))"
    by (rule good_lvalue_value [OF h ahead_note_operand [OF ws]])
  have reading: "good E s0 in_i64 (\<lambda>n. case lvalue_value c (arith_run c n) name (note_operand (ap_pos s) (skip_ws s')) of
        None \<Rightarrow> None
      | Some (r, s) \<Rightarrow> if r = Fail \<and> ap_error s = None then fail_operand_expected s else Some (r, s))"
    by (rule good_inspect [OF val ahead_frame [OF ahead_note_operand [OF ws]]], rule good_if)
      (simp_all add: good_operand_expected good_pass)
  have same: "(case x of None \<Rightarrow> None
      | Some (Fail, s) \<Rightarrow> if ap_error s = None then fail_operand_expected s else Some (Fail, s) | Some r \<Rightarrow> Some r)
    = (case x of None \<Rightarrow> None
      | Some (r, s) \<Rightarrow> if r = Fail \<and> ap_error s = None then fail_operand_expected s else Some (r, s))"
    for x :: "(int res \<times> arith_parser) option"
    by (auto split: option.split prod.split res.split)
  show "good E s0 in_i64 (\<lambda>n. case Some name of None \<Rightarrow> Some (Fail, s') | Some name \<Rightarrow>
      if starts_with ''++'' (skip_ws s')
      then update_lvalue c (arith_run c n) name 1 False (note_operand (ap_pos s) (advance 2 (skip_ws s')))
      else if starts_with ''--'' (skip_ws s')
      then update_lvalue c (arith_run c n) name (- 1) False (note_operand (ap_pos s) (advance 2 (skip_ws s')))
      else case lvalue_value c (arith_run c n) name (note_operand (ap_pos s) (skip_ws s')) of
             None \<Rightarrow> None
           | Some (Fail, s) \<Rightarrow> if ap_error s = None then fail_operand_expected s else Some (Fail, s)
           | Some r \<Rightarrow> Some r)"
    unfolding same option.case by (intro good_if good_update_lvalue [OF h upd] reading)
qed (simp add: good_stop)

lemma frame_post_incdec: "frame E s0 s \<Longrightarrow> frame E s0 (post_incdec_after_preincdec s)"
  by (simp add: post_incdec_after_preincdec_def Let_def frame_intros)

lemma good_prefix_update:
  assumes h: "hyp E c k0 s0" and s: "frame E s0 s" and op: "ap_pos s < length (ap_input s)"
    and other: "\<And>t. frame E s0 t \<Longrightarrow> good E s0 in_i64 (\<lambda>n. otherwise n t)"
  shows "good E s0 in_i64 (\<lambda>n. prefix_update c (arith_run c n) delta (otherwise n) s)"
  unfolding prefix_update_def Let_def
proof (rule good_try_lvalue)
  show "frame E s0 (advance 2 s)" using s by (rule frame_advance)
  fix s'
  assume f: "frame E s0 s'"
  show "good E s0 in_i64 (\<lambda>n. case None of None \<Rightarrow> otherwise n (s'\<lparr>ap_pos := ap_pos s\<rparr>) | Some name \<Rightarrow>
      (case update_lvalue c (arith_run c n) name delta True (note_op (ap_pos s) s') of
         Some (Val v, s) \<Rightarrow> Some (Val v, post_incdec_after_preincdec s) | r \<Rightarrow> r))"
    using other [OF frame_set_pos [OF f frame_pos [OF s]]] by simp
next
  fix name s'
  assume "ahead E s0 s'"
  then have a: "ahead E s0 (note_op (ap_pos s) s')" by (rule ahead_note_op)
  have same: "(case x of Some (Val v, s) \<Rightarrow> Some (Val v, post_incdec_after_preincdec s) | r \<Rightarrow> r)
    = (case x of None \<Rightarrow> None | Some (r, s) \<Rightarrow> (case r of Val v \<Rightarrow> ret v (post_incdec_after_preincdec s) | _ \<Rightarrow> Some (r, s)))"
    for x :: "(int res \<times> arith_parser) option"
    by (auto simp: ret_def split: option.split prod.split res.split)
  show "good E s0 in_i64 (\<lambda>n. case Some name of None \<Rightarrow> otherwise n (s'\<lparr>ap_pos := ap_pos s\<rparr>) | Some name \<Rightarrow>
      (case update_lvalue c (arith_run c n) name delta True (note_op (ap_pos s) s') of
         Some (Val v, s) \<Rightarrow> Some (Val v, post_incdec_after_preincdec s) | r \<Rightarrow> r))"
    unfolding option.case same
    by (rule good_inspect [OF good_update_lvalue [OF h a] frame_refl])
      (auto split: res.split intro!: good_ret frame_post_incdec good_stop)
qed

end

context write_effect begin

lemma good_parse_paren:
  assumes h: "hyp E c k0 s0" and s: "frame E s0 s" and p: "ap_pos s < length (ap_input s)"
  shows "good E s0 in_i64 (\<lambda>n. parse_paren (arith_run c n) s)"
proof -
  have a: "ahead E s0 (take_op 1 s)" by (rule ahead_op [OF s p]) simp
  show ?thesis unfolding parse_paren_def Let_def
    by (rule good_try, rule good_ahead [OF h a], simp, rule ahead_frame [OF a])
      (auto intro!: good_if good_fail good_ret frame_intros)
qed

lemma good_unary:
  assumes h: "hyp E c k0 s0" and s: "frame E s0 s" and p: "ap_pos s < length (ap_input s)"
    and g: "\<And>v. in_i64 v \<Longrightarrow> in_i64 (g v)"
  shows "good E s0 in_i64 (\<lambda>n. try_then (arith_run c n Factor) (\<lambda>v. ret (g v)) (take_op 1 s))"
proof -
  have a: "ahead E s0 (take_op 1 s)" by (rule ahead_op [OF s p]) simp
  show ?thesis
    by (rule good_try, rule good_ahead [OF h a], simp, rule ahead_frame [OF a]) (simp add: good_ret g)
qed

lemma good_parse_primary:
  assumes h: "hyp E c k0 s0" and s: "frame E s0 s"
  shows "good E s0 in_i64 (\<lambda>n. parse_primary c (arith_run c n) s)"
proof (cases "peek s")
  case None
  then show ?thesis by (simp add: parse_primary_def good_operand_position s)
next
  case (Some b)
  have p: "ap_pos s < length (ap_input s)" using Some by (rule peek_Some)
  have a: "ahead E s0 (take_op 1 s)" by (rule ahead_op [OF s p]) simp
  show ?thesis unfolding parse_primary_def Some option.case
    by (intro good_if good_operand_expected good_operand_position good_unary [OF h s p] good_call [OF h a]
        good_parse_paren [OF h s p] good_parse_number good_parse_variable [OF h s] s) simp_all
qed

lemma good_parse_factor: "hyp E c Factor s0 \<Longrightarrow> good E s0 in_i64 (\<lambda>n. parse_factor c (arith_run c n) s0)"
proof -
  assume h: "hyp E c Factor s0"
  have dec: "good E s0 in_i64 (\<lambda>n. if starts_with ''--'' s then prefix_update c (arith_run c n) (- 1) (parse_primary c (arith_run c n)) s
      else parse_primary c (arith_run c n) s)" if s: "frame E s0 s" for s
    using good_prefix_update [OF h s, of "\<lambda>n. parse_primary c (arith_run c n)"] good_parse_primary [OF h] s
    by (auto intro!: good_if dest: starts_with_more)
  show ?thesis unfolding parse_factor_def Let_def
    by (rule good_if, rule good_prefix_update [OF h frame_ws _ dec], erule starts_with_more, assumption,
        rule dec [OF frame_ws])
qed

lemma good_finish_assignment:
  assumes h: "hyp E c Assignment s0" and s: "frame E s0 s"
  shows "good E s0 in_i64 (\<lambda>n. finish_assignment (arith_run c n) s)"
  unfolding finish_assignment_def Let_def
  by (rule good_try, rule hyp_lower [OF h s]) (auto intro!: good_if good_fail good_ret frame_intros s)

lemma assignment_operator_at_length:
  "assignment_operator_at inp p = Some op \<Longrightarrow> 0 < length op \<and> p < length inp"
proof -
  assume a: "assignment_operator_at inp p = Some op"
  then have "starts_at inp p op" and "op \<in> set assignment_operators"
    unfolding assignment_operator_at_def by (auto dest: find_in simp: find_Some_iff)
  then show ?thesis using starts_at_length [of inp p op] by (auto simp: assignment_operators_def)
qed

lemma good_bind_assignment:
  assumes h: "hyp E c Assignment s0" and s: "frame E s0 s"
    and op: "assignment_operator_at (ap_input s) (ap_pos s) = Some op"
  shows "good E s0 in_i64 (\<lambda>n. bind_assignment c (arith_run c n) name op s)"
proof -
  let ?s = "skip_ws (take_op (length op) s)"
  have a: "ahead E s0 ?s" using assignment_operator_at_length [OF op] by (intro ahead_skip_ws ahead_op s) simp_all
  have pre: "good E ?s (\<lambda>p. \<forall>v. p = Some v \<longrightarrow> in_i64 v) (\<lambda>n. (if op = ''='' then ret None
      else try_then (lvalue_value c (arith_run c n) name) (\<lambda>v. ret (Some v))) ?s)"
  proof (cases "op = ''=''")
    case False
    have "good E ?s (\<lambda>p. \<forall>v. p = Some v \<longrightarrow> in_i64 v) (\<lambda>n. try_then (lvalue_value c (arith_run c n) name) (\<lambda>v. ret (Some v)) ?s)"
      by (rule good_try, rule good_lvalue_value [OF h a], rule frame_refl) (simp add: good_ret)
    then show ?thesis using False by simp
  qed (simp add: good_ret frame_refl)
  show ?thesis unfolding bind_assignment_def Let_def
  proof (rule good_try, rule pre, rule ahead_frame [OF a])
    fix p s'
    assume p: "\<forall>v. p = Some v \<longrightarrow> in_i64 v" and f: "frame E ?s s'" "frame E s0 s'"
    have a': "ahead E s0 s'" using ahead_trans [OF a f(1)] .
    show "good E s0 in_i64 (\<lambda>n. try_then (arith_run c n Assignment) (\<lambda>rhs s.
        if (op = ''/='' \<or> op = ''%='') \<and> rhs = 0 \<and> ap_noeval s = 0 then fail ''division by 0'' (ap_pos s') s
        else assign_lvalue_precaptured c (arith_run c n) name op rhs p s) s')"
      by (rule good_try, rule good_ahead [OF h a'], simp, rule f(2))
        (use p a' in \<open>auto intro!: good_if good_fail good_assign_lvalue [OF h] intro: ahead_trans\<close>)
  qed
qed

lemma good_parse_assignment: "hyp E c Assignment s0 \<Longrightarrow> good E s0 in_i64 (\<lambda>n. parse_assignment c (arith_run c n) s0)"
proof -
  assume h: "hyp E c Assignment s0"
  have named: "good E s0 in_i64 (\<lambda>n. case assignment_operator_at (ap_input t) (ap_pos t) of
        Some op \<Rightarrow> bind_assignment c (arith_run c n) name op t
      | None \<Rightarrow> finish_assignment (arith_run c n) (t\<lparr>ap_pos := ap_pos (skip_ws s0)\<rparr>))" if t: "frame E s0 t" for t name
    using good_bind_assignment [OF h t] good_finish_assignment [OF h frame_set_pos [OF t frame_pos [OF frame_ws]]]
    by (cases "assignment_operator_at (ap_input t) (ap_pos t)") simp_all
  show ?thesis unfolding parse_assignment_def Let_def
    by (rule good_if, rule good_finish_assignment [OF h frame_ws], rule good_try_lvalue [OF frame_ws])
      (simp_all add: good_stop named frame_skip_ws ahead_frame)
qed

end

context write_effect begin

lemma frame_skip_branch: "frame E s0 s \<Longrightarrow> frame E s0 (skip_arithmetic_conditional_branch bs s)"
  using frame_pos by (auto simp: skip_arithmetic_conditional_branch_def intro!: frame_set_pos intro: trans_le_add1)

lemma good_expect_colon:
  assumes a: "ahead E s0 s" and k: "\<And>t. ahead E s0 t \<Longrightarrow> good E s0 P (\<lambda>n. k n t)"
  shows "good E s0 P (\<lambda>n. expect_colon (k n) s)"
  unfolding expect_colon_def Let_def
  by (intro good_if good_fail k ahead_skip_ws ahead_take_op a ahead_frame)

lemma good_noeval:
  assumes h: "hyp E c k0 s0" and a: "ahead E s0 s" and k: "\<And>s. callable k1 s"
  shows "good E s in_i64 (\<lambda>n. under_noeval (arith_run c n k1) s)"
proof -
  have "good E (s\<lparr>ap_noeval := ap_noeval s + 1\<rparr>) in_i64 (\<lambda>n. arith_run c n k1 (s\<lparr>ap_noeval := ap_noeval s + 1\<rparr>))"
    by (rule hyp_use [OF h _ k]) (use a in \<open>auto simp: ahead_def cmd_order_def frame_def\<close>)
  then show ?thesis by (rule good_under_noeval) (rule frame_refl)
qed

lemma good_conditional_false:
  assumes h: "hyp E c k0 s0" and a: "ahead E s0 s"
  shows "good E s0 in_i64 (\<lambda>n. conditional_false (arith_run c n) s)"
  unfolding conditional_false_def
  by (rule good_try, rule good_noeval [OF h a], simp, rule ahead_frame [OF a])
    (auto intro!: good_expect_colon good_call [OF h] intro: ahead_trans [OF a])

lemma good_conditional_true:
  assumes h: "hyp E c k0 s0" and a: "ahead E s0 s"
  shows "good E s0 in_i64 (\<lambda>n. conditional_true (arith_run c n) s)"
  unfolding conditional_true_def
proof (rule good_try, rule good_ahead [OF h a], simp, rule ahead_frame [OF a])
  fix v s'
  assume v: "in_i64 v" and f: "frame E s s'"
  have "good E s0 in_i64 (\<lambda>n. case assignment_op_start t of
      Some p \<Rightarrow> fail ''attempted assignment to non-variable'' p (skip_arithmetic_conditional_branch ['','', '')'', '':''] t)
    | None \<Rightarrow> try_then (under_noeval (arith_run c n Conditional)) (\<lambda>_. ret v) t)" if t: "ahead E s0 t" for t
  proof (cases "assignment_op_start t")
    case None
    have "good E s0 in_i64 (\<lambda>n. try_then (under_noeval (arith_run c n Conditional)) (\<lambda>_. ret v) t)"
      by (rule good_try, rule good_noeval [OF h t], simp, rule ahead_frame [OF t]) (simp add: good_ret v)
    then show ?thesis using None by simp
  qed (simp add: good_fail frame_skip_branch ahead_frame t)
  then show "good E s0 in_i64 (\<lambda>n. expect_colon (\<lambda>s. case assignment_op_start s of
      Some p \<Rightarrow> fail ''attempted assignment to non-variable'' p (skip_arithmetic_conditional_branch ['','', '')'', '':''] s)
    | None \<Rightarrow> try_then (under_noeval (arith_run c n Conditional)) (\<lambda>_. ret v) s) s')"
    by (rule good_expect_colon [OF ahead_trans [OF a f]])
qed

lemma good_parse_conditional: "hyp E c Conditional s0 \<Longrightarrow> good E s0 in_i64 (\<lambda>n. parse_conditional (arith_run c n) s0)"
proof -
  assume h: "hyp E c Conditional s0"
  have rest: "good E s0 in_i64 (\<lambda>n. if peek s \<noteq> Some (CHR ''?'') then ret v s
      else if length (ap_input (skip_ws (take_op 1 s))) \<le> ap_pos (skip_ws (take_op 1 s))
              \<or> peek (skip_ws (take_op 1 s)) = Some (CHR '':'')
        then fail ''expression expected'' (error_token (skip_ws (take_op 1 s))) (skip_ws (take_op 1 s))
        else if v = 0 then conditional_false (arith_run c n) (skip_ws (take_op 1 s))
        else conditional_true (arith_run c n) (skip_ws (take_op 1 s)))"
    if v: "in_i64 v" and s: "frame E s0 s" for v s
  proof (rule good_if)
    assume "\<not> peek s \<noteq> Some (CHR ''?'')"
    then have a: "ahead E s0 (skip_ws (take_op 1 s))" by (intro ahead_skip_ws ahead_op s) (auto dest: peek_Some)
    show "good E s0 in_i64 (\<lambda>n. if length (ap_input (skip_ws (take_op 1 s))) \<le> ap_pos (skip_ws (take_op 1 s))
              \<or> peek (skip_ws (take_op 1 s)) = Some (CHR '':'')
        then fail ''expression expected'' (error_token (skip_ws (take_op 1 s))) (skip_ws (take_op 1 s))
        else if v = 0 then conditional_false (arith_run c n) (skip_ws (take_op 1 s))
        else conditional_true (arith_run c n) (skip_ws (take_op 1 s)))"
      by (intro good_if good_fail good_conditional_false [OF h a] good_conditional_true [OF h a] ahead_frame [OF a])
  qed (simp add: good_ret s v)
  show ?thesis unfolding parse_conditional_def Let_def
    by (rule good_try, rule good_lower [OF h frame_refl]) (simp_all add: frame_refl rest frame_skip_ws)
qed

text \<open>A nested evaluation starts a frame of its own on the same variables.\<close>

lemma frame_adopt:
  assumes n: "ap_noeval s = 0" and f: "frame E (nested_parser name t s) inner"
  shows "frame E s (adopt s inner)"
  using f n by (auto simp: frame_def adopt_def nested_parser_def effects_def split: option.split)

lemma good_variable_text: "hyp E c (VariableText name t) s0 \<Longrightarrow> ap_noeval s0 = 0
    \<Longrightarrow> good E s0 in_i64 (\<lambda>n. evaluate_variable_text (arith_run c n) name t s0)"
proof -
  assume h: "hyp E c (VariableText name t) s0" and n: "ap_noeval s0 = 0"
  let ?s = "nested_parser name (str_trim t) s0"
  show ?thesis
  proof (cases "MAX_DEPTH \<le> length (ap_resolving s0)")
    case True
    then show ?thesis by (simp add: evaluate_variable_text_def good_stop frame_recursion_error frame_refl)
  next
    case depth: False
    show ?thesis
    proof (cases "plain_number (str_trim t)")
      case None
      have "good E ?s in_i64 (\<lambda>n. arith_run c n Comma ?s)"
        by (rule hyp_deeper [OF h]) (use depth in \<open>simp_all add: nested_parser_def\<close>)
      then obtain N r inner where r: "\<forall>n\<ge>N. arith_run c n Comma ?s = Some (r, inner)" "frame E ?s inner"
          "\<forall>v. r = Val v \<longrightarrow> in_i64 v"
        by (auto simp: good_def)
      let ?i = "skip_ws inner"
      let ?c = "ap_pos ?i = length (ap_input ?i)"
      have eq: "\<forall>n\<ge>N. evaluate_variable_text (arith_run c n) name t s0
          = Some (if r = Outside then Outside else if ?c then r else Fail, adopt s0 (if ?c then ?i else record_trailing ?i))"
        using r(1) depth None by (simp add: evaluate_variable_text_def Let_def)
      have "frame E s0 (adopt s0 (if ?c then ?i else record_trailing ?i))"
        by (rule frame_adopt [OF n, of name "str_trim t"]) (simp add: frame_record_trailing frame_skip_ws r(2))
      moreover have "(if r = Outside then Outside else if ?c then r else Fail) = Val v \<Longrightarrow> in_i64 v" for v
        using r(3) by (auto split: if_splits)
      ultimately show ?thesis unfolding good_def using eq by blast
    qed (use depth in \<open>simp add: evaluate_variable_text_def good_ret frame_refl plain_number_in_i64\<close>)
  qed
qed

theorem run_good: "callable k s \<Longrightarrow> good E s in_i64 (\<lambda>n. arith_run c n k s)"
proof (induction "(k, s)" arbitrary: k s rule: wf_induct_rule [OF wf_cmd_order])
  case 1
  then have h: "hyp E c k s" by (auto simp: hyp_def)
  have "good E s in_i64 (\<lambda>n. arith_body c (arith_run c n) k s)"
    using h 1(2) by (cases k) (simp_all only: arith_body_def cmd.case callable.simps
      good_parse_comma good_comma_loop good_parse_assignment good_parse_conditional good_parse_logical_or
      good_logical_or_loop good_parse_logical_and good_logical_and_loop good_parse_bitwise_or
      good_bitwise_or_loop good_parse_bitwise_xor good_bitwise_xor_loop good_parse_bitwise_and
      good_bitwise_and_loop good_parse_comparison good_comparison_loop good_parse_shift good_shift_loop
      good_parse_expr good_expr_loop good_parse_term good_term_loop good_parse_power good_parse_factor
      good_variable_text)
  then obtain N r s' where "\<forall>n\<ge>N. arith_body c (arith_run c n) k s = Some (r, s')" "frame E s s'" "\<forall>v. r = Val v \<longrightarrow> in_i64 v"
    by (auto simp: good_def)
  moreover from this(1) have "arith_run c n k s = Some (r, s')" if "Suc N \<le> n" for n
    using that by (cases n) simp_all
  ultimately show ?case unfolding good_def by blast
qed

end

subsection \<open>The interpretations: the write log and read-only names\<close>

text \<open>
  Two effects contain every assignment: the log of writes, replayed backwards, gives the old variables
  back; a read-only name keeps its value.  Two names are bookkeeping of the shell itself: the command
  hash table, dropped when \<open>PATH\<close> changes, and the mark of a refused assignment.
\<close>

definition bookkeeping :: "bytes \<Rightarrow> bool" where
  "bookkeeping x \<longleftrightarrow> x = HASH_TABLE \<or> x = READONLY_ERROR"

definition undo_writes :: "(bytes \<times> bytes option) list \<Rightarrow> vars \<Rightarrow> vars" where
  "undo_writes d vs = foldr (\<lambda>(name, old) v. v(name := old)) d vs"

definition undoable :: "effect \<Rightarrow> effect \<Rightarrow> bool" where
  "undoable x y \<longleftrightarrow> (\<exists>d. snd y = snd x @ d \<and> (\<forall>name. \<not> bookkeeping name \<longrightarrow> undo_writes d (fst y) name = fst x name))"

definition guarded :: "arith_ctx \<Rightarrow> effect \<Rightarrow> effect \<Rightarrow> bool" where
  "guarded c x y \<longleftrightarrow> (\<forall>name. marked c ReadonlyAttr name \<and> \<not> bookkeeping name \<longrightarrow> fst y name = fst x name)"

lemma undo_writes_agree: "(\<And>name. \<not> bookkeeping name \<Longrightarrow> v name = w name) \<Longrightarrow> \<not> bookkeeping name
    \<Longrightarrow> undo_writes d v name = undo_writes d w name"
  by (induction d) (auto simp: undo_writes_def)

lemma undo_writes_append: "undo_writes (d @ e) v = undo_writes d (undo_writes e v)"
  by (simp add: undo_writes_def)

interpretation undo: write_effect c undoable for c
proof
  show "undoable x x" for x by (auto simp: undoable_def undo_writes_def intro: exI [of _ "[]"])
next
  fix x y z
  assume "undoable x y" and "undoable y z"
  then obtain d e where d: "snd y = snd x @ d" "\<And>n. \<not> bookkeeping n \<Longrightarrow> undo_writes d (fst y) n = fst x n"
    and e: "snd z = snd y @ e" "\<And>n. \<not> bookkeeping n \<Longrightarrow> undo_writes e (fst z) n = fst y n"
    by (auto simp: undoable_def)
  have "\<not> bookkeeping n \<Longrightarrow> undo_writes (d @ e) (fst z) n = fst x n" for n
    unfolding undo_writes_append using undo_writes_agree [of "undo_writes e (fst z)" "fst y", OF e(2)] d(2) by simp
  then show "undoable x z" unfolding undoable_def using d(1) e(1) by (intro exI [of _ "d @ e"]) simp
next
  show "undoable (effects s) (effects (set_variable name v s))" for name s v
    unfolding undoable_def
    by (intro exI [of _ "[(name, ap_vars s name)]"])
      (auto simp: effects_def set_variable_def Let_def undo_writes_def bookkeeping_def)
next
  show "undoable (effects s) (effects (s\<lparr>ap_vars := (ap_vars s)(READONLY_ERROR := Some name)\<rparr>))" for s name
    unfolding undoable_def by (intro exI [of _ "[]"]) (auto simp: effects_def undo_writes_def bookkeeping_def)
qed

interpretation guard: write_effect c "guarded c" for c
  by unfold_locales (auto simp: guarded_def effects_def set_variable_def Let_def bookkeeping_def)

lemma run_frames:
  assumes "arith_run c n k s = Some (r, s')" and "callable k s"
  shows "frame undoable s s'" and "frame (guarded c) s s'" and "r = Val v \<Longrightarrow> in_i64 v"
proof -
  have stable: "frame E s s' \<and> (\<forall>v. r = Val v \<longrightarrow> in_i64 v)"
    if "good E s in_i64 (\<lambda>n. arith_run c n k s)" for E
  proof -
    from that obtain N r1 s1 where 1: "\<forall>n\<ge>N. arith_run c n k s = Some (r1, s1)" "frame E s s1" "\<forall>v. r1 = Val v \<longrightarrow> in_i64 v"
      by (auto simp: good_def)
    have "arith_run c (max n N) k s = Some (r, s')" using assms(1) by (rule arith_run_mono) simp
    then show ?thesis using 1 by simp
  qed
  show "frame undoable s s'" and "frame (guarded c) s s'" and "r = Val v \<Longrightarrow> in_i64 v"
    using stable [OF undo.run_good [OF assms(2)]] stable [OF guard.run_good [OF assms(2)]] by simp_all
qed

lemma final_error_spans: "(\<And>e. ap_error s = Some e \<Longrightarrow> spans e) \<Longrightarrow> final_error r s = Some e \<Longrightarrow> spans e"
  by (auto simp: final_error_def record_trailing_def record_error_def spans_def split: if_splits)

end
