(* ===== verification/ArithPhrases.thy ===== *)
theory ArithPhrases
  imports ArithCorrect
begin

unbundle bit_operations_syntax

section \<open>Arithmetic expressions: what the evaluator computes\<close>

text \<open>
  An abstract syntax of expressions with a denotation (value, variables and writes, or an error
  message), a grammar of the texts that stand for them, with arbitrary blanks between the tokens, and
  the proof that the evaluator computes the denotation: precedence and associativity of the fifteen
  levels, the order of side effects, short-circuit evaluation, and the errors.
\<close>

subsection \<open>The limit of the fuelled evaluator\<close>

definition ev :: "arith_ctx \<Rightarrow> cmd \<Rightarrow> int action" where
  "ev c k s = (if \<exists>n. arith_run c n k s \<noteq> None
     then arith_run c (LEAST n. arith_run c n k s \<noteq> None) k s else None)"

lemma below_ev: "below (arith_run c n k s) (ev c k s)"
proof (cases "arith_run c n k s")
  case (Some r)
  let ?m = "LEAST n. arith_run c n k s \<noteq> None"
  have "arith_run c ?m k s \<noteq> None" by (rule LeastI [of _ n]) (simp add: Some)
  then obtain r' where m: "arith_run c ?m k s = Some r'" by auto
  have "arith_run c (max n ?m) k s = Some r'" and "arith_run c (max n ?m) k s = Some r"
    by (rule arith_run_mono [OF m], simp, rule arith_run_mono [OF Some], simp)
  then have "r' = r" by simp
  moreover have "ev c k s = Some r'" unfolding ev_def using m by (metis Some option.distinct(1))
  ultimately show ?thesis by (simp add: below_def Some)
qed (simp add: below_def)

lemma ev_runs:
  assumes "callable k s"
  obtains N r where "\<And>n. N \<le> n \<Longrightarrow> arith_run c n k s = Some r" and "ev c k s = Some r"
proof -
  obtain N r where r: "\<And>n. N \<le> n \<Longrightarrow> arith_run c n k s = Some r"
    using undo.run_good [OF assms, of c] by (auto simp: good_def)
  then have "ev c k s = Some r" using below_ev [of c N k s] by (simp add: below_def)
  then show thesis using that r by blast
qed

lemma ev_unfold:
  assumes "callable k s"
  shows "ev c k s = arith_body c (ev c) k s"
proof -
  obtain N r where N: "\<And>n. N \<le> n \<Longrightarrow> arith_run c n k s = Some r" and r: "ev c k s = Some r"
    by (rule ev_runs [OF assms]) blast
  have "below (arith_body c (arith_run c N) k s) (arith_body c (ev c) k s)"
    by (rule arith_body_mono) (rule below_ev)
  then have "below (arith_run c (Suc N) k s) (arith_body c (ev c) k s)" by (simp only: arith_run.simps)
  then show ?thesis using N [of "Suc N"] r by (simp add: below_def)
qed

subsection \<open>Text in front of the cursor\<close>

text \<open>What is left behind the blanks; the tests of the evaluator only look there.\<close>

definition look :: "arith_parser \<Rightarrow> bytes" where
  "look s = skip_blanks (left s)"

lemma skip_blanks_simps [simp]:
  "skip_blanks [] = []"
  "is_ascii_whitespace a \<Longrightarrow> skip_blanks (a # t) = skip_blanks t"
  "\<not> is_ascii_whitespace a \<Longrightarrow> skip_blanks (a # t) = a # t"
  by (simp_all add: skip_blanks_def)

lemma skip_blanks_idem [simp]: "skip_blanks (skip_blanks t) = skip_blanks t"
  by (induction t) (auto simp: skip_blanks_def)

lemma skip_blanks_append: "list_all is_ascii_whitespace w \<Longrightarrow> skip_blanks (w @ t) = skip_blanks t"
  by (induction w) (auto simp: skip_blanks_def)

lemma left_skip_ws [simp]: "left (skip_ws s) = look s"
  by (simp add: left_def look_def skip_ws_def skip_from_def skip_blanks_def dropWhile_eq_drop add.commute)

lemma look_skip_ws [simp]: "look (skip_ws s) = look s"
  unfolding look_def [of "skip_ws s"] left_skip_ws by (simp add: look_def)

lemma peek_left: "peek s = (case left s of [] \<Rightarrow> None | a # t \<Rightarrow> Some a)"
proof (cases "ap_pos s < length (ap_input s)")
  case True
  then show ?thesis by (simp add: peek_def left_def Cons_nth_drop_Suc [symmetric])
qed (simp add: peek_def left_def)

lemma starts_with_left: "starts_with t s = starts_at (left s) 0 t"
  by (simp add: starts_with_def starts_at_def left_def)

lemma starts_at_simps [simp]:
  "starts_at t 0 []"
  "\<not> starts_at [] 0 (b # u)"
  "starts_at (a # t) 0 (b # u) \<longleftrightarrow> a = b \<and> starts_at t 0 u"
  by (auto simp: starts_at_def)

lemma starts_at_drop: "starts_at t i u = starts_at (drop i t) 0 u"
  by (simp add: starts_at_def)

text \<open>
  The level of the operator in front: 1 is the comma, 13 the power.  Texts end at level 0 (the end, a
  closing parenthesis, the colon of a conditional); everything that is none of these is level 99.  An
  operator must not run into a character that would make a different one of it.
\<close>

definition sep :: "bytes \<Rightarrow> bool" where
  "sep t \<longleftrightarrow> (case t of [] \<Rightarrow> True | a # _ \<Rightarrow> a \<notin> set ''+-=<>&|*'')"

definition op_at :: "bytes \<Rightarrow> (nat \<times> nat) option" where
  "op_at r =
     (if starts_at r 0 ''||'' then Some (4, 2)
      else if starts_at r 0 ''&&'' then Some (5, 2)
      else if starts_at r 0 ''=='' \<or> starts_at r 0 ''!='' \<or> starts_at r 0 ''>='' \<or> starts_at r 0 ''<='' then Some (9, 2)
      else if starts_at r 0 ''<<'' \<or> starts_at r 0 ''>>'' then Some (10, 2)
      else if starts_at r 0 ''**'' then Some (13, 2)
      else if starts_at r 0 ''|'' then Some (6, 1)
      else if starts_at r 0 ''^'' then Some (7, 1)
      else if starts_at r 0 ''&'' then Some (8, 1)
      else if starts_at r 0 ''<'' \<or> starts_at r 0 ''>'' then Some (9, 1)
      else if starts_at r 0 ''+'' \<or> starts_at r 0 ''-'' then Some (11, 1)
      else if starts_at r 0 ''*'' \<or> starts_at r 0 ''/'' \<or> starts_at r 0 ''%'' then Some (12, 1)
      else None)"

definition head_level :: "bytes \<Rightarrow> nat" where
  "head_level r =
     (case r of [] \<Rightarrow> 0
      | a # t \<Rightarrow>
          if a = CHR '')'' \<or> a = CHR '':'' then 0
          else if a = CHR '','' then 1
          else if a = CHR ''?'' then 3
          else (case op_at r of Some (l, n) \<Rightarrow> if sep (drop n r) then l else 99 | None \<Rightarrow> 99))"

lemmas head_simps = head_level_def op_at_def sep_def

lemma starts_at_append: "starts_at r 0 op \<longleftrightarrow> (\<exists>u. r = op @ u)"
  by (auto simp: starts_at_def) (metis append_take_drop_id)

lemma head_level_assignment:
  "op \<in> set assignment_operators \<Longrightarrow> op \<noteq> ''='' \<or> \<not> starts_at u 0 ''='' \<Longrightarrow> head_level (op @ u) = 99"
  by (simp add: assignment_operators_def, elim disjE) (simp_all add: head_simps)

lemma assignment_at_text:
  assumes "p \<le> length inp" and "head_level (drop p inp) < 99"
  shows "assignment_operator_at inp p = None"
proof -
  have "\<not> (starts_at inp p op \<and> \<not> (op = ''='' \<and> (starts_at inp (p + 1) ''=''
      \<or> 0 < p \<and> p - 1 < length inp \<and> inp ! (p - 1) \<in> set ''!<>'')))"
    if op: "op \<in> set assignment_operators" for op
  proof
    assume h: "starts_at inp p op \<and> \<not> (op = ''='' \<and> (starts_at inp (p + 1) ''=''
      \<or> 0 < p \<and> p - 1 < length inp \<and> inp ! (p - 1) \<in> set ''!<>''))"
    then obtain u where u: "drop p inp = op @ u" using starts_at_drop [of inp p] starts_at_append by metis
    have "drop (p + 1) inp = u" if "op = ''=''"
      using u that by (metis add.commute append_Cons append_Nil drop_drop drop_0 drop_Suc_Cons One_nat_def)
    then have "op \<noteq> ''='' \<or> \<not> starts_at u 0 ''=''" using h starts_at_drop [of inp "p + 1"] by metis
    then show False using head_level_assignment [OF op] u assms(2) by simp
  qed
  then show ?thesis unfolding assignment_operator_at_def find_None_iff by blast
qed

lemma head_level_bounds:
  "starts_at r 0 ''||'' \<Longrightarrow> 4 \<le> head_level r"
  "starts_at r 0 ''&&'' \<Longrightarrow> 5 \<le> head_level r"
  "starts_at r 0 ''|'' \<Longrightarrow> \<not> starts_at r 0 ''||'' \<Longrightarrow> 6 \<le> head_level r"
  "starts_at r 0 ''^'' \<Longrightarrow> 7 \<le> head_level r"
  "starts_at r 0 ''&'' \<Longrightarrow> \<not> starts_at r 0 ''&&'' \<Longrightarrow> 8 \<le> head_level r"
  "starts_at r 0 ''=='' \<Longrightarrow> 9 \<le> head_level r"
  "starts_at r 0 ''!='' \<Longrightarrow> 9 \<le> head_level r"
  "starts_at r 0 ''<'' \<Longrightarrow> 9 \<le> head_level r"
  "starts_at r 0 ''>'' \<Longrightarrow> 9 \<le> head_level r"
  "starts_at r 0 ''<<'' \<Longrightarrow> 10 \<le> head_level r"
  "starts_at r 0 ''>>'' \<Longrightarrow> 10 \<le> head_level r"
  "starts_at r 0 ''+'' \<Longrightarrow> 11 \<le> head_level r"
  "starts_at r 0 ''-'' \<Longrightarrow> 11 \<le> head_level r"
  "starts_at r 0 ''*'' \<Longrightarrow> \<not> starts_at r 0 ''**'' \<Longrightarrow> 12 \<le> head_level r"
  "starts_at r 0 ''/'' \<Longrightarrow> 12 \<le> head_level r"
  "starts_at r 0 ''%'' \<Longrightarrow> 12 \<le> head_level r"
  "starts_at r 0 ''**'' \<Longrightarrow> 13 \<le> head_level r"
  "starts_at r 0 '','' \<Longrightarrow> 1 \<le> head_level r"
  "starts_at r 0 ''?'' \<Longrightarrow> 3 \<le> head_level r"
  by (cases r, simp, cases "tl r"; simp add: head_simps)+

lemma peek_starts_at: "peek s = Some a \<longleftrightarrow> starts_at (left s) 0 [a]"
  by (cases "left s") (simp_all add: peek_left)

lemmas look_tests = starts_with_left peek_starts_at left_skip_ws

text \<open>A loop stops in front of a lower level.\<close>

lemma stops_comma: "head_level (look s) < 1 \<Longrightarrow> comma_loop self v s = ret v (skip_ws s)"
  using head_level_bounds(18) [of "look s"] by (auto simp: comma_loop_def Let_def look_tests)

lemma stops_logical_or: "head_level (look s) < 4 \<Longrightarrow> logical_or_loop self v s = ret v (skip_ws s)"
  using head_level_bounds(1) [of "look s"] by (auto simp: logical_or_loop_def Let_def look_tests)

lemma stops_logical_and: "head_level (look s) < 5 \<Longrightarrow> logical_and_loop self v s = ret v (skip_ws s)"
  using head_level_bounds(2) [of "look s"] by (auto simp: logical_and_loop_def Let_def look_tests)

lemma stops_bitwise_or: "head_level (look s) < 6 \<Longrightarrow> bitwise_or_loop self v s = ret v (skip_ws s)"
  using head_level_bounds(3) [of "look s"] by (auto simp: bitwise_or_loop_def Let_def look_tests)

lemma stops_bitwise_xor: "head_level (look s) < 7 \<Longrightarrow> bitwise_xor_loop self v s = ret v (skip_ws s)"
  using head_level_bounds(4) [of "look s"] by (auto simp: bitwise_xor_loop_def Let_def look_tests)

lemma stops_bitwise_and: "head_level (look s) < 8 \<Longrightarrow> bitwise_and_loop self v s = ret v (skip_ws s)"
  using head_level_bounds(5) [of "look s"] by (auto simp: bitwise_and_loop_def Let_def look_tests)

lemma stops_comparison: "head_level (look s) < 9 \<Longrightarrow> comparison_loop self v s = ret v (skip_ws s)"
proof -
  assume h: "head_level (look s) < 9"
  have "starts_at (look s) 0 ''>='' \<Longrightarrow> starts_at (look s) 0 ''>''" "starts_at (look s) 0 ''<='' \<Longrightarrow> starts_at (look s) 0 ''<''"
    by (cases "look s"; simp)+
  then have "comparison_at (skip_ws s) = None"
    using h head_level_bounds(6-9) [of "look s"] by (auto simp: comparison_at_def look_tests)
  then show ?thesis by (simp add: comparison_loop_def Let_def)
qed

lemma stops_shift: "head_level (look s) < 10 \<Longrightarrow> shift_loop self v s = ret v (skip_ws s)"
  using head_level_bounds(10,11) [of "look s"] by (auto simp: shift_loop_def Let_def look_tests)

lemma stops_sum: "head_level (look s) < 11 \<Longrightarrow> expr_loop self v s = ret v (skip_ws s)"
  using head_level_bounds(12,13) [of "look s"] by (auto simp: expr_loop_def Let_def look_tests)

lemma stops_term: "head_level (look s) < 12 \<Longrightarrow> term_loop self v s = ret v (skip_ws s)"
  using head_level_bounds(14-16) [of "look s"] by (auto simp: term_loop_def Let_def look_tests)

subsection \<open>The functions at the limit\<close>

lemma ev_functions:
  "ev c Comma s = parse_comma (ev c) s"
  "ev c Assignment s = parse_assignment c (ev c) s"
  "ev c Conditional s = parse_conditional (ev c) s"
  "ev c LogicalOr s = parse_logical_or (ev c) s"
  "ev c LogicalAnd s = parse_logical_and (ev c) s"
  "ev c BitOr s = parse_bitwise_or (ev c) s"
  "ev c BitXor s = parse_bitwise_xor (ev c) s"
  "ev c BitAnd s = parse_bitwise_and (ev c) s"
  "ev c Comparison s = parse_comparison (ev c) s"
  "ev c Shift s = parse_shift (ev c) s"
  "ev c Sum s = parse_expr (ev c) s"
  "ev c Term s = parse_term (ev c) s"
  "ev c Power s = parse_power (ev c) s"
  "ev c Factor s = parse_factor c (ev c) s"
  by (subst ev_unfold; simp add: arith_body_def)+

lemma ev_loops:
  "in_i64 v \<Longrightarrow> ev c (CommaLoop v) s = comma_loop (ev c) v s"
  "in_i64 v \<Longrightarrow> ev c (LogicalOrLoop v) s = logical_or_loop (ev c) v s"
  "in_i64 v \<Longrightarrow> ev c (LogicalAndLoop v) s = logical_and_loop (ev c) v s"
  "in_i64 v \<Longrightarrow> ev c (BitOrLoop v) s = bitwise_or_loop (ev c) v s"
  "in_i64 v \<Longrightarrow> ev c (BitXorLoop v) s = bitwise_xor_loop (ev c) v s"
  "in_i64 v \<Longrightarrow> ev c (BitAndLoop v) s = bitwise_and_loop (ev c) v s"
  "in_i64 v \<Longrightarrow> ev c (ComparisonLoop v) s = comparison_loop (ev c) v s"
  "in_i64 v \<Longrightarrow> ev c (ShiftLoop v) s = shift_loop (ev c) v s"
  "in_i64 v \<Longrightarrow> ev c (SumLoop v) s = expr_loop (ev c) v s"
  "in_i64 v \<Longrightarrow> ev c (TermLoop v) s = term_loop (ev c) v s"
  by (subst ev_unfold; simp add: arith_body_def)+

lemma ev_variable: "ap_noeval s = 0 \<Longrightarrow> ev c (VariableText name t) s = evaluate_variable_text (ev c) name t s"
  by (subst ev_unfold; simp add: arith_body_def)

fun cmd_at :: "nat \<Rightarrow> cmd" where
  "cmd_at l = [Comma, Comma, Assignment, Conditional, LogicalOr, LogicalAnd, BitOr, BitXor, BitAnd,
     Comparison, Shift, Sum, Term, Power, Factor] ! l"

fun loop_at :: "nat \<Rightarrow> int \<Rightarrow> cmd" where
  "loop_at l v =
     (if l = 1 then CommaLoop v else if l = 4 then LogicalOrLoop v else if l = 5 then LogicalAndLoop v
      else if l = 6 then BitOrLoop v else if l = 7 then BitXorLoop v else if l = 8 then BitAndLoop v
      else if l = 9 then ComparisonLoop v else if l = 10 then ShiftLoop v else if l = 11 then SumLoop v
      else TermLoop v)"

declare cmd_at.simps [simp del] loop_at.simps [simp del]

lemma cmd_at_levels [simp]:
  "cmd_at (Suc 0) = Comma" "cmd_at (Suc (Suc 0)) = Assignment" "cmd_at 2 = Assignment" "cmd_at 3 = Conditional" "cmd_at 4 = LogicalOr"
  "cmd_at 5 = LogicalAnd" "cmd_at 6 = BitOr" "cmd_at 7 = BitXor" "cmd_at 8 = BitAnd" "cmd_at 9 = Comparison"
  "cmd_at 10 = Shift" "cmd_at 11 = Sum" "cmd_at 12 = Term" "cmd_at 13 = Power" "cmd_at 14 = Factor"
  by (simp_all add: cmd_at.simps)

lemma loop_at_levels [simp]:
  "loop_at (Suc 0) v = CommaLoop v" "loop_at 4 v = LogicalOrLoop v" "loop_at 5 v = LogicalAndLoop v"
  "loop_at 6 v = BitOrLoop v" "loop_at 7 v = BitXorLoop v" "loop_at 8 v = BitAndLoop v"
  "loop_at 9 v = ComparisonLoop v" "loop_at 10 v = ShiftLoop v" "loop_at 11 v = SumLoop v" "loop_at 12 v = TermLoop v"
  by (simp_all add: loop_at.simps)

definition loop_levels :: "nat set" where
  "loop_levels = {1, 4, 5, 6, 7, 8, 9, 10, 11, 12}"

lemma loop_levelE:
  assumes "l \<in> loop_levels"
  obtains "l = 1" | "l = 4" | "l = 5" | "l = 6" | "l = 7" | "l = 8" | "l = 9" | "l = 10" | "l = 11" | "l = 12"
  using assms by (auto simp: loop_levels_def)

lemma ev_pair: "l \<in> loop_levels \<Longrightarrow> ev c (cmd_at l) s = try_then (ev c (cmd_at (Suc l))) (\<lambda>v. ev c (loop_at l v)) s"
  by (erule loop_levelE) (simp_all add: ev_functions(1,4-12) parse_comma_def parse_logical_or_def parse_logical_and_def
    parse_bitwise_or_def parse_bitwise_xor_def parse_bitwise_and_def parse_comparison_def parse_shift_def
    parse_expr_def parse_term_def)

lemma ev_stops: "l \<in> loop_levels \<Longrightarrow> head_level (look s) < l \<Longrightarrow> in_i64 v \<Longrightarrow> ev c (loop_at l v) s = ret v (skip_ws s)"
  by (erule loop_levelE) (simp_all add: ev_loops stops_comma stops_logical_or stops_logical_and stops_bitwise_or
    stops_bitwise_xor stops_bitwise_and stops_comparison stops_shift stops_sum stops_term)

subsection \<open>Expressions and their denotation\<close>

datatype binop = OpOr | OpXor | OpAnd | OpEq | OpNe | OpGe | OpLe | OpGt | OpLt | OpShl | OpShr
  | OpPlus | OpMinus | OpTimes | OpOver | OpRem

fun op_text :: "binop \<Rightarrow> bytes" where
  "op_text OpOr = ''|''" | "op_text OpXor = ''^''" | "op_text OpAnd = ''&''"
| "op_text OpEq = ''==''" | "op_text OpNe = ''!=''" | "op_text OpGe = ''>=''" | "op_text OpLe = ''<=''"
| "op_text OpGt = ''>''" | "op_text OpLt = ''<''" | "op_text OpShl = ''<<''" | "op_text OpShr = ''>>''"
| "op_text OpPlus = ''+''" | "op_text OpMinus = ''-''"
| "op_text OpTimes = ''*''" | "op_text OpOver = ''/''" | "op_text OpRem = ''%''"

fun op_level :: "binop \<Rightarrow> nat" where
  "op_level OpOr = 6" | "op_level OpXor = 7" | "op_level OpAnd = 8"
| "op_level OpEq = 9" | "op_level OpNe = 9" | "op_level OpGe = 9" | "op_level OpLe = 9"
| "op_level OpGt = 9" | "op_level OpLt = 9" | "op_level OpShl = 10" | "op_level OpShr = 10"
| "op_level OpPlus = 11" | "op_level OpMinus = 11"
| "op_level OpTimes = 12" | "op_level OpOver = 12" | "op_level OpRem = 12"

fun op_value :: "binop \<Rightarrow> int \<Rightarrow> int \<Rightarrow> int" where
  "op_value OpOr v r = bash_arith (v OR r)"
| "op_value OpXor v r = bash_arith (v XOR r)"
| "op_value OpAnd v r = bash_arith (v AND r)"
| "op_value OpEq v r = of_flag (v = r)"
| "op_value OpNe v r = of_flag (v \<noteq> r)"
| "op_value OpGe v r = of_flag (r \<le> v)"
| "op_value OpLe v r = of_flag (v \<le> r)"
| "op_value OpGt v r = of_flag (r < v)"
| "op_value OpLt v r = of_flag (v < r)"
| "op_value OpShl v r = shift_left v r"
| "op_value OpShr v r = shift_right v r"
| "op_value OpPlus v r = bash_arith (v + r)"
| "op_value OpMinus v r = bash_arith (v - r)"
| "op_value OpTimes v r = bash_arith (v * r)"
| "op_value OpOver v r = arith_div v r"
| "op_value OpRem v r = arith_rem v r"

lemma op_level_loop: "op_level b \<in> loop_levels"
  by (cases b) (simp_all add: loop_levels_def)

lemma head_level_op: "sep t \<Longrightarrow> head_level (op_text b @ t) = op_level b"
  by (cases b) (auto simp: head_simps split: list.splits)

lemma at_assignment_look: "head_level (look s) < 99 \<Longrightarrow> ap_pos (skip_ws s) \<le> length (ap_input s)
    \<Longrightarrow> \<not> at_assignment_op (skip_ws s)"
  using assignment_at_text [of "ap_pos (skip_ws s)" "ap_input s"] left_skip_ws [of s]
  by (simp add: at_assignment_op_def left_def skip_ws_def)

datatype unop = UPlus | UMinus | UNot | UCompl

fun unop_char :: "unop \<Rightarrow> char" where
  "unop_char UPlus = CHR ''+''" | "unop_char UMinus = CHR ''-''"
| "unop_char UNot = CHR ''!''" | "unop_char UCompl = CHR ''~''"

fun unop_value :: "unop \<Rightarrow> int \<Rightarrow> int" where
  "unop_value UPlus v = v" | "unop_value UMinus v = bash_arith (- v)"
| "unop_value UNot v = of_flag (v = 0)" | "unop_value UCompl v = bash_arith (NOT v)"

datatype expr =
    Lit bytes | Var bytes | PreUpd int bytes | PostUpd int bytes
  | Unary unop expr | Pow expr expr | Bin binop expr expr | LAnd expr expr | LOr expr expr
  | Cond expr expr expr | Assign bytes bytes expr | Seq expr expr

text \<open>
  The denotation: in a place where values count or not (\<open>q\<close>), from variables and writes to an error
  message or a value with the variables and writes behind it.  An error without a message is one the
  evaluator does not record.
\<close>

type_synonym denotation = "bytes option + int \<times> effect"

definition bindr :: "denotation \<Rightarrow> (int \<Rightarrow> effect \<Rightarrow> denotation) \<Rightarrow> denotation" where
  "bindr d f = (case d of Inl m \<Rightarrow> Inl m | Inr (v, x) \<Rightarrow> f v x)"

definition variable_text :: "arith_ctx \<Rightarrow> vars \<Rightarrow> bytes \<Rightarrow> bytes" where
  "variable_text c vs name = (case vs name of Some t \<Rightarrow> t
     | None \<Rightarrow> (case process_env c name of Some t \<Rightarrow> t | None \<Rightarrow> []))"

definition number_of :: "arith_ctx \<Rightarrow> vars \<Rightarrow> bytes \<Rightarrow> int" where
  "number_of c vs name = (case plain_number (str_trim (variable_text c vs name)) of Some v \<Rightarrow> v | None \<Rightarrow> 0)"

definition store :: "bytes \<Rightarrow> int \<Rightarrow> effect \<Rightarrow> effect" where
  "store name v x =
     (let vs = (fst x)(name := Some (int_to_string (bash_arith v)))
      in (if name = ''PATH'' then vs(HASH_TABLE := None) else vs, snd x @ [(name, fst x name)]))"

definition den_op :: "bool \<Rightarrow> binop \<Rightarrow> int \<Rightarrow> int \<Rightarrow> bytes option + int" where
  "den_op q b v r =
     (if (b = OpOver \<or> b = OpRem) \<and> r = 0
      then if q then Inr (op_value b v 1) else Inl (Some ''division by 0'')
      else Inr (op_value b v r))"

definition den_pow :: "bool \<Rightarrow> int \<Rightarrow> int \<Rightarrow> bytes option + int" where
  "den_pow q v r =
     (if r < 0 then if q then Inr 1 else Inl (Some ''exponent less than 0'')
      else if r < 2 ^ 32 then Inr (pow_loop v (nat r)) else Inl None)"

definition upd :: "arith_ctx \<Rightarrow> bool \<Rightarrow> bool \<Rightarrow> int \<Rightarrow> bytes \<Rightarrow> effect \<Rightarrow> denotation" where
  "upd c q prefix delta name x =
     (if q then Inr (0, x)
      else if marked c ReadonlyAttr name then Inl None
      else let old = number_of c (fst x) name; new = bash_arith (old + delta)
           in Inr (if prefix then new else old, store name new x))"

definition assign :: "arith_ctx \<Rightarrow> bool \<Rightarrow> bytes \<Rightarrow> bytes \<Rightarrow> int \<Rightarrow> int \<Rightarrow> effect \<Rightarrow> denotation" where
  "assign c q name op old r x =
     (if (op = ''/='' \<or> op = ''%='') \<and> r = 0 \<and> \<not> q then Inl (Some ''division by 0'')
      else if q then Inr (r, x)
      else if marked c ReadonlyAttr name then Inl None
      else if op = ''='' then Inr (r, store name r x)
      else (case compound_value op old r of None \<Rightarrow> Inl None | Some v \<Rightarrow> Inr (v, store name v x)))"

fun den :: "arith_ctx \<Rightarrow> bool \<Rightarrow> expr \<Rightarrow> effect \<Rightarrow> denotation" where
  "den c q (Lit t) x = (case strlong_value t of Inl m \<Rightarrow> Inl (Some m) | Inr v \<Rightarrow> Inr (v, x))"
| "den c q (Var name) x = Inr (if q then 0 else number_of c (fst x) name, x)"
| "den c q (PreUpd d name) x = upd c q True d name x"
| "den c q (PostUpd d name) x = upd c q False d name x"
| "den c q (Unary u e) x = bindr (den c q e x) (\<lambda>v x. Inr (unop_value u v, x))"
| "den c q (Pow e1 e2) x = bindr (den c q e1 x) (\<lambda>v x. bindr (den c q e2 x) (\<lambda>r x.
     case den_pow q v r of Inl m \<Rightarrow> Inl m | Inr w \<Rightarrow> Inr (w, x)))"
| "den c q (Bin b e1 e2) x = bindr (den c q e1 x) (\<lambda>v x. bindr (den c q e2 x) (\<lambda>r x.
     case den_op q b v r of Inl m \<Rightarrow> Inl m | Inr w \<Rightarrow> Inr (w, x)))"
| "den c q (LAnd e1 e2) x = bindr (den c q e1 x) (\<lambda>v x.
     if v = 0 then bindr (den c True e2 x) (\<lambda>r x. Inr (0, x))
     else bindr (den c q e2 x) (\<lambda>r x. Inr (of_flag (r \<noteq> 0), x)))"
| "den c q (LOr e1 e2) x = bindr (den c q e1 x) (\<lambda>v x.
     if v \<noteq> 0 then bindr (den c True e2 x) (\<lambda>r x. Inr (1, x))
     else bindr (den c q e2 x) (\<lambda>r x. Inr (of_flag (r \<noteq> 0), x)))"
| "den c q (Cond e1 e2 e3) x = bindr (den c q e1 x) (\<lambda>v x.
     if v = 0 then bindr (den c True e2 x) (\<lambda>r x. den c q e3 x)
     else bindr (den c q e2 x) (\<lambda>r x. bindr (den c True e3 x) (\<lambda>r' x. Inr (r, x))))"
| "den c q (Assign name op e) x =
     (let old = (if q then 0 else number_of c (fst x) name)
      in bindr (den c q e x) (\<lambda>r x. assign c q name op old r x))"
| "den c q (Seq e1 e2) x = bindr (den c q e1 x) (\<lambda>v x. den c q e2 x)"

subsection \<open>States in front of a text\<close>

definition numeric :: "arith_ctx \<Rightarrow> vars \<Rightarrow> bool" where
  "numeric c vs \<longleftrightarrow> (\<forall>name t. vs name = Some t \<or> process_env c name = Some t \<longrightarrow> plain_number (str_trim t) \<noteq> None)"

definition ready :: "arith_ctx \<Rightarrow> arith_parser \<Rightarrow> bool" where
  "ready c s \<longleftrightarrow> ap_error s = None \<and> length (ap_resolving s) < MAX_DEPTH
     \<and> ap_pos s \<le> length (ap_input s) \<and> numeric c (ap_vars s)"

definition view :: "arith_parser \<Rightarrow> arith_parser \<Rightarrow> bytes \<Rightarrow> effect \<Rightarrow> bool" where
  "view s0 s t x \<longleftrightarrow> ap_input s = ap_input s0 \<and> ap_resolving s = ap_resolving s0 \<and> ap_noeval s = ap_noeval s0
     \<and> ap_error s = None \<and> ap_pos s \<le> length (ap_input s0) \<and> effects s = x \<and> look s = skip_blanks t"

definition fails :: "bytes option \<Rightarrow> (int res \<times> arith_parser) option \<Rightarrow> bool" where
  "fails m y \<longleftrightarrow> (\<exists>s'. y = Some (Fail, s') \<and> map_option ae_msg (ap_error s') = m)"

text \<open>The outcome of a call: a value in front of the rest, or the failure the denotation gives.\<close>

definition outcome :: "arith_parser \<Rightarrow> bytes \<Rightarrow> denotation \<Rightarrow> (int res \<times> arith_parser) option \<Rightarrow> bool" where
  "outcome s rest d y \<longleftrightarrow> (case d of
       Inl m \<Rightarrow> fails m y
     | Inr (v, x) \<Rightarrow> in_i64 v \<and> (\<exists>s'. y = Some (Val v, s') \<and> view s s' rest x))"

text \<open>The same with a loop of the level still to run.\<close>

definition leads :: "arith_ctx \<Rightarrow> nat \<Rightarrow> arith_parser \<Rightarrow> bytes \<Rightarrow> denotation \<Rightarrow> (int res \<times> arith_parser) option \<Rightarrow> bool" where
  "leads c l s rest d y \<longleftrightarrow> (case d of
       Inl m \<Rightarrow> fails m y
     | Inr (v, x) \<Rightarrow> in_i64 v \<and> (\<exists>s'. y = ev c (loop_at l v) s' \<and> view s s' rest x))"

subsection \<open>Printed numbers are plain\<close>

lemma white_space_seqs_first: "w \<in> set white_space_seqs \<Longrightarrow> w \<noteq> [] \<and> \<not> (is_ascii_digit (hd w) \<or> byte (hd w) = 45)"
  and white_space_seqs_last: "w \<in> set white_space_seqs \<Longrightarrow> \<not> is_ascii_digit (last w)"
  by (auto simp: white_space_seqs_def is_ascii_digit_def)

lemma trim_by_id: "(\<And>w. w \<in> set ws \<Longrightarrow> w \<noteq> [] \<Longrightarrow> \<not> starts_at s 0 w) \<Longrightarrow> trim_by ws s = s"
  by (subst trim_by.simps) (auto split: option.split dest: find_SomeD)

lemma str_trim_plain:
  assumes "s \<noteq> []" and "is_ascii_digit (hd s) \<or> hd s = CHR ''-''" and "is_ascii_digit (last s)"
  shows "str_trim s = s"
proof -
  have "trim_by white_space_seqs s = s"
    using assms(1,2) white_space_seqs_first by (intro trim_by_id) (fastforce simp: starts_at_append neq_Nil_conv)
  moreover have "trim_by (map rev white_space_seqs) (rev s) = rev s"
  proof (rule trim_by_id)
    fix w assume "w \<in> set (map rev white_space_seqs)" and "w \<noteq> []"
    then obtain w' where w: "w = rev w'" "w' \<in> set white_space_seqs" "w' \<noteq> []" by auto
    show "\<not> starts_at (rev s) 0 w"
    proof
      assume "starts_at (rev s) 0 w"
      then obtain u where "rev s = rev w' @ u" using w(1) starts_at_append by metis
      then have "s = rev u @ w'" by (metis rev_append rev_rev_ident)
      then show False using assms(3) white_space_seqs_last [OF w(2)] w(3) by simp
    qed
  qed
  ultimately show ?thesis by (simp add: str_trim_def)
qed

lemma byte_eq: "byte c = byte d \<longleftrightarrow> c = d"
  by (rule of_char_eq_iff)

lemma hd_nat_digits_zero: "hd (nat_digits n) = CHR ''0'' \<longleftrightarrow> n = 0"
proof (induction n rule: nat_digits.induct)
  case (1 n)
  show ?case
  proof (cases "n < 10")
    case True
    then show ?thesis using byte_eq [of "digit_char n" "CHR ''0''"] by (subst nat_digits.simps) simp
  next
    case False
    then show ?thesis using 1 by (subst nat_digits.simps) (simp add: hd_append)
  qed
qed

lemma int_to_string_ends:
  "int_to_string v \<noteq> []" "is_ascii_digit (hd (int_to_string v)) \<or> hd (int_to_string v) = CHR ''-''"
  "is_ascii_digit (last (int_to_string v))"
proof -
  have "is_ascii_digit (last (nat_digits n))" for n
    using list_all_nat_digits [of n] nat_digits_nonempty [of n] last_in_set [of "nat_digits n"]
    by (simp add: list_all_iff)
  then show "is_ascii_digit (last (int_to_string v))" by (simp add: int_to_string_def)
qed (simp_all add: int_to_string_def hd_nat_digits)

lemma plain_number_to_string:
  assumes v: "in_i64 v"
  shows "plain_number (str_trim (int_to_string v)) = Some v"
proof -
  let ?t = "int_to_string v" and ?n = "nat \<bar>v\<bar>"
  have body: "unsigned_part ?t = nat_digits ?n" "sign_of ?t = (if v < 0 then - 1 else 1)"
    using digit_not_sign [OF hd_nat_digits [of "nat v"]]
    by (auto simp: unsigned_part_def sign_of_def int_to_string_def)
  have oct: "strlong_leading_zero_octal ?t = None"
  proof (cases "v = 0")
    case True
    then have "tl (nat_digits ?n) = []" by (simp add: nat_digits.simps)
    then show ?thesis by (simp add: strlong_leading_zero_octal_def Let_def body)
  qed (simp add: strlong_leading_zero_octal_def Let_def body hd_nat_digits_zero)
  have lead: "\<not> leading_zero_digit_string ?t"
  proof (cases "v = 0")
    case True
    then have "length (nat_digits ?n) = 1" by (simp add: nat_digits.simps)
    then show ?thesis by (simp add: leading_zero_digit_string_def Let_def body)
  qed (simp add: leading_zero_digit_string_def Let_def body hd_nat_digits_zero)
  have parse: "parse_i128 ?t = Some v"
    using v by (auto simp: parse_i128_def Let_def body in_i128_def in_i64_iff)
  show ?thesis using str_trim_plain [OF int_to_string_ends] v
    by (simp add: plain_number_def int_to_string_ends(1) oct lead parse)
qed

lemma numeric_store: "numeric c (fst x) \<Longrightarrow> numeric c (fst (store name v x))"
  using plain_number_to_string [of "bash_arith v"] by (auto simp: numeric_def store_def Let_def split: if_splits)

lemma numeric_text: "numeric c vs \<Longrightarrow> plain_number (str_trim (variable_text c vs name)) = Some (number_of c vs name)"
proof -
  assume n: "numeric c vs"
  have "plain_number (str_trim []) = Some 0" by (simp add: str_trim_def trim_by_id starts_at_def plain_number_def)
  moreover have "plain_number (str_trim t) \<noteq> None" if "vs name = Some t \<or> process_env c name = Some t" for t
    using n that unfolding numeric_def by blast
  ultimately have "plain_number (str_trim (variable_text c vs name)) \<noteq> None"
    by (simp add: variable_text_def split: option.split)
  then show ?thesis by (auto simp: number_of_def)
qed

lemma bindr_Inr: "bindr d f = Inr y \<longleftrightarrow> (\<exists>v x. d = Inr (v, x) \<and> f v x = Inr y)"
  by (cases d) (auto simp: bindr_def)

definition keeps :: "arith_ctx \<Rightarrow> effect \<Rightarrow> denotation \<Rightarrow> bool" where
  "keeps c x d \<longleftrightarrow> (\<forall>v x'. d = Inr (v, x') \<longrightarrow> numeric c (fst x) \<longrightarrow> numeric c (fst x'))"

lemma keeps_bindr: "keeps c x d \<Longrightarrow> (\<And>v x. keeps c x (f v x)) \<Longrightarrow> keeps c x (bindr d f)"
  unfolding keeps_def bindr_Inr by blast

lemma keeps_value: "keeps c x (Inr (v, x))" and keeps_error: "keeps c x (Inl m)"
  by (simp_all add: keeps_def)

lemma keeps_store: "keeps c x (Inr (v, store name w x))"
  unfolding keeps_def by (metis Pair_inject numeric_store sum.inject(2))

lemma keeps_upd: "keeps c x (upd c q prefix delta name x)"
  by (simp add: upd_def Let_def keeps_value keeps_error keeps_store)

lemma keeps_assign: "keeps c x (assign c q name op old r x)"
  by (simp add: assign_def keeps_value keeps_error keeps_store split: option.split)

lemma keeps_den: "keeps c x (den c q e x)"
proof (induction e arbitrary: q x)
  case (Pow e1 e2)
  show ?case unfolding den.simps
    by (intro keeps_bindr Pow.IH) (simp add: keeps_value keeps_error split: sum.split)
next
  case (Bin b e1 e2)
  show ?case unfolding den.simps
    by (intro keeps_bindr Bin.IH) (simp add: keeps_value keeps_error split: sum.split)
next
  case (Assign name op e)
  then show ?case unfolding den.simps Let_def by (intro keeps_bindr keeps_assign)
qed (simp_all add: keeps_value keeps_error keeps_upd keeps_bindr split: sum.split)

lemmas numeric_den = keeps_den [unfolded keeps_def, rule_format]

end
