(* ===== verification/ArithDenote.thy ===== *)
theory ArithDenote
  imports ArithPhrases
begin

unbundle bit_operations_syntax

section \<open>Arithmetic texts evaluate to their denotation\<close>

text \<open>
  The grammar \<open>phrase\<close> of the texts of each level and the proof, by rule induction over it, that the
  evaluator in front of a phrase produces the outcome its denotation gives.
\<close>

subsection \<open>Moving over a text\<close>

lemma skip_ws_pos: "ap_pos s \<le> length (ap_input s) \<Longrightarrow> ap_pos (skip_ws s) \<le> length (ap_input s)"
  using length_takeWhile_le [of is_ascii_whitespace "drop (ap_pos s) (ap_input s)"]
  by (simp add: skip_ws_def skip_from_def)

lemma skip_ws_fields [simp]:
  "ap_input (skip_ws s) = ap_input s" "ap_resolving (skip_ws s) = ap_resolving s" "ap_noeval (skip_ws s) = ap_noeval s"
  "ap_error (skip_ws s) = ap_error s" "effects (skip_ws s) = effects s" "ap_vars (skip_ws s) = ap_vars s"
  by (simp_all add: skip_ws_def effects_def)

lemma advance_fields [simp]:
  "ap_input (advance n s) = ap_input s" "ap_resolving (advance n s) = ap_resolving s" "ap_noeval (advance n s) = ap_noeval s"
  "ap_error (advance n s) = ap_error s" "effects (advance n s) = effects s" "ap_vars (advance n s) = ap_vars s"
  "ap_pos (advance n s) = ap_pos s + n"
  by (simp_all add: advance_def effects_def)

lemma note_fields [simp]:
  "ap_input (note_op p s) = ap_input s" "ap_resolving (note_op p s) = ap_resolving s" "ap_noeval (note_op p s) = ap_noeval s"
  "ap_error (note_op p s) = ap_error s" "effects (note_op p s) = effects s" "ap_vars (note_op p s) = ap_vars s"
  "ap_pos (note_op p s) = ap_pos s"
  "ap_input (note_operand p s) = ap_input s" "ap_resolving (note_operand p s) = ap_resolving s"
  "ap_noeval (note_operand p s) = ap_noeval s" "ap_error (note_operand p s) = ap_error s"
  "effects (note_operand p s) = effects s" "ap_vars (note_operand p s) = ap_vars s" "ap_pos (note_operand p s) = ap_pos s"
  by (simp_all add: note_op_def note_operand_def effects_def)

lemma left_note [simp]: "left (note_op p s) = left s" "left (note_operand p s) = left s"
  by (simp_all add: left_def)

lemma left_advance [simp]: "left (advance n s) = drop n (left s)"
  by (simp add: left_def add.commute)

lemma look_left: "look s = skip_blanks (left s)"
  by (simp add: look_def)

lemma left_length: "left s = t \<Longrightarrow> t \<noteq> [] \<Longrightarrow> ap_pos s + length t = length (ap_input s)"
  by (cases "ap_pos s \<le> length (ap_input s)") (auto simp: left_def)

lemma look_pos: "look s = op @ t \<Longrightarrow> op \<noteq> [] \<Longrightarrow> ap_pos (skip_ws s) + length op \<le> length (ap_input s)"
  using left_length [of "skip_ws s" "op @ t"] by simp

lemma ready_view: "ready c s \<Longrightarrow> look s = skip_blanks t \<Longrightarrow> view s s t (effects s)"
  by (simp add: ready_def view_def)

lemma view_ready: "view s0 s t x \<Longrightarrow> ready c s0 \<Longrightarrow> numeric c (fst x) \<Longrightarrow> ready c s"
  by (auto simp: view_def ready_def effects_def)

lemma view_trans: "view s0 s1 t x \<Longrightarrow> view s1 s2 u y \<Longrightarrow> view s0 s2 u y"
  by (simp add: view_def)

lemma view_skip_ws: "view s0 s t x \<Longrightarrow> view s0 (skip_ws s) t x"
  using skip_ws_pos [of s] by (simp add: view_def)

lemma view_note: "view s0 s t x \<Longrightarrow> view s0 (note_op p s) t x" "view s0 s t x \<Longrightarrow> view s0 (note_operand p s) t x"
  by (simp_all add: view_def look_left)

lemma view_noeval: "view s0 s t x \<Longrightarrow> ap_noeval s = ap_noeval s0"
  and view_effects: "view s0 s t x \<Longrightarrow> effects s = x"
  and view_look: "view s0 s t x \<Longrightarrow> look s = skip_blanks t"
  by (simp_all add: view_def)

text \<open>Taking a token that is in front of the cursor, blanks apart.\<close>

definition token :: "bytes \<Rightarrow> bool" where
  "token op \<longleftrightarrow> op \<noteq> [] \<and> \<not> is_ascii_whitespace (hd op)"

lemma token_look: "token op \<Longrightarrow> skip_blanks (op @ t) = op @ t"
  by (cases op) (simp_all add: token_def)

lemma view_advance:
  assumes "view s0 s (op @ t) x" and "token op"
  shows "view s0 (advance (length op) (skip_ws s)) t x" and "left (advance (length op) (skip_ws s)) = t"
proof -
  have l: "look s = op @ t" using assms by (simp add: view_look token_look)
  then show "left (advance (length op) (skip_ws s)) = t" by simp
  then show "view s0 (advance (length op) (skip_ws s)) t x"
    using assms look_pos [OF l] by (auto simp: view_def look_left token_def)
qed

lemma view_take_op:
  assumes "view s0 s (op @ t) x" and "token op"
  shows "view s0 (take_op (length op) (skip_ws s)) t x" and "left (take_op (length op) (skip_ws s)) = t"
  using view_advance [OF view_note(1) [OF view_skip_ws [OF assms(1)]] assms(2)] view_advance [OF assms]
  unfolding take_op_def by (simp_all add: view_def look_left)

subsection \<open>Sequencing outcomes\<close>

lemma fails_try: "fails m (f s) \<Longrightarrow> fails m (try_then f g s)"
  by (auto simp: fails_def try_then_def)

lemma outcome_try:
  assumes "outcome s0 t d (m s)"
    and "\<And>v x s'. in_i64 v \<Longrightarrow> d = Inr (v, x) \<Longrightarrow> view s0 s' t x \<Longrightarrow> outcome s0 rest (h v x) (f v s')"
  shows "outcome s0 rest (bindr d h) (try_then m f s)"
proof (cases d)
  case (Inr p)
  then obtain v x s' where "d = Inr (v, x)" "in_i64 v" "m s = Some (Val v, s')" "view s0 s' t x"
    using assms(1) by (cases p) (auto simp: outcome_def)
  then show ?thesis using assms(2) [of v x s'] by (simp add: try_then_def bindr_def)
qed (use assms(1) in \<open>simp add: outcome_def bindr_def fails_try\<close>)

lemma leads_try:
  assumes "outcome s0 t d (m s)"
    and "\<And>v x s'. in_i64 v \<Longrightarrow> d = Inr (v, x) \<Longrightarrow> view s0 s' t x \<Longrightarrow> leads c l s0 rest (h v x) (f v s')"
  shows "leads c l s0 rest (bindr d h) (try_then m f s)"
proof (cases d)
  case (Inr p)
  then obtain v x s' where "d = Inr (v, x)" "in_i64 v" "m s = Some (Val v, s')" "view s0 s' t x"
    using assms(1) by (cases p) (auto simp: outcome_def)
  then show ?thesis using assms(2) [of v x s'] by (simp add: try_then_def bindr_def)
qed (use assms(1) in \<open>simp add: outcome_def leads_def bindr_def fails_try\<close>)

lemma leads_bind:
  assumes "leads c l s0 t d y"
    and "\<And>v x s'. in_i64 v \<Longrightarrow> d = Inr (v, x) \<Longrightarrow> view s0 s' t x \<Longrightarrow> leads c l s0 rest (h v x) (ev c (loop_at l v) s')"
  shows "leads c l s0 rest (bindr d h) y"
proof (cases d)
  case (Inr p)
  then obtain v x s' where "d = Inr (v, x)" "in_i64 v" "y = ev c (loop_at l v) s'" "view s0 s' t x"
    using assms(1) by (cases p) (auto simp: leads_def)
  then show ?thesis using assms(2) [of v x s'] by (simp add: bindr_def)
qed (use assms(1) in \<open>simp add: leads_def bindr_def\<close>)

lemma outcome_from: "outcome s1 rest d y \<Longrightarrow> view s0 s1 t x \<Longrightarrow> outcome s0 rest d y"
  by (auto simp: outcome_def split: sum.splits intro: view_trans)

lemma outcome_ret: "in_i64 v \<Longrightarrow> view s0 s rest x \<Longrightarrow> outcome s0 rest (Inr (v, x)) (ret v s)"
  by (auto simp: outcome_def ret_def)

lemma outcome_fail: "ap_error s = None \<Longrightarrow> outcome s0 rest (Inl (Some msg)) (fail msg p s)"
  and leads_fail: "ap_error s = None \<Longrightarrow> leads c l s0 rest (Inl (Some msg)) (fail msg p s)"
  by (simp_all add: outcome_def leads_def fails_def fail_def fail_display_def record_error_def)

lemma leads_loop: "in_i64 v \<Longrightarrow> view s0 s rest x \<Longrightarrow> leads c l s0 rest (Inr (v, x)) (ev c (loop_at l v) s)"
  by (auto simp: leads_def)

lemmas leads_loops = leads_loop [where l = 1, simplified] leads_loop [where l = 4, simplified]
  leads_loop [where l = 5, simplified] leads_loop [where l = 12, simplified]

text \<open>A loop in front of a lower level has its value.\<close>

lemma leads_stop:
  assumes "leads c l s rest d y" and "l \<in> loop_levels" and "head_level (skip_blanks rest) < l"
  shows "outcome s rest d y"
proof (cases d)
  case (Inr p)
  then obtain v x s' where 1: "d = Inr (v, x)" "in_i64 v" "y = ev c (loop_at l v) s'" "view s s' rest x"
    using assms(1) by (cases p) (auto simp: leads_def)
  then have "y = ret v (skip_ws s')" using ev_stops [OF assms(2), of s' v c] assms(3) by (simp add: view_look)
  then show ?thesis using 1 by (simp add: outcome_ret view_skip_ws)
qed (use assms(1) in \<open>simp add: leads_def outcome_def\<close>)

subsection \<open>One operator\<close>

lemma token_op [simp]: "token (op_text b)" "token ''||''" "token ''&&''" "token ''**''" "token ''?''" "token '':''"
  "token '',''" "token ''(''" "token '')''" "token ''++''" "token ''--''"
  by (cases b) (simp_all add: token_def is_ascii_whitespace_def)

lemma op_not_assignment:
  assumes "look s = op_text b @ t" and "sep t"
  shows "\<not> at_assignment_op (skip_ws s)"
proof (rule at_assignment_look)
  have "head_level (look s) = op_level b" using assms head_level_op by simp
  then show "head_level (look s) < 99" by (cases b) simp_all
  show "ap_pos (skip_ws s) \<le> length (ap_input s)"
    using look_pos [of s "op_text b" t] assms token_op(1) [of b] by (simp add: token_def)
qed

text \<open>Every operator but the two of division: the loop goes on with the value of the operation.\<close>

lemma simple_step:
  assumes look: "look s = op_text b @ t" and sep: "sep t" and v: "in_i64 v" and b: "b \<noteq> OpOver" "b \<noteq> OpRem"
  shows "ev c (loop_at (op_level b) v) s
    = try_then (ev c (cmd_at (Suc (op_level b)))) (\<lambda>r. ev c (loop_at (op_level b) (op_value b v r)))
        (take_op (length (op_text b)) (skip_ws s))"
  using look sep b op_not_assignment [OF look sep]
  by (cases b; cases t)
    (simp_all add: ev_loops v bitwise_or_loop_def bitwise_xor_loop_def bitwise_and_loop_def comparison_loop_def
      comparison_at_def shift_loop_def expr_loop_def term_loop_def Let_def look_tests sep_def numeral_2_eq_2)

lemma op_value_in_i64: "in_i64 v \<Longrightarrow> r \<noteq> 0 \<or> b \<noteq> OpRem \<Longrightarrow> in_i64 (op_value b v r)"
  by (cases b) (simp_all add: shift_right_in_i64 arith_rem_in_i64)

lemma divide_step_ev:
  assumes look: "look s = op_text b @ t" and sep: "sep t" and v: "in_i64 v" and b: "b = OpOver \<or> b = OpRem"
  shows "ev c (loop_at 12 v) s = divide_step (ev c) (op_value b v) (skip_ws s)"
proof -
  have "op_value OpOver v = arith_div v" and "op_value OpRem v = arith_rem v" by (rule ext, simp)+
  then show ?thesis
    using look sep b op_not_assignment [OF look sep] by (auto simp: ev_loops v term_loop_def Let_def look_tests)
qed

lemma binary_step:
  assumes s': "view s s' (w @ op_text b @ t @ rest) x" and w: "list_all is_ascii_whitespace w" and sep: "sep (t @ rest)"
    and v: "in_i64 v"
    and operand: "\<And>s1. view s s1 (t @ rest) x
       \<Longrightarrow> outcome s1 rest (den c (0 < ap_noeval s) e x) (ev c (cmd_at (Suc (op_level b))) s1)"
  shows "leads c (op_level b) s rest (bindr (den c (0 < ap_noeval s) e x) (\<lambda>r x.
     case den_op (0 < ap_noeval s) b v r of Inl m \<Rightarrow> Inl m | Inr w \<Rightarrow> Inr (w, x))) (ev c (loop_at (op_level b) v) s')"
proof -
  have s1: "view s s' (op_text b @ (t @ rest)) x" using s' w by (simp add: view_def skip_blanks_append)
  have look: "look s' = op_text b @ (t @ rest)" using view_look [OF s1] by (simp add: token_look)
  note taken = view_take_op(1) [OF s1 token_op(1)]
  show ?thesis
  proof (cases "b = OpOver \<or> b = OpRem")
    case False
    then have "den_op q b v r = Inr (op_value b v r)" for q r by (simp add: den_op_def)
    then show ?thesis using False by (simp add: simple_step [OF look sep v])
      (rule leads_try, rule outcome_from [OF operand [OF taken] taken], simp add: leads_loop op_value_in_i64 v)
  next
    case True
    then have l: "op_level b = 12" "length (op_text b) = 1" by auto
    have at: "view s (skip_ws (take_op 1 (skip_ws s'))) (t @ rest) x" using view_skip_ws [OF taken] l by simp
    have "leads c 12 s rest (bindr (den c (0 < ap_noeval s) e x) (\<lambda>r x.
       case den_op (0 < ap_noeval s) b v r of Inl m \<Rightarrow> Inl m | Inr w \<Rightarrow> Inr (w, x))) (divide_step (ev c) (op_value b v) (skip_ws s'))"
      unfolding divide_step_def Let_def
    proof (rule leads_try)
      show "outcome s rest (den c (0 < ap_noeval s) e x) (ev c Power (skip_ws (take_op 1 (skip_ws s'))))"
        using outcome_from [OF operand [OF at] at] l by simp
    next
      fix r y s2
      assume r: "in_i64 r" and s2: "view s s2 rest y"
      show "leads c 12 s rest (case den_op (0 < ap_noeval s) b v r of Inl m \<Rightarrow> Inl m | Inr w \<Rightarrow> Inr (w, y))
        (if r = 0 \<and> ap_noeval s2 = 0 then fail ''division by 0'' (ap_pos (skip_ws (take_op 1 (skip_ws s')))) s2
         else ev c (TermLoop (op_value b v (if r = 0 then 1 else r))) s2)"
        using True leads_loop [OF op_value_in_i64 [OF v, of "if r = 0 then 1 else r" b] s2, of c 12]
        by (auto simp: den_op_def view_noeval [OF s2] leads_fail s2 [unfolded view_def] split: if_splits)
    qed
    then show ?thesis using divide_step_ev [OF look sep v True] l(1) by simp
  qed
qed

subsection \<open>No assignment in front\<close>

text \<open>What an operand that is not an assignment looks like: a name is not followed by an assignment operator.\<close>

definition plainly :: "bytes \<Rightarrow> bool" where
  "plainly t \<longleftrightarrow> t \<noteq> [] \<and> (is_shell_name_start (hd t) \<longrightarrow>
     (let u = skip_blanks (drop (name_length t) t) in head_level u < 99 \<or> starts_at u 0 ''++'' \<or> starts_at u 0 ''--''))"

lemma increment_not_assignment: "starts_at inp p ''++'' \<or> starts_at inp p ''--'' \<Longrightarrow> assignment_operator_at inp p = None"
  unfolding assignment_operator_at_def find_None_iff starts_at_drop [of inp]
  by (cases "drop p inp"; cases "tl (drop p inp)") (auto simp: assignment_operators_def)

lemma plainly_no_assignment:
  assumes p: "ap_pos s \<le> length (ap_input s)" and t: "plainly (look s)"
  shows "assignment_op_start s = None"
proof (cases "is_shell_name_start (hd (look s))")
  case False
  then show ?thesis by (simp add: assignment_op_start_def Let_def look_def [symmetric])
next
  case True
  let ?u = "skip_blanks (drop (name_length (look s)) (look s))"
  have ends: "head_level ?u < 99 \<or> starts_at ?u 0 ''++'' \<or> starts_at ?u 0 ''--''" and ne: "look s \<noteq> []"
    using t True by (simp_all add: plainly_def Let_def)
  have "\<not> (?u \<noteq> [] \<and> hd ?u = CHR ''['')"
  proof
    assume "?u \<noteq> [] \<and> hd ?u = CHR ''[''"
    then obtain v where "?u = CHR ''['' # v" by (cases ?u) auto
    then show False using ends by (simp add: head_simps)
  qed
  then have sub: "behind_subscript ?u = Some ?u" unfolding behind_subscript_def by (rule if_not_P)
  have suffix: "\<exists>a. t = a @ skip_blanks t" for t
    by (metis skip_blanks_def takeWhile_dropWhile_id)
  obtain a where "left s = a @ look s" using suffix look_left by metis
  moreover obtain b where "drop (name_length (look s)) (look s) = b @ ?u" using suffix by metis
  ultimately have "left s = (a @ take (name_length (look s)) (look s) @ b) @ ?u" by (metis append_assoc append_take_drop_id)
  then have "ap_input s = take (ap_pos s) (ap_input s) @ (a @ take (name_length (look s)) (look s) @ b) @ ?u"
    unfolding left_def by (metis append_take_drop_id)
  then obtain d where d: "ap_input s = d @ ?u" by (metis append_assoc)
  then have drop: "drop (length (ap_input s) - length ?u) (ap_input s) = ?u"
    by (metis append_eq_conv_conj diff_add_inverse2 length_append)
  have "assignment_operator_at (ap_input s) (length (ap_input s) - length ?u) = None"
  proof (cases "head_level ?u < 99")
    case True
    then show ?thesis by (intro assignment_at_text) (simp_all add: drop)
  next
    case False
    then show ?thesis using ends starts_at_drop [of "ap_input s" "length (ap_input s) - length ?u"] drop
      by (intro increment_not_assignment) auto
  qed
  then show ?thesis using sub ne True
    by (simp add: assignment_op_start_def Let_def look_def [symmetric])
qed

subsection \<open>Short circuit\<close>

lemma noeval_outcome:
  assumes s: "view s0 s t x" and r: "ready c s0" "numeric c (fst x)"
    and operand: "\<And>s1. view (s0\<lparr>ap_noeval := ap_noeval s0 + 1\<rparr>) s1 t x \<Longrightarrow>
       outcome (s0\<lparr>ap_noeval := ap_noeval s0 + 1\<rparr>) rest d (m s1)"
  shows "outcome s0 rest d (under_noeval m s)"
proof -
  let ?s = "s\<lparr>ap_noeval := ap_noeval s + 1\<rparr>"
  have "view (s0\<lparr>ap_noeval := ap_noeval s0 + 1\<rparr>) ?s t x"
    using s by (auto simp: view_def look_def left_def effects_def)
  from operand [OF this] have o: "outcome (s0\<lparr>ap_noeval := ap_noeval s0 + 1\<rparr>) rest d (m ?s)" .
  show ?thesis
  proof (cases d)
    case (Inr p)
    then obtain v y s' where 1: "d = Inr (v, y)" "in_i64 v" "m ?s = Some (Val v, s')"
      "view (s0\<lparr>ap_noeval := ap_noeval s0 + 1\<rparr>) s' rest y"
      using o by (cases p) (auto simp: outcome_def)
    then have "view s0 (s'\<lparr>ap_noeval := ap_noeval s' - 1\<rparr>) rest y"
      by (auto simp: view_def look_def left_def effects_def)
    then show ?thesis using 1 by (auto simp: outcome_def under_noeval_def)
  next
    case (Inl m')
    then show ?thesis using o by (auto simp: outcome_def fails_def under_noeval_def)
  qed
qed

text \<open>What the induction hypothesis says of an operand at a level.\<close>

definition closed :: "arith_ctx \<Rightarrow> nat \<Rightarrow> expr \<Rightarrow> bytes \<Rightarrow> bool" where
  "closed c l e t \<longleftrightarrow> (\<forall>s rest. ready c s \<and> look s = skip_blanks (t @ rest) \<and> head_level (skip_blanks rest) < l
     \<longrightarrow> outcome s rest (den c (0 < ap_noeval s) e (effects s)) (ev c (cmd_at l) s))"

lemma closed_use:
  assumes "closed c l e t" and r: "ready c s0" and x: "numeric c (fst x)" and s: "view s0 s (t @ rest) x"
    and "head_level (skip_blanks rest) < l"
  shows "outcome s0 rest (den c (0 < ap_noeval s0) e x) (ev c (cmd_at l) s)"
proof -
  have "outcome s rest (den c (0 < ap_noeval s) e (effects s)) (ev c (cmd_at l) s)"
    using assms(1,5) view_ready [OF s r x] view_look [OF s] by (simp add: closed_def)
  then show ?thesis using outcome_from [OF _ s] by (simp add: view_noeval [OF s] view_effects [OF s])
qed

lemma closed_noeval:
  assumes "closed c l e t" and r: "ready c s0" and x: "numeric c (fst x)" and s: "view s0 s (t @ rest) x"
    and "head_level (skip_blanks rest) < l"
  shows "outcome s0 rest (den c True e x) (under_noeval (ev c (cmd_at l)) s)"
proof (rule noeval_outcome [OF s r x])
  fix s1
  assume s1: "view (s0\<lparr>ap_noeval := ap_noeval s0 + 1\<rparr>) s1 (t @ rest) x"
  have "ready c (s0\<lparr>ap_noeval := ap_noeval s0 + 1\<rparr>)" using r by (simp add: ready_def)
  from closed_use [OF assms(1) this x s1 assms(5)]
  show "outcome (s0\<lparr>ap_noeval := ap_noeval s0 + 1\<rparr>) rest (den c True e x) (ev c (cmd_at l) s1)" by simp
qed

text \<open>An operator with blanks before it.\<close>

lemma view_operator:
  assumes "view s s' (w @ op @ t) x" and "list_all is_ascii_whitespace w" and "token op"
  shows "view s s' (op @ t) x" and "look s' = op @ t"
  using assms by (simp_all add: view_def skip_blanks_append token_look)

lemma logical_operand_step:
  assumes s': "view s s' (op @ t @ rest) x" and op: "length op = 2" "token op" and plain: "plainly (skip_blanks (t @ rest))"
  shows "logical_operand k (skip_ws s') = k (skip_ws (take_op 2 (skip_ws s')))"
    and "view s (skip_ws (take_op 2 (skip_ws s'))) (t @ rest) x"
proof -
  show v: "view s (skip_ws (take_op 2 (skip_ws s'))) (t @ rest) x"
    using view_skip_ws [OF view_take_op(1) [OF s' op(2)]] op(1) by simp
  have "assignment_op_start (skip_ws (take_op 2 (skip_ws s'))) = None"
    by (rule plainly_no_assignment) (use v plain in \<open>simp_all add: view_def\<close>)
  then show "logical_operand k (skip_ws s') = k (skip_ws (take_op 2 (skip_ws s')))"
    by (simp add: logical_operand_def Let_def)
qed

lemma or_step:
  assumes s': "view s s' (w @ ''||'' @ t @ rest) x" and w: "list_all is_ascii_whitespace w"
    and v: "in_i64 v" and e: "closed c 5 e t" and plain: "plainly (skip_blanks (t @ rest))"
    and r: "ready c s" "numeric c (fst x)" "head_level (skip_blanks rest) < 5"
  shows "leads c 4 s rest (if v \<noteq> 0 then bindr (den c True e x) (\<lambda>r x. Inr (1, x))
     else bindr (den c (0 < ap_noeval s) e x) (\<lambda>r x. Inr (of_flag (r \<noteq> 0), x))) (ev c (LogicalOrLoop v) s')"
proof -
  note at = view_operator [OF s' w token_op(2)]
  note next1 = logical_operand_step [OF at(1) _ token_op(2) plain, simplified]
  show ?thesis
  proof (cases "v = 0")
    case True
    then have "ev c (LogicalOrLoop v) s' = try_then (ev c LogicalAnd) (\<lambda>r. ev c (loop_at 4 (of_flag (r \<noteq> 0)))) (skip_ws (take_op 2 (skip_ws s')))"
      using at(2) next1(1) by (simp add: ev_loops v logical_or_loop_def Let_def look_tests)
    then show ?thesis using True
      by simp (rule leads_try, rule closed_use [OF e r(1,2) next1(2) r(3), simplified], simp add: leads_loops)
  next
    case False
    then have "ev c (LogicalOrLoop v) s' = try_then (under_noeval (ev c LogicalAnd)) (\<lambda>r. ev c (loop_at 4 1)) (skip_ws (take_op 2 (skip_ws s')))"
      using at(2) next1(1) by (simp add: ev_loops v logical_or_loop_def Let_def look_tests)
    then show ?thesis using False
      by simp (rule leads_try, rule closed_noeval [OF e r(1,2) next1(2) r(3), simplified], simp add: leads_loops)
  qed
qed

lemma and_step:
  assumes s': "view s s' (w @ ''&&'' @ t @ rest) x" and w: "list_all is_ascii_whitespace w"
    and v: "in_i64 v" and e: "closed c 6 e t" and plain: "plainly (skip_blanks (t @ rest))"
    and r: "ready c s" "numeric c (fst x)" "head_level (skip_blanks rest) < 6"
  shows "leads c 5 s rest (if v = 0 then bindr (den c True e x) (\<lambda>r x. Inr (0, x))
     else bindr (den c (0 < ap_noeval s) e x) (\<lambda>r x. Inr (of_flag (r \<noteq> 0), x))) (ev c (LogicalAndLoop v) s')"
proof -
  note at = view_operator [OF s' w token_op(3)]
  note next1 = logical_operand_step [OF at(1) _ token_op(3) plain, simplified]
  show ?thesis
  proof (cases "v = 0")
    case False
    then have "ev c (LogicalAndLoop v) s' = try_then (ev c BitOr) (\<lambda>r. ev c (loop_at 5 (of_flag (r \<noteq> 0)))) (skip_ws (take_op 2 (skip_ws s')))"
      using at(2) next1(1) by (simp add: ev_loops v logical_and_loop_def Let_def look_tests)
    then show ?thesis using False
      by simp (rule leads_try, rule closed_use [OF e r(1,2) next1(2) r(3), simplified], simp add: leads_loops)
  next
    case True
    then have "ev c (LogicalAndLoop v) s' = try_then (under_noeval (ev c BitOr)) (\<lambda>r. ev c (loop_at 5 0)) (skip_ws (take_op 2 (skip_ws s')))"
      using at(2) next1(1) by (simp add: ev_loops v logical_and_loop_def Let_def look_tests)
    then show ?thesis using True
      by simp (rule leads_try, rule closed_noeval [OF e r(1,2) next1(2) r(3), simplified], simp add: leads_loops)
  qed
qed

lemma comma_step:
  assumes s': "view s s' (w @ '','' @ t @ rest) x" and w: "list_all is_ascii_whitespace w"
    and v: "in_i64 v" and e: "closed c 2 e t"
    and r: "ready c s" "numeric c (fst x)" "head_level (skip_blanks rest) < 2"
  shows "leads c 1 s rest (den c (0 < ap_noeval s) e x) (ev c (CommaLoop v) s')"
proof -
  note at = view_operator [OF s' w token_op(7)]
  note s1 = view_take_op(1) [OF at(1) token_op(7), simplified]
  have bind: "bindr d (\<lambda>v x. Inr (v, x)) = d" for d by (simp add: bindr_def split: sum.split)
  have "ev c (CommaLoop v) s' = try_then (ev c Assignment) (\<lambda>r. ev c (loop_at 1 r)) (take_op 1 (skip_ws s'))"
    using at(2) by (simp add: ev_loops v comma_loop_def Let_def look_tests)
  moreover have "leads c 1 s rest (bindr (den c (0 < ap_noeval s) e x) (\<lambda>v x. Inr (v, x)))
      (try_then (ev c Assignment) (\<lambda>r. ev c (loop_at 1 r)) (take_op 1 (skip_ws s')))"
    by (rule leads_try, rule closed_use [OF e r(1,2) _ r(3), simplified]) (use s1 in \<open>simp_all add: leads_loops\<close>)
  ultimately show ?thesis by (simp add: bind)
qed

subsection \<open>Powers and conditionals\<close>

lemma view_self: "ready c s \<Longrightarrow> look s = skip_blanks t \<Longrightarrow> view s s t (effects s)"
  by (rule ready_view)

lemma head_power: "list_all is_ascii_whitespace w \<Longrightarrow> sep t \<Longrightarrow> head_level (skip_blanks (w @ ''**'' @ t)) = 13"
  using token_look [OF token_op(4), of t] by (simp add: skip_blanks_append head_simps)

lemma factor_power: "closed c 14 e t \<Longrightarrow> closed c 13 e t"
  unfolding closed_def
proof (intro allI impI)
  fix s rest
  assume e: "\<forall>s rest. ready c s \<and> look s = skip_blanks (t @ rest) \<and> head_level (skip_blanks rest) < 14 \<longrightarrow>
      outcome s rest (den c (0 < ap_noeval s) e (effects s)) (ev c (cmd_at 14) s)"
    and h: "ready c s \<and> look s = skip_blanks (t @ rest) \<and> head_level (skip_blanks rest) < 13"
  have bind: "bindr d (\<lambda>v x. Inr (v, x)) = d" for d by (simp add: bindr_def split: sum.split)
  have "outcome s rest (bindr (den c (0 < ap_noeval s) e (effects s)) (\<lambda>v x. Inr (v, x))) (ev c Power s)"
    unfolding ev_functions(13) [of c s] parse_power_def Let_def
  proof (rule outcome_try)
    show "outcome s rest (den c (0 < ap_noeval s) e (effects s)) (ev c Factor s)" using e h by simp
  next
    fix v x s'
    assume v: "in_i64 v" and s': "view s s' rest x"
    have "\<not> starts_with ''**'' (skip_ws s')"
      using head_level_bounds(17) [of "look s'"] h view_look [OF s'] by (auto simp: look_tests)
    then show "outcome s rest (Inr (v, x)) (if starts_with ''**'' (skip_ws s') \<and> \<not> at_assignment_op (skip_ws s')
        then try_then (ev c Power) (\<lambda>r s. if r < 0 then if ap_noeval s = 0
               then fail ''exponent less than 0'' (exponent_token (skip_ws (take_op 2 (skip_ws s')))) s else ret 1 s
             else case checked_arithmetic_pow v r of None \<Rightarrow> Some (Fail, s) | Some p \<Rightarrow> ret p s) (skip_ws (take_op 2 (skip_ws s')))
        else ret v (skip_ws s'))"
      by (simp add: outcome_ret v view_skip_ws s')
  qed
  then show "outcome s rest (den c (0 < ap_noeval s) e (effects s)) (ev c (cmd_at 13) s)" by (simp add: bind)
qed

lemma power_outcome:
  assumes e1: "closed c 14 e1 t1" and e2: "closed c 13 e2 t2" and w: "list_all is_ascii_whitespace w"
    and sep: "sep (t2 @ rest)" and s: "ready c s" "look s = skip_blanks (t1 @ w @ ''**'' @ t2 @ rest)"
    and rest: "head_level (skip_blanks rest) < 13"
  shows "outcome s rest (den c (0 < ap_noeval s) (Pow e1 e2) (effects s)) (ev c Power s)"
  unfolding ev_functions(13) [of c s] parse_power_def Let_def den.simps
proof (rule outcome_try)
  have "head_level (skip_blanks (w @ ''**'' @ t2 @ rest)) < 14" using head_power [OF w sep] by simp
  then show "outcome s (w @ ''**'' @ t2 @ rest) (den c (0 < ap_noeval s) e1 (effects s)) (ev c Factor s)"
    using closed_use [OF e1 s(1) _ ready_view [OF s]] s(1) by (simp add: ready_def effects_def)
next
  fix v x s'
  assume v: "in_i64 v" and d: "den c (0 < ap_noeval s) e1 (effects s) = Inr (v, x)"
    and s': "view s s' (w @ ''**'' @ t2 @ rest) x"
  have x: "numeric c (fst x)" using numeric_den [OF d] s(1) by (simp add: ready_def effects_def)
  note at = view_operator [OF s' w token_op(4)]
  let ?s = "skip_ws (take_op 2 (skip_ws s'))"
  have s1: "view s ?s (t2 @ rest) x" using view_skip_ws [OF view_take_op(1) [OF at(1) token_op(4)]]
    by (simp add: numeral_2_eq_2)
  have "head_level (look s') < 99" using at(2) head_power [OF w sep] view_look [OF s'] by simp
  then have "\<not> at_assignment_op (skip_ws s')"
    using s' view_skip_ws [OF s'] by (intro at_assignment_look) (simp_all add: view_def)
  then have op: "starts_with ''**'' (skip_ws s') \<and> \<not> at_assignment_op (skip_ws s')"
    using at(2) by (simp add: look_tests)
  show "outcome s rest (bindr (den c (0 < ap_noeval s) e2 x) (\<lambda>r x.
        case den_pow (0 < ap_noeval s) v r of Inl m \<Rightarrow> Inl m | Inr w \<Rightarrow> Inr (w, x)))
      (if starts_with ''**'' (skip_ws s') \<and> \<not> at_assignment_op (skip_ws s')
        then try_then (ev c Power) (\<lambda>r s. if r < 0 then if ap_noeval s = 0
               then fail ''exponent less than 0'' (exponent_token ?s) s else ret 1 s
             else case checked_arithmetic_pow v r of None \<Rightarrow> Some (Fail, s) | Some p \<Rightarrow> ret p s) ?s
        else ret v (skip_ws s'))"
    unfolding if_P [OF op]
  proof (rule outcome_try)
    show "outcome s rest (den c (0 < ap_noeval s) e2 x) (ev c Power ?s)"
      using closed_use [OF e2 s(1) x s1 rest] by simp
  next
    fix r y s2
    assume r: "in_i64 r" and s2: "view s s2 rest y"
    have pow: "in_i64 (pow_loop v n)" for n by (cases n) simp_all
    show "outcome s rest (case den_pow (0 < ap_noeval s) v r of Inl m \<Rightarrow> Inl m | Inr w \<Rightarrow> Inr (w, y))
      (if r < 0 then if ap_noeval s2 = 0 then fail ''exponent less than 0'' (exponent_token ?s) s2 else ret 1 s2
       else case checked_arithmetic_pow v r of None \<Rightarrow> Some (Fail, s2) | Some p \<Rightarrow> ret p s2)"
    proof -
      have n: "ap_noeval s2 = ap_noeval s" "ap_error s2 = None" using s2 by (simp_all add: view_def)
      have unrecorded: "outcome s rest (Inl None) (Some (Fail, s2))" by (simp add: outcome_def fails_def n)
      show ?thesis
        by (simp add: den_pow_def checked_arithmetic_pow_def n outcome_ret [OF _ s2] pow outcome_fail unrecorded)
    qed
  qed
qed

lemma expect_colon_step:
  assumes s': "view s s' (w @ '':'' @ t @ rest) x" and w: "list_all is_ascii_whitespace w" and t: "skip_blanks (t @ rest) \<noteq> []"
  shows "expect_colon k s' = k (skip_ws (take_op 1 (skip_ws s')))"
    and "view s (skip_ws (take_op 1 (skip_ws s'))) (t @ rest) x"
proof -
  note at = view_operator [OF s' w token_op(6)]
  show v: "view s (skip_ws (take_op 1 (skip_ws s'))) (t @ rest) x"
    using view_skip_ws [OF view_take_op(1) [OF at(1) token_op(6)]] by simp
  have "left (skip_ws (take_op 1 (skip_ws s'))) \<noteq> []" using view_look [OF v] t by simp
  then have "\<not> length (ap_input (skip_ws (take_op 1 (skip_ws s')))) \<le> ap_pos (skip_ws (take_op 1 (skip_ws s')))"
    by (simp add: left_def)
  then show "expect_colon k s' = k (skip_ws (take_op 1 (skip_ws s')))"
    using at(2) by (simp add: expect_colon_def Let_def look_tests)
qed

lemma conditional_branches:
  assumes e2: "closed c 1 e2 t2" and e3: "closed c 3 e3 t3"
    and w: "list_all is_ascii_whitespace w"
    and t3: "plainly (skip_blanks (t3 @ rest))" and rest: "head_level (skip_blanks rest) < 3"
    and s: "ready c s" and x: "numeric c (fst x)" and s': "view s s' (t2 @ w @ '':'' @ t3 @ rest) x"
  shows "outcome s rest (if v = 0 then bindr (den c True e2 x) (\<lambda>r x. den c (0 < ap_noeval s) e3 x)
       else bindr (den c (0 < ap_noeval s) e2 x) (\<lambda>r x. bindr (den c True e3 x) (\<lambda>r' x. Inr (r, x))))
     (if v = 0 then conditional_false (ev c) s' else conditional_true (ev c) s')"
proof -
  have colon: "head_level (skip_blanks (w @ '':'' @ t3 @ rest)) < 1"
    using w token_look [OF token_op(6), of "t3 @ rest"] by (simp add: skip_blanks_append head_simps)
  have t3': "skip_blanks (t3 @ rest) \<noteq> []" using t3 by (simp add: plainly_def)
  show ?thesis
  proof (cases "v = 0")
    case True
    have "outcome s rest (bindr (den c True e2 x) (\<lambda>r x. den c (0 < ap_noeval s) e3 x)) (conditional_false (ev c) s')"
      unfolding conditional_false_def
    proof (rule outcome_try)
      show "outcome s (w @ '':'' @ t3 @ rest) (den c True e2 x) (under_noeval (ev c Comma) s')"
        using closed_noeval [OF e2 s x s' colon] by simp
    next
      fix r y s2
      assume d: "den c True e2 x = Inr (r, y)" and s2: "view s s2 (w @ '':'' @ t3 @ rest) y"
      have y: "numeric c (fst y)" using numeric_den [OF d x] .
      note colon_step = expect_colon_step [OF s2 w t3']
      show "outcome s rest (den c (0 < ap_noeval s) e3 y) (expect_colon (ev c Conditional) s2)"
        unfolding colon_step(1) using closed_use [OF e3 s y colon_step(2) rest] by simp
    qed
    then show ?thesis using True by simp
  next
    case False
    have "outcome s rest (bindr (den c (0 < ap_noeval s) e2 x) (\<lambda>r x. bindr (den c True e3 x) (\<lambda>r' x. Inr (r, x))))
        (conditional_true (ev c) s')"
      unfolding conditional_true_def
    proof (rule outcome_try)
      show "outcome s (w @ '':'' @ t3 @ rest) (den c (0 < ap_noeval s) e2 x) (ev c Comma s')"
        using closed_use [OF e2 s x s' colon] by simp
    next
      fix r y s2
      assume r: "in_i64 r" and d: "den c (0 < ap_noeval s) e2 x = Inr (r, y)" and s2: "view s s2 (w @ '':'' @ t3 @ rest) y"
      have y: "numeric c (fst y)" using numeric_den [OF d x] .
      note colon_step = expect_colon_step [OF s2 w t3']
      have none: "assignment_op_start (skip_ws (take_op 1 (skip_ws s2))) = None"
        by (rule plainly_no_assignment) (use colon_step(2) t3 in \<open>simp_all add: view_def\<close>)
      have "outcome s rest (bindr (den c True e3 y) (\<lambda>r' x. Inr (r, x)))
          (try_then (under_noeval (ev c Conditional)) (\<lambda>_. ret r) (skip_ws (take_op 1 (skip_ws s2))))"
      proof (rule outcome_try)
        show "outcome s rest (den c True e3 y) (under_noeval (ev c Conditional) (skip_ws (take_op 1 (skip_ws s2))))"
          using closed_noeval [OF e3 s y colon_step(2) rest] by simp
      qed (simp add: outcome_ret r)
      then show "outcome s rest (bindr (den c True e3 y) (\<lambda>r' x. Inr (r, x)))
        (expect_colon (\<lambda>s. case assignment_op_start s of
             Some p \<Rightarrow> fail ''attempted assignment to non-variable'' p
               (skip_arithmetic_conditional_branch ['','', '')'', '':''] s)
           | None \<Rightarrow> try_then (under_noeval (ev c Conditional)) (\<lambda>_. ret r) s) s2)"
        unfolding colon_step(1) none option.case .
    qed
    then show ?thesis using False by simp
  qed
qed

lemma conditional_outcome:
  assumes e1: "closed c 4 e1 t1" and e2: "closed c 1 e2 t2" and e3: "closed c 3 e3 t3"
    and w: "list_all is_ascii_whitespace w" "list_all is_ascii_whitespace w'"
    and t2: "\<And>u. \<exists>a v. skip_blanks (t2 @ u) = a # v \<and> a \<noteq> CHR '':''"
    and t3: "plainly (skip_blanks (t3 @ rest))" and rest: "head_level (skip_blanks rest) < 3"
    and s: "ready c s" "look s = skip_blanks (t1 @ w @ ''?'' @ t2 @ w' @ '':'' @ t3 @ rest)"
  shows "outcome s rest (den c (0 < ap_noeval s) (Cond e1 e2 e3) (effects s)) (ev c Conditional s)"
  unfolding ev_functions(3) [of c s] parse_conditional_def Let_def den.simps
proof (rule outcome_try)
  let ?rest = "w @ ''?'' @ t2 @ w' @ '':'' @ t3 @ rest"
  have "head_level (skip_blanks ?rest) < 4"
    using w token_look [OF token_op(5), of "t2 @ w' @ '':'' @ t3 @ rest"] by (simp add: skip_blanks_append head_simps)
  then show "outcome s ?rest (den c (0 < ap_noeval s) e1 (effects s)) (ev c LogicalOr s)"
    using closed_use [OF e1 s(1) _ ready_view [OF s]] s(1) by (simp add: ready_def effects_def)
next
  fix v x s'
  let ?s = "skip_ws (take_op 1 (skip_ws s'))"
  assume d: "den c (0 < ap_noeval s) e1 (effects s) = Inr (v, x)"
    and s': "view s s' (w @ ''?'' @ t2 @ w' @ '':'' @ t3 @ rest) x"
  have x: "numeric c (fst x)" using numeric_den [OF d] s(1) by (simp add: ready_def effects_def)
  note at = view_operator [OF s' w(1) token_op(5)]
  have s1: "view s ?s (t2 @ w' @ '':'' @ t3 @ rest) x" using view_skip_ws [OF view_take_op(1) [OF at(1) token_op(5)]] by simp
  obtain a u where a: "left ?s = a # u" "a \<noteq> CHR '':''"
    using t2 [of "w' @ '':'' @ t3 @ rest"] view_look [OF s1] by auto
  then have some: "\<not> (length (ap_input ?s) \<le> ap_pos ?s \<or> peek ?s = Some (CHR '':''))"
    using left_length [OF a(1)] by (simp add: peek_starts_at)
  have q: "\<not> peek (skip_ws s') \<noteq> Some (CHR ''?'')" using at(2) by (simp add: look_tests)
  show "outcome s rest (if v = 0 then bindr (den c True e2 x) (\<lambda>r x. den c (0 < ap_noeval s) e3 x)
       else bindr (den c (0 < ap_noeval s) e2 x) (\<lambda>r x. bindr (den c True e3 x) (\<lambda>r' x. Inr (r, x))))
     (if peek (skip_ws s') \<noteq> Some (CHR ''?'') then ret v (skip_ws s')
      else if length (ap_input ?s) \<le> ap_pos ?s \<or> peek ?s = Some (CHR '':'')
        then fail ''expression expected'' (error_token ?s) ?s
        else if v = 0 then conditional_false (ev c) ?s else conditional_true (ev c) ?s)"
    unfolding if_not_P [OF some] if_not_P [OF q]
    by (rule conditional_branches [OF e2 e3 w(2) t3 rest s(1) x s1])
qed

lemma or_conditional: "closed c 4 e t \<Longrightarrow> closed c 3 e t"
  unfolding closed_def
proof (intro allI impI)
  fix s rest
  assume e: "\<forall>s rest. ready c s \<and> look s = skip_blanks (t @ rest) \<and> head_level (skip_blanks rest) < 4 \<longrightarrow>
      outcome s rest (den c (0 < ap_noeval s) e (effects s)) (ev c (cmd_at 4) s)"
    and h: "ready c s \<and> look s = skip_blanks (t @ rest) \<and> head_level (skip_blanks rest) < 3"
  have bind: "bindr d (\<lambda>v x. Inr (v, x)) = d" for d by (simp add: bindr_def split: sum.split)
  have "outcome s rest (bindr (den c (0 < ap_noeval s) e (effects s)) (\<lambda>v x. Inr (v, x))) (ev c Conditional s)"
    unfolding ev_functions(3) [of c s] parse_conditional_def Let_def
  proof (rule outcome_try)
    show "outcome s rest (den c (0 < ap_noeval s) e (effects s)) (ev c LogicalOr s)" using e h by simp
  next
    fix v x s'
    let ?s = "skip_ws (take_op 1 (skip_ws s'))"
    assume v: "in_i64 v" and s': "view s s' rest x"
    have "peek (skip_ws s') \<noteq> Some (CHR ''?'')"
      using head_level_bounds(19) [of "look s'"] h view_look [OF s'] by (auto simp: look_tests)
    then show "outcome s rest (Inr (v, x)) (if peek (skip_ws s') \<noteq> Some (CHR ''?'') then ret v (skip_ws s')
      else if length (ap_input ?s) \<le> ap_pos ?s \<or> peek ?s = Some (CHR '':'')
        then fail ''expression expected'' (error_token ?s) ?s
        else if v = 0 then conditional_false (ev c) ?s else conditional_true (ev c) ?s)"
      by (simp add: outcome_ret v view_skip_ws s')
  qed
  then show "outcome s rest (den c (0 < ap_noeval s) e (effects s)) (ev c (cmd_at 3) s)" by (simp add: bind)
qed

subsection \<open>Names, variables and assignments\<close>

definition name_ok :: "arith_ctx \<Rightarrow> bytes \<Rightarrow> bool" where
  "name_ok c x \<longleftrightarrow> x \<noteq> [] \<and> is_shell_name_start (hd x) \<and> list_all is_shell_name_char x \<and> scalar_name c x"

definition name_ends :: "bytes \<Rightarrow> bool" where
  "name_ends u \<longleftrightarrow> (u = [] \<or> \<not> is_shell_name_char (hd u) \<and> hd u \<noteq> CHR ''['')"

lemma name_char_not_space: "is_shell_name_char a \<Longrightarrow> \<not> is_ascii_whitespace a"
  by (auto simp: is_shell_name_char_def is_ascii_whitespace_def is_ascii_alphanumeric_def is_ascii_alphabetic_def
      is_ascii_lowercase_def is_ascii_uppercase_def is_ascii_digit_def)

lemma name_start_char: "is_shell_name_start a \<Longrightarrow> is_shell_name_char a"
  by (auto simp: is_shell_name_start_def is_shell_name_char_def is_ascii_alphanumeric_def)

lemma name_token: "name_ok c x \<Longrightarrow> token x"
  by (auto simp: name_ok_def token_def dest: name_start_char name_char_not_space)

lemma name_length_ok: "name_ok c x \<Longrightarrow> name_ends u \<Longrightarrow> name_length (x @ u) = length x"
  by (cases u) (auto simp: name_ok_def name_ends_def name_length_def list_all_iff takeWhile_append
      takeWhile_eq_all_conv [THEN iffD2])

lemma parse_lvalue_ok:
  assumes "view s0 s (x @ u) y" and x: "name_ok c x" and u: "name_ends u"
  shows "parse_lvalue c s = ret (Some x) (advance (length x) (skip_ws s))"
    and "view s0 (advance (length x) (skip_ws s)) u y" and "left (advance (length x) (skip_ws s)) = u"
proof -
  have l: "look s = x @ u" using view_look [OF assms(1)] token_look [OF name_token [OF x]] by simp
  note v = view_advance [OF assms(1) name_token [OF x]]
  show "left (advance (length x) (skip_ws s)) = u" and "view s0 (advance (length x) (skip_ws s)) u y" by (rule v)+
  have "peek (advance (length x) (skip_ws s)) \<noteq> Some (CHR ''['')"
    using u v(2) by (cases u) (auto simp: peek_left name_ends_def)
  then show "parse_lvalue c s = ret (Some x) (advance (length x) (skip_ws s))"
    using x name_length_ok [OF x u] by (simp add: parse_lvalue_def Let_def l name_ok_def)
qed

lemma lvalue_value_ok:
  "ready c s \<Longrightarrow> lvalue_value c (ev c) name s = ret (if 0 < ap_noeval s then 0 else number_of c (ap_vars s) name) s"
  using numeric_text [of c "ap_vars s" name]
  by (auto simp: lvalue_value_def variable_value_def ready_def ev_variable evaluate_variable_text_def variable_text_def
      split: option.splits)

lemma number_of_in_i64: "in_i64 (number_of c vs name)"
  by (auto simp: number_of_def plain_number_in_i64 split: option.split)

lemma view_set_variable: "view s0 s t x \<Longrightarrow> view s0 (set_variable name v s) t (store name v x)"
  by (auto simp: view_def set_variable_def store_def Let_def effects_def look_def left_def)

lemma view_vars: "view s0 s t x \<Longrightarrow> ap_vars s = fst x"
  by (auto simp: view_def effects_def)

lemma outcome_refused: "view s0 s t x \<Longrightarrow> outcome s0 rest (Inl None) (Some (Fail, s\<lparr>ap_vars := y\<rparr>))"
  by (simp add: outcome_def fails_def view_def)

lemma update_outcome:
  assumes r: "ready c s0" "numeric c (fst x)" and s: "view s0 s rest x"
  shows "outcome s0 rest (upd c (0 < ap_noeval s0) prefix delta name x) (update_lvalue c (ev c) name delta prefix s)"
proof (cases "0 < ap_noeval s0 \<or> marked c ReadonlyAttr name")
  case True
  then show ?thesis using view_noeval [OF s]
    by (auto simp: upd_def update_lvalue_def lvalue_is_writable_def outcome_ret s outcome_refused [OF s])
next
  case False
  have v: "lvalue_value c (ev c) name s = ret (number_of c (fst x) name) s"
    using lvalue_value_ok [OF view_ready [OF s r]] False by (simp add: view_noeval [OF s] view_vars [OF s])
  show ?thesis using False
    by (simp add: upd_def update_lvalue_def lvalue_is_writable_def view_noeval [OF s] Let_def try_then_def v ret_def)
      (simp add: outcome_ret [unfolded ret_def] number_of_in_i64 view_set_variable s)
qed

lemma assign_outcome:
  assumes s: "view s0 s rest x" and v: "in_i64 v" "in_i64 old"
  shows "outcome s0 rest (assign c (0 < ap_noeval s0) name op old v x)
    (if (op = ''/='' \<or> op = ''%='') \<and> v = 0 \<and> ap_noeval s = 0 then fail ''division by 0'' p s
     else assign_lvalue_precaptured c (ev c) name op v (if op = ''='' then None else Some old) s)"
proof (cases "0 < ap_noeval s0 \<or> marked c ReadonlyAttr name")
  case True
  then show ?thesis using view_noeval [OF s] s [unfolded view_def]
    by (auto simp: assign_def assign_lvalue_precaptured_def lvalue_is_writable_def outcome_ret s v
        outcome_refused [OF s] outcome_fail)
next
  case False
  have err: "ap_error s = None" using s by (simp add: view_def)
  have unrecorded: "outcome s0 rest (Inl None) (Some (Fail, s))" by (simp add: outcome_def fails_def err)
  show ?thesis
  proof (cases "(op = ''/='' \<or> op = ''%='') \<and> v = 0")
    case True
    then show ?thesis using False by (simp add: assign_def view_noeval [OF s] outcome_fail err)
  next
    case nz: False
    then have "outcome s0 rest (if op = ''='' then Inr (v, store name v x)
        else (case compound_value op old v of None \<Rightarrow> Inl None | Some w \<Rightarrow> Inr (w, store name w x)))
      (if op = ''='' then ret v (set_variable name v s)
       else (case compound_value op old v of None \<Rightarrow> Some (Fail, s) | Some w \<Rightarrow> ret w (set_variable name w s)))"
      using compound_value_in_i64 [of op old v] v
      by (auto simp: outcome_ret view_set_variable s unrecorded split: option.split)
    then show ?thesis using False nz
      by (auto simp: assign_def assign_lvalue_precaptured_def lvalue_is_writable_def view_noeval [OF s] try_then_def ret_def
          split: option.splits)
  qed
qed

lemma find_unique: "x \<in> set xs \<Longrightarrow> P x \<Longrightarrow> (\<And>y. y \<in> set xs \<Longrightarrow> P y \<Longrightarrow> y = x) \<Longrightarrow> find P xs = Some x"
proof (induction xs)
  case (Cons y ys)
  show ?case
  proof (cases "P y")
    case True
    then show ?thesis using Cons.prems(3) [of y] by simp
  next
    case False
    then have "x \<in> set ys" using Cons.prems(1,2) by auto
    then have "find P ys = Some x" by (rule Cons.IH) (use Cons.prems(2,3) in simp_all)
    then show ?thesis using False by simp
  qed
qed simp

text \<open>Every assignment operator ends at its first equals sign, so none is a prefix of another.\<close>

lemma assignment_operator_shape: "op \<in> set assignment_operators \<Longrightarrow> takeWhile (\<lambda>a. a \<noteq> CHR ''='') (op @ t) @ ''='' = op"
  by (simp add: assignment_operators_def, elim disjE) simp_all

lemma assignment_operator_ok:
  assumes op: "op \<in> set assignment_operators" and p: "drop p inp = op @ t"
    and eq: "op = ''='' \<Longrightarrow> \<not> starts_at t 0 ''='' \<and> (p = 0 \<or> inp ! (p - 1) \<notin> set ''!<>'')"
  shows "assignment_operator_at inp p = Some op"
  unfolding assignment_operator_at_def
proof (rule find_unique [OF op])
  have "drop (p + 1) inp = tl (drop p inp)" by (simp add: drop_Suc tl_drop)
  then have "drop (p + 1) inp = tl (op @ t)" by (simp only: p)
  then have "op = ''='' \<Longrightarrow> \<not> starts_at inp (p + 1) ''=''" using eq starts_at_drop [of inp "p + 1"] by simp
  moreover have "starts_at inp p op" using p starts_at_drop [of inp p op] starts_at_append by metis
  ultimately show "starts_at inp p op \<and> \<not> (op = ''='' \<and> (starts_at inp (p + 1) ''=''
      \<or> 0 < p \<and> p - 1 < length inp \<and> inp ! (p - 1) \<in> set ''!<>''))"
    using eq by auto
next
  fix y
  assume y: "y \<in> set assignment_operators" and "starts_at inp p y \<and> \<not> (y = ''='' \<and> (starts_at inp (p + 1) ''=''
      \<or> 0 < p \<and> p - 1 < length inp \<and> inp ! (p - 1) \<in> set ''!<>''))"
  then obtain u where "op @ t = y @ u" using p starts_at_drop [of inp p y] starts_at_append by metis
  then show "y = op" using assignment_operator_shape [OF op, of t] assignment_operator_shape [OF y, of u] by simp
qed

lemma space_not_name: "is_ascii_whitespace a \<Longrightarrow> \<not> is_shell_name_char a \<and> a \<noteq> CHR ''[''"
  using name_char_not_space by (auto simp: is_ascii_whitespace_def)

lemma name_ends_append: "list_all is_ascii_whitespace w \<Longrightarrow> name_ends u \<Longrightarrow> name_ends (w @ u)"
  using space_not_name by (cases w) (auto simp: name_ends_def)

lemmas char_classes = literal_char_def is_shell_name_char_def is_shell_name_start_def is_ascii_alphanumeric_def
  is_ascii_alphabetic_def is_ascii_lowercase_def is_ascii_uppercase_def is_ascii_digit_def

lemma assignment_ends: "list_all is_ascii_whitespace w \<Longrightarrow> op \<in> set assignment_operators \<Longrightarrow> name_ends (w @ op @ t)"
  by (rule name_ends_append, assumption, simp add: assignment_operators_def, elim disjE)
    (simp_all add: name_ends_def char_classes)

lemma assignment_token: "op \<in> set assignment_operators \<Longrightarrow> token op"
  by (auto simp: assignment_operators_def token_def is_ascii_whitespace_def)

lemma nth_before: "a \<noteq> [] \<Longrightarrow> (d @ a @ u) ! (length d + length a - 1) = last a"
  by (cases a rule: rev_cases) (simp_all add: nth_append)

lemma try_then_ret: "m s = ret v s' \<Longrightarrow> try_then m f s = f v s'"
  by (simp add: try_then_def ret_def)

lemma try_lvalue: "parse_lvalue c s = ret v s' \<Longrightarrow> try_then (parse_lvalue c) f s = f v s'"
  by (rule try_then_ret)

text \<open>A name with an assignment operator behind it, wherever the cursor is.\<close>

lemma assignment_seen:
  assumes s: "view s0 s (x @ w @ op @ t) y" and x: "name_ok c x" and w: "list_all is_ascii_whitespace w"
    and op: "op \<in> set assignment_operators" and t: "\<not> starts_at t 0 ''=''"
  shows "assignment_operator_at (ap_input s) (length (ap_input s) - length (op @ t)) = Some op"
    and "assignment_op_start s = Some (length (ap_input s) - length (op @ t))"
    and "left s' = op @ t \<Longrightarrow> ap_input s' = ap_input s \<Longrightarrow> ap_pos s' = length (ap_input s) - length (op @ t)"
proof -
  have l: "look s = x @ w @ op @ t" using view_look [OF s] token_look [OF name_token [OF x]] by simp
  let ?p = "length (ap_input s) - length (op @ t)"
  have inp: "ap_input s = take (ap_pos (skip_ws s)) (ap_input s) @ x @ w @ op @ t"
    using left_skip_ws [of s] l by (metis append_take_drop_id left_def skip_ws_fields(1))
  then obtain d where d: "ap_input s = d @ (x @ w) @ op @ t" by (metis append_assoc)
  then have drop: "drop ?p (ap_input s) = op @ t" by simp
  have p: "?p = length d + length (x @ w)" using d by simp
  have xw: "x @ w \<noteq> []" using x by (simp add: name_ok_def)
  have "ap_input s ! (?p - 1) = last (x @ w)"
    using nth_before [OF xw, of d "op @ t"] unfolding p d [symmetric] .
  moreover have "last (x @ w) \<notin> set ''!<>''"
  proof -
    have "a \<notin> set ''!<>''" if "is_ascii_whitespace a \<or> is_shell_name_char a" for a
      using that by (auto simp: is_ascii_whitespace_def is_shell_name_char_def is_ascii_alphanumeric_def
        is_ascii_alphabetic_def is_ascii_lowercase_def is_ascii_uppercase_def is_ascii_digit_def)
    then show ?thesis using last_in_set [OF xw] x w by (auto simp: name_ok_def list_all_iff)
  qed
  ultimately show at: "assignment_operator_at (ap_input s) ?p = Some op"
    by (intro assignment_operator_ok [OF op drop]) (use t in auto)
  have u: "skip_blanks (drop (name_length (look s)) (look s)) = op @ t"
    using name_length_ok [OF x assignment_ends [OF w op]] w token_look [OF assignment_token [OF op]]
    by (simp add: l skip_blanks_append)
  have "\<not> (op @ t \<noteq> [] \<and> hd (op @ t) = CHR ''['')" using op by (auto simp: assignment_operators_def)
  then have "behind_subscript (op @ t) = Some (op @ t)" unfolding behind_subscript_def by (rule if_not_P)
  then show "assignment_op_start s = Some ?p"
    using u at x token_look [OF assignment_token [OF op], of t]
    by (simp add: assignment_op_start_def Let_def look_def [symmetric]) (simp add: l name_ok_def)
  show "left s' = op @ t \<Longrightarrow> ap_input s' = ap_input s \<Longrightarrow> ap_pos s' = ?p"
    using left_length [of s' "op @ t"] assignment_token [OF op] by (auto simp: token_def)
qed

lemma assign_expression:
  assumes e: "closed c 2 e t" and x: "name_ok c x" and w: "list_all is_ascii_whitespace w"
    and op: "op \<in> set assignment_operators" and t: "\<not> starts_at (t @ rest) 0 ''=''"
    and rest: "head_level (skip_blanks rest) < 2" and s: "ready c s" "look s = skip_blanks (x @ w @ op @ t @ rest)"
  shows "outcome s rest (den c (0 < ap_noeval s) (Assign x op e) (effects s)) (ev c Assignment s)"
proof -
  let ?q = "0 < ap_noeval s" and ?y = "effects s"
  let ?n = "advance (length x) (skip_ws (skip_ws s))"
  let ?b = "skip_ws (take_op (length op) (skip_ws ?n))"
  have y: "numeric c (fst ?y)" using s(1) by (simp add: ready_def effects_def)
  have v0: "view s (skip_ws s) (x @ w @ op @ t @ rest) ?y" by (rule view_skip_ws [OF ready_view [OF s]])
  note ends = assignment_ends [OF w op, of "t @ rest"]
  note lv = parse_lvalue_ok [OF v0 x ends]
  note seen = assignment_seen [OF v0 x w op t]
  have at: "view s ?n (op @ t @ rest) ?y" using lv(2) w by (simp add: view_def skip_blanks_append)
  have "assignment_operator_at (ap_input (skip_ws ?n)) (ap_pos (skip_ws ?n)) = Some op"
    using seen(1) seen(3) [of "skip_ws ?n"] view_look [OF at] token_look [OF assignment_token [OF op]] by simp
  then have ev1: "ev c Assignment s = bind_assignment c (ev c) x op (skip_ws ?n)"
    unfolding ev_functions(2) [of c s] using seen(2) lv(1)
    by (simp add: parse_assignment_def Let_def try_then_def ret_def)
  have b: "view s ?b (t @ rest) ?y"
    by (rule view_skip_ws [OF view_take_op(1) [OF at assignment_token [OF op]]])
  have val: "lvalue_value c (ev c) x ?b = ret (if ?q then 0 else number_of c (fst ?y) x) ?b"
    by (simp only: lvalue_value_ok [OF view_ready [OF b s(1) y]] view_noeval [OF b] view_vars [OF b])
  let ?old = "if ?q then 0 else number_of c (fst ?y) x"
  have pre: "(if op = ''='' then ret None else try_then (lvalue_value c (ev c) x) (\<lambda>v. ret (Some v))) ?b
      = ret (if op = ''='' then None else Some ?old) ?b"
    by (simp add: try_then_def val ret_def)
  have "outcome s rest (bindr (den c ?q e ?y) (\<lambda>r y. assign c ?q x op ?old r y))
    (try_then (ev c Assignment) (\<lambda>v s. if (op = ''/='' \<or> op = ''%='') \<and> v = 0 \<and> ap_noeval s = 0
        then fail ''division by 0'' (ap_pos ?b) s
        else assign_lvalue_precaptured c (ev c) x op v (if op = ''='' then None else Some ?old) s) ?b)"
  proof (rule outcome_try)
    show "outcome s rest (den c ?q e ?y) (ev c Assignment ?b)" using closed_use [OF e s(1) y b rest] by simp
  qed (rule assign_outcome, simp_all add: number_of_in_i64)
  moreover have "bind_assignment c (ev c) x op (skip_ws ?n) =
    try_then (ev c Assignment) (\<lambda>v s. if (op = ''/='' \<or> op = ''%='') \<and> v = 0 \<and> ap_noeval s = 0
        then fail ''division by 0'' (ap_pos ?b) s
        else assign_lvalue_precaptured c (ev c) x op v (if op = ''='' then None else Some ?old) s) ?b"
    unfolding bind_assignment_def Let_def by (rule try_then_ret, rule pre)
  ultimately show ?thesis by (simp only: ev1 den.simps Let_def)
qed

lemma conditional_assignment:
  assumes e: "closed c 3 e t" and plain: "\<And>rest. head_level (skip_blanks rest) < 99 \<Longrightarrow> plainly (skip_blanks (t @ rest))"
  shows "closed c 2 e t"
  unfolding closed_def
proof (intro allI impI)
  fix s rest
  assume h: "ready c s \<and> look s = skip_blanks (t @ rest) \<and> head_level (skip_blanks rest) < 2"
  then have v0: "view s (skip_ws s) (t @ rest) (effects s)" by (intro view_skip_ws ready_view) auto
  have y: "numeric c (fst (effects s))" using h by (simp add: ready_def effects_def)
  have "assignment_op_start (skip_ws s) = None"
    by (rule plainly_no_assignment) (use v0 plain [of rest] h in \<open>auto simp: view_def\<close>)
  then have ev1: "ev c Assignment s = finish_assignment (ev c) (skip_ws s)"
    unfolding ev_functions(2) [of c s] by (simp add: parse_assignment_def Let_def)
  have bind: "bindr d (\<lambda>v x. Inr (v, x)) = d" for d by (simp add: bindr_def split: sum.split)
  have "outcome s rest (bindr (den c (0 < ap_noeval s) e (effects s)) (\<lambda>v x. Inr (v, x))) (finish_assignment (ev c) (skip_ws s))"
    unfolding finish_assignment_def Let_def
  proof (rule outcome_try)
    show "outcome s rest (den c (0 < ap_noeval s) e (effects s)) (ev c Conditional (skip_ws s))"
      using closed_use [OF e _ y v0] h by simp
  next
    fix v x s'
    assume v: "in_i64 v" and s': "view s s' rest x"
    have "\<not> at_assignment_op (skip_ws s')"
      using h view_look [OF s'] view_skip_ws [OF s'] s' by (intro at_assignment_look) (simp_all add: view_def)
    then show "outcome s rest (Inr (v, x)) (if at_assignment_op (skip_ws s')
        then fail ''attempted assignment to non-variable'' (ap_pos (skip_ws s')) (skip_ws s') else ret v (skip_ws s'))"
      by (simp add: outcome_ret v view_skip_ws s')
  qed
  then show "outcome s rest (den c (0 < ap_noeval s) e (effects s)) (ev c (cmd_at 2) s)"
    by (simp add: ev1 bind)
qed

subsection \<open>Factors\<close>

lemma rest_chars:
  assumes "head_level (skip_blanks rest) < 99" and "rest \<noteq> []"
  shows "\<not> literal_char (hd rest) \<and> \<not> is_shell_name_char (hd rest) \<and> hd rest \<noteq> CHR ''[''"
proof -
  obtain a r where r: "rest = a # r" using assms(2) by (cases rest) auto
  have junk: "head_level (a # r) = 99" if "a \<notin> set ''|&=!<>*^+-/%),:?''"
    using that by (simp add: head_simps)
  have "list_all (\<lambda>b. \<not> literal_char b \<and> \<not> is_shell_name_char b \<and> b \<noteq> CHR ''['') ''|&=!<>*^+-/%),:?''"
    by (simp add: char_classes)
  then have ops: "\<not> literal_char b \<and> \<not> is_shell_name_char b \<and> b \<noteq> CHR ''[''"
    if "b \<in> set ''|&=!<>*^+-/%),:?''" for b
    using that unfolding list_all_iff by blast
  have space: "\<not> literal_char b" if "is_ascii_whitespace b" for b
    using that by (auto simp: is_ascii_whitespace_def char_classes)
  show ?thesis
  proof (cases "is_ascii_whitespace a")
    case False
    then have "a \<in> set ''|&=!<>*^+-/%),:?''" using assms(1) junk r by fastforce
    then show ?thesis using ops r by auto
  qed (use space space_not_name r in auto)
qed

lemma rest_name_ends: "head_level (skip_blanks rest) < 99 \<Longrightarrow> name_ends rest"
  using rest_chars by (auto simp: name_ends_def)

lemma rest_not_update: "head_level r < 99 \<Longrightarrow> \<not> starts_at r 0 ''++'' \<and> \<not> starts_at r 0 ''--''"
  by (cases r; cases "tl r") (auto simp: head_simps)

lemma factor_primary:
  "\<not> starts_at (look s) 0 ''++'' \<Longrightarrow> \<not> starts_at (look s) 0 ''--'' \<Longrightarrow> ev c Factor s = parse_primary c (ev c) (skip_ws s)"
  by (simp add: ev_functions(14) parse_factor_def Let_def look_tests)

lemma digit_chars:
  assumes "is_ascii_digit a"
  shows "a \<notin> set ''+-!~(''" and "\<not> is_ascii_whitespace a" and "\<not> is_shell_name_start a"
  using assms by (auto simp: is_ascii_whitespace_def is_shell_name_start_def is_ascii_alphabetic_def
      is_ascii_lowercase_def is_ascii_uppercase_def is_ascii_digit_def)

lemma name_start_chars:
  assumes "is_shell_name_start a"
  shows "a \<notin> set ''+-!~(''" and "\<not> is_ascii_whitespace a" and "\<not> is_ascii_digit a"
  using assms by (auto simp: is_ascii_whitespace_def is_shell_name_start_def is_ascii_alphabetic_def
      is_ascii_lowercase_def is_ascii_uppercase_def is_ascii_digit_def)

lemma literal_outcome:
  assumes tok: "tok \<noteq> []" "is_ascii_digit (hd tok)" "list_all literal_char tok"
  shows "closed c 14 (Lit tok) tok"
  unfolding closed_def
proof (intro allI impI)
  fix s rest
  assume h: "ready c s \<and> look s = skip_blanks (tok @ rest) \<and> head_level (skip_blanks rest) < 14"
  have err: "ap_error s = None" using h by (simp add: ready_def)
  have t: "token tok" using tok digit_chars(2) by (simp add: token_def)
  then have l: "look s = tok @ rest" using h by (simp add: token_look)
  obtain a u where a: "tok = a # u" "is_ascii_digit a" using tok by (cases tok) auto
  have "rest = [] \<or> \<not> literal_char (hd rest)" using rest_chars [of rest] h by auto
  then have take: "takeWhile literal_char (look s) = tok"
    using tok(3) l by (cases rest) (auto simp: list_all_iff takeWhile_append takeWhile_eq_all_conv [THEN iffD2])
  have v: "view s (advance (length tok) (skip_ws s)) rest (effects s)"
    by (rule view_advance(1) [OF ready_view t]) (use h in auto)
  have "ev c Factor s = parse_primary c (ev c) (skip_ws s)"
    by (rule factor_primary) (use a digit_chars(1) [OF a(2)] in \<open>simp_all add: l\<close>)
  also have "\<dots> = parse_number (skip_ws s)"
    using a digit_chars [OF a(2)] by (auto simp: parse_primary_def peek_left l)
  also have "outcome s rest (den c (0 < ap_noeval s) (Lit tok) (effects s)) \<dots>"
  proof (cases "strlong_value tok")
    case (Inl m)
    then show ?thesis
      by (simp add: parse_number_def Let_def take outcome_def fails_def fail_display_def record_error_def err)
  next
    case (Inr w)
    then show ?thesis by (simp add: parse_number_def Let_def take outcome_ret strlong_value_in_i64 view_note v)
  qed
  finally show "outcome s rest (den c (0 < ap_noeval s) (Lit tok) (effects s)) (ev c (cmd_at 14) s)" by simp
qed

lemma variable_primary:
  assumes "look s = x @ u" and x: "name_ok c x"
  shows "ev c Factor s = parse_variable c (ev c) (skip_ws s)"
proof -
  obtain a v where a: "x = a # v" "is_shell_name_start a" using x by (cases x) (auto simp: name_ok_def)
  have "ev c Factor s = parse_primary c (ev c) (skip_ws s)"
    by (rule factor_primary) (use a name_start_chars(1) [OF a(2)] in \<open>simp_all add: assms(1)\<close>)
  then show ?thesis using a name_start_chars [OF a(2)] by (auto simp: parse_primary_def peek_left assms(1))
qed

lemma variable_outcome:
  assumes x: "name_ok c x"
  shows "closed c 14 (Var x) x"
  unfolding closed_def
proof (intro allI impI)
  fix s rest
  assume h: "ready c s \<and> look s = skip_blanks (x @ rest) \<and> head_level (skip_blanks rest) < 14"
  have l: "look s = x @ rest" using h token_look [OF name_token [OF x]] by simp
  have v0: "view s (skip_ws s) (x @ rest) (effects s)" by (rule view_skip_ws [OF ready_view]) (use h in auto)
  have ends: "name_ends rest" using rest_name_ends h by simp
  note lv = parse_lvalue_ok [OF v0 x ends]
  let ?n = "advance (length x) (skip_ws (skip_ws s))"
  let ?o = "note_operand (ap_pos (skip_ws s)) (skip_ws ?n)"
  have o: "view s ?o rest (effects s)" by (intro view_note view_skip_ws lv(2))
  have "ready c s" and "numeric c (fst (effects s))" using h by (simp_all add: ready_def effects_def)
  then have r: "ready c ?o" by (rule view_ready [OF o])
  have "\<not> starts_with ''++'' (skip_ws ?n) \<and> \<not> starts_with ''--'' (skip_ws ?n)"
    using rest_not_update [of "skip_blanks rest"] h view_look [OF lv(2)] by (simp add: look_tests)
  then have "parse_variable c (ev c) (skip_ws s) = ret (if 0 < ap_noeval s then 0 else number_of c (ap_vars s) x) ?o"
    using lvalue_value_ok [OF r, of x] by (simp add: parse_variable_def Let_def try_lvalue [OF lv(1)] view_noeval [OF o] view_vars [OF o] ret_def)
  moreover have "outcome s rest (den c (0 < ap_noeval s) (Var x) (effects s))
      (ret (if 0 < ap_noeval s then 0 else number_of c (ap_vars s) x) ?o)"
    using o by (simp add: outcome_ret number_of_in_i64 effects_def)
  ultimately show "outcome s rest (den c (0 < ap_noeval s) (Var x) (effects s)) (ev c (cmd_at 14) s)"
    by (simp add: variable_primary [OF l x])
qed

definition update_text :: "int \<Rightarrow> bytes" where
  "update_text d = (if d = 1 then ''++'' else ''--'')"

lemma postfix_outcome:
  assumes x: "name_ok c x" and w: "list_all is_ascii_whitespace w" and d: "d = 1 \<or> d = - 1"
  shows "closed c 14 (PostUpd d x) (x @ w @ update_text d)"
  unfolding closed_def
proof (intro allI impI)
  fix s rest
  assume h: "ready c s \<and> look s = skip_blanks ((x @ w @ update_text d) @ rest) \<and> head_level (skip_blanks rest) < 14"
  let ?t = "w @ update_text d @ rest"
  have l: "look s = x @ ?t" using h token_look [OF name_token [OF x]] by simp
  have v0: "view s (skip_ws s) (x @ ?t) (effects s)" by (rule view_skip_ws [OF ready_view]) (use h in auto)
  have ends: "name_ends ?t"
    by (rule name_ends_append [OF w]) (simp add: name_ends_def update_text_def char_classes)
  note lv = parse_lvalue_ok [OF v0 x ends]
  let ?n = "advance (length x) (skip_ws (skip_ws s))"
  have tok: "token (update_text d)" "length (update_text d) = 2" by (simp_all add: update_text_def)
  note at = view_operator [OF lv(2) w tok(1)]
  let ?o = "note_operand (ap_pos (skip_ws s)) (advance 2 (skip_ws ?n))"
  have o: "view s ?o rest (effects s)" using view_note(2) [OF view_advance(1) [OF at(1) tok(1)]] tok(2) by simp
  have "parse_variable c (ev c) (skip_ws s) = update_lvalue c (ev c) x d False ?o"
    using at(2) d by (auto simp: parse_variable_def Let_def try_lvalue [OF lv(1)] look_tests update_text_def)
  moreover have "outcome s rest (upd c (0 < ap_noeval s) False d x (effects s)) (update_lvalue c (ev c) x d False ?o)"
    by (rule update_outcome [OF _ _ o]) (use h in \<open>simp_all add: ready_def effects_def\<close>)
  ultimately show "outcome s rest (den c (0 < ap_noeval s) (PostUpd d x) (effects s)) (ev c (cmd_at 14) s)"
    by (simp add: variable_primary [OF l x])
qed

lemma prefix_outcome:
  assumes x: "name_ok c x" and w: "list_all is_ascii_whitespace w" and d: "d = 1 \<or> d = - 1"
  shows "closed c 14 (PreUpd d x) (update_text d @ w @ x)"
  unfolding closed_def
proof (intro allI impI)
  fix s rest
  assume h: "ready c s \<and> look s = skip_blanks ((update_text d @ w @ x) @ rest) \<and> head_level (skip_blanks rest) < 14"
  have tok: "token (update_text d)" "length (update_text d) = 2" by (simp_all add: update_text_def)
  have l: "look s = update_text d @ w @ x @ rest" using h token_look [OF tok(1)] by simp
  have v0: "view s s (update_text d @ w @ x @ rest) (effects s)" by (rule ready_view) (use h in auto)
  have v1: "view s (advance 2 (skip_ws s)) (x @ rest) (effects s)"
    using view_advance(1) [OF v0 tok(1)] tok(2) w by (simp add: view_def skip_blanks_append)
  have ends: "name_ends rest" using rest_name_ends h by simp
  note lv = parse_lvalue_ok [OF v1 x ends]
  let ?n = "note_op (ap_pos (skip_ws s)) (advance (length x) (skip_ws (advance 2 (skip_ws s))))"
  have n: "view s ?n rest (effects s)" by (intro view_note lv(2))
  have upd: "outcome s rest (upd c (0 < ap_noeval s) True d x (effects s)) (update_lvalue c (ev c) x d True ?n)"
    by (rule update_outcome [OF _ _ n]) (use h in \<open>simp_all add: ready_def effects_def\<close>)
  have post: "post_incdec_after_preincdec s2 = skip_ws s2" if "view s s2 rest y" for s2 y
    using rest_not_update [of "skip_blanks rest"] h view_look [OF that]
    by (simp add: post_incdec_after_preincdec_def Let_def look_tests)
  have "outcome s rest (upd c (0 < ap_noeval s) True d x (effects s))
    (case update_lvalue c (ev c) x d True ?n of Some (Val v, s) \<Rightarrow> Some (Val v, post_incdec_after_preincdec s) | r \<Rightarrow> r)"
  proof (cases "upd c (0 < ap_noeval s) True d x (effects s)")
    case (Inl m)
    then show ?thesis using upd by (auto simp: outcome_def fails_def)
  next
    case (Inr p)
    then obtain v y s2 where "upd c (0 < ap_noeval s) True d x (effects s) = Inr (v, y)" "in_i64 v"
      "update_lvalue c (ev c) x d True ?n = Some (Val v, s2)" "view s s2 rest y"
      using upd by (cases p) (auto simp: outcome_def)
    then show ?thesis using post view_skip_ws by (auto simp: outcome_def)
  qed
  moreover have "ev c Factor s = (case update_lvalue c (ev c) x d True ?n of
      Some (Val v, s) \<Rightarrow> Some (Val v, post_incdec_after_preincdec s) | r \<Rightarrow> r)"
    using d l by (auto simp: ev_functions(14) parse_factor_def Let_def look_tests update_text_def prefix_update_def
        try_lvalue [OF lv(1)])
  ultimately show "outcome s rest (den c (0 < ap_noeval s) (PreUpd d x) (effects s)) (ev c (cmd_at 14) s)" by simp
qed

lemma unary_outcome:
  assumes e: "closed c 14 e t" and sep: "sep t" "t \<noteq> []"
  shows "closed c 14 (Unary u e) (unop_char u # t)"
  unfolding closed_def
proof (intro allI impI)
  fix s rest
  assume h: "ready c s \<and> look s = skip_blanks ((unop_char u # t) @ rest) \<and> head_level (skip_blanks rest) < 14"
  obtain a t' where a: "t = a # t'" "a \<notin> set ''+-=<>&|*''" using sep by (cases t) (auto simp: sep_def)
  have tok: "token [unop_char u]" by (cases u) (simp_all add: token_def is_ascii_whitespace_def)
  have l: "look s = unop_char u # t @ rest" using h token_look [OF tok, of "t @ rest"] by simp
  have v0: "view s s ([unop_char u] @ t @ rest) (effects s)" by (rule ready_view) (use h in auto)
  have v1: "view s (take_op 1 (skip_ws s)) (t @ rest) (effects s)" using view_take_op(1) [OF v0 tok] by simp
  have r: "ready c s" "numeric c (fst (effects s))" using h by (simp_all add: ready_def effects_def)
  have "ev c Factor s = parse_primary c (ev c) (skip_ws s)"
    by (rule factor_primary) (use a in \<open>cases u; simp add: l\<close>)+
  moreover have "starts_at (ap_input (skip_ws s)) (ap_pos (skip_ws s) + 1) ''='' = False"
    using a(2) l a(1) left_skip_ws [of s] starts_at_drop [of "ap_input s" "ap_pos (skip_ws s) + 1"]
    by (simp add: left_def drop_Suc tl_drop [symmetric])
  moreover have "outcome s rest (den c (0 < ap_noeval s) e (effects s)) (ev c Factor (take_op 1 (skip_ws s)))"
    using closed_use [OF e r v1] h by simp
  moreover have "outcome s rest (bindr (den c (0 < ap_noeval s) e (effects s)) (\<lambda>v x. Inr (unop_value u v, x)))
      (try_then (ev c Factor) (\<lambda>v. ret (unop_value u v)) (take_op 1 (skip_ws s)))"
    by (rule outcome_try, rule calculation(3)) (cases u; simp add: outcome_ret)
  moreover have "try_then m ret s = m s" for m :: "int action" and s
    by (simp add: try_then_def ret_def split: option.split prod.split res.split)
  ultimately show "outcome s rest (den c (0 < ap_noeval s) (Unary u e) (effects s)) (ev c (cmd_at 14) s)"
    using l by (cases u) (simp_all add: parse_primary_def peek_left)
qed

lemma paren_outcome:
  assumes e: "closed c 1 e t" and w: "list_all is_ascii_whitespace w"
  shows "closed c 14 e (''('' @ t @ w @ '')'')"
  unfolding closed_def
proof (intro allI impI)
  fix s rest
  assume h: "ready c s \<and> look s = skip_blanks ((''('' @ t @ w @ '')'') @ rest) \<and> head_level (skip_blanks rest) < 14"
  let ?rest = "w @ '')'' @ rest"
  have l: "look s = ''('' @ t @ ?rest" using h token_look [OF token_op(8), of "t @ ?rest"] by simp
  have v0: "view s s (''('' @ t @ ?rest) (effects s)" by (rule ready_view) (use h in auto)
  have v1: "view s (take_op 1 (skip_ws s)) (t @ ?rest) (effects s)" using view_take_op(1) [OF v0 token_op(8)] by simp
  have r: "ready c s" "numeric c (fst (effects s))" using h by (simp_all add: ready_def effects_def)
  have close: "head_level (skip_blanks ?rest) < 1"
    using w token_look [OF token_op(9), of rest] by (simp add: skip_blanks_append head_simps)
  have bind: "bindr d (\<lambda>v x. Inr (v, x)) = d" for d by (simp add: bindr_def split: sum.split)
  have "ev c Factor s = parse_primary c (ev c) (skip_ws s)" by (rule factor_primary) (simp_all add: l)
  also have "\<dots> = parse_paren (ev c) (skip_ws s)" using l by (simp add: parse_primary_def peek_left)
  also have "outcome s rest (bindr (den c (0 < ap_noeval s) e (effects s)) (\<lambda>v x. Inr (v, x))) \<dots>"
    unfolding parse_paren_def Let_def
  proof (rule outcome_try)
    show "outcome s ?rest (den c (0 < ap_noeval s) e (effects s)) (ev c Comma (take_op 1 (skip_ws s)))"
      using closed_use [OF e r v1 close] by simp
  next
    fix v x s'
    assume v: "in_i64 v" and s': "view s s' ?rest x"
    note at = view_operator [OF s' w token_op(9)]
    have "view s (take_op 1 (skip_ws s')) rest x" using view_take_op(1) [OF at(1) token_op(9)] by simp
    then show "outcome s rest (Inr (v, x)) (if peek (skip_ws s') \<noteq> Some (CHR '')'')
        then fail ''missing `)'' (error_token (skip_ws s')) (skip_ws s') else ret v (take_op 1 (skip_ws s')))"
      using at(2) v by (simp add: look_tests outcome_ret)
  qed
  finally show "outcome s rest (den c (0 < ap_noeval s) e (effects s)) (ev c (cmd_at 14) s)" by (simp add: bind)
qed

subsection \<open>The grammar\<close>

text \<open>
  \<open>phrase c l t e\<close>: the text \<open>t\<close> is an expression of level \<open>l\<close> (the levels of \<open>head_level\<close>; 14 is a
  factor) that stands for \<open>e\<close>.  Blanks may precede any phrase and any operator.  The comma, the
  comparisons (all six of one level), shifts, sums and products associate to the left; assignments,
  conditionals and powers to the right.
\<close>

abbreviation blank :: "bytes \<Rightarrow> bool" where
  "blank w \<equiv> list_all is_ascii_whitespace w"

inductive phrase :: "arith_ctx \<Rightarrow> nat \<Rightarrow> bytes \<Rightarrow> expr \<Rightarrow> bool" for c :: arith_ctx where
  ph_literal: "tok \<noteq> [] \<Longrightarrow> is_ascii_digit (hd tok) \<Longrightarrow> list_all literal_char tok \<Longrightarrow> phrase c 14 tok (Lit tok)"
| ph_variable: "name_ok c x \<Longrightarrow> phrase c 14 x (Var x)"
| ph_prefix: "name_ok c x \<Longrightarrow> blank w \<Longrightarrow> d = 1 \<or> d = - 1 \<Longrightarrow> phrase c 14 (update_text d @ w @ x) (PreUpd d x)"
| ph_postfix: "name_ok c x \<Longrightarrow> blank w \<Longrightarrow> d = 1 \<or> d = - 1 \<Longrightarrow> phrase c 14 (x @ w @ update_text d) (PostUpd d x)"
| ph_unary: "phrase c 14 t e \<Longrightarrow> sep t \<Longrightarrow> phrase c 14 (unop_char u # t) (Unary u e)"
| ph_paren: "phrase c 1 t e \<Longrightarrow> blank w \<Longrightarrow> phrase c 14 (''('' @ t @ w @ '')'') e"
| ph_power: "phrase c 14 t1 e1 \<Longrightarrow> phrase c 13 t2 e2 \<Longrightarrow> blank w \<Longrightarrow> sep t2 \<Longrightarrow> phrase c 13 (t1 @ w @ ''**'' @ t2) (Pow e1 e2)"
| ph_binary: "phrase c (op_level b) t1 e1 \<Longrightarrow> phrase c (Suc (op_level b)) t2 e2 \<Longrightarrow> blank w \<Longrightarrow> sep t2
    \<Longrightarrow> phrase c (op_level b) (t1 @ w @ op_text b @ t2) (Bin b e1 e2)"
| ph_and: "phrase c 5 t1 e1 \<Longrightarrow> phrase c 6 t2 e2 \<Longrightarrow> blank w \<Longrightarrow> sep t2 \<Longrightarrow> phrase c 5 (t1 @ w @ ''&&'' @ t2) (LAnd e1 e2)"
| ph_or: "phrase c 4 t1 e1 \<Longrightarrow> phrase c 5 t2 e2 \<Longrightarrow> blank w \<Longrightarrow> sep t2 \<Longrightarrow> phrase c 4 (t1 @ w @ ''||'' @ t2) (LOr e1 e2)"
| ph_conditional: "phrase c 4 t1 e1 \<Longrightarrow> phrase c 1 t2 e2 \<Longrightarrow> phrase c 3 t3 e3 \<Longrightarrow> blank w \<Longrightarrow> blank w'
    \<Longrightarrow> phrase c 3 (t1 @ w @ ''?'' @ t2 @ w' @ '':'' @ t3) (Cond e1 e2 e3)"
| ph_assign: "phrase c 2 t e \<Longrightarrow> name_ok c x \<Longrightarrow> blank w \<Longrightarrow> op \<in> set assignment_operators
    \<Longrightarrow> phrase c 2 (x @ w @ op @ t) (Assign x op e)"
| ph_comma: "phrase c 1 t1 e1 \<Longrightarrow> phrase c 2 t2 e2 \<Longrightarrow> blank w \<Longrightarrow> phrase c 1 (t1 @ w @ '','' @ t2) (Seq e1 e2)"
| ph_blank: "phrase c l t e \<Longrightarrow> blank w \<Longrightarrow> phrase c l (w @ t) e"
| ph_up: "phrase c (Suc l) t e \<Longrightarrow> 0 < l \<Longrightarrow> l < 14 \<Longrightarrow> phrase c l t e"

lemma phrase_start: "phrase c l t e \<Longrightarrow> \<exists>a u. t \<noteq> [] \<and> skip_blanks (t @ r) = a # u
    \<and> (is_ascii_digit a \<or> is_shell_name_start a \<or> a \<in> set ''+-!~('')"
proof (induction arbitrary: r rule: phrase.induct)
  case (ph_literal tok)
  then show ?case using digit_chars(2) by (cases tok) auto
next
  case (ph_variable x)
  then show ?case using name_start_chars(2) by (cases x) (auto simp: name_ok_def)
next
  case (ph_prefix x w d)
  then show ?case by (simp add: update_text_def is_ascii_whitespace_def)
next
  case (ph_postfix x w d)
  then show ?case using name_start_chars(2) by (cases x) (auto simp: name_ok_def)
next
  case (ph_unary t e u)
  then show ?case by (cases u) (simp_all add: is_ascii_whitespace_def)
next
  case (ph_assign t e x w op)
  then show ?case using name_start_chars(2) by (cases x) (auto simp: name_ok_def)
next
  case (ph_blank l t e w)
  then show ?case by (simp add: skip_blanks_append)
qed (simp_all add: is_ascii_whitespace_def)

lemma phrase_not_equals: "phrase c l t e \<Longrightarrow> \<not> starts_at (t @ r) 0 ''=''"
  and phrase_not_colon: "phrase c l t e \<Longrightarrow> \<exists>a u. skip_blanks (t @ r) = a # u \<and> a \<noteq> CHR '':''"
  and phrase_nonempty: "phrase c l t e \<Longrightarrow> t \<noteq> []"
proof -
  assume p: "phrase c l t e"
  obtain a u where a: "t \<noteq> []" "skip_blanks (t @ r) = a # u" "is_ascii_digit a \<or> is_shell_name_start a \<or> a \<in> set ''+-!~(''"
    using phrase_start [OF p] by blast
  have colon: "a \<noteq> CHR '':'' \<and> a \<noteq> CHR ''=''" using a(3) by (auto simp: char_classes)
  then show "\<exists>a u. skip_blanks (t @ r) = a # u \<and> a \<noteq> CHR '':''" using a(2) by auto
  show "t \<noteq> []" by (rule a(1))
  show "\<not> starts_at (t @ r) 0 ''=''"
  proof
    assume "starts_at (t @ r) 0 ''=''"
    then obtain v where "t @ r = ''='' @ v" using starts_at_append by metis
    then show False using a(2) colon by (simp add: is_ascii_whitespace_def)
  qed
qed

lemma sep_append: "t \<noteq> [] \<Longrightarrow> sep t \<Longrightarrow> sep (t @ r)"
  by (cases t) (simp_all add: sep_def)

lemma phrase_plainly: "phrase c l t e \<Longrightarrow> 3 \<le> l \<Longrightarrow> head_level (skip_blanks r) < 99 \<Longrightarrow> plainly (skip_blanks (t @ r))"
proof (induction arbitrary: r rule: phrase.induct)
  case (ph_literal tok)
  then show ?case using digit_chars [of "hd tok"] by (cases tok) (auto simp: plainly_def)
next
  case (ph_variable x)
  then show ?case using name_length_ok [OF ph_variable(1) rest_name_ends] token_look [OF name_token [OF ph_variable(1)]]
    by (auto simp: plainly_def name_ok_def Let_def)
next
  case (ph_prefix x w d)
  then show ?case by (simp add: update_text_def is_ascii_whitespace_def plainly_def is_shell_name_start_def char_classes)
next
  case (ph_postfix x w d)
  have ends: "name_ends (w @ update_text d @ r)"
    by (rule name_ends_append [OF ph_postfix(2)]) (simp add: name_ends_def update_text_def char_classes)
  have tok: "token (update_text d)" by (simp add: update_text_def)
  show ?case using name_length_ok [OF ph_postfix(1) ends] token_look [OF name_token [OF ph_postfix(1)]] ph_postfix(1,2)
      token_look [OF tok, of r]
    by (auto simp: plainly_def name_ok_def Let_def skip_blanks_append) (simp add: update_text_def split: if_splits)
next
  case (ph_unary t e u)
  then show ?case by (cases u) (simp_all add: is_ascii_whitespace_def plainly_def char_classes)
next
  case (ph_paren t e w)
  then show ?case by (simp add: is_ascii_whitespace_def plainly_def char_classes)
next
  case (ph_power t1 e1 t2 e2 w)
  then show ?case using head_power [of w "t2 @ r"] sep_append [OF phrase_nonempty [OF ph_power(2)], of r] by simp
next
  case (ph_binary b t1 e1 t2 e2 w)
  have "head_level (skip_blanks (w @ op_text b @ t2 @ r)) = op_level b"
    using head_level_op [OF sep_append [OF phrase_nonempty [OF ph_binary(2)], of r]] ph_binary token_look [OF token_op(1)]
    by (simp add: skip_blanks_append)
  then show ?case using ph_binary by (cases b) simp_all
next
  case (ph_and t1 e1 t2 e2 w)
  then show ?case using token_look [OF token_op(3), of "t2 @ r"] sep_append [OF phrase_nonempty [OF ph_and(2)], of r]
    by (simp add: skip_blanks_append head_simps)
next
  case (ph_or t1 e1 t2 e2 w)
  then show ?case using token_look [OF token_op(2), of "t2 @ r"] sep_append [OF phrase_nonempty [OF ph_or(2)], of r]
    by (simp add: skip_blanks_append head_simps)
next
  case (ph_conditional t1 e1 t2 e2 t3 e3 w w')
  then show ?case using token_look [OF token_op(5), of "t2 @ w' @ '':'' @ t3 @ r"]
    by (simp add: skip_blanks_append head_simps)
next
  case (ph_blank l t e w)
  then show ?case by (simp add: skip_blanks_append)
qed simp_all

subsection \<open>Every phrase evaluates to its denotation\<close>

definition opened :: "arith_ctx \<Rightarrow> nat \<Rightarrow> expr \<Rightarrow> bytes \<Rightarrow> bool" where
  "opened c l e t \<longleftrightarrow> (\<forall>s rest. ready c s \<and> look s = skip_blanks (t @ rest) \<and> head_level (skip_blanks rest) \<le> l
     \<longrightarrow> leads c l s rest (den c (0 < ap_noeval s) e (effects s)) (ev c (cmd_at l) s))"

lemma opened_closed: "opened c l e t \<Longrightarrow> l \<in> loop_levels \<Longrightarrow> closed c l e t"
  unfolding opened_def closed_def using leads_stop by (meson less_imp_le)

lemma closed_opened:
  assumes e: "closed c (Suc l) e t" and l: "l \<in> loop_levels"
  shows "opened c l e t"
  unfolding opened_def
proof (intro allI impI)
  fix s rest
  assume h: "ready c s \<and> look s = skip_blanks (t @ rest) \<and> head_level (skip_blanks rest) \<le> l"
  have bind: "bindr d (\<lambda>v x. Inr (v, x)) = d" for d by (simp add: bindr_def split: sum.split)
  have "leads c l s rest (bindr (den c (0 < ap_noeval s) e (effects s)) (\<lambda>v x. Inr (v, x))) (ev c (cmd_at l) s)"
    unfolding ev_pair [OF l]
  proof (rule leads_try [where t = rest])
    show "outcome s rest (den c (0 < ap_noeval s) e (effects s)) (ev c (cmd_at (Suc l)) s)"
      using e h by (simp add: closed_def)
  qed (rule leads_loop)
  then show "leads c l s rest (den c (0 < ap_noeval s) e (effects s)) (ev c (cmd_at l) s)" by (simp add: bind)
qed

text \<open>The chain of a left-associative level: the left operand, an operator, the rest of the loop.\<close>

lemma opened_chain:
  assumes e1: "opened c l e1 t1" and head: "head_level (skip_blanks u) = l"
    and r: "ready c s" "look s = skip_blanks (t1 @ u)"
    and step: "\<And>v x s'. in_i64 v \<Longrightarrow> numeric c (fst x) \<Longrightarrow> view s s' u x
        \<Longrightarrow> leads c l s rest (h v x) (ev c (loop_at l v) s')"
  shows "leads c l s rest (bindr (den c (0 < ap_noeval s) e1 (effects s)) h) (ev c (cmd_at l) s)"
proof (rule leads_bind)
  show "leads c l s u (den c (0 < ap_noeval s) e1 (effects s)) (ev c (cmd_at l) s)"
    using e1 r head by (simp add: opened_def)
next
  fix v x s'
  assume v: "in_i64 v" and d: "den c (0 < ap_noeval s) e1 (effects s) = Inr (v, x)" and s': "view s s' u x"
  have "numeric c (fst (effects s))" using r by (simp add: ready_def effects_def)
  from step [OF v numeric_den [OF d this] s'] show "leads c l s rest (h v x) (ev c (loop_at l v) s')" .
qed

definition correct :: "arith_ctx \<Rightarrow> nat \<Rightarrow> expr \<Rightarrow> bytes \<Rightarrow> bool" where
  "correct c l e t \<longleftrightarrow> closed c l e t \<and> (l \<in> loop_levels \<longrightarrow> opened c l e t)"

lemma correct_opened: "opened c l e t \<Longrightarrow> l \<in> loop_levels \<Longrightarrow> correct c l e t"
  by (simp add: correct_def opened_closed)

lemma correct_closed: "closed c l e t \<Longrightarrow> l \<notin> loop_levels \<Longrightarrow> correct c l e t"
  by (simp add: correct_def)

lemma levels: "14 \<notin> loop_levels" "13 \<notin> loop_levels" "3 \<notin> loop_levels" "2 \<notin> loop_levels"
  "1 \<in> loop_levels" "4 \<in> loop_levels" "5 \<in> loop_levels"
  by (simp_all add: loop_levels_def)

lemma binary_opened:
  assumes e1: "opened c (op_level b) e1 t1" and e2: "closed c (Suc (op_level b)) e2 t2"
    and w: "blank w" and sep: "sep t2" "t2 \<noteq> []"
  shows "opened c (op_level b) (Bin b e1 e2) (t1 @ w @ op_text b @ t2)"
  unfolding opened_def den.simps
proof (intro allI impI)
  fix s rest
  assume h: "ready c s \<and> look s = skip_blanks ((t1 @ w @ op_text b @ t2) @ rest) \<and> head_level (skip_blanks rest) \<le> op_level b"
  have sep2: "sep (t2 @ rest)" using sep_append [OF sep(2,1)] .
  show "leads c (op_level b) s rest (bindr (den c (0 < ap_noeval s) e1 (effects s)) (\<lambda>v x.
      bindr (den c (0 < ap_noeval s) e2 x) (\<lambda>r x. case den_op (0 < ap_noeval s) b v r of Inl m \<Rightarrow> Inl m | Inr w \<Rightarrow> Inr (w, x))))
    (ev c (cmd_at (op_level b)) s)"
  proof (rule opened_chain [OF e1])
    show "head_level (skip_blanks (w @ op_text b @ t2 @ rest)) = op_level b"
      using head_level_op [OF sep2] token_look [OF token_op(1)] w by (simp add: skip_blanks_append)
    fix v x s'
    assume v: "in_i64 v" and x: "numeric c (fst x)" and s': "view s s' (w @ op_text b @ t2 @ rest) x"
    show "leads c (op_level b) s rest (bindr (den c (0 < ap_noeval s) e2 x)
        (\<lambda>r x. case den_op (0 < ap_noeval s) b v r of Inl m \<Rightarrow> Inl m | Inr w \<Rightarrow> Inr (w, x))) (ev c (loop_at (op_level b) v) s')"
    proof (rule binary_step [OF s' w sep2 v])
      fix s1
      assume s1: "view s s1 (t2 @ rest) x"
      have "ready c s1" using view_ready [OF s1] h x by simp
      then show "outcome s1 rest (den c (0 < ap_noeval s) e2 x) (ev c (cmd_at (Suc (op_level b))) s1)"
        using e2 h view_look [OF s1] by (simp add: closed_def view_noeval [OF s1, symmetric] view_effects [OF s1, symmetric])
    qed
  qed (use h in simp_all)
qed

lemma and_opened:
  assumes e1: "opened c 5 e1 t1" and e2: "closed c 6 e2 t2" and w: "blank w" and sep: "sep t2" "t2 \<noteq> []"
    and plain: "\<And>r. head_level (skip_blanks r) < 99 \<Longrightarrow> plainly (skip_blanks (t2 @ r))"
  shows "opened c 5 (LAnd e1 e2) (t1 @ w @ ''&&'' @ t2)"
  unfolding opened_def den.simps
proof (intro allI impI, rule opened_chain [OF e1])
  fix s rest
  assume h: "ready c s \<and> look s = skip_blanks ((t1 @ w @ ''&&'' @ t2) @ rest) \<and> head_level (skip_blanks rest) \<le> 5"
  show "head_level (skip_blanks (w @ ''&&'' @ t2 @ rest)) = 5"
    using token_look [OF token_op(3), of "t2 @ rest"] sep_append [OF sep(2,1), of rest] w
    by (simp add: skip_blanks_append head_simps)
  show "ready c s" and "look s = skip_blanks (t1 @ w @ ''&&'' @ t2 @ rest)" using h by simp_all
  fix v x s'
  assume "in_i64 v" and x: "numeric c (fst x)" and "view s s' (w @ ''&&'' @ t2 @ rest) x"
  then show "leads c 5 s rest (if v = 0 then bindr (den c True e2 x) (\<lambda>r x. Inr (0, x))
     else bindr (den c (0 < ap_noeval s) e2 x) (\<lambda>r x. Inr (of_flag (r \<noteq> 0), x))) (ev c (loop_at 5 v) s')"
    using and_step [OF _ w _ e2 plain [of rest] _ x] h by simp
qed

lemma or_opened:
  assumes e1: "opened c 4 e1 t1" and e2: "closed c 5 e2 t2" and w: "blank w" and sep: "sep t2" "t2 \<noteq> []"
    and plain: "\<And>r. head_level (skip_blanks r) < 99 \<Longrightarrow> plainly (skip_blanks (t2 @ r))"
  shows "opened c 4 (LOr e1 e2) (t1 @ w @ ''||'' @ t2)"
  unfolding opened_def den.simps
proof (intro allI impI, rule opened_chain [OF e1])
  fix s rest
  assume h: "ready c s \<and> look s = skip_blanks ((t1 @ w @ ''||'' @ t2) @ rest) \<and> head_level (skip_blanks rest) \<le> 4"
  show "head_level (skip_blanks (w @ ''||'' @ t2 @ rest)) = 4"
    using token_look [OF token_op(2), of "t2 @ rest"] sep_append [OF sep(2,1), of rest] w
    by (simp add: skip_blanks_append head_simps)
  show "ready c s" and "look s = skip_blanks (t1 @ w @ ''||'' @ t2 @ rest)" using h by simp_all
  fix v x s'
  assume "in_i64 v" and x: "numeric c (fst x)" and "view s s' (w @ ''||'' @ t2 @ rest) x"
  then show "leads c 4 s rest (if v \<noteq> 0 then bindr (den c True e2 x) (\<lambda>r x. Inr (1, x))
     else bindr (den c (0 < ap_noeval s) e2 x) (\<lambda>r x. Inr (of_flag (r \<noteq> 0), x))) (ev c (loop_at 4 v) s')"
    using or_step [OF _ w _ e2 plain [of rest] _ x] h by simp
qed

lemma comma_opened:
  assumes e1: "opened c 1 e1 t1" and e2: "closed c 2 e2 t2" and w: "blank w"
  shows "opened c 1 (Seq e1 e2) (t1 @ w @ '','' @ t2)"
  unfolding opened_def den.simps
proof (intro allI impI, rule opened_chain [OF e1])
  fix s rest
  assume h: "ready c s \<and> look s = skip_blanks ((t1 @ w @ '','' @ t2) @ rest) \<and> head_level (skip_blanks rest) \<le> 1"
  show "head_level (skip_blanks (w @ '','' @ t2 @ rest)) = 1"
    using token_look [OF token_op(7), of "t2 @ rest"] w by (simp add: skip_blanks_append head_simps)
  show "ready c s" and "look s = skip_blanks (t1 @ w @ '','' @ t2 @ rest)" using h by simp_all
  fix v x s'
  assume "in_i64 v" and x: "numeric c (fst x)" and "view s s' (w @ '','' @ t2 @ rest) x"
  then show "leads c 1 s rest (den c (0 < ap_noeval s) e2 x) (ev c (loop_at 1 v) s')"
    using comma_step [OF _ w _ e2 _ x] h by simp
qed

lemma closed_blank: "closed c l e t \<Longrightarrow> blank w \<Longrightarrow> closed c l e (w @ t)"
  and opened_blank: "opened c l e t \<Longrightarrow> blank w \<Longrightarrow> opened c l e (w @ t)"
  by (simp_all add: closed_def opened_def skip_blanks_append)

lemma power_closed:
  assumes "closed c 14 e1 t1" and "closed c 13 e2 t2" and "blank w" and "\<And>r. sep (t2 @ r)"
  shows "closed c 13 (Pow e1 e2) (t1 @ w @ ''**'' @ t2)"
  unfolding closed_def
proof (intro allI impI)
  fix s rest
  assume h: "ready c s \<and> look s = skip_blanks ((t1 @ w @ ''**'' @ t2) @ rest) \<and> head_level (skip_blanks rest) < 13"
  show "outcome s rest (den c (0 < ap_noeval s) (Pow e1 e2) (effects s)) (ev c (cmd_at 13) s)"
    unfolding cmd_at_levels by (rule power_outcome [OF assms]) (use h in simp_all)
qed

lemma conditional_closed:
  assumes "closed c 4 e1 t1" and "closed c 1 e2 t2" and "closed c 3 e3 t3" and "blank w" and "blank w'"
    and "\<And>r. \<exists>a u. skip_blanks (t2 @ r) = a # u \<and> a \<noteq> CHR '':''"
    and plain: "\<And>r. 3 \<le> (3::nat) \<Longrightarrow> head_level (skip_blanks r) < 99 \<Longrightarrow> plainly (skip_blanks (t3 @ r))"
  shows "closed c 3 (Cond e1 e2 e3) (t1 @ w @ ''?'' @ t2 @ w' @ '':'' @ t3)"
  unfolding closed_def
proof (intro allI impI)
  fix s rest
  assume h: "ready c s \<and> look s = skip_blanks ((t1 @ w @ ''?'' @ t2 @ w' @ '':'' @ t3) @ rest) \<and> head_level (skip_blanks rest) < 3"
  show "outcome s rest (den c (0 < ap_noeval s) (Cond e1 e2 e3) (effects s)) (ev c (cmd_at 3) s)"
    unfolding cmd_at_levels by (rule conditional_outcome [OF assms(1-6) plain]) (use h in simp_all)
qed

lemma assign_closed:
  assumes "closed c 2 e t" and "name_ok c x" and "blank w" and "op \<in> set assignment_operators"
    and "\<And>r. \<not> starts_at (t @ r) 0 ''=''"
  shows "closed c 2 (Assign x op e) (x @ w @ op @ t)"
  unfolding closed_def
proof (intro allI impI)
  fix s rest
  assume h: "ready c s \<and> look s = skip_blanks ((x @ w @ op @ t) @ rest) \<and> head_level (skip_blanks rest) < 2"
  show "outcome s rest (den c (0 < ap_noeval s) (Assign x op e) (effects s)) (ev c (cmd_at 2) s)"
    unfolding cmd_at_levels by (rule assign_expression [OF assms]) (use h in simp_all)
qed

lemma correct_up:
  assumes p: "phrase c (Suc l) t e" and e: "correct c (Suc l) e t" and l: "0 < l" "l < 14"
  shows "correct c l e t"
proof (cases "l \<in> loop_levels")
  case True
  then show ?thesis using closed_opened [OF _ True] e by (intro correct_opened) (simp_all add: correct_def)
next
  case False
  have e': "closed c (Suc l) e t" using e by (simp add: correct_def)
  have "l = 2 \<or> l = 3 \<or> l = 13" using False l by (simp add: loop_levels_def) arith
  then have "closed c l e t"
    using conditional_assignment [OF _ phrase_plainly [OF p]] or_conditional [of c e t] factor_power [of c e t] e' by auto
  then show ?thesis using False by (rule correct_closed)
qed

theorem phrase_correct: "phrase c l t e \<Longrightarrow> correct c l e t"
proof (induction rule: phrase.induct)
  case (ph_literal tok)
  then show ?case by (intro correct_closed literal_outcome levels)
next
  case (ph_variable x)
  then show ?case by (intro correct_closed variable_outcome levels)
next
  case (ph_prefix x w d)
  then show ?case by (intro correct_closed prefix_outcome levels)
next
  case (ph_postfix x w d)
  then show ?case by (intro correct_closed postfix_outcome levels)
next
  case (ph_unary t e u)
  then show ?case using phrase_nonempty by (intro correct_closed unary_outcome levels) (auto simp: correct_def)
next
  case (ph_paren t e w)
  then show ?case by (intro correct_closed paren_outcome levels) (simp add: correct_def)
next
  case (ph_power t1 e1 t2 e2 w)
  then have "closed c 14 e1 t1" "closed c 13 e2 t2" by (simp_all add: correct_def)
  from power_closed [OF this ph_power.hyps(3) sep_append [OF phrase_nonempty [OF ph_power.hyps(2)] ph_power.hyps(4)]]
  show ?case by (intro correct_closed levels)
next
  case (ph_binary b t1 e1 t2 e2 w)
  then show ?case using op_level_loop [of b] phrase_nonempty [OF ph_binary.hyps(2)]
    by (intro correct_opened binary_opened) (simp_all add: correct_def)
next
  case (ph_and t1 e1 t2 e2 w)
  then show ?case using levels phrase_nonempty [OF ph_and.hyps(2)] phrase_plainly [OF ph_and.hyps(2)]
    by (intro correct_opened and_opened) (simp_all add: correct_def)
next
  case (ph_or t1 e1 t2 e2 w)
  then show ?case using levels phrase_nonempty [OF ph_or.hyps(2)] phrase_plainly [OF ph_or.hyps(2)]
    by (intro correct_opened or_opened) (simp_all add: correct_def)
next
  case (ph_conditional t1 e1 t2 e2 t3 e3 w w')
  then have "closed c 4 e1 t1" "closed c 1 e2 t2" "closed c 3 e3 t3" by (simp_all add: correct_def)
  from conditional_closed [OF this ph_conditional.hyps(4,5) phrase_not_colon [OF ph_conditional.hyps(2)]
    phrase_plainly [OF ph_conditional.hyps(3)]]
  show ?case by (intro correct_closed levels) simp
next
  case (ph_assign t e x w op)
  then have "closed c 2 e t" by (simp add: correct_def)
  from assign_closed [OF this ph_assign.hyps(2-4) phrase_not_equals [OF ph_assign.hyps(1)]]
  show ?case by (intro correct_closed levels)
next
  case (ph_comma t1 e1 t2 e2 w)
  then show ?case using levels by (intro correct_opened comma_opened) (simp_all add: correct_def)
next
  case (ph_blank l t e w)
  then show ?case unfolding correct_def using closed_blank opened_blank by blast
next
  case (ph_up l t e)
  show ?case by (rule correct_up [OF ph_up.hyps(1) ph_up.IH ph_up.hyps(2,3)])
qed

end
