(* ===== verification/ArithProps.thy ===== *)
theory ArithProps
  imports ArithDenote
begin

section \<open>Arithmetic evaluation: its properties\<close>

text \<open>
  The properties of \<open>ArithCorrect\<close> and \<open>ArithPhrases\<close> stated on whole evaluations, with concrete
  instances.
\<close>

text \<open>
  C10. Every arithmetic evaluation returns: for every expression text, variable table, attribute and
  environment assignment some amount of fuel is enough and more never changes the answer.  The value is
  a 64-bit integer, and the span of a reported error lies inside the expression it quotes.
\<close>

theorem arith_eval_total:
  "\<exists>N res. \<forall>n. eval_slow c (N + n) value vs ws = Some res
     \<and> (case ar_value res of Val v \<Rightarrow> in_i64 v | _ \<Rightarrow> True)
     \<and> (case ar_error res of Some e \<Rightarrow> ae_tok_start e \<le> ae_display_end e \<and> ae_display_end e \<le> length (ae_expr e) | None \<Rightarrow> True)"
proof -
  let ?t = "normalize_arithmetic_quotes value"
  let ?p = "top_parser ?t vs ws"
  obtain N r s where r: "\<And>n. N \<le> n \<Longrightarrow> arith_run c n Comma ?p = Some (r, s)" "frame undoable ?p s" "\<And>v. r = Val v \<Longrightarrow> in_i64 v"
    using undo.run_good [of Comma ?p c] by (auto simp: good_def)
  have "ap_error (skip_ws s) = Some e \<Longrightarrow> spans e" for e
    using r(2) by (auto simp: frame_def top_parser_def skip_ws_def)
  then have "spans e" if "final_error r' (skip_ws s) = Some e" for r' e
    using final_error_spans that by blast
  then show ?thesis using r(1,3)
    by (intro exI [of _ N] exI [of _ "the (eval_slow c N value vs ws)"])
      (auto simp: eval_slow_def Let_def spans_def in_i64_iff split: option.split res.split)
qed

text \<open>
  C11. The write log explains the variables: after an evaluation it has grown by the assignments made,
  each with the value it replaced, and undoing them from the last to the first gives back the variable
  table the evaluation started from.
\<close>

theorem arith_writes_undo:
  assumes "eval_slow c n value vs ws = Some res"
  shows "\<exists>d. ar_writes res = ws @ d
    \<and> (\<forall>name. undo_writes d (ar_vars res) name = vs name \<or> name \<in> {HASH_TABLE, READONLY_ERROR})"
proof (cases "str_trim (normalize_arithmetic_quotes value) = []")
  case True
  then show ?thesis using assms by (auto simp: eval_slow_def Let_def undo_writes_def intro: exI [of _ "[]"])
next
  case False
  then obtain r s where run: "arith_run c n Comma (top_parser (normalize_arithmetic_quotes value) vs ws) = Some (r, s)"
    and res: "ar_writes res = ap_writes s" "ar_vars res = ap_vars s"
    using assms by (auto simp: eval_slow_def Let_def skip_ws_def)
  have "undoable (vs, ws) (effects s)"
    using run_frames(1) [OF run] by (simp add: frame_def top_parser_def effects_def)
  then show ?thesis using res by (auto simp: undoable_def effects_def bookkeeping_def)
qed

definition no_marks :: arith_ctx where
  "no_marks = \<lparr>marked = \<lambda>_ _. False, process_env = \<lambda>_. None\<rparr>"

definition constant_marks :: arith_ctx where
  "constant_marks = \<lparr>marked = \<lambda>a name. a = ReadonlyAttr \<and> name = ''k'', process_env = \<lambda>_. None\<rparr>"

lemma arith_writes_undo_witness:
  "eval_slow no_marks 40 ''x=3,x+=4'' [''x'' \<mapsto> ''1''] [] \<noteq> None
   \<and> (\<exists>d. ar_writes (the (eval_slow no_marks 40 ''x=3,x+=4'' [''x'' \<mapsto> ''1''] [])) = [] @ d
    \<and> (\<forall>name. undo_writes d (ar_vars (the (eval_slow no_marks 40 ''x=3,x+=4'' [''x'' \<mapsto> ''1''] []))) name
          = [''x'' \<mapsto> ''1''] name \<or> name \<in> {HASH_TABLE, READONLY_ERROR}))"
proof -
  have some: "eval_slow no_marks 40 ''x=3,x+=4'' [''x'' \<mapsto> ''1''] [] \<noteq> None"
    by code_simp
  then obtain res where "eval_slow no_marks 40 ''x=3,x+=4'' [''x'' \<mapsto> ''1''] [] = Some res" by auto
  from arith_writes_undo [OF this] this show ?thesis by simp
qed

text \<open>
  A read-only variable survives every evaluation: whatever the expression, its nested evaluations
  and its errors, the value of a name marked read-only is the one it had.
\<close>

theorem arith_readonly_kept:
  assumes "eval_slow c n value vs ws = Some res" and "marked c ReadonlyAttr name"
    and "name \<notin> {HASH_TABLE, READONLY_ERROR}"
  shows "ar_vars res name = vs name"
proof (cases "str_trim (normalize_arithmetic_quotes value) = []")
  case True
  then show ?thesis using assms by (auto simp: eval_slow_def Let_def)
next
  case False
  then obtain r s where run: "arith_run c n Comma (top_parser (normalize_arithmetic_quotes value) vs ws) = Some (r, s)"
    and res: "ar_vars res = ap_vars s"
    using assms(1) by (auto simp: eval_slow_def Let_def skip_ws_def)
  have "guarded c (vs, ws) (effects s)"
    using run_frames(2) [OF run] by (simp add: frame_def top_parser_def effects_def)
  then show ?thesis using res assms(2,3) by (auto simp: guarded_def effects_def bookkeeping_def)
qed

lemma arith_readonly_kept_witness:
  "eval_slow constant_marks 40 ''k=3'' [''k'' \<mapsto> ''1''] [] \<noteq> None
   \<and> ar_vars (the (eval_slow constant_marks 40 ''k=3'' [''k'' \<mapsto> ''1''] [])) ''k'' = Some ''1''"
proof -
  have "eval_slow constant_marks 40 ''k=3'' [''k'' \<mapsto> ''1''] [] \<noteq> None"
    by code_simp
  then obtain res where "eval_slow constant_marks 40 ''k=3'' [''k'' \<mapsto> ''1''] [] = Some res" by auto
  from arith_readonly_kept [OF this, of "''k''"] this show ?thesis
    by (simp add: constant_marks_def HASH_TABLE_def READONLY_ERROR_def)
qed

text \<open>
  C12. Where values do not count (an operand that short-circuit evaluation skips, the branch of a
  conditional that is not taken), parsing at any level assigns nothing and logs nothing.
\<close>

theorem arith_noeval_silent:
  assumes "arith_run c n k s = Some (r, s')" and "0 < ap_noeval s" and "callable k s"
  shows "ap_vars s' = ap_vars s \<and> ap_writes s' = ap_writes s \<and> ap_noeval s' = ap_noeval s"
  using run_frames(1) [OF assms(1,3)] assms(2) by (simp add: frame_def effects_def)

lemma arith_noeval_silent_witness:
  "\<exists>r s'. arith_run no_marks 40 Comma (top_parser ''x=3'' Map.empty []\<lparr>ap_noeval := 1\<rparr>) = Some (r, s')
     \<and> ap_vars s' ''x'' = None \<and> ap_pos s' = 3"
proof -
  have some: "map_option (ap_pos \<circ> snd) (arith_run no_marks 40 Comma (top_parser ''x=3'' Map.empty []\<lparr>ap_noeval := 1\<rparr>)) = Some 3"
    by code_simp
  then obtain r s' where run: "arith_run no_marks 40 Comma (top_parser ''x=3'' Map.empty []\<lparr>ap_noeval := 1\<rparr>) = Some (r, s')"
    and "ap_pos s' = 3" by auto
  with arith_noeval_silent [OF run] show ?thesis by (auto simp: top_parser_def)
qed

subsection \<open>Whole texts\<close>

lemma normalize_without_backslash: "CHR 0x5C \<notin> set t \<Longrightarrow> normalize_arithmetic_quotes t = t"
  by (induction t rule: normalize_arithmetic_quotes.induct) auto

lemma not_in_all: "list_all P t \<Longrightarrow> \<not> P a \<Longrightarrow> a \<notin> set t"
  by (auto simp: list_all_iff)

lemma backslash_classes:
  "\<not> is_ascii_whitespace (CHR 0x5C)" "\<not> literal_char (CHR 0x5C)" "\<not> is_shell_name_char (CHR 0x5C)"
  by (simp_all add: is_ascii_whitespace_def char_classes)

lemma blank_no_backslash: "blank w \<Longrightarrow> CHR 0x5C \<notin> set w"
  and name_no_backslash: "name_ok c x \<Longrightarrow> CHR 0x5C \<notin> set x"
  using not_in_all [of is_ascii_whitespace] not_in_all [of is_shell_name_char] backslash_classes
  by (auto simp: name_ok_def)

lemma phrase_no_backslash: "phrase c l t e \<Longrightarrow> CHR 0x5C \<notin> set t"
proof (induction rule: phrase.induct)
  case (ph_literal tok)
  then show ?case by (simp add: not_in_all backslash_classes)
next
  case (ph_unary t e u)
  then show ?case by (cases u) simp_all
next
  case (ph_binary b t1 e1 t2 e2 w)
  then show ?case by (cases b) (simp_all add: blank_no_backslash)
next
  case (ph_assign t e x w op)
  have "CHR 0x5C \<notin> set op" using ph_assign.hyps(4) by (simp add: assignment_operators_def, elim disjE) simp_all
  then show ?case using ph_assign by (simp add: blank_no_backslash name_no_backslash)
qed (simp_all add: blank_no_backslash name_no_backslash update_text_def)

lemma trim_by_keeps: "a \<in> set s \<Longrightarrow> \<forall>w \<in> set ws. a \<notin> set w \<Longrightarrow> a \<in> set (trim_by ws s)"
proof (induction ws s rule: trim_by.induct)
  case (1 ws s)
  show ?case
  proof (cases "find (\<lambda>w. w \<noteq> [] \<and> starts_at s 0 w) ws")
    case None
    then show ?thesis using 1 by (subst trim_by.simps) simp
  next
    case (Some w)
    then obtain u where u: "s = w @ u" "w \<in> set ws" using find_SomeD [OF Some] starts_at_append by metis
    then have "a \<in> set (drop (length w) s)" using 1 by auto
    then show ?thesis using 1(1) [OF Some] 1(3) Some by (subst trim_by.simps) simp
  qed
qed

lemma str_trim_keeps: "a \<in> set s \<Longrightarrow> \<forall>w \<in> set white_space_seqs. a \<notin> set w \<Longrightarrow> str_trim s \<noteq> []"
proof -
  assume a: "a \<in> set s" and w: "\<forall>w \<in> set white_space_seqs. a \<notin> set w"
  have "a \<in> set (trim_by (map rev white_space_seqs) (rev (trim_by white_space_seqs s)))"
    using trim_by_keeps [OF a w] w by (intro trim_by_keeps) auto
  then show ?thesis by (auto simp: str_trim_def)
qed

lemma phrase_not_blank: "phrase c l t e \<Longrightarrow> str_trim (t @ w) \<noteq> []"
proof -
  assume p: "phrase c l t e"
  obtain a u where a: "skip_blanks (t @ w) = a # u" "is_ascii_digit a \<or> is_shell_name_start a \<or> a \<in> set ''+-!~(''"
    using phrase_start [OF p, of w] by blast
  have "a \<in> set (t @ w)"
    using a(1) unfolding skip_blanks_def by (metis in_set_conv_decomp_first list.set_intros(1) set_dropWhileD)
  moreover have "33 \<le> byte a \<and> byte a \<le> 126" using a(2) by (auto simp: char_classes)
  then have "\<forall>w \<in> set white_space_seqs. a \<notin> set w" by (auto simp: white_space_seqs_def)
  ultimately show ?thesis by (rule str_trim_keeps)
qed

text \<open>The evaluation of a text, from the outcome of the comma level on it.\<close>

lemma eval_of_outcome:
  assumes p: "phrase c 1 t e" and num: "numeric c vs" and w: "blank w"
  obtains N r s where "\<And>n. eval_slow c (N + n) (t @ w) vs ws =
      Some \<lparr>ar_value = (if r \<noteq> Outside \<and> ap_pos (skip_ws s) \<noteq> length (ap_input (skip_ws s)) then Fail else r),
        ar_error = final_error (if r \<noteq> Outside \<and> ap_pos (skip_ws s) \<noteq> length (ap_input (skip_ws s)) then Fail else r) (skip_ws s),
        ar_vars = ap_vars s, ar_writes = ap_writes s\<rparr>"
    and "outcome (top_parser (t @ w) vs ws) w (den c False e (vs, ws)) (Some (r, s))"
proof -
  let ?p = "top_parser (t @ w) vs ws"
  have norm: "normalize_arithmetic_quotes (t @ w) = t @ w"
    using phrase_no_backslash [OF p] blank_no_backslash [OF w] by (simp add: normalize_without_backslash)
  obtain N x where N: "\<And>n. N \<le> n \<Longrightarrow> arith_run c n Comma ?p = Some x" and x: "ev c Comma ?p = Some x"
    using ev_runs [of Comma ?p c] by auto
  obtain r s where rs: "x = (r, s)" by (cases x)
  have "skip_blanks w = []" using skip_blanks_append [OF w, of "[]"] by simp
  moreover have "ready c ?p" using num by (simp add: ready_def top_parser_def MAX_DEPTH_def)
  moreover have "look ?p = skip_blanks (t @ w)" by (simp add: look_def left_def top_parser_def)
  moreover have "head_level [] < 1" by (simp add: head_level_def)
  moreover have "closed c 1 e t" using phrase_correct [OF p] by (simp add: correct_def)
  ultimately have "outcome ?p w (den c (0 < ap_noeval ?p) e (effects ?p)) (ev c (cmd_at 1) ?p)"
    unfolding closed_def by metis
  then have o: "outcome ?p w (den c False e (vs, ws)) (Some (r, s))"
    using x rs by (simp add: top_parser_def effects_def)
  have run: "eval_slow c (N + n) (t @ w) vs ws =
      Some \<lparr>ar_value = (if r \<noteq> Outside \<and> ap_pos (skip_ws s) \<noteq> length (ap_input (skip_ws s)) then Fail else r),
        ar_error = final_error (if r \<noteq> Outside \<and> ap_pos (skip_ws s) \<noteq> length (ap_input (skip_ws s)) then Fail else r) (skip_ws s),
        ar_vars = ap_vars s, ar_writes = ap_writes s\<rparr>" for n
    using N [of "N + n"] rs phrase_not_blank [OF p, of w]
    by (simp add: eval_slow_def Let_def norm) (simp add: skip_ws_def)
  from that [OF run o] show thesis .
qed

definition reports :: "arith_result \<Rightarrow> bytes option \<Rightarrow> bool" where
  "reports res m \<longleftrightarrow> ar_value res = Fail \<and> (m = None \<or> map_option ae_msg (ar_error res) = m)"

lemma text_outcome:
  assumes "phrase c 1 t e" and "numeric c vs" and "blank w"
  shows "\<exists>N. \<forall>n. case den c False e (vs, ws) of
      Inr (v, x) \<Rightarrow> eval_slow c (N + n) (t @ w) vs ws
        = Some \<lparr>ar_value = Val v, ar_error = None, ar_vars = fst x, ar_writes = snd x\<rparr>
    | Inl m \<Rightarrow> \<exists>res. eval_slow c (N + n) (t @ w) vs ws = Some res \<and> reports res m"
proof -
  obtain N r s where run: "\<And>n. eval_slow c (N + n) (t @ w) vs ws =
      Some \<lparr>ar_value = (if r \<noteq> Outside \<and> ap_pos (skip_ws s) \<noteq> length (ap_input (skip_ws s)) then Fail else r),
        ar_error = final_error (if r \<noteq> Outside \<and> ap_pos (skip_ws s) \<noteq> length (ap_input (skip_ws s)) then Fail else r) (skip_ws s),
        ar_vars = ap_vars s, ar_writes = ap_writes s\<rparr>"
    and o: "outcome (top_parser (t @ w) vs ws) w (den c False e (vs, ws)) (Some (r, s))"
    using eval_of_outcome [OF assms] by blast
  show ?thesis
  proof (cases "den c False e (vs, ws)")
    case (Inl m)
    then have "r = Fail" and m: "map_option ae_msg (ap_error s) = m" using o by (auto simp: outcome_def fails_def)
    then have "reports (the (eval_slow c (N + n) (t @ w) vs ws)) m" for n
      unfolding run reports_def by (cases m) (auto simp: final_error_def)
    then show ?thesis using run Inl by (intro exI [of _ N]) auto
  next
    case (Inr p)
    then obtain v x where d: "den c False e (vs, ws) = Inr (v, x)" by (cases p) auto
    then have r: "r = Val v" and s: "view (top_parser (t @ w) vs ws) s w x" using o by (auto simp: outcome_def)
    have "left (skip_ws s) = []" using view_look [OF s] skip_blanks_append [OF assms(3), of "[]"] by simp
    then have end_pos: "ap_pos (skip_ws s) = length (ap_input s)"
      using view_skip_ws [OF s] s by (simp add: view_def left_def)
    have "ap_vars s = fst x" and "ap_writes s = snd x" using view_effects [OF s] by (auto simp: effects_def)
    moreover have "final_error (Val v) (skip_ws s) = None" using end_pos s by (simp add: final_error_def view_def)
    ultimately have "eval_slow c (N + n) (t @ w) vs ws = Some \<lparr>ar_value = Val v, ar_error = None, ar_vars = fst x, ar_writes = snd x\<rparr>" for n
      using s end_pos by (simp add: run r view_def)
    then show ?thesis using d by auto
  qed
qed


lemma phrase_down: "phrase c l t e \<Longrightarrow> 0 < k \<Longrightarrow> k \<le> l \<Longrightarrow> l \<le> 14 \<Longrightarrow> phrase c k t e"
proof (induction "l - k" arbitrary: k)
  case (Suc n)
  have "phrase c (Suc k) t e" by (rule Suc.hyps(1)) (use Suc in simp_all)
  then show ?case by (rule ph_up) (use Suc in simp_all)
qed simp

lemma literal_phrase: "phrase c 14 ''1'' (Lit ''1'')" "phrase c 14 ''2'' (Lit ''2'')"
  by (rule ph_literal; simp add: char_classes)+

lemma witness_phrase: "phrase no_marks 1 ''x=1+2 * y'' (Assign ''x'' ''='' (Bin OpPlus (Lit ''1'') (Bin OpTimes (Lit ''2'') (Var ''y''))))"
proof -
  have name: "name_ok no_marks x" if "x = ''x'' \<or> x = ''y''" for x
    using that by (auto simp: name_ok_def scalar_name_def no_marks_def dynamic_names_def char_classes)
  have space: "blank '' ''" by (simp add: is_ascii_whitespace_def)
  have y: "phrase no_marks 14 ('' '' @ ''y'') (Var ''y'')"
    by (rule ph_blank [OF ph_variable [OF name] space]) simp
  have "phrase no_marks (op_level OpTimes) (''2'' @ '' '' @ op_text OpTimes @ '' '' @ ''y'') (Bin OpTimes (Lit ''2'') (Var ''y''))"
    by (rule ph_binary [OF phrase_down [OF literal_phrase(2)] phrase_down [OF y] space]) (simp_all add: sep_def)
  then have product: "phrase no_marks 12 ''2 * y'' (Bin OpTimes (Lit ''2'') (Var ''y''))" by simp
  have "phrase no_marks (op_level OpPlus) (''1'' @ [] @ op_text OpPlus @ ''2 * y'') (Bin OpPlus (Lit ''1'') (Bin OpTimes (Lit ''2'') (Var ''y'')))"
    by (rule ph_binary [OF phrase_down [OF literal_phrase(1)]]) (simp_all add: sep_def product)
  then have sum: "phrase no_marks 11 ''1+2 * y'' (Bin OpPlus (Lit ''1'') (Bin OpTimes (Lit ''2'') (Var ''y'')))" by simp
  have "phrase no_marks 2 (''x'' @ [] @ ''='' @ ''1+2 * y'') (Assign ''x'' ''='' (Bin OpPlus (Lit ''1'') (Bin OpTimes (Lit ''2'') (Var ''y''))))"
    by (rule ph_assign [OF phrase_down [OF sum] name]) (simp_all add: assignment_operators_def)
  from phrase_down [OF this, of 1] show ?thesis by simp
qed




end
