(* ===== verification/Glob.thy ===== *)
theory Glob
  imports Markers
begin

section \<open>The pattern matcher of \<open>case\<close>, \<open>[[\<close> and the \<open>${v#pat}\<close> family\<close>

text \<open>
  \<open>src/src/executor/conditional/pattern.rs\<close>.  The matcher works on \<open>char\<close>s, so patterns and words
  are lists of code points.  It has three layers: the per-character atoms (literals, \<open>?\<close>, escapes and
  bracket expressions with ranges, collating symbols and POSIX classes), the iterative matcher with one
  saved star, and the entry points, which answer plain literals and simple globs without staging the
  character vectors and send text with byte spellings through the byte-flattening of \<open>Staging\<close>.

  The locale is the parameter \<open>locale_env\<close>: whether the active locale is UTF-8 (a probe of the C
  library) and the three Unicode tables of the standard library the UTF-8 classes consult.
\<close>

record locale_env =
  is_utf8 :: bool
  is_alphabetic :: "code_point \<Rightarrow> bool"
  is_uppercase :: "code_point \<Rightarrow> bool"
  is_lowercase :: "code_point \<Rightarrow> bool"

definition codes :: "string \<Rightarrow> code_point list" where
  "codes s = map of_char s"

text \<open>\<open>slice.get(i)\<close>.\<close>

definition get_at :: "'a list \<Rightarrow> nat \<Rightarrow> 'a option" where
  "get_at xs i = (if i < length xs then Some (xs ! i) else None)"

subsection \<open>Pattern characters and transport markers\<close>

abbreviation (input) ASTERISK :: code_point where "ASTERISK \<equiv> 42"
abbreviation (input) QUESTION :: code_point where "QUESTION \<equiv> 63"
abbreviation (input) LBRACKET :: code_point where "LBRACKET \<equiv> 91"
abbreviation (input) RBRACKET :: code_point where "RBRACKET \<equiv> 93"
abbreviation (input) BACKSLASH :: code_point where "BACKSLASH \<equiv> 92"
abbreviation (input) PLUS :: code_point where "PLUS \<equiv> 43"
abbreviation (input) COMMERCIAL_AT :: code_point where "COMMERCIAL_AT \<equiv> 64"
abbreviation (input) BANG :: code_point where "BANG \<equiv> 33"
abbreviation (input) CARET :: code_point where "CARET \<equiv> 94"
abbreviation (input) HYPHEN :: code_point where "HYPHEN \<equiv> 45"
abbreviation (input) LPAREN :: code_point where "LPAREN \<equiv> 40"
abbreviation (input) RPAREN :: code_point where "RPAREN \<equiv> 41"
abbreviation (input) BAR :: code_point where "BAR \<equiv> 124"
abbreviation (input) COLON :: code_point where "COLON \<equiv> 58"
abbreviation (input) DOT :: code_point where "DOT \<equiv> 46"
abbreviation (input) EQUALS :: code_point where "EQUALS \<equiv> 61"

abbreviation (input) CTLESC :: code_point where "CTLESC \<equiv> 0x11"
abbreviation (input) PATTERN_LITERAL_BACKSLASH :: code_point where "PATTERN_LITERAL_BACKSLASH \<equiv> 0x18"
abbreviation (input) BYTE_CHAR_BASE :: code_point where "BYTE_CHAR_BASE \<equiv> 0xE100"

subsection \<open>Characters\<close>

definition cp_ascii_digit :: "code_point \<Rightarrow> bool" where
  "cp_ascii_digit c \<longleftrightarrow> 48 \<le> c \<and> c \<le> 57"

definition cp_ascii_lowercase :: "code_point \<Rightarrow> bool" where
  "cp_ascii_lowercase c \<longleftrightarrow> 97 \<le> c \<and> c \<le> 122"

definition cp_ascii_uppercase :: "code_point \<Rightarrow> bool" where
  "cp_ascii_uppercase c \<longleftrightarrow> 65 \<le> c \<and> c \<le> 90"

definition cp_ascii_alphabetic :: "code_point \<Rightarrow> bool" where
  "cp_ascii_alphabetic c \<longleftrightarrow> cp_ascii_lowercase c \<or> cp_ascii_uppercase c"

definition cp_ascii_alphanumeric :: "code_point \<Rightarrow> bool" where
  "cp_ascii_alphanumeric c \<longleftrightarrow> cp_ascii_alphabetic c \<or> cp_ascii_digit c"

definition cp_ascii_hexdigit :: "code_point \<Rightarrow> bool" where
  "cp_ascii_hexdigit c \<longleftrightarrow> cp_ascii_digit c \<or> (97 \<le> c \<and> c \<le> 102) \<or> (65 \<le> c \<and> c \<le> 70)"

definition cp_ascii_graphic :: "code_point \<Rightarrow> bool" where
  "cp_ascii_graphic c \<longleftrightarrow> 33 \<le> c \<and> c \<le> 126"

definition cp_ascii_control :: "code_point \<Rightarrow> bool" where
  "cp_ascii_control c \<longleftrightarrow> c < 32 \<or> c = 127"

definition cp_ascii_punctuation :: "code_point \<Rightarrow> bool" where
  "cp_ascii_punctuation c \<longleftrightarrow> cp_ascii_graphic c \<and> \<not> cp_ascii_alphanumeric c"

definition cp_to_ascii_lowercase :: "code_point \<Rightarrow> code_point" where
  "cp_to_ascii_lowercase c = (if cp_ascii_uppercase c then c + 32 else c)"

text \<open>\<open>char::is_control\<close>: category Cc.\<close>

definition cp_control :: "code_point \<Rightarrow> bool" where
  "cp_control c \<longleftrightarrow> c < 32 \<or> (127 \<le> c \<and> c < 160)"

definition byte_char_value :: "code_point \<Rightarrow> nat option" where
  "byte_char_value c =
     (if BYTE_CHAR_BASE \<le> c \<and> c < BYTE_CHAR_BASE + 0x100 then Some (c - BYTE_CHAR_BASE) else None)"

definition chars_match :: "code_point \<Rightarrow> code_point \<Rightarrow> bool \<Rightarrow> bool" where
  "chars_match pat candidate nocase =
     (case (byte_char_value pat, byte_char_value candidate) of
        (Some p, Some c) \<Rightarrow> p = c
      | (Some p, None) \<Rightarrow> p = candidate
      | (None, Some c) \<Rightarrow> pat < 128 \<and> pat = c
      | (None, None) \<Rightarrow>
          if nocase then cp_to_ascii_lowercase pat = cp_to_ascii_lowercase candidate
          else pat = candidate)"

definition comparable_char :: "code_point \<Rightarrow> bool \<Rightarrow> code_point" where
  "comparable_char c nocase =
     (case byte_char_value c of
        Some b \<Rightarrow> b
      | None \<Rightarrow> if nocase then cp_to_ascii_lowercase c else c)"

subsection \<open>POSIX character classes\<close>

text \<open>\<open>NON_ASCII_ND_RANGES\<close> of \<open>src/src/locale.rs\<close>; the binary search of a sorted table of disjoint
  ranges succeeds exactly when some range holds the character.\<close>

definition non_ascii_nd_ranges :: "(code_point \<times> code_point) list" where
  "non_ascii_nd_ranges = [
     (0x0660, 0x0669), (0x06f0, 0x06f9), (0x07c0, 0x07c9), (0x0966, 0x096f), (0x09e6, 0x09ef), 
     (0x0a66, 0x0a6f), (0x0ae6, 0x0aef), (0x0b66, 0x0b6f), (0x0be6, 0x0bef), (0x0c66, 0x0c6f), 
     (0x0ce6, 0x0cef), (0x0d66, 0x0d6f), (0x0de6, 0x0def), (0x0e50, 0x0e59), (0x0ed0, 0x0ed9), 
     (0x0f20, 0x0f29), (0x1040, 0x1049), (0x1090, 0x1099), (0x17e0, 0x17e9), (0x1810, 0x1819), 
     (0x1946, 0x194f), (0x19d0, 0x19d9), (0x1a80, 0x1a89), (0x1a90, 0x1a99), (0x1b50, 0x1b59), 
     (0x1bb0, 0x1bb9), (0x1c40, 0x1c49), (0x1c50, 0x1c59), (0xa620, 0xa629), (0xa8d0, 0xa8d9), 
     (0xa900, 0xa909), (0xa9d0, 0xa9d9), (0xa9f0, 0xa9f9), (0xaa50, 0xaa59), (0xabf0, 0xabf9), 
     (0xff10, 0xff19), (0x104a0, 0x104a9), (0x10d30, 0x10d39), (0x11066, 0x1106f), 
     (0x110f0, 0x110f9), (0x11136, 0x1113f), (0x111d0, 0x111d9), (0x112f0, 0x112f9), 
     (0x11450, 0x11459), (0x114d0, 0x114d9), (0x11650, 0x11659), (0x116c0, 0x116c9), 
     (0x11730, 0x11739), (0x118e0, 0x118e9), (0x11950, 0x11959), (0x11c50, 0x11c59), 
     (0x11d50, 0x11d59), (0x11da0, 0x11da9), (0x11f50, 0x11f59), (0x16a60, 0x16a69), 
     (0x16ac0, 0x16ac9), (0x16b50, 0x16b59), (0x1d7ce, 0x1d7ff), (0x1e140, 0x1e149), 
     (0x1e2f0, 0x1e2f9), (0x1e4f0, 0x1e4f9), (0x1e950, 0x1e959), (0x1fbf0, 0x1fbf9)]"

definition is_non_ascii_nd :: "code_point \<Rightarrow> bool" where
  "is_non_ascii_nd c \<longleftrightarrow> list_ex (\<lambda>(lo, hi). lo \<le> c \<and> c \<le> hi) non_ascii_nd_ranges"

definition is_glibc_space :: "code_point \<Rightarrow> bool" where
  "is_glibc_space c \<longleftrightarrow> c \<in> {9, 10, 11, 12, 13, 32, 0x1680} \<or> (0x2000 \<le> c \<and> c \<le> 0x200a)
     \<or> c \<in> {0x2028, 0x2029, 0x205f, 0x3000}"

definition is_glibc_blank :: "code_point \<Rightarrow> bool" where
  "is_glibc_blank c \<longleftrightarrow> c \<in> {9, 32, 0x1680} \<or> (0x2000 \<le> c \<and> c \<le> 0x200a) \<or> c \<in> {0x205f, 0x3000}"

definition is_glibc_cntrl :: "code_point \<Rightarrow> bool" where
  "is_glibc_cntrl c \<longleftrightarrow> cp_control c \<or> c \<in> {0x2028, 0x2029}"

definition utf8_is_alpha :: "locale_env \<Rightarrow> code_point \<Rightarrow> bool" where
  "utf8_is_alpha L c \<longleftrightarrow> is_alphabetic L c \<or> is_non_ascii_nd c"

definition utf8_is_alnum :: "locale_env \<Rightarrow> code_point \<Rightarrow> bool" where
  "utf8_is_alnum L c \<longleftrightarrow> utf8_is_alpha L c \<or> cp_ascii_digit c"

definition utf8_class_table :: "locale_env \<Rightarrow> (string \<times> (code_point \<Rightarrow> bool)) list" where
  "utf8_class_table L =
     [(''alpha'', utf8_is_alpha L),
      (''alnum'', utf8_is_alnum L),
      (''upper'', is_uppercase L),
      (''lower'', is_lowercase L),
      (''digit'', cp_ascii_digit),
      (''xdigit'', cp_ascii_hexdigit),
      (''ascii'', \<lambda>c. c < 128),
      (''cntrl'', is_glibc_cntrl),
      (''print'', \<lambda>c. \<not> is_glibc_cntrl c),
      (''graph'', \<lambda>c. \<not> is_glibc_cntrl c \<and> \<not> is_glibc_blank c),
      (''punct'', \<lambda>c. \<not> is_glibc_cntrl c \<and> \<not> is_glibc_blank c \<and> \<not> utf8_is_alnum L c),
      (''space'', is_glibc_space),
      (''blank'', is_glibc_blank),
      (''word'', \<lambda>c. utf8_is_alnum L c \<or> c = 95)]"

definition ascii_class_table :: "(string \<times> (code_point \<Rightarrow> bool)) list" where
  "ascii_class_table =
     [(''alnum'', cp_ascii_alphanumeric),
      (''alpha'', cp_ascii_alphabetic),
      (''ascii'', \<lambda>c. c < 128),
      (''blank'', \<lambda>c. c = 32 \<or> c = 9),
      (''cntrl'', cp_ascii_control),
      (''digit'', cp_ascii_digit),
      (''graph'', cp_ascii_graphic),
      (''lower'', cp_ascii_lowercase),
      (''print'', \<lambda>c. cp_ascii_graphic c \<or> c = 32),
      (''punct'', cp_ascii_punctuation),
      (''space'', \<lambda>c. c \<in> {32, 9, 10, 11, 12, 13}),
      (''upper'', cp_ascii_uppercase),
      (''word'', \<lambda>c. cp_ascii_alphanumeric c \<or> c = 95),
      (''xdigit'', cp_ascii_hexdigit)]"

text \<open>\<open>match name \<lbrace> ... \<rbrace>\<close> over string literals.\<close>

definition str_lookup :: "(string \<times> 'a) list \<Rightarrow> code_point list \<Rightarrow> 'a option" where
  "str_lookup table name = map_of (map (\<lambda>(k, v). (codes k, v)) table) name"

definition posix_class_matches :: "locale_env \<Rightarrow> code_point list \<Rightarrow> code_point \<Rightarrow> bool" where
  "posix_class_matches L cls candidate =
     (let c = (case byte_char_value candidate of Some b \<Rightarrow> b | None \<Rightarrow> candidate)
      in case str_lookup (if is_utf8 L then utf8_class_table L else ascii_class_table) cls of
           Some P \<Rightarrow> P c
         | None \<Rightarrow> False)"

definition class_end :: "code_point list \<Rightarrow> code_point \<Rightarrow> nat \<Rightarrow> nat option" where
  "class_end pat delim from =
     List.find (\<lambda>i. pat ! i = delim \<and> pat ! (i + 1) = RBRACKET) [from..<length pat - 1]"

definition bracket_posix_class_matches ::
    "locale_env \<Rightarrow> code_point list \<Rightarrow> nat \<Rightarrow> code_point \<Rightarrow> (bool \<times> nat) option" where
  "bracket_posix_class_matches L pat start candidate =
     (if get_at pat start \<noteq> Some LBRACKET \<or> get_at pat (start + 1) \<noteq> Some COLON then None
      else case class_end pat COLON (start + 2) of
             Some e \<Rightarrow> Some (posix_class_matches L (slice (start + 2) e pat) candidate, e + 2)
           | None \<Rightarrow> None)"

subsection \<open>Collating symbols and equivalence classes\<close>

definition collating_names :: "(string \<times> code_point) list" where
  "collating_names = [
     (''NUL'', 0), (''space'', 32), (''tab'', 9), (''newline'', 10), (''vertical-tab'', 11), 
     (''form-feed'', 12), (''carriage-return'', 13), (''exclamation-mark'', 33), 
     (''quotation-mark'', 34), (''number-sign'', 35), (''dollar-sign'', 36), 
     (''percent-sign'', 37), (''ampersand'', 38), (''apostrophe'', 39), 
     (''left-parenthesis'', 40), (''right-parenthesis'', 41), (''asterisk'', 42), 
     (''plus-sign'', 43), (''comma'', 44), (''hyphen'', 45), (''full-stop'', 46), 
     (''slash'', 47), (''colon'', 58), (''semicolon'', 59), (''less-than-sign'', 60), 
     (''equals-sign'', 61), (''greater-than-sign'', 62), (''question-mark'', 63), 
     (''commercial-at'', 64), (''left-square-bracket'', 91), (''backslash'', 92), 
     (''right-square-bracket'', 93), (''circumflex-accent'', 94), (''low-line'', 95), 
     (''grave-accent'', 96), (''left-curly-bracket'', 123), (''vertical-line'', 124), 
     (''right-curly-bracket'', 125), (''tilde'', 126)]"

definition named_collating_symbol :: "code_point list \<Rightarrow> code_point option" where
  "named_collating_symbol name = str_lookup collating_names name"

definition parse_collating_or_equivalence ::
    "code_point list \<Rightarrow> nat \<Rightarrow> (code_point list \<times> nat) option" where
  "parse_collating_or_equivalence pat index =
     (case get_at pat (index + 1) of
        None \<Rightarrow> None
      | Some op \<Rightarrow>
          if op \<noteq> DOT \<and> op \<noteq> EQUALS then None
          else case class_end pat op (index + 2) of
                 None \<Rightarrow> None
               | Some scan \<Rightarrow>
                   (let body = slice (index + 2) scan pat
                    in if body = [] then None
                       else Some (if length body = 1 then body
                                  else case named_collating_symbol body of
                                         Some c \<Rightarrow> [c]
                                       | None \<Rightarrow> body, scan + 2)))"

definition collating_range_end :: "code_point list \<Rightarrow> nat \<Rightarrow> (code_point \<times> nat) option" where
  "collating_range_end pat dash =
     (if get_at pat dash \<noteq> Some HYPHEN then None
      else case get_at pat (dash + 1) of
             None \<Rightarrow> None
           | Some e \<Rightarrow>
               if e = RBRACKET then None
               else if e = LBRACKET then
                 (case parse_collating_or_equivalence pat (dash + 1) of
                    None \<Rightarrow> None
                  | Some (members, nxt) \<Rightarrow> if length members = 1 then Some (members ! 0, nxt) else None)
               else if e = BACKSLASH \<or> e = PATTERN_LITERAL_BACKSLASH then
                 (case get_at pat (dash + 2) of
                    None \<Rightarrow> None
                  | Some after \<Rightarrow> Some (after, dash + 3))
               else Some (e, dash + 2))"

subsection \<open>Bracket expressions\<close>

definition escape_char :: "code_point \<Rightarrow> bool" where
  "escape_char c \<longleftrightarrow> c = BACKSLASH \<or> c = PATTERN_LITERAL_BACKSLASH \<or> c = CTLESC"

definition in_range :: "code_point \<Rightarrow> code_point \<Rightarrow> code_point \<Rightarrow> bool \<Rightarrow> bool" where
  "in_range lo hi candidate nocase \<longleftrightarrow>
     comparable_char lo nocase \<le> comparable_char candidate nocase \<and>
     comparable_char candidate nocase \<le> comparable_char hi nocase"

text \<open>The end of a range: the position of its last character, past an escape character.\<close>

definition range_end_index :: "code_point list \<Rightarrow> nat \<Rightarrow> nat" where
  "range_end_index pat e = (if escape_char (pat ! e) \<and> e + 1 < length pat then e + 1 else e)"

text \<open>
  One iteration of the member loop at \<open>index\<close>, which holds no closing bracket: whether the member
  matches the candidate, and where the next member starts.
\<close>

definition bracket_member ::
    "locale_env \<Rightarrow> code_point list \<Rightarrow> code_point \<Rightarrow> bool \<Rightarrow> nat \<Rightarrow> bool \<times> nat" where
  "bracket_member L pat candidate nocase index =
     (if escape_char (pat ! index) \<and> index + 1 < length pat then
        (let lit = pat ! (index + 1); m = chars_match lit candidate nocase
         in if index + 3 < length pat \<and> pat ! (index + 2) = HYPHEN \<and> pat ! (index + 3) \<noteq> RBRACKET then
              (let e = range_end_index pat (index + 3)
               in (m \<or> in_range lit (pat ! e) candidate nocase, e + 1))
            else (m, index + 2))
      else
        case (if pat ! index = LBRACKET then parse_collating_or_equivalence pat index else None) of
          Some (members, nxt) \<Rightarrow>
            (let m = list_ex (\<lambda>c. chars_match c candidate nocase) members
             in case (if length members = 1 then collating_range_end pat nxt else None) of
                  Some (e, after) \<Rightarrow> (m \<or> in_range (members ! 0) e candidate nocase, after)
                | None \<Rightarrow> (m, nxt))
        | None \<Rightarrow>
            (case bracket_posix_class_matches L pat index candidate of
               Some (m, nxt) \<Rightarrow> (m, nxt)
             | None \<Rightarrow>
                 if index + 2 < length pat \<and> pat ! (index + 1) = HYPHEN \<and> pat ! (index + 2) \<noteq> RBRACKET then
                   (let e = range_end_index pat (index + 2)
                    in (in_range (pat ! index) (pat ! e) candidate nocase, e + 1))
                 else (chars_match (pat ! index) candidate nocase, index + 1)))"

lemma class_end_from: "class_end pat d i = Some e \<Longrightarrow> i \<le> e \<and> e + 1 < length pat"
  by (auto simp: class_end_def find_Some_iff)

lemma parse_collating_next: "parse_collating_or_equivalence pat i = Some (ms, n) \<Longrightarrow> i < n \<and> n \<le> length pat"
  by (auto simp: parse_collating_or_equivalence_def Let_def split: option.splits if_splits dest: class_end_from)

lemma collating_range_next: "collating_range_end pat i = Some (c, n) \<Longrightarrow> i < n \<and> n \<le> length pat"
  by (auto simp: collating_range_end_def get_at_def split: option.splits if_splits dest!: parse_collating_next)

lemma posix_class_next:
  "bracket_posix_class_matches L pat i c = Some (m, n) \<Longrightarrow> i < n \<and> n \<le> length pat"
  by (auto simp: bracket_posix_class_matches_def split: option.splits if_splits dest: class_end_from)

lemma range_end_index_bounds: "e < length pat \<Longrightarrow> e \<le> range_end_index pat e \<and> range_end_index pat e < length pat"
  by (simp add: range_end_index_def)

lemma bracket_member_next:
  assumes "bracket_member L pat c nocase i = (m, n)" and "i < length pat"
  shows "i < n" and "n \<le> length pat"
  using assms range_end_index_bounds [of "i + 3" pat] range_end_index_bounds [of "i + 2" pat]
  by (auto simp: bracket_member_def Let_def split: option.splits if_splits prod.splits
        dest!: parse_collating_next collating_range_next posix_class_next)

function (sequential) bracket_loop ::
    "locale_env \<Rightarrow> code_point list \<Rightarrow> code_point \<Rightarrow> bool \<Rightarrow> bool \<Rightarrow> nat \<Rightarrow> bool \<Rightarrow> bool \<Rightarrow> (bool \<times> nat) option"
  where
  "bracket_loop L pat candidate nocase negated index saw_member matched =
     (if index < length pat then
        if pat ! index = RBRACKET \<and> saw_member then
          Some (if negated then \<not> matched else matched, index + 1)
        else
          (let (m, nxt) = bracket_member L pat candidate nocase index
           in bracket_loop L pat candidate nocase negated nxt True (matched \<or> m))
      else None)"
  by pat_completeness auto
termination
  by (relation "measure (\<lambda>(L, pat, c, nc, neg, i, s, m). length pat - i)")
     (auto dest!: bracket_member_next(1) [OF sym] intro: diff_less_mono2)

declare bracket_loop.simps [simp del]

definition case_bracket_expression_matches_with_case ::
    "locale_env \<Rightarrow> code_point list \<Rightarrow> nat \<Rightarrow> code_point option \<Rightarrow> bool \<Rightarrow> (bool \<times> nat) option" where
  "case_bracket_expression_matches_with_case L pat start candidate nocase =
     (if start + 1 \<ge> length pat then None
      else
        let negated = (pat ! (start + 1) = BANG \<or> pat ! (start + 1) = CARET);
            index = (if negated then start + 2 else start + 1)
        in case candidate of
             None \<Rightarrow> None
           | Some c \<Rightarrow> bracket_loop L pat c nocase negated index False False)"

subsection \<open>The iterative matcher\<close>

definition case_pattern_atom_matches ::
    "locale_env \<Rightarrow> code_point list \<Rightarrow> nat \<Rightarrow> code_point \<Rightarrow> bool \<Rightarrow> bool \<Rightarrow> bool \<times> nat" where
  "case_pattern_atom_matches L pat p candidate is_last nocase =
     (if pat ! p = PATTERN_LITERAL_BACKSLASH then (candidate = BACKSLASH, p + 1)
      else if pat ! p = CTLESC \<and> p + 1 < length pat then
        (chars_match (pat ! (p + 1)) candidate nocase, p + 2)
      else if pat ! p = QUESTION then (True, p + 1)
      else if pat ! p = LBRACKET then
        (case case_bracket_expression_matches_with_case L pat p (Some candidate) nocase of
           Some (matched, nxt) \<Rightarrow> (matched, nxt)
         | None \<Rightarrow> (chars_match LBRACKET candidate nocase, p + 1))
      else if pat ! p = BACKSLASH \<and> p + 1 < length pat then
        (chars_match (pat ! (p + 1)) candidate nocase, p + 2)
      else if pat ! p = BACKSLASH then (candidate = BACKSLASH \<and> is_last, p + 1)
      else (chars_match (pat ! p) candidate nocase, p + 1))"

text \<open>
  The main loop.  Its locals are the pattern and word positions and the saved star: the position of
  the last \<open>*\<close> passed, if any, and the word position the star's text ends at.
\<close>

function (sequential) match_loop ::
    "locale_env \<Rightarrow> code_point list \<Rightarrow> code_point list \<Rightarrow> bool \<Rightarrow> nat \<Rightarrow> nat \<Rightarrow> nat option \<Rightarrow> nat \<Rightarrow> bool" where
  "match_loop L pat word nocase pi wi star_p star_w =
     (if wi < length word then
        if pi < length pat \<and> pat ! pi = ASTERISK then
          match_loop L pat word nocase (pi + 1) wi (Some pi) wi
        else
          let (matched, nxt) =
            (if pi < length pat
             then case_pattern_atom_matches L pat pi (word ! wi) (wi + 1 = length word) nocase
             else (False, pi))
          in if matched then match_loop L pat word nocase nxt (wi + 1) star_p star_w
             else case star_p of
                    None \<Rightarrow> False
                  | Some s \<Rightarrow> match_loop L pat word nocase (s + 1) (star_w + 1) (Some s) (star_w + 1)
      else pi + length (takeWhile (\<lambda>c. c = ASTERISK) (drop pi pat)) = length pat)"
  by pat_completeness auto
termination
  by (relation "measures [\<lambda>(L, pat, w, nc, pi, wi, sp, sw). length w - min sw wi,
                          \<lambda>(L, pat, w, nc, pi, wi, sp, sw). length w - wi,
                          \<lambda>(L, pat, w, nc, pi, wi, sp, sw). length pat - pi]") auto

declare match_loop.simps [simp del]

definition case_pattern_matches_at_with_case ::
    "locale_env \<Rightarrow> code_point list \<Rightarrow> nat \<Rightarrow> code_point list \<Rightarrow> nat \<Rightarrow> bool \<Rightarrow> bool" where
  "case_pattern_matches_at_with_case L pat p word w nocase = match_loop L pat word nocase p w None w"

subsection \<open>The fast paths\<close>

definition glob_operator :: "code_point \<Rightarrow> bool" where
  "glob_operator c \<longleftrightarrow> c \<in> {LBRACKET, RBRACKET, BACKSLASH, PLUS, COMMERCIAL_AT, BANG, LPAREN, RPAREN}"

definition pattern_is_plain_literal :: "code_point list \<Rightarrow> bool" where
  "pattern_is_plain_literal pat \<longleftrightarrow>
     list_all (\<lambda>c. (cp_ascii_graphic c \<or> c = 32) \<and>
                   \<not> (c = ASTERISK \<or> c = QUESTION \<or> glob_operator c)) pat"

definition literal_pattern_equality :: "code_point list \<Rightarrow> code_point list \<Rightarrow> bool \<Rightarrow> bool option" where
  "literal_pattern_equality pat word nocase =
     (if pattern_is_plain_literal pat then
        Some (if nocase then map cp_to_ascii_lowercase word = map cp_to_ascii_lowercase pat
              else word = pat)
      else None)"

definition simple_char_match :: "bool \<Rightarrow> code_point \<Rightarrow> code_point \<Rightarrow> bool" where
  "simple_char_match nocase pat target \<longleftrightarrow>
     pat = QUESTION \<or> (if nocase then cp_to_ascii_lowercase pat = cp_to_ascii_lowercase target
                       else pat = target)"

text \<open>The iterators of \<open>simple_glob_matches\<close> are the remaining texts; the saved star is a pair of them.\<close>

function (sequential) simple_glob_loop ::
    "bool \<Rightarrow> code_point list \<Rightarrow> code_point list \<Rightarrow> (code_point list \<times> code_point list) option \<Rightarrow> bool" where
  "simple_glob_loop nocase p w star =
     (case p of
        pc # p' \<Rightarrow>
          if pc = ASTERISK then
            (let q = dropWhile (\<lambda>c. c = ASTERISK) p in simple_glob_loop nocase q w (Some (q, w)))
          else if (case w of t # _ \<Rightarrow> simple_char_match nocase pc t | [] \<Rightarrow> False)
          then simple_glob_loop nocase p' (tl w) star
          else (case star of
                  None \<Rightarrow> False
                | Some (sp, []) \<Rightarrow> sp = []
                | Some (sp, _ # sw) \<Rightarrow> simple_glob_loop nocase sp sw (Some (sp, sw)))
      | [] \<Rightarrow>
          if w = [] then True
          else (case star of
                  None \<Rightarrow> False
                | Some (sp, []) \<Rightarrow> sp = []
                | Some (sp, _ # sw) \<Rightarrow> simple_glob_loop nocase sp sw (Some (sp, sw))))"
  by pat_completeness auto
termination
  by (relation "measures [\<lambda>(nc, p, w, st). case st of None \<Rightarrow> length w | Some (sp, sw) \<Rightarrow> max (length sw) (length w),
                          \<lambda>(nc, p, w, st). length w,
                          \<lambda>(nc, p, w, st). length p]")
     (auto split: option.splits list.splits if_splits simp: le_imp_less_Suc length_dropWhile_le)

declare simple_glob_loop.simps [simp del]

definition simple_glob_class :: "code_point list \<Rightarrow> bool" where
  "simple_glob_class pat \<longleftrightarrow> list_all (\<lambda>c. (cp_ascii_graphic c \<or> c = 32) \<and> \<not> glob_operator c) pat"

definition simple_glob_matches :: "code_point list \<Rightarrow> code_point list \<Rightarrow> bool \<Rightarrow> bool option" where
  "simple_glob_matches pat word nocase =
     (if simple_glob_class pat then Some (simple_glob_loop nocase pat word None) else None)"

definition case_pattern_matches_prechecked ::
    "locale_env \<Rightarrow> code_point list \<Rightarrow> code_point list \<Rightarrow> bool \<Rightarrow> bool" where
  "case_pattern_matches_prechecked L pat word nocase =
     (case literal_pattern_equality pat word nocase of
        Some verdict \<Rightarrow> verdict
      | None \<Rightarrow>
          (case simple_glob_matches pat word nocase of
             Some verdict \<Rightarrow> verdict
           | None \<Rightarrow> case_pattern_matches_at_with_case L pat 0 word 0 nocase))"

end
