(* ===== verification/Staging.thy ===== *)
theory Staging
  imports Glob
begin

section \<open>Byte spellings: the gates in front of the matcher\<close>

text \<open>
  \<open>src/src/executor/conditional/pattern.rs\<close>, the entry points and the normalisation they apply.  A
  shell word may spell one raw byte in several ways: a marker pair, a quoted pair, a command
  substitution payload or a control character.  When either side carries such a spelling, or the
  locale is not UTF-8 and either side has a character outside ASCII, both sides are flattened to
  byte characters before matching; otherwise the fast paths and the staged matcher run on the text.
\<close>

definition byte_char :: "nat \<Rightarrow> code_point" where
  "byte_char b = BYTE_CHAR_BASE + b"

definition payload_byte_char :: "code_point \<Rightarrow> code_point" where
  "payload_byte_char c = byte_char (c - RAW_BYTE_MARKER_FIRST)"

subsection \<open>The gates\<close>

text \<open>The string form looks at the UTF-8 bytes, the staged form at the characters.\<close>

definition str_carries_byte_spelling :: "code_point list \<Rightarrow> bool" where
  "str_carries_byte_spelling s \<longleftrightarrow>
     COMSUB_PAYLOAD_SENTINEL \<in> set s \<or>
     list_ex (\<lambda>b. byte b = 0xEE \<or> (byte b < 0x20 \<and> byte b \<noteq> 9 \<and> byte b \<noteq> 10)) (encode_utf8 s)"

definition chars_carry_byte_spelling :: "code_point list \<Rightarrow> bool" where
  "chars_carry_byte_spelling s \<longleftrightarrow>
     list_ex (\<lambda>c. c = COMSUB_PAYLOAD_SENTINEL \<or> (0xE000 \<le> c \<and> c \<le> 0xEFFF)
                  \<or> (c < 0x20 \<and> c \<noteq> 9 \<and> c \<noteq> 10)) s"

definition sides_need_byte_char_matching :: "code_point list \<Rightarrow> code_point list \<Rightarrow> bool" where
  "sides_need_byte_char_matching pat word \<longleftrightarrow> str_carries_byte_spelling pat \<or> str_carries_byte_spelling word"

definition sides_need_byte_char_matching_staged :: "code_point list \<Rightarrow> code_point list \<Rightarrow> bool" where
  "sides_need_byte_char_matching_staged pat word \<longleftrightarrow>
     str_carries_byte_spelling pat \<or> chars_carry_byte_spelling word"

definition char_is_text_non_ascii :: "code_point \<Rightarrow> bool" where
  "char_is_text_non_ascii c \<longleftrightarrow> 0x80 \<le> c \<and> \<not> (0xE000 \<le> c \<and> c \<le> 0xEFFF)"

definition sides_need_byte_locale_units :: "locale_env \<Rightarrow> code_point list \<Rightarrow> code_point list \<Rightarrow> bool" where
  "sides_need_byte_locale_units L pat word \<longleftrightarrow>
     \<not> is_utf8 L \<and> (list_ex char_is_text_non_ascii pat \<or> list_ex char_is_text_non_ascii word)"

definition sides_need_byte_locale_units_staged ::
    "locale_env \<Rightarrow> code_point list \<Rightarrow> code_point list \<Rightarrow> bool" where
  "sides_need_byte_locale_units_staged L pat word \<longleftrightarrow>
     \<not> is_utf8 L \<and> (list_ex char_is_text_non_ascii pat \<or> list_ex char_is_text_non_ascii word)"

subsection \<open>Flattening to byte characters\<close>

definition cp_hex_value :: "code_point \<Rightarrow> nat" where
  "cp_hex_value c = (if c \<le> 57 then c - 48 else if c \<le> 70 then c - 55 else c - 87)"

fun decode_payload_sentinels_to_pairs :: "code_point list \<Rightarrow> code_point list" where
  "decode_payload_sentinels_to_pairs [] = []"
| "decode_payload_sentinels_to_pairs (c # rest) =
     (if c = LITERAL_CHAR_ESCAPE then
        (case rest of
           [] \<Rightarrow> [c]
         | n # rest' \<Rightarrow> c # n # decode_payload_sentinels_to_pairs rest')
      else if c \<noteq> COMSUB_PAYLOAD_SENTINEL then c # decode_payload_sentinels_to_pairs rest
      else case rest of
             hi # lo # semi # rest' \<Rightarrow>
               if semi = 59 \<and> cp_ascii_hexdigit hi \<and> cp_ascii_hexdigit lo then
                 RAW_BYTE_MARKER_ESCAPE # (RAW_BYTE_MARKER_FIRST + (cp_hex_value hi * 16 + cp_hex_value lo))
                   # decode_payload_sentinels_to_pairs rest'
               else c # decode_payload_sentinels_to_pairs rest
           | _ \<Rightarrow> c # decode_payload_sentinels_to_pairs rest)"

text \<open>The text after a \<open>CTLESC\<close>: the byte character of a quoted pair and what follows it.\<close>

definition try_consume_ctlesc_quoted_pair ::
    "code_point list \<Rightarrow> (code_point \<times> code_point list) option" where
  "try_consume_ctlesc_quoted_pair cs =
     (case cs of
        [] \<Rightarrow> None
      | intro # rest \<Rightarrow>
          if intro \<noteq> RAW_BYTE_MARKER_ESCAPE then None
          else case (case rest of c # p # rest' \<Rightarrow> if c = CTLESC then Some (p, rest') else Some (c, p # rest')
                              | [c] \<Rightarrow> if c = CTLESC then None else Some (c, [])
                              | [] \<Rightarrow> None) of
                 None \<Rightarrow> None
               | Some (payload, after) \<Rightarrow>
                   if marker_payload payload then Some (payload_byte_char payload, after) else None)"

lemma try_consume_shorter: "try_consume_ctlesc_quoted_pair cs = Some (c, rest) \<Longrightarrow> length rest < length cs"
  by (auto simp: try_consume_ctlesc_quoted_pair_def split: list.splits if_splits option.splits)

function (sequential) flatten_pattern_chars :: "code_point list \<Rightarrow> code_point list" where
  "flatten_pattern_chars [] = []"
| "flatten_pattern_chars (c # rest) =
     (if c = RAW_BYTE_MARKER_ESCAPE then
        (case rest of
           n # rest' \<Rightarrow> if marker_payload n then payload_byte_char n # flatten_pattern_chars rest'
                       else c # flatten_pattern_chars rest
         | [] \<Rightarrow> [c])
      else if c = LITERAL_CHAR_ESCAPE then
        (case rest of
           n # rest' \<Rightarrow> n # flatten_pattern_chars rest'
         | [] \<Rightarrow> [c])
      else if c = CTLESC then
        (case try_consume_ctlesc_quoted_pair rest of
           Some (b, rest') \<Rightarrow> b # flatten_pattern_chars rest'
         | None \<Rightarrow> c # flatten_pattern_chars rest)
      else if c = PATTERN_LITERAL_BACKSLASH then byte_char 0x5C # flatten_pattern_chars rest
      else if c < 0x20 then byte_char c # flatten_pattern_chars rest
      else c # flatten_pattern_chars rest)"
  by pat_completeness auto
termination
  by (relation "measure length") (auto dest!: try_consume_shorter)

definition flatten_pattern_to_byte_chars :: "code_point list \<Rightarrow> code_point list" where
  "flatten_pattern_to_byte_chars pat = flatten_pattern_chars (decode_payload_sentinels_to_pairs pat)"

function (sequential) flatten_word_chars :: "code_point list \<Rightarrow> code_point list" where
  "flatten_word_chars [] = []"
| "flatten_word_chars (c # rest) =
     (if c = RAW_BYTE_MARKER_ESCAPE then
        (case rest of
           n # rest' \<Rightarrow> if marker_payload n then payload_byte_char n # flatten_word_chars rest'
                       else c # flatten_word_chars rest
         | [] \<Rightarrow> [c])
      else if c = LITERAL_CHAR_ESCAPE then
        (case rest of
           n # rest' \<Rightarrow> n # flatten_word_chars rest'
         | [] \<Rightarrow> [c])
      else if c = CTLESC then
        (case try_consume_ctlesc_quoted_pair rest of
           Some (b, rest') \<Rightarrow> b # flatten_word_chars rest'
         | None \<Rightarrow> (case rest of
                      n # rest' \<Rightarrow> n # flatten_word_chars rest'
                    | [] \<Rightarrow> []))
      else if c < 0x20 then byte_char c # flatten_word_chars rest
      else c # flatten_word_chars rest)"
  by pat_completeness auto
termination
  by (relation "measure length") (auto dest!: try_consume_shorter)

definition flatten_word_to_byte_chars :: "code_point list \<Rightarrow> code_point list" where
  "flatten_word_to_byte_chars word = flatten_word_chars (decode_payload_sentinels_to_pairs word)"

definition split_text_chars_into_byte_units :: "code_point list \<Rightarrow> code_point list" where
  "split_text_chars_into_byte_units cs =
     concat (map (\<lambda>c. if char_is_text_non_ascii c then map (\<lambda>b. byte_char (byte b)) (encode_char c) else [c]) cs)"

definition stage_pattern_match_units :: "code_point list \<Rightarrow> bool \<Rightarrow> code_point list" where
  "stage_pattern_match_units pat byte_locale =
     (let staged = flatten_pattern_to_byte_chars pat
      in if byte_locale then split_text_chars_into_byte_units staged else staged)"

definition stage_word_match_units :: "code_point list \<Rightarrow> bool \<Rightarrow> code_point list" where
  "stage_word_match_units word byte_locale =
     (let staged = flatten_word_to_byte_chars word
      in if byte_locale then split_text_chars_into_byte_units staged else staged)"

definition match_units_to_raw_bytes :: "code_point list \<Rightarrow> bytes" where
  "match_units_to_raw_bytes cs =
     concat (map (\<lambda>c. case byte_char_value c of Some b \<Rightarrow> [char_of b] | None \<Rightarrow> encode_char c) cs)"

subsection \<open>Entry points\<close>

definition case_pattern_matches_folded ::
    "locale_env \<Rightarrow> code_point list \<Rightarrow> code_point list \<Rightarrow> bool \<Rightarrow> bool" where
  "case_pattern_matches_folded L pat word nocase =
     (let byte_locale = sides_need_byte_locale_units L pat word
      in if byte_locale \<or> sides_need_byte_char_matching pat word then
           case_pattern_matches_at_with_case L (stage_pattern_match_units pat byte_locale) 0
             (stage_word_match_units word byte_locale) 0 nocase
         else case_pattern_matches_prechecked L pat word nocase)"

definition case_pattern_matches :: "locale_env \<Rightarrow> code_point list \<Rightarrow> code_point list \<Rightarrow> bool" where
  "case_pattern_matches L pat word = case_pattern_matches_folded L pat word False"

definition case_pattern_matches_nocase :: "locale_env \<Rightarrow> code_point list \<Rightarrow> code_point list \<Rightarrow> bool" where
  "case_pattern_matches_nocase L pat word = case_pattern_matches_folded L pat word True"

text \<open>
  The twins for \<open>case\<close> arms carry the lazily staged word: the verdict and the cell afterwards, which
  only the staged matcher fills.
\<close>

definition with_word_chars ::
    "locale_env \<Rightarrow> bool \<Rightarrow> code_point list \<Rightarrow> code_point list \<Rightarrow> code_point list option
     \<Rightarrow> bool \<times> code_point list option" where
  "with_word_chars L nocase pat word cell =
     (if sides_need_byte_char_matching pat word \<or> sides_need_byte_locale_units L pat word then
        (case_pattern_matches_folded L pat word nocase, cell)
      else case literal_pattern_equality pat word nocase of
             Some verdict \<Rightarrow> (verdict, cell)
           | None \<Rightarrow>
               (case simple_glob_matches pat word nocase of
                  Some verdict \<Rightarrow> (verdict, cell)
                | None \<Rightarrow>
                    (let chars = (case cell of Some cs \<Rightarrow> cs | None \<Rightarrow> word)
                     in (case_pattern_matches_at_with_case L pat 0 chars 0 nocase, Some chars))))"

definition case_pattern_matches_with_word_chars ::
    "locale_env \<Rightarrow> code_point list \<Rightarrow> code_point list \<Rightarrow> code_point list option
     \<Rightarrow> bool \<times> code_point list option" where
  "case_pattern_matches_with_word_chars L pat word cell = with_word_chars L False pat word cell"

definition case_pattern_matches_nocase_with_word_chars ::
    "locale_env \<Rightarrow> code_point list \<Rightarrow> code_point list \<Rightarrow> code_point list option
     \<Rightarrow> bool \<times> code_point list option" where
  "case_pattern_matches_nocase_with_word_chars L pat word cell = with_word_chars L True pat word cell"

end
