(* ===== verification/GlobLang.thy ===== *)
theory GlobLang
  imports Staging
begin

section \<open>The language of a pattern\<close>

text \<open>
  The contract of the matchers: a pattern denotes a set of words.  A pattern is a list of items: a
  \<open>*\<close> (\<open>Many\<close>), an atom that consumes one character (\<open>One\<close>), or an extended group of alternatives.
  \<open>glob_items\<close> reads the items of a pattern the way the iterative matcher walks over it.
\<close>

datatype group_op = Exactly_one | Optional | Any_number | At_least_one | None_of

datatype glob =
    Many
  | One "code_point \<Rightarrow> bool"
  | Group group_op "glob list list"

text \<open>Words made of any number of words of a set.\<close>

inductive_set reps :: "'a list set \<Rightarrow> 'a list set" for A where
  reps_none: "[] \<in> reps A"
| reps_more: "u \<in> A \<Longrightarrow> v \<in> reps A \<Longrightarrow> u @ v \<in> reps A"

definition followed_by :: "'a list set \<Rightarrow> 'a list set \<Rightarrow> 'a list set" where
  "followed_by A B = {u @ v | u v. u \<in> A \<and> v \<in> B}"

text \<open>
  The group operators on the union \<open>A\<close> of the alternatives.  \<open>@\<close> and \<open>+\<close> consume at least one
  character: the search for a first occurrence starts at length one.
\<close>

fun group_lang :: "group_op \<Rightarrow> 'a list set \<Rightarrow> 'a list set" where
  "group_lang Exactly_one A = A - {[]}"
| "group_lang Optional A = insert [] A"
| "group_lang Any_number A = reps A"
| "group_lang At_least_one A = followed_by (A - {[]}) (reps A)"
| "group_lang None_of A = - A"

fun glob_lang :: "glob list \<Rightarrow> code_point list set" where
  "glob_lang [] = {[]}"
| "glob_lang (Many # g) = followed_by UNIV (glob_lang g)"
| "glob_lang (One P # g) = followed_by {[c] | c. P c} (glob_lang g)"
| "glob_lang (Group k alts # g) = followed_by (group_lang k (\<Union>a \<in> set alts. glob_lang a)) (glob_lang g)"

subsection \<open>Membership\<close>

lemma followed_by_iff: "w \<in> followed_by A B \<longleftrightarrow> (\<exists>n \<le> length w. take n w \<in> A \<and> drop n w \<in> B)"
proof
  assume "w \<in> followed_by A B"
  then obtain u v where "w = u @ v" "u \<in> A" "v \<in> B" by (auto simp: followed_by_def)
  then show "\<exists>n \<le> length w. take n w \<in> A \<and> drop n w \<in> B" by (intro exI [of _ "length u"]) simp
next
  assume "\<exists>n \<le> length w. take n w \<in> A \<and> drop n w \<in> B"
  then obtain n where "take n w \<in> A" "drop n w \<in> B" by blast
  then show "w \<in> followed_by A B"
    unfolding followed_by_def
    by (intro CollectI exI [of _ "take n w"] exI [of _ "drop n w"]) (simp add: append_take_drop_id)
qed

lemma lang_Many: "w \<in> glob_lang (Many # g) \<longleftrightarrow> (\<exists>n \<le> length w. drop n w \<in> glob_lang g)"
  by (simp add: followed_by_iff glob_lang.simps(2))

lemma lang_Many_Cons: "c # w \<in> glob_lang (Many # g) \<longleftrightarrow> c # w \<in> glob_lang g \<or> w \<in> glob_lang (Many # g)"
  unfolding lang_Many
proof (intro iffI; elim exE conjE disjE)
  fix n assume "n \<le> length (c # w)" "drop n (c # w) \<in> glob_lang g"
  then show "c # w \<in> glob_lang g \<or> (\<exists>n \<le> length w. drop n w \<in> glob_lang g)"
    by (cases n) auto
next
  fix n assume "n \<le> length w" "drop n w \<in> glob_lang g"
  then show "\<exists>n \<le> length (c # w). drop n (c # w) \<in> glob_lang g" by (intro exI [of _ "Suc n"]) simp
qed (auto intro: exI [of _ 0])

declare glob_lang.simps(2,3) [simp del]

lemma lang_One: "w \<in> glob_lang (One P # g) \<longleftrightarrow> (\<exists>c v. w = c # v \<and> P c \<and> v \<in> glob_lang g)"
proof -
  have "w \<in> glob_lang (One P # g) \<longleftrightarrow> (\<exists>u v. w = u @ v \<and> (\<exists>c. u = [c] \<and> P c) \<and> v \<in> glob_lang g)"
    by (simp add: glob_lang.simps(3) followed_by_def)
  also have "\<dots> \<longleftrightarrow> (\<exists>c v. w = c # v \<and> P c \<and> v \<in> glob_lang g)" by (metis append_Cons append_Nil)
  finally show ?thesis .
qed

lemma lang_One_Nil [simp]: "[] \<notin> glob_lang (One P # g)"
  by (simp add: lang_One)

lemma lang_One_Cons [simp]: "c # v \<in> glob_lang (One P # g) \<longleftrightarrow> P c \<and> v \<in> glob_lang g"
  by (simp add: lang_One)

lemma lang_Many_Nil [simp]: "[] \<in> glob_lang (Many # g) \<longleftrightarrow> [] \<in> glob_lang g"
  by (simp add: lang_Many)

lemma lang_Many_skip: "w \<in> glob_lang g \<Longrightarrow> w \<in> glob_lang (Many # g)"
  unfolding lang_Many by (intro exI [of _ 0]) simp

lemma lang_Many_Many: "glob_lang (Many # Many # g) = glob_lang (Many # g)"
proof (intro set_eqI iffI)
  fix w assume "w \<in> glob_lang (Many # Many # g)"
  then obtain n m where "n \<le> length w" "m \<le> length (drop n w)" "drop m (drop n w) \<in> glob_lang g"
    unfolding lang_Many by blast
  then show "w \<in> glob_lang (Many # g)" unfolding lang_Many by (intro exI [of _ "m + n"]) simp
qed (rule lang_Many_skip)

subsection \<open>Bracket expressions read the same members whatever the candidate\<close>

lemma posix_class_skip:
  "map_option snd (bracket_posix_class_matches L pat i c) = map_option snd (bracket_posix_class_matches L pat i c')"
  by (simp add: bracket_posix_class_matches_def split: option.splits)

lemma bracket_member_skip: "snd (bracket_member L pat c nocase i) = snd (bracket_member L pat c' nocase i)"
  using posix_class_skip [of L pat i c c']
  by (auto simp: bracket_member_def Let_def split: option.splits)

lemma bracket_loop_skip:
  "map_option snd (bracket_loop L pat c nocase negated i saw m)
     = map_option snd (bracket_loop L pat c' nocase negated i saw m')"
proof (induction L pat c nocase negated i saw m arbitrary: m' rule: bracket_loop.induct)
  case (1 L pat c nocase negated i saw m)
  obtain b n where bn: "bracket_member L pat c nocase i = (b, n)" by force
  obtain b' where b': "bracket_member L pat c' nocase i = (b', n)"
    using bracket_member_skip [of L pat c nocase i c'] bn by (metis prod.collapse snd_conv)
  show ?case
    using "1.IH" [OF _ _ bn [symmetric] refl, of "m' \<or> b'"]
    by (subst (1 2) bracket_loop.simps) (simp add: bn b' Let_def)
qed

lemma bracket_skip:
  "map_option snd (case_bracket_expression_matches_with_case L pat i (Some c) nocase)
     = map_option snd (case_bracket_expression_matches_with_case L pat i (Some c') nocase)"
  by (simp add: case_bracket_expression_matches_with_case_def Let_def bracket_loop_skip [of L pat c _ _ _ _ _ c'])

lemma bracket_loop_next:
  "bracket_loop L pat c nocase negated i saw m = Some (r, n) \<Longrightarrow> i < n \<and> n \<le> length pat"
proof (induction L pat c nocase negated i saw m rule: bracket_loop.induct)
  case (1 L pat c nocase negated i saw m)
  show ?case
  proof (cases "i < length pat \<and> \<not> (pat ! i = RBRACKET \<and> saw)")
    case True
    obtain b k where bk: "bracket_member L pat c nocase i = (b, k)" by force
    have "i < k" using bracket_member_next(1) [OF bk] True by simp
    moreover have "k < n \<and> n \<le> length pat"
      using "1.prems" True by (intro "1.IH" [OF _ _ bk [symmetric] refl]) (simp_all add: bracket_loop.simps [of _ _ _ _ _ i] bk)
    ultimately show ?thesis by simp
  next
    case False
    then show ?thesis using "1.prems" by (auto simp: bracket_loop.simps [of _ _ _ _ _ i] split: if_splits)
  qed
qed

lemma bracket_next:
  "case_bracket_expression_matches_with_case L pat i c nocase = Some (r, n) \<Longrightarrow> i < n \<and> n \<le> length pat"
  by (auto simp: case_bracket_expression_matches_with_case_def Let_def split: if_splits option.splits
      dest!: bracket_loop_next)

subsection \<open>Atoms\<close>

definition atom_next :: "locale_env \<Rightarrow> code_point list \<Rightarrow> bool \<Rightarrow> nat \<Rightarrow> nat" where
  "atom_next L pat nocase p = snd (case_pattern_atom_matches L pat p 0 True nocase)"

definition atom_chars :: "locale_env \<Rightarrow> code_point list \<Rightarrow> bool \<Rightarrow> nat \<Rightarrow> code_point \<Rightarrow> bool" where
  "atom_chars L pat nocase p c = fst (case_pattern_atom_matches L pat p c True nocase)"

lemma atom_skip: "snd (case_pattern_atom_matches L pat p c l nocase) = atom_next L pat nocase p"
  using bracket_skip [of L pat p c nocase 0]
  by (auto simp: atom_next_def case_pattern_atom_matches_def split: option.splits)

lemma atom_next_bounds:
  assumes "p < length pat"
  shows "p < atom_next L pat nocase p" and "atom_next L pat nocase p \<le> length pat"
  using assms
  by (auto simp: atom_next_def case_pattern_atom_matches_def split: option.splits dest!: bracket_next)

text \<open>Only a backslash that ends the pattern looks at the position in the word.\<close>

lemma atom_last:
  assumes "p < length pat"
  shows "fst (case_pattern_atom_matches L pat p c l nocase) \<longleftrightarrow>
           atom_chars L pat nocase p c \<and> (l \<or> \<not> (pat ! p = BACKSLASH \<and> p + 1 = length pat))"
  using assms
  by (auto simp: atom_chars_def case_pattern_atom_matches_def split: option.splits)

function (sequential) glob_items :: "locale_env \<Rightarrow> code_point list \<Rightarrow> bool \<Rightarrow> nat \<Rightarrow> glob list" where
  "glob_items L pat nocase p =
     (if p < length pat then
        if pat ! p = ASTERISK then Many # glob_items L pat nocase (p + 1)
        else One (atom_chars L pat nocase p) # glob_items L pat nocase (atom_next L pat nocase p)
      else [])"
  by pat_completeness auto
termination
  by (relation "measure (\<lambda>(L, pat, nc, p). length pat - p)")
     (auto dest: atom_next_bounds(1) intro!: diff_less_mono2)

declare glob_items.simps [simp del]

definition pattern_lang :: "locale_env \<Rightarrow> code_point list \<Rightarrow> bool \<Rightarrow> code_point list set" where
  "pattern_lang L pat nocase = glob_lang (glob_items L pat nocase 0)"

end
