(* ===== verification/Extglob.thy ===== *)
theory Extglob
  imports GlobLang
begin

section \<open>The extended matcher\<close>

text \<open>
  \<open>src/src/executor/conditional/extglob.rs\<close> and the literal half of the matcher in \<open>pattern.rs\<close>
  (\<open>extglob_match_literal_with_case\<close>): a recursive matcher for patterns with the operators \<open>?(..)\<close>,
  \<open>*(..)\<close>, \<open>+(..)\<close>, \<open>@(..)\<close> and \<open>!(..)\<close> over alternatives.  The closures of the Rust code are the
  function arguments of \<open>extglob_try_inner_lengths_with_case\<close>.
\<close>

definition group_operator :: "code_point \<Rightarrow> bool" where
  "group_operator c \<longleftrightarrow> c \<in> {ASTERISK, QUESTION, PLUS, COMMERCIAL_AT, BANG}"

subsection \<open>Groups and alternatives\<close>

definition bracket_skip :: "code_point list \<Rightarrow> nat \<Rightarrow> nat" where
  "bracket_skip pat i = i + length (takeWhile (\<lambda>c. c \<noteq> RBRACKET) (drop i pat))"

function (sequential) group_end_loop :: "code_point list \<Rightarrow> nat \<Rightarrow> nat \<Rightarrow> nat option" where
  "group_end_loop pat i depth =
     (if i < length pat then
        if pat ! i = LPAREN then group_end_loop pat (i + 1) (depth + 1)
        else if pat ! i = RPAREN then
          (if depth - 1 = 0 then Some i else group_end_loop pat (i + 1) (depth - 1))
        else if pat ! i = LBRACKET then group_end_loop pat (bracket_skip pat (i + 1) + 1) depth
        else if pat ! i = BACKSLASH \<and> i + 1 < length pat then group_end_loop pat (i + 2) depth
        else group_end_loop pat (i + 1) depth
      else None)"
  by pat_completeness auto
termination
  by (relation "measure (\<lambda>(pat, i, d). length pat - i)") (auto simp: bracket_skip_def)

declare group_end_loop.simps [simp del]

definition extglob_group_end :: "code_point list \<Rightarrow> nat \<Rightarrow> nat option" where
  "extglob_group_end pat open_idx = group_end_loop pat open_idx 0"

fun split_loop :: "code_point list \<Rightarrow> int \<Rightarrow> code_point list \<Rightarrow> code_point list list" where
  "split_loop [] depth current = [current]"
| "split_loop (c # cs) depth current =
     (if c = LPAREN then split_loop cs (depth + 1) (current @ [c])
      else if c = RPAREN then split_loop cs (depth - 1) (current @ [c])
      else if c = BAR \<and> depth = 0 then current # split_loop cs depth []
      else split_loop cs depth (current @ [c]))"

definition extglob_split_alternatives :: "code_point list \<Rightarrow> code_point list list" where
  "extglob_split_alternatives inner = split_loop inner 0 []"

text \<open>The prefixes of the remaining word, of at least \<open>min_len\<close> characters, that an alternative matches.\<close>

definition extglob_try_inner_lengths_with_case ::
    "(code_point list \<Rightarrow> code_point list \<Rightarrow> bool) \<Rightarrow> code_point list \<Rightarrow> code_point list \<Rightarrow> nat \<Rightarrow> nat
     \<Rightarrow> (nat \<Rightarrow> bool) \<Rightarrow> bool" where
  "extglob_try_inner_lengths_with_case matches inner word w min_len found \<longleftrightarrow>
     list_ex (\<lambda>alt. list_ex (\<lambda>len. matches alt (slice w (w + len) word) \<and> found len)
                      [min_len..<length word - w + 1])
             (extglob_split_alternatives inner)"

lemma group_end_loop_bounds: "group_end_loop pat i d = Some e \<Longrightarrow> i \<le> e \<and> e < length pat"
proof (induction pat i d rule: group_end_loop.induct)
  case (1 pat i d)
  then show ?case
    by (subst (asm) (6) group_end_loop.simps) (auto simp: bracket_skip_def split: if_splits)
qed

lemma extglob_group_end_bounds:
  "extglob_group_end pat i = Some e \<Longrightarrow> i \<le> e \<and> e < length pat"
  by (simp add: extglob_group_end_def group_end_loop_bounds)

lemma bracket_candidate:
  "case_bracket_expression_matches_with_case L pat p (get_at word w) nocase = Some r \<Longrightarrow> w < length word"
  by (auto simp: case_bracket_expression_matches_with_case_def get_at_def Let_def split: if_splits)

lemma slice_length: "length (slice i j xs) = min j (length xs) - i"
  by (simp add: slice_def)

lemma split_alternative_length: "alt \<in> set (extglob_split_alternatives inner) \<Longrightarrow> length alt \<le> length inner"
proof -
  have "alt \<in> set (split_loop cs d cur) \<Longrightarrow> length alt \<le> length cs + length cur" for cs d cur
    by (induction cs d cur rule: split_loop.induct) (auto split: if_splits)
  then show "alt \<in> set (extglob_split_alternatives inner) \<Longrightarrow> length alt \<le> length inner"
    by (force simp: extglob_split_alternatives_def)
qed

lemma try_inner_cong [fundef_cong]:
  assumes "inner = inner'" "word = word'" "w = w'" "min_len = min_len'"
    and "\<And>alt str. alt \<in> set (extglob_split_alternatives inner') \<Longrightarrow> matches alt str = matches' alt str"
    and "\<And>len. min_len' \<le> len \<Longrightarrow> len \<le> length word' - w' \<Longrightarrow> found len = found' len"
  shows "extglob_try_inner_lengths_with_case matches inner word w min_len found
       = extglob_try_inner_lengths_with_case matches' inner' word' w' min_len' found'"
  unfolding extglob_try_inner_lengths_with_case_def assms(1-4)
  by (intro list_ex_cong refl) (use assms(5,6) in auto)

subsection \<open>The matcher\<close>

text \<open>
  A position past the end of the pattern counts as its end; no call has one.
\<close>

function (sequential) extglob_matches_at_with_case ::
    "locale_env \<Rightarrow> code_point list \<Rightarrow> nat \<Rightarrow> code_point list \<Rightarrow> nat \<Rightarrow> bool \<Rightarrow> bool"
  and extglob_match_literal_with_case ::
    "locale_env \<Rightarrow> code_point list \<Rightarrow> nat \<Rightarrow> code_point list \<Rightarrow> nat \<Rightarrow> bool \<Rightarrow> bool"
  and extglob_match_star_at_with_case ::
    "locale_env \<Rightarrow> code_point list \<Rightarrow> code_point list \<Rightarrow> nat \<Rightarrow> code_point list \<Rightarrow> nat \<Rightarrow> bool \<Rightarrow> bool"
  and extglob_match_negation_at_with_case ::
    "locale_env \<Rightarrow> code_point list \<Rightarrow> code_point list \<Rightarrow> nat \<Rightarrow> code_point list \<Rightarrow> nat \<Rightarrow> bool \<Rightarrow> bool"
  where
  "extglob_matches_at_with_case L pat p word w nocase =
     (if length pat \<le> p then w = length word
      else
        case (if p + 1 < length pat \<and> pat ! (p + 1) = LPAREN \<and> group_operator (pat ! p)
              then extglob_group_end pat (p + 1) else None) of
          None \<Rightarrow> extglob_match_literal_with_case L pat p word w nocase
        | Some e \<Rightarrow>
            if pat ! p = COMMERCIAL_AT then
              extglob_try_inner_lengths_with_case
                (\<lambda>alt str. extglob_matches_at_with_case L alt 0 str 0 nocase) (slice (p + 2) e pat) word w 1
                (\<lambda>len. extglob_matches_at_with_case L pat (e + 1) word (w + len) nocase)
            else if pat ! p = QUESTION then
              (if extglob_matches_at_with_case L pat (e + 1) word w nocase then True
               else extglob_try_inner_lengths_with_case
                (\<lambda>alt str. extglob_matches_at_with_case L alt 0 str 0 nocase) (slice (p + 2) e pat) word w 1
                (\<lambda>len. extglob_matches_at_with_case L pat (e + 1) word (w + len) nocase))
            else if pat ! p = ASTERISK then
              extglob_match_star_at_with_case L (slice (p + 2) e pat) pat (e + 1) word w nocase
            else if pat ! p = PLUS then
              extglob_try_inner_lengths_with_case
                (\<lambda>alt str. extglob_matches_at_with_case L alt 0 str 0 nocase) (slice (p + 2) e pat) word w 1
                (\<lambda>len. extglob_match_star_at_with_case L (slice (p + 2) e pat) pat (e + 1) word (w + len) nocase)
            else extglob_match_negation_at_with_case L (slice (p + 2) e pat) pat (e + 1) word w nocase)"
| "extglob_match_literal_with_case L pat p word w nocase =
     (if length pat \<le> p then w = length word
      else if pat ! p = ASTERISK then
        (if extglob_matches_at_with_case L pat (p + 1) word w nocase then True
         else if w < length word then extglob_matches_at_with_case L pat p word (w + 1) nocase
         else False)
      else if pat ! p = QUESTION then
        (if w < length word then extglob_matches_at_with_case L pat (p + 1) word (w + 1) nocase else False)
      else if pat ! p = LBRACKET then
        (case case_bracket_expression_matches_with_case L pat p (get_at word w) nocase of
           Some (matched, nxt) \<Rightarrow>
             (if matched then extglob_matches_at_with_case L pat nxt word (w + 1) nocase else False)
         | None \<Rightarrow>
             (if w < length word \<and> chars_match (pat ! p) (word ! w) nocase
              then extglob_matches_at_with_case L pat (p + 1) word (w + 1) nocase else False))
      else if pat ! p = BACKSLASH \<and> p + 1 < length pat then
        (if w < length word \<and> chars_match (pat ! (p + 1)) (word ! w) nocase
         then extglob_matches_at_with_case L pat (p + 2) word (w + 1) nocase else False)
      else
        (if w < length word \<and> chars_match (pat ! p) (word ! w) nocase
         then extglob_matches_at_with_case L pat (p + 1) word (w + 1) nocase else False))"
| "extglob_match_star_at_with_case L inner pat rest word w nocase =
     (if extglob_matches_at_with_case L pat rest word w nocase then True
      else list_ex (\<lambda>alt. list_ex (\<lambda>len.
               if extglob_matches_at_with_case L alt 0 (slice w (w + len) word) 0 nocase
               then extglob_match_star_at_with_case L inner pat rest word (w + len) nocase else False)
             [1..<length word - w + 1])
           (extglob_split_alternatives inner))"
| "extglob_match_negation_at_with_case L inner pat rest word w nocase =
     list_ex (\<lambda>split.
        if list_ex (\<lambda>alt. extglob_matches_at_with_case L alt 0 (slice w split word) 0 nocase)
             (extglob_split_alternatives inner)
        then False else extglob_matches_at_with_case L pat rest word split nocase)
      [w..<length word + 1]"
  by pat_completeness auto
termination
  by (relation "measures
      [case_sum (case_sum (\<lambda>(L, pat, p, word, w, nc). length pat) (\<lambda>(L, pat, p, word, w, nc). length pat))
         (case_sum (\<lambda>(L, inner, pat, rest, word, w, nc). max (length pat) (length inner + 1))
                   (\<lambda>(L, inner, pat, rest, word, w, nc). max (length pat) (length inner + 1))),
       case_sum (case_sum (\<lambda>(L, pat, p, word, w, nc). length word - w) (\<lambda>(L, pat, p, word, w, nc). length word - w))
         (case_sum (\<lambda>(L, inner, pat, rest, word, w, nc). length word - w)
                   (\<lambda>(L, inner, pat, rest, word, w, nc). length word - w)),
       case_sum (case_sum (\<lambda>(L, pat, p, word, w, nc). 3 * (length pat - p) + 1)
                          (\<lambda>(L, pat, p, word, w, nc). 3 * (length pat - p)))
         (case_sum (\<lambda>(L, inner, pat, rest, word, w, nc). 3 * (length pat - rest) + 2)
                   (\<lambda>(L, inner, pat, rest, word, w, nc). 3 * (length pat - rest) + 2))]")
     (auto dest!: extglob_group_end_bounds split_alternative_length bracket_candidate
        simp: slice_length split: if_splits)

declare extglob_matches_at_with_case.simps [simp del]
  extglob_match_literal_with_case.simps [simp del]
  extglob_match_star_at_with_case.simps [simp del]
  extglob_match_negation_at_with_case.simps [simp del]

subsection \<open>Entry points\<close>

definition extglob_matches_at :: "locale_env \<Rightarrow> code_point list \<Rightarrow> nat \<Rightarrow> code_point list \<Rightarrow> nat \<Rightarrow> bool" where
  "extglob_matches_at L pat p word w = extglob_matches_at_with_case L pat p word w False"

definition extglob_folded :: "locale_env \<Rightarrow> code_point list \<Rightarrow> code_point list \<Rightarrow> bool \<Rightarrow> bool" where
  "extglob_folded L pat word nocase =
     (let byte_locale = sides_need_byte_locale_units L pat word
      in if byte_locale \<or> sides_need_byte_char_matching pat word then
           extglob_matches_at_with_case L (stage_pattern_match_units pat byte_locale) 0
             (stage_word_match_units word byte_locale) 0 nocase
         else extglob_matches_at_with_case L pat 0 word 0 nocase)"

definition extglob_case_pattern_matches :: "locale_env \<Rightarrow> code_point list \<Rightarrow> code_point list \<Rightarrow> bool" where
  "extglob_case_pattern_matches L pat word = extglob_folded L pat word False"

definition extglob_case_pattern_matches_nocase :: "locale_env \<Rightarrow> code_point list \<Rightarrow> code_point list \<Rightarrow> bool" where
  "extglob_case_pattern_matches_nocase L pat word = extglob_folded L pat word True"

definition extglob_with_word_chars :: "locale_env \<Rightarrow> bool \<Rightarrow> code_point list \<Rightarrow> code_point list \<Rightarrow> bool" where
  "extglob_with_word_chars L nocase pat word_chars =
     (if sides_need_byte_char_matching_staged pat word_chars \<or> sides_need_byte_locale_units_staged L pat word_chars
      then extglob_folded L pat word_chars nocase
      else extglob_matches_at_with_case L pat 0 word_chars 0 nocase)"

definition extglob_case_pattern_matches_with_word_chars ::
    "locale_env \<Rightarrow> code_point list \<Rightarrow> code_point list \<Rightarrow> bool" where
  "extglob_case_pattern_matches_with_word_chars L pat word_chars = extglob_with_word_chars L False pat word_chars"

definition extglob_case_pattern_matches_nocase_with_word_chars ::
    "locale_env \<Rightarrow> code_point list \<Rightarrow> code_point list \<Rightarrow> bool" where
  "extglob_case_pattern_matches_nocase_with_word_chars L pat word_chars = extglob_with_word_chars L True pat word_chars"

end
