(* ===== verification/TextCodec.thy ===== *)
theory TextCodec
  imports Staging
begin

section \<open>The transport encoding of shell text\<close>

text \<open>
  \<open>src/src/executor/substitution_metadata.rs\<close> and the literal escapes of \<open>src/src/executor/markers.rs\<close>.
  Bash carries byte strings; this shell carries \<open>String\<close>s.  A byte that is not part of a valid UTF-8
  character travels as a marker pair (U+E000 and a payload character), a control byte that collides with
  an in-band quote carrier does so too, and a character of the registry zone that arrives as data is
  preceded by U+E400.  The decoders undo this at the output boundary.

  Strings are lists of code points (Rust's \<open>chars()\<close>), byte strings are lists of characters.
\<close>

abbreviation (input) MARKER_ZONE_FIRST :: code_point where "MARKER_ZONE_FIRST \<equiv> 0xE000"
abbreviation (input) MARKER_ZONE_LAST :: code_point where "MARKER_ZONE_LAST \<equiv> 0xE401"

text \<open>The values of the type \<open>char\<close>: Unicode scalar values.\<close>

definition rust_char :: "code_point \<Rightarrow> bool" where
  "rust_char c \<longleftrightarrow> c < 0xD800 \<or> (0xE000 \<le> c \<and> c < 0x110000)"

text \<open>
  \<open>std::str::from_utf8\<close> accepts a byte string that is a sequence of encoded characters;
  \<open>utf8_next\<close> takes one character off its front.
\<close>

definition utf8_next :: "bytes \<Rightarrow> (code_point \<times> bytes) option" where
  "utf8_next bs =
     (case bs of
        [] \<Rightarrow> None
      | b # rest \<Rightarrow>
          let n = utf8_width b; c = decode_char b (take (n - 1) rest)
          in if rust_char c \<and> take n bs = encode_char c then Some (c, drop n bs) else None)"

lemma utf8_width_pos: "0 < utf8_width b"
  by (simp add: utf8_width_def)

lemma utf8_next_shorter: "utf8_next bs = Some (c, rest) \<Longrightarrow> length rest < length bs"
  using utf8_width_pos by (auto simp: utf8_next_def Let_def split: list.splits if_splits)

text \<open>The longest valid prefix, decoded, and what follows it (\<open>Utf8Error::valid_up_to\<close>).\<close>

function (sequential) valid_up_to :: "bytes \<Rightarrow> code_point list \<times> bytes" where
  "valid_up_to bs =
     (case utf8_next bs of
        None \<Rightarrow> ([], bs)
      | Some (c, rest) \<Rightarrow> (let (cs, after) = valid_up_to rest in (c # cs, after)))"
  by pat_completeness auto
termination
  by (relation "measure length") (auto dest: utf8_next_shorter)

declare valid_up_to.simps [simp del]

subsection \<open>Encoding\<close>

definition is_assignment_carrier_byte :: "code_point \<Rightarrow> bool" where
  "is_assignment_carrier_byte b \<longleftrightarrow> b \<in> {0x0c, 0x11, 0x13} \<or> (0x14 \<le> b \<and> b \<le> 0x1f)"

definition is_marker_zone_char :: "code_point \<Rightarrow> bool" where
  "is_marker_zone_char c \<longleftrightarrow> (MARKER_ZONE_FIRST \<le> c \<and> c \<le> MARKER_ZONE_LAST) \<or> c = LITERAL_CHAR_ESCAPE"

definition push_literal_char :: "code_point \<Rightarrow> code_point list" where
  "push_literal_char c = (if is_marker_zone_char c then [LITERAL_CHAR_ESCAPE, c] else [c])"

definition push_raw_byte_marker :: "nat \<Rightarrow> code_point list" where
  "push_raw_byte_marker b = [RAW_BYTE_MARKER_ESCAPE, RAW_BYTE_MARKER_FIRST + b]"

definition push_escaped_text_with_carriers :: "code_point list \<Rightarrow> code_point list" where
  "push_escaped_text_with_carriers cs =
     concat (map (\<lambda>c. if c < 0x80 \<and> is_assignment_carrier_byte c then push_raw_byte_marker c
                       else push_literal_char c) cs)"

definition push_marker_zone_escaped :: "code_point list \<Rightarrow> code_point list" where
  "push_marker_zone_escaped cs = concat (map push_literal_char cs)"

definition escape_marker_zone_chars :: "code_point list \<Rightarrow> code_point list" where
  "escape_marker_zone_chars cs = push_marker_zone_escaped cs"

text \<open>
  The loop shared by \<open>bytes_to_shell_text\<close> and \<open>bytes_to_script_text\<close>: a valid prefix is pushed with
  the given escaping, the byte after it as a marker pair.
\<close>

lemma valid_up_to_rest: "valid_up_to bs = (cs, rest) \<Longrightarrow> length rest \<le> length bs"
proof (induction bs arbitrary: cs rest rule: valid_up_to.induct)
  case (1 bs)
  then show ?case
    by (subst (asm) (2) valid_up_to.simps)
       (fastforce split: option.splits prod.splits dest: utf8_next_shorter)
qed

function (sequential) encode_lossless :: "(code_point list \<Rightarrow> code_point list) \<Rightarrow> bytes \<Rightarrow> code_point list" where
  "encode_lossless push bs =
     (if bs = [] then []
      else case valid_up_to bs of
             (cs, []) \<Rightarrow> push cs
           | (cs, b # rest) \<Rightarrow> push cs @ push_raw_byte_marker (byte b) @ encode_lossless push rest)"
  by pat_completeness auto
termination
  by (relation "measure (\<lambda>(push, bs). length bs)") (auto dest: valid_up_to_rest [OF sym])

declare encode_lossless.simps [simp del]

definition bytes_to_shell_text :: "bytes \<Rightarrow> code_point list" where
  "bytes_to_shell_text bs = encode_lossless push_escaped_text_with_carriers bs"

definition bytes_to_assignment_shell_text :: "bytes \<Rightarrow> code_point list" where
  "bytes_to_assignment_shell_text bs = bytes_to_shell_text bs"

definition bytes_to_script_text :: "bytes \<Rightarrow> code_point list" where
  "bytes_to_script_text bs =
     (case valid_up_to bs of
        (cs, []) \<Rightarrow> if \<not> list_ex is_marker_zone_char cs then cs else escape_marker_zone_chars cs
      | _ \<Rightarrow> encode_lossless push_marker_zone_escaped bs)"

fun command_entry_chars :: "code_point list \<Rightarrow> code_point list" where
  "command_entry_chars [] = []"
| "command_entry_chars (c # cs) =
     (case cs of
        n # rest \<Rightarrow> if c = LITERAL_CHAR_ESCAPE \<and> is_marker_zone_char n then c # n # command_entry_chars rest
                    else push_literal_char c @ command_entry_chars cs
      | [] \<Rightarrow> push_literal_char c)"

definition command_string_entry_text :: "code_point list \<Rightarrow> code_point list" where
  "command_string_entry_text command =
     (if \<not> list_ex is_marker_zone_char command then command else command_entry_chars command)"

definition entry_encode_value_text :: "code_point list \<Rightarrow> code_point list" where
  "entry_encode_value_text cs =
     (if \<not> list_ex (\<lambda>c. is_marker_zone_char c \<or> c < 0x80 \<and> is_assignment_carrier_byte c) cs then cs
      else push_escaped_text_with_carriers cs)"

subsection \<open>Decoding\<close>

fun shell_text_to_raw_bytes :: "code_point list \<Rightarrow> bytes" where
  "shell_text_to_raw_bytes [] = []"
| "shell_text_to_raw_bytes (c # cs) =
     (if c = LITERAL_CHAR_ESCAPE then
        (case cs of
           n # rest \<Rightarrow> encode_char n @ shell_text_to_raw_bytes rest
         | [] \<Rightarrow> encode_char c)
      else if c \<noteq> RAW_BYTE_MARKER_ESCAPE then encode_char c @ shell_text_to_raw_bytes cs
      else case cs of
             n # rest \<Rightarrow>
               if n = RAW_BYTE_MARKER_ESCAPE then encode_char c @ shell_text_to_raw_bytes rest
               else if marker_payload n then char_of (n - RAW_BYTE_MARKER_FIRST) # shell_text_to_raw_bytes rest
               else encode_char c @ shell_text_to_raw_bytes cs
           | [] \<Rightarrow> encode_char c)"

definition utf8_sequence_len :: "char \<Rightarrow> nat option" where
  "utf8_sequence_len lead =
     (let b = byte lead
      in if b \<le> 0x7f then Some 1
         else if 0xc2 \<le> b \<and> b \<le> 0xdf then Some 2
         else if 0xe0 \<le> b \<and> b \<le> 0xef then Some 3
         else if 0xf0 \<le> b \<and> b \<le> 0xf4 then Some 4
         else None)"

text \<open>\<open>next_char\<close>: the character at the index, given the bytes from there on, and its length.\<close>

definition next_char :: "bytes \<Rightarrow> (code_point \<times> nat) option" where
  "next_char bs =
     (case bs of
        [] \<Rightarrow> None
      | lead # _ \<Rightarrow>
          (case utf8_sequence_len lead of
             None \<Rightarrow> None
           | Some len \<Rightarrow>
               if length bs < len then None
               else case valid_up_to (take len bs) of
                      (c # _, []) \<Rightarrow> Some (c, len)
                    | _ \<Rightarrow> None))"

lemma next_char_len: "next_char bs = Some (c, n) \<Longrightarrow> 0 < n \<and> n \<le> length bs"
  by (auto simp: next_char_def utf8_sequence_len_def Let_def Suc_le_eq not_less
      split: list.splits option.splits if_splits prod.splits)

function (sequential) decode_raw_byte_markers :: "bytes \<Rightarrow> bytes" where
  "decode_raw_byte_markers bs =
     (case bs of
        [] \<Rightarrow> []
      | b # rest \<Rightarrow>
          (case next_char bs of
             None \<Rightarrow> b # decode_raw_byte_markers rest
           | Some (c, len) \<Rightarrow>
               if c = LITERAL_CHAR_ESCAPE then
                 (case next_char (drop len bs) of
                    Some (_, nlen) \<Rightarrow> take nlen (drop len bs) @ decode_raw_byte_markers (drop (len + nlen) bs)
                  | None \<Rightarrow> take len bs @ decode_raw_byte_markers (drop len bs))
               else if c \<noteq> RAW_BYTE_MARKER_ESCAPE then take len bs @ decode_raw_byte_markers (drop len bs)
               else
                 (case next_char (drop len bs) of
                    Some (n, nlen) \<Rightarrow>
                      if n = RAW_BYTE_MARKER_ESCAPE then
                        take len bs @ decode_raw_byte_markers (drop (len + nlen) bs)
                      else if marker_payload n then
                        char_of (n - RAW_BYTE_MARKER_FIRST) # decode_raw_byte_markers (drop (len + nlen) bs)
                      else take len bs @ decode_raw_byte_markers (drop len bs)
                  | None \<Rightarrow> take len bs @ decode_raw_byte_markers (drop len bs))))"
  by pat_completeness auto
termination
  by (relation "measure length") (auto dest!: next_char_len)

declare decode_raw_byte_markers.simps [simp del]

definition has_raw_byte_marker_pair_step :: "code_point list \<Rightarrow> bool" where
  "has_raw_byte_marker_pair_step cs \<longleftrightarrow> (case cs of n # _ \<Rightarrow> marker_payload n | [] \<Rightarrow> False)"

fun has_raw_byte_marker_pair :: "code_point list \<Rightarrow> bool" where
  "has_raw_byte_marker_pair [] \<longleftrightarrow> False"
| "has_raw_byte_marker_pair (c # cs) \<longleftrightarrow>
     (if c = RAW_BYTE_MARKER_ESCAPE then
        has_raw_byte_marker_pair_step cs \<or> (case cs of _ # rest \<Rightarrow> has_raw_byte_marker_pair rest | [] \<Rightarrow> False)
      else has_raw_byte_marker_pair cs)"

fun fold_literal_char_escapes :: "code_point list \<Rightarrow> code_point list" where
  "fold_literal_char_escapes [] = []"
| "fold_literal_char_escapes (c # cs) =
     (case cs of
        n # rest \<Rightarrow> if c = LITERAL_CHAR_ESCAPE \<and> is_marker_zone_char n then n # fold_literal_char_escapes rest
                    else c # fold_literal_char_escapes cs
      | [] \<Rightarrow> [c])"

subsection \<open>Accounting for bytes another process read\<close>

definition len_utf8 :: "code_point \<Rightarrow> nat" where
  "len_utf8 c = length (encode_char c)"

text \<open>The unit at the front of the text: its characters, transport bytes and raw bytes.\<close>

definition decode_unit :: "code_point \<Rightarrow> code_point list \<Rightarrow> nat \<times> nat" where
  "decode_unit c rest =
     (if c = LITERAL_CHAR_ESCAPE then
        (case rest of
           n # _ \<Rightarrow> (len_utf8 c + len_utf8 n, len_utf8 n)
         | [] \<Rightarrow> (len_utf8 c, len_utf8 c))
      else if c = RAW_BYTE_MARKER_ESCAPE then
        (case rest of
           n # _ \<Rightarrow> if n = RAW_BYTE_MARKER_ESCAPE then (len_utf8 c + len_utf8 n, len_utf8 c)
                    else if marker_payload n then (len_utf8 c + len_utf8 n, 1)
                    else (len_utf8 c, len_utf8 c)
         | [] \<Rightarrow> (len_utf8 c, len_utf8 c))
      else (len_utf8 c, len_utf8 c))"

function (sequential) prefix_loop :: "code_point list \<Rightarrow> nat \<Rightarrow> nat \<Rightarrow> nat \<Rightarrow> nat" where
  "prefix_loop [] raw_len transport raw = transport"
| "prefix_loop (c # rest) raw_len transport raw =
     (let (unit_transport, unit_raw) = decode_unit c rest
      in if raw + unit_raw > raw_len then transport
         else prefix_loop (if unit_transport > len_utf8 c then tl rest else rest) raw_len
                (transport + unit_transport) (raw + unit_raw))"
  by pat_completeness auto
termination
  by (relation "measure (\<lambda>(cs, r, t, w). length cs)") auto

definition shell_text_prefix_for_raw_len :: "code_point list \<Rightarrow> nat \<Rightarrow> nat" where
  "shell_text_prefix_for_raw_len cs raw_len = prefix_loop cs raw_len 0 0"

subsection \<open>Command substitution capture\<close>

datatype quote_context = Unquoted | DoubleQuoted | HereDocument

record substitution_output =
  so_bytes :: bytes
  so_status :: int
  so_context :: quote_context
  so_dropped_nul_bytes :: bool

record expanded_fragment =
  ef_bytes :: bytes
  ef_quoted :: bool
  ef_splittable :: bool
  ef_ctlesc_markers :: bool

definition trim_capture_terminator_bytes :: "bytes \<Rightarrow> bytes" where
  "trim_capture_terminator_bytes bs = rev (dropWhile (\<lambda>b. b = CHR 0x0A) (rev bs))"

definition readback :: "bytes \<Rightarrow> int \<Rightarrow> quote_context \<Rightarrow> substitution_output" where
  "readback bs status ctxt =
     \<lparr>so_bytes = trim_capture_terminator_bytes (filter (\<lambda>b. b \<noteq> CHR 0x00) bs),
      so_status = status, so_context = ctxt, so_dropped_nul_bytes = list_ex (\<lambda>b. b = CHR 0x00) bs\<rparr>"

definition text_lossy :: "substitution_output \<Rightarrow> code_point list" where
  "text_lossy out = bytes_to_shell_text (so_bytes out)"

definition assignment_text :: "substitution_output \<Rightarrow> code_point list" where
  "assignment_text out = bytes_to_assignment_shell_text (so_bytes out)"

definition into_fragment :: "substitution_output \<Rightarrow> expanded_fragment" where
  "into_fragment out =
     (let quoted = (so_context out \<noteq> Unquoted)
      in \<lparr>ef_bytes = so_bytes out, ef_quoted = quoted, ef_splittable = \<not> quoted, ef_ctlesc_markers = False\<rparr>)"

definition fragment_literal :: "code_point list \<Rightarrow> bool \<Rightarrow> expanded_fragment" where
  "fragment_literal cs quoted =
     \<lparr>ef_bytes = encode_utf8 cs, ef_quoted = quoted, ef_splittable = False, ef_ctlesc_markers = True\<rparr>"

definition fragment_expanded :: "code_point list \<Rightarrow> bool \<Rightarrow> expanded_fragment" where
  "fragment_expanded cs quoted =
     \<lparr>ef_bytes = encode_utf8 cs, ef_quoted = quoted, ef_splittable = True, ef_ctlesc_markers = False\<rparr>"

definition fragment_of_shell_text :: "code_point list \<Rightarrow> bool \<Rightarrow> expanded_fragment" where
  "fragment_of_shell_text cs quoted =
     \<lparr>ef_bytes = shell_text_to_raw_bytes cs, ef_quoted = quoted, ef_splittable = False, ef_ctlesc_markers = False\<rparr>"

end
