(* ===== verification/Removal.thy ===== *)
theory Removal
  imports Extglob TextCodec
begin

section \<open>Removing a prefix or suffix that matches a pattern\<close>

text \<open>
  \<open>src/src/executor/parameter_decode.rs\<close>: the operators \<open>#\<close>, \<open>##\<close>, \<open>%\<close> and \<open>%%\<close> of parameter expansion.
  The walk tries the character boundaries of the value, from the near or the far end, except those that
  would cut a marker pair in two; plain literals are decided by one comparison; patterns with raw-byte
  markers, and text outside ASCII in a byte locale, are walked byte by byte.

  \<open>char_indices\<close> enumerates the byte offsets of the boundaries; the model enumerates the boundaries by
  the number of characters before them.  Byte lengths appear where the code compares them.
\<close>

definition byte_len :: "code_point list \<Rightarrow> nat" where
  "byte_len cs = length (encode_utf8 cs)"

text \<open>The boundary at a byte offset, if the offset is one (\<open>is_char_boundary\<close>).\<close>

definition boundary_at :: "code_point list \<Rightarrow> nat \<Rightarrow> nat option" where
  "boundary_at value off = List.find (\<lambda>k. byte_len (take k value) = off) [0..<length value + 1]"

datatype match_length = Shortest | Longest

datatype pattern_removal = ShortestPrefix | LongestPrefix | ShortestSuffix | LongestSuffix

fun uses_extglob_from :: "code_point list \<Rightarrow> bool" where
  "uses_extglob_from [] \<longleftrightarrow> False"
| "uses_extglob_from (c # cs) \<longleftrightarrow>
     (if c = BACKSLASH then (case cs of [] \<Rightarrow> False | _ # rest \<Rightarrow> uses_extglob_from rest)
      else if group_operator c \<and> get_at cs 0 = Some LPAREN then True
      else uses_extglob_from cs)"

definition pattern_uses_extglob_syntax :: "code_point list \<Rightarrow> bool" where
  "pattern_uses_extglob_syntax pat \<longleftrightarrow> uses_extglob_from pat"

definition removal_pattern_matches :: "locale_env \<Rightarrow> code_point list \<Rightarrow> code_point list \<Rightarrow> bool \<Rightarrow> bool" where
  "removal_pattern_matches L pat word extglob \<longleftrightarrow>
     (if extglob \<and> pattern_uses_extglob_syntax pat then extglob_case_pattern_matches L pat word
      else case_pattern_matches L pat word)"

definition removal_pattern_matches_prechecked ::
    "locale_env \<Rightarrow> code_point list \<Rightarrow> code_point list \<Rightarrow> bool \<Rightarrow> bool" where
  "removal_pattern_matches_prechecked L pat word extglob \<longleftrightarrow>
     (if extglob \<and> pattern_uses_extglob_syntax pat then extglob_case_pattern_matches L pat word
      else case_pattern_matches_prechecked L pat word False)"

definition removal_pair_gates_clean :: "locale_env \<Rightarrow> code_point list \<Rightarrow> code_point list \<Rightarrow> bool" where
  "removal_pair_gates_clean L pat value \<longleftrightarrow>
     \<not> sides_need_byte_char_matching pat value \<and> \<not> sides_need_byte_locale_units L pat value"

text \<open>The boundaries inside a marker pair or a literal escape; \<open>i\<close> is the position of the text.\<close>

fun split_points_from :: "nat \<Rightarrow> code_point list \<Rightarrow> nat list" where
  "split_points_from i [] = []"
| "split_points_from i (c # cs) =
     (if c \<noteq> RAW_BYTE_MARKER_ESCAPE \<and> c \<noteq> LITERAL_CHAR_ESCAPE then split_points_from (i + 1) cs
      else case cs of
             [] \<Rightarrow> []
           | n # rest \<Rightarrow>
               if c = LITERAL_CHAR_ESCAPE \<or> n = RAW_BYTE_MARKER_ESCAPE \<or> marker_payload n
               then (i + 1) # split_points_from (i + 2) rest
               else split_points_from (i + 1) cs)"

definition marker_pair_split_points :: "code_point list \<Rightarrow> nat list" where
  "marker_pair_split_points value =
     (if RAW_BYTE_MARKER_ESCAPE \<notin> set value \<and> LITERAL_CHAR_ESCAPE \<notin> set value then []
      else split_points_from 0 value)"

definition pattern_has_raw_byte_markers :: "code_point list \<Rightarrow> bool" where
  "pattern_has_raw_byte_markers pat \<longleftrightarrow> RAW_BYTE_MARKER_ESCAPE \<in> set pat"

definition remove_matching_prefix_bytes ::
    "locale_env \<Rightarrow> code_point list \<Rightarrow> code_point list \<Rightarrow> match_length \<Rightarrow> bool \<Rightarrow> code_point list" where
  "remove_matching_prefix_bytes L value pat len extglob =
     (let vb = shell_text_to_raw_bytes value;
          order = (case len of Shortest \<Rightarrow> [0..<length vb + 1] | Longest \<Rightarrow> rev [0..<length vb + 1])
      in case List.find (\<lambda>e. removal_pattern_matches L pat (bytes_to_shell_text (take e vb)) extglob) order of
           Some e \<Rightarrow> bytes_to_shell_text (drop e vb)
         | None \<Rightarrow> value)"

definition remove_matching_suffix_bytes ::
    "locale_env \<Rightarrow> code_point list \<Rightarrow> code_point list \<Rightarrow> match_length \<Rightarrow> bool \<Rightarrow> code_point list" where
  "remove_matching_suffix_bytes L value pat len extglob =
     (let vb = shell_text_to_raw_bytes value;
          order = (case len of Shortest \<Rightarrow> rev [0..<length vb + 1] | Longest \<Rightarrow> [0..<length vb + 1])
      in case List.find (\<lambda>s. removal_pattern_matches L pat (bytes_to_shell_text (drop s vb)) extglob) order of
           Some s \<Rightarrow> bytes_to_shell_text (take s vb)
         | None \<Rightarrow> value)"

definition removal_candidate_matches ::
    "locale_env \<Rightarrow> code_point list \<Rightarrow> code_point list \<Rightarrow> bool \<Rightarrow> code_point list \<Rightarrow> bool" where
  "removal_candidate_matches L value pat extglob word \<longleftrightarrow>
     (if removal_pair_gates_clean L pat value then removal_pattern_matches_prechecked L pat word extglob
      else removal_pattern_matches L pat word extglob)"

definition removal_boundaries :: "code_point list \<Rightarrow> nat list" where
  "removal_boundaries value =
     (let points = marker_pair_split_points value
      in filter (\<lambda>k. k \<notin> set points) [0..<length value + 1])"

definition remove_matching_prefix ::
    "locale_env \<Rightarrow> code_point list \<Rightarrow> code_point list \<Rightarrow> match_length \<Rightarrow> bool \<Rightarrow> code_point list" where
  "remove_matching_prefix L value pat len extglob =
     (if pattern_has_raw_byte_markers pat \<or> sides_need_byte_locale_units L pat value then
        remove_matching_prefix_bytes L value pat len extglob
      else if pattern_is_plain_literal pat \<and> \<not> sides_need_byte_char_matching pat value then
        (case boundary_at value (byte_len pat) of
           Some e \<Rightarrow> if e \<notin> set (marker_pair_split_points value) \<and> take e value = pat then drop e value else value
         | None \<Rightarrow> value)
      else
        (case List.find (\<lambda>e. removal_candidate_matches L value pat extglob (take e value))
                (case len of Shortest \<Rightarrow> removal_boundaries value | Longest \<Rightarrow> rev (removal_boundaries value)) of
           Some e \<Rightarrow> drop e value
         | None \<Rightarrow> value))"

definition remove_matching_suffix ::
    "locale_env \<Rightarrow> code_point list \<Rightarrow> code_point list \<Rightarrow> match_length \<Rightarrow> bool \<Rightarrow> code_point list" where
  "remove_matching_suffix L value pat len extglob =
     (if pattern_has_raw_byte_markers pat \<or> sides_need_byte_locale_units L pat value then
        remove_matching_suffix_bytes L value pat len extglob
      else if pattern_is_plain_literal pat \<and> \<not> sides_need_byte_char_matching pat value then
        (if byte_len pat \<le> byte_len value then
           (case boundary_at value (byte_len value - byte_len pat) of
              Some s \<Rightarrow> if s \<notin> set (marker_pair_split_points value) \<and> drop s value = pat then take s value else value
            | None \<Rightarrow> value)
         else value)
      else
        (case List.find (\<lambda>s. removal_candidate_matches L value pat extglob (drop s value))
                (case len of Shortest \<Rightarrow> rev (removal_boundaries value) | Longest \<Rightarrow> removal_boundaries value) of
           Some s \<Rightarrow> take s value
         | None \<Rightarrow> value))"

definition remove_parameter_pattern ::
    "locale_env \<Rightarrow> code_point list \<Rightarrow> code_point list \<Rightarrow> pattern_removal \<Rightarrow> bool \<Rightarrow> code_point list" where
  "remove_parameter_pattern L value pat operation extglob =
     (case operation of
        ShortestPrefix \<Rightarrow> remove_matching_prefix L value pat Shortest extglob
      | LongestPrefix \<Rightarrow> remove_matching_prefix L value pat Longest extglob
      | ShortestSuffix \<Rightarrow> remove_matching_suffix L value pat Shortest extglob
      | LongestSuffix \<Rightarrow> remove_matching_suffix L value pat Longest extglob)"

end
