(* ===== verification/Patsub.thy ===== *)
theory Patsub
  imports Removal
begin

section \<open>Pattern substitution\<close>

text \<open>
  \<open>src/src/executor/parameter_replace.rs\<close>: \<open>${v/pat/rep}\<close>, \<open>${v//pat/rep}\<close>, \<open>${v/#pat/rep}\<close> and
  \<open>${v/%pat/rep}\<close>.  Byte offsets of the code are character boundaries; the model counts the characters
  before them.  A slice at an offset that is no boundary panics: the functions that can reach one return
  an option, and \<open>None\<close> is the panic.

  \<open>lower\<close> is \<open>char::to_lowercase\<close>, a table of the standard library; the matcher's locale is \<open>locale_env\<close>.
\<close>

abbreviation (input) AMPERSAND :: code_point where "AMPERSAND \<equiv> 38"
abbreviation (input) HASH :: code_point where "HASH \<equiv> 35"
abbreviation (input) PERCENT :: code_point where "PERCENT \<equiv> 37"
abbreviation (input) DATA_BACKSLASH :: code_point where "DATA_BACKSLASH \<equiv> 0x14"

type_synonym case_mapping = "code_point \<Rightarrow> code_point list"

subsection \<open>The replacement text\<close>

fun shouldexp_replacement :: "code_point list \<Rightarrow> bool" where
  "shouldexp_replacement [] \<longleftrightarrow> False"
| "shouldexp_replacement (c # cs) \<longleftrightarrow>
     (if c = BACKSLASH then
        (case cs of
           [] \<Rightarrow> False
         | n # rest \<Rightarrow> if n = AMPERSAND \<or> n = BACKSLASH then True else shouldexp_replacement rest)
      else if c = AMPERSAND then True
      else shouldexp_replacement cs)"

fun expand_replacement_amp :: "code_point list \<Rightarrow> code_point list \<Rightarrow> code_point list" where
  "expand_replacement_amp matched [] = []"
| "expand_replacement_amp matched (c # cs) =
     (if c = AMPERSAND then matched @ expand_replacement_amp matched cs
      else if c = BACKSLASH then
        (case cs of
           n # rest \<Rightarrow>
             if n = AMPERSAND then AMPERSAND # expand_replacement_amp matched rest
             else if n = BACKSLASH then BACKSLASH # expand_replacement_amp matched rest
             else BACKSLASH # expand_replacement_amp matched cs
         | [] \<Rightarrow> [BACKSLASH])
      else c # expand_replacement_amp matched cs)"

subsection \<open>Literal patterns\<close>

text \<open>\<open>str::replace\<close> of a doubled marker by one backslash, from the left.\<close>

fun fold_doubled :: "code_point list \<Rightarrow> code_point list" where
  "fold_doubled (a # b # cs) =
     (if a = PATTERN_LITERAL_BACKSLASH \<and> b = PATTERN_LITERAL_BACKSLASH then BACKSLASH # fold_doubled cs
      else a # fold_doubled (b # cs))"
| "fold_doubled cs = cs"

definition normalize_parameter_pattern_backslashes :: "code_point list \<Rightarrow> code_point list" where
  "normalize_parameter_pattern_backslashes pat =
     (if DATA_BACKSLASH \<notin> set pat \<and> PATTERN_LITERAL_BACKSLASH \<notin> set pat then pat
      else map (\<lambda>c. if c = PATTERN_LITERAL_BACKSLASH then BACKSLASH else c)
             (map (\<lambda>c. if c = DATA_BACKSLASH then BACKSLASH else c) (fold_doubled pat)))"

definition folded_eq :: "case_mapping \<Rightarrow> bool \<Rightarrow> code_point \<Rightarrow> code_point \<Rightarrow> bool" where
  "folded_eq lower nocase a b \<longleftrightarrow> (if nocase then lower a = lower b else a = b)"

text \<open>\<open>LiteralMatches::next\<close> from the position \<open>pos\<close>; the iterator resumes behind the occurrence.\<close>

function (sequential) literal_next ::
    "case_mapping \<Rightarrow> code_point list \<Rightarrow> code_point list \<Rightarrow> bool \<Rightarrow> nat \<Rightarrow> nat option" where
  "literal_next lower value needle nocase pos =
     (if needle = [] then None
      else if pos + length needle \<le> length value then
        if list_all2 (folded_eq lower nocase) (slice pos (pos + length needle) value) needle then Some pos
        else literal_next lower value needle nocase (pos + 1)
      else None)"
  by pat_completeness auto
termination
  by (relation "measure (\<lambda>(l, v, n, c, pos). length v - pos)")
    (auto simp flip: length_greater_0_conv)

declare literal_next.simps [simp del]

lemma literal_next_bounds:
  "literal_next lower v needle nocase pos = Some i \<Longrightarrow> pos \<le> i \<and> i + length needle \<le> length v \<and> needle \<noteq> []"
proof (induction lower v needle nocase pos rule: literal_next.induct)
  case (1 lower v needle nocase pos)
  then show ?case
    by (subst (asm) (2) literal_next.simps) (auto split: if_splits)
qed

text \<open>The loop of \<open>replace_with_amp\<close>; the iterator's position is always \<open>behind\<close>.\<close>

function (sequential) literal_loop ::
    "case_mapping \<Rightarrow> code_point list \<Rightarrow> code_point list \<Rightarrow> code_point list \<Rightarrow> bool \<Rightarrow> bool \<Rightarrow> bool \<Rightarrow> nat \<Rightarrow> bool
     \<Rightarrow> code_point list \<Rightarrow> code_point list" where
  "literal_loop lower value needle replacement global nocase expand_amp behind replaced output =
     (case literal_next lower value needle nocase behind of
        None \<Rightarrow> output @ drop behind value
      | Some i \<Rightarrow>
          if replaced \<and> \<not> global then output @ drop behind value
          else
            literal_loop lower value needle replacement global nocase expand_amp (i + length needle) True
              (output @ slice behind i value @
                 (if expand_amp then expand_replacement_amp (slice i (i + length needle) value) replacement
                  else replacement)))"
  by pat_completeness auto
termination
  by (relation "measure (\<lambda>(l, v, n, r, g, c, e, behind, d, out). length v - behind)")
    (auto dest!: literal_next_bounds intro!: diff_less_mono2 simp flip: length_greater_0_conv)

declare literal_loop.simps [simp del]

definition replace_with_amp ::
    "case_mapping \<Rightarrow> code_point list \<Rightarrow> code_point list \<Rightarrow> code_point list \<Rightarrow> bool \<Rightarrow> bool \<Rightarrow> bool
     \<Rightarrow> code_point list" where
  "replace_with_amp lower value pat replacement global nocase expand_amp =
     literal_loop lower value pat replacement global nocase expand_amp 0 False []"

subsection \<open>The matcher of one candidate\<close>

definition parameter_pattern_match ::
    "locale_env \<Rightarrow> code_point list \<Rightarrow> code_point list \<Rightarrow> bool \<Rightarrow> bool \<Rightarrow> bool" where
  "parameter_pattern_match L pat word nocase extglob \<longleftrightarrow>
     (if extglob \<and> pattern_uses_extglob_syntax pat then
        (if nocase then extglob_case_pattern_matches_nocase L pat word
         else extglob_case_pattern_matches L pat word)
      else if nocase then case_pattern_matches_nocase L pat word
      else case_pattern_matches L pat word)"

definition parameter_pattern_match_prechecked ::
    "locale_env \<Rightarrow> code_point list \<Rightarrow> code_point list \<Rightarrow> bool \<Rightarrow> bool \<Rightarrow> bool" where
  "parameter_pattern_match_prechecked L pat word nocase extglob \<longleftrightarrow>
     (if extglob \<and> pattern_uses_extglob_syntax pat then
        (if nocase then extglob_case_pattern_matches_nocase L pat word
         else extglob_case_pattern_matches L pat word)
      else case_pattern_matches_prechecked L pat word nocase)"

definition pattern_pair_gates_clean :: "locale_env \<Rightarrow> code_point list \<Rightarrow> code_point list \<Rightarrow> bool" where
  "pattern_pair_gates_clean L pat value \<longleftrightarrow>
     \<not> sides_need_byte_char_matching pat value \<and> \<not> sides_need_byte_locale_units L pat value"

definition patsub_candidate_matches ::
    "locale_env \<Rightarrow> code_point list \<Rightarrow> code_point list \<Rightarrow> bool \<Rightarrow> bool \<Rightarrow> code_point list \<Rightarrow> bool" where
  "patsub_candidate_matches L value pat nocase extglob word \<longleftrightarrow>
     (if pattern_pair_gates_clean L pat value then parameter_pattern_match_prechecked L pat word nocase extglob
      else parameter_pattern_match L pat word nocase extglob)"

definition pattern_contains_glob :: "code_point list \<Rightarrow> bool" where
  "pattern_contains_glob pat \<longleftrightarrow>
     list_ex (\<lambda>c. c \<in> {ASTERISK, QUESTION, LBRACKET, BACKSLASH}) pat \<or> pattern_uses_extglob_syntax pat"

subsection \<open>Which candidates are tried\<close>

definition pattern_ends_with_lone_backslash :: "code_point list \<Rightarrow> bool" where
  "pattern_ends_with_lone_backslash pat \<longleftrightarrow>
     length (takeWhile (\<lambda>c. c = BACKSLASH) (rev pat)) mod 2 = 1"

text \<open>The text behind a bracket expression, given the text behind its opening bracket.\<close>

definition bound_bracket_rest :: "code_point list \<Rightarrow> code_point list" where
  "bound_bracket_rest cs =
     (let a = (case cs of c # r \<Rightarrow> if c = BANG \<or> c = CARET then r else cs | [] \<Rightarrow> []);
          b = (case a of c # r \<Rightarrow> if c = RBRACKET then r else a | [] \<Rightarrow> []);
          r = dropWhile (\<lambda>c. c \<noteq> RBRACKET) b
      in if r = [] then cs else tl r)"

definition bound_rest :: "code_point \<Rightarrow> code_point list \<Rightarrow> code_point list" where
  "bound_rest c cs =
     (if c = LBRACKET then bound_bracket_rest cs else if c = BACKSLASH then tl cs else cs)"

lemma bound_rest_length: "length (bound_rest c cs) \<le> length cs"
proof -
  have "length (tl (dropWhile P xs)) \<le> length ys" if "length xs \<le> length ys" for P and xs ys :: "nat list"
    using length_dropWhile_le [of P xs] that by simp
  then show ?thesis
    by (auto simp: bound_rest_def bound_bracket_rest_def Let_def split: list.split)
qed

function (sequential) pattern_match_length_bound :: "code_point list \<Rightarrow> nat option" where
  "pattern_match_length_bound [] = Some 0"
| "pattern_match_length_bound (c # cs) =
     (if c = ASTERISK then None
      else map_option Suc (pattern_match_length_bound (bound_rest c cs)))"
  by pat_completeness auto
termination
  by (relation "measure length") (auto simp: bound_rest_length le_imp_less_Suc)

text \<open>\<open>str::rsplit_once\<close> at the last star.\<close>

definition after_last_star :: "code_point list \<Rightarrow> code_point list option" where
  "after_last_star pat =
     (if ASTERISK \<in> set pat then Some (rev (takeWhile (\<lambda>c. c \<noteq> ASTERISK) (rev pat))) else None)"

definition pattern_literal_tail :: "code_point list \<Rightarrow> code_point list option" where
  "pattern_literal_tail pat =
     (case after_last_star pat of
        None \<Rightarrow> None
      | Some tail \<Rightarrow>
          if tail = [] \<or> list_ex (\<lambda>c. c \<in> {QUESTION, ASTERISK, LBRACKET, RBRACKET, BACKSLASH}) tail then None
          else
            let t = normalize_parameter_pattern_backslashes tail in if t = [] then None else Some t)"

text \<open>
  \<open>str::find\<close>: the first occurrence, as a position.
\<close>

definition find_text :: "code_point list \<Rightarrow> code_point list \<Rightarrow> nat option" where
  "find_text needle text = List.find (\<lambda>k. starts_at text k needle) [0..<length text + 1]"

text \<open>
  The search resumes one byte behind the start of the occurrence found: a character boundary exactly when
  the first character of the tail is a single byte.
\<close>

lemma find_text_bounds: "find_text needle text = Some k \<Longrightarrow> k \<le> length text"
  by (auto simp: find_text_def simp del: upt_Suc dest!: find_SomeD)

function (sequential) tail_ends_from ::
    "code_point list \<Rightarrow> code_point list \<Rightarrow> nat \<Rightarrow> nat list option" where
  "tail_ends_from tail value search =
     (case find_text tail (drop search value) of
        None \<Rightarrow> Some []
      | Some k \<Rightarrow>
          if tail = [] \<or> len_utf8 (hd tail) \<noteq> 1 \<or> length value < search + k + 1 then None
          else map_option (\<lambda>ends. (search + k + length tail) # ends)
                 (tail_ends_from tail value (search + k + 1)))"
  by pat_completeness auto
termination
  by (relation "measure (\<lambda>(t, v, s). Suc (length v) - s)") (auto split: if_splits)

declare tail_ends_from.simps [simp del]

text \<open>Outer option: a panic; inner option: no usable tail.\<close>

definition pattern_literal_tail_ends :: "code_point list \<Rightarrow> code_point list \<Rightarrow> nat list option option" where
  "pattern_literal_tail_ends pat value =
     (case pattern_literal_tail pat of
        None \<Rightarrow> Some None
      | Some tail \<Rightarrow> map_option Some (tail_ends_from tail value 0))"

subsection \<open>The finders\<close>

definition patsub_bound :: "code_point list \<Rightarrow> bool \<Rightarrow> nat option" where
  "patsub_bound pat extglob =
     (if extglob \<and> pattern_uses_extglob_syntax pat then None else pattern_match_length_bound pat)"

definition within :: "nat option \<Rightarrow> nat \<Rightarrow> bool" where
  "within bound d \<longleftrightarrow> (case bound of None \<Rightarrow> True | Some b \<Rightarrow> d \<le> b)"

definition find_parameter_prefix_match ::
    "locale_env \<Rightarrow> code_point list \<Rightarrow> code_point list \<Rightarrow> bool \<Rightarrow> bool \<Rightarrow> nat option" where
  "find_parameter_prefix_match L value pat nocase extglob =
     (if pat = [] then Some 0
      else List.find (\<lambda>e. patsub_candidate_matches L value pat nocase extglob (take e value))
             (filter (\<lambda>e. within (patsub_bound pat extglob) e) (rev [0..<length value + 1])))"

definition find_parameter_suffix_match ::
    "locale_env \<Rightarrow> code_point list \<Rightarrow> code_point list \<Rightarrow> bool \<Rightarrow> bool \<Rightarrow> nat option" where
  "find_parameter_suffix_match L value pat nocase extglob =
     (if pat = [] then Some (length value)
      else List.find (\<lambda>s. patsub_candidate_matches L value pat nocase extglob (drop s value))
             (filter (\<lambda>s. within (patsub_bound pat extglob) (length value - s)) [0..<length value + 1]))"

text \<open>The inner loop: the last end that passes the prunes and matches.\<close>

definition best_end ::
    "(nat \<Rightarrow> bool) \<Rightarrow> nat option \<Rightarrow> nat list option \<Rightarrow> bool \<Rightarrow> nat \<Rightarrow> nat \<Rightarrow> nat option" where
  "best_end matches bound tail_ends at_end start len =
     fold (\<lambda>e best. if \<not> (case tail_ends of None \<Rightarrow> True | Some allowed \<Rightarrow> e \<in> set allowed) then best
                     else if at_end \<and> e \<noteq> len then best
                     else if matches e then Some e else best)
       (takeWhile (\<lambda>e. within bound (e - start)) [start..<len + 1]) None"

fun first_match :: "(nat \<Rightarrow> nat option) \<Rightarrow> nat list \<Rightarrow> (nat \<times> nat) option" where
  "first_match best [] = None"
| "first_match best (s # ss) = (case best s of Some e \<Rightarrow> Some (s, e) | None \<Rightarrow> first_match best ss)"

definition find_parameter_pattern_match ::
    "locale_env \<Rightarrow> code_point list \<Rightarrow> code_point list \<Rightarrow> nat \<Rightarrow> bool \<Rightarrow> bool \<Rightarrow> (nat \<times> nat) option option" where
  "find_parameter_pattern_match L value pat cursor nocase extglob =
     (let extglob_pattern = (extglob \<and> pattern_uses_extglob_syntax pat);
          at_end = (\<not> extglob_pattern \<and> pattern_ends_with_lone_backslash pat)
      in case (if extglob_pattern then Some None else pattern_literal_tail_ends pat value) of
           None \<Rightarrow> None
         | Some tail_ends \<Rightarrow>
             Some (first_match
               (\<lambda>s. best_end (\<lambda>e. patsub_candidate_matches L value pat nocase extglob (slice s e value))
                      (patsub_bound pat extglob) tail_ends at_end s (length value))
               [cursor..<length value + 1]))"

subsection \<open>The deletion shortcut\<close>

datatype bracket_filter_item = FilterChar code_point | FilterRange code_point code_point

fun filter_items :: "code_point list \<Rightarrow> bracket_filter_item list" where
  "filter_items (a # b # c # rest) =
     (if b = HYPHEN then FilterRange a c # filter_items rest else FilterChar a # filter_items (b # c # rest))"
| "filter_items (a # rest) = FilterChar a # filter_items rest"
| "filter_items [] = []"

definition parse_negated_bracket_filter :: "code_point list \<Rightarrow> bracket_filter_item list option" where
  "parse_negated_bracket_filter pat =
     (case pat of
        p # q # inner \<Rightarrow>
          if p = LBRACKET \<and> (q = CARET \<or> q = BANG) \<and> inner \<noteq> [] \<and> List.last inner = RBRACKET \<and> butlast inner \<noteq> []
          then Some (filter_items (butlast inner)) else None
      | _ \<Rightarrow> None)"

fun filter_item_matches :: "case_mapping \<Rightarrow> code_point \<Rightarrow> bool \<Rightarrow> bracket_filter_item \<Rightarrow> bool" where
  "filter_item_matches lower ch nocase (FilterChar v) \<longleftrightarrow> folded_eq lower nocase v ch"
| "filter_item_matches lower ch nocase (FilterRange a b) \<longleftrightarrow> a \<le> ch \<and> ch \<le> b"

definition bracket_filter_matches :: "case_mapping \<Rightarrow> bracket_filter_item list \<Rightarrow> code_point \<Rightarrow> bool \<Rightarrow> bool" where
  "bracket_filter_matches lower items ch nocase \<longleftrightarrow> list_ex (filter_item_matches lower ch nocase) items"

subsection \<open>Substitution\<close>

definition replace_parameter_prefix ::
    "locale_env \<Rightarrow> code_point list \<Rightarrow> code_point list \<Rightarrow> (code_point list \<Rightarrow> code_point list) \<Rightarrow> bool \<Rightarrow> bool
     \<Rightarrow> code_point list" where
  "replace_parameter_prefix L value pat amp nocase extglob =
     (case find_parameter_prefix_match L value pat nocase extglob of
        None \<Rightarrow> value
      | Some e \<Rightarrow> amp (take e value) @ drop e value)"

definition replace_parameter_suffix ::
    "locale_env \<Rightarrow> code_point list \<Rightarrow> code_point list \<Rightarrow> (code_point list \<Rightarrow> code_point list) \<Rightarrow> bool \<Rightarrow> bool
     \<Rightarrow> code_point list" where
  "replace_parameter_suffix L value pat amp nocase extglob =
     (case find_parameter_suffix_match L value pat nocase extglob of
        None \<Rightarrow> value
      | Some s \<Rightarrow> take s value @ amp (drop s value))"

lemma best_end_range:
  assumes "best_end M bound tail_ends at_end start len = Some e"
  shows "start \<le> e \<and> e \<le> len \<and> M e"
proof -
  let ?step = "\<lambda>e best. if \<not> (case tail_ends of None \<Rightarrow> True | Some allowed \<Rightarrow> e \<in> set allowed) then best
                     else if at_end \<and> e \<noteq> len then best
                     else if M e then Some e else best"
  have "fold ?step es b = Some e \<Longrightarrow> b = Some e \<or> (e \<in> set es \<and> M e)" for es b
    by (induction es arbitrary: b) (fastforce split: if_splits)+
  from this [of "takeWhile (\<lambda>e. within bound (e - start)) [start..<len + 1]" None] assms
  have "e \<in> set (takeWhile (\<lambda>e. within bound (e - start)) [start..<len + 1]) \<and> M e"
    by (simp add: best_end_def del: upt_Suc)
  then show ?thesis by (auto simp del: upt_Suc dest!: set_takeWhileD)
qed

lemma first_match_in: "first_match best ss = Some (s, e) \<Longrightarrow> s \<in> set ss \<and> best s = Some e"
  by (induction ss) (auto split: option.splits)

lemma find_pattern_match_range:
  assumes "find_parameter_pattern_match L value pat cursor nocase extglob = Some (Some (s, e))"
  shows "cursor \<le> s \<and> s \<le> e \<and> e \<le> length value"
  using assms
  by (auto simp: find_parameter_pattern_match_def Let_def simp del: upt_Suc split: option.splits
      dest!: first_match_in best_end_range)

function (sequential) glob_loop ::
    "locale_env \<Rightarrow> code_point list \<Rightarrow> code_point list \<Rightarrow> (code_point list \<Rightarrow> code_point list) \<Rightarrow> bool \<Rightarrow> bool \<Rightarrow> bool
     \<Rightarrow> nat \<Rightarrow> code_point list \<Rightarrow> code_point list option" where
  "glob_loop L value pat amp global nocase extglob cursor output =
     (if cursor < length value then
        case find_parameter_pattern_match L value pat cursor nocase extglob of
          None \<Rightarrow> None
        | Some None \<Rightarrow> Some (output @ drop cursor value)
        | Some (Some (s, e)) \<Rightarrow>
            let output' = output @ slice cursor s value @ amp (slice s e value)
            in if e = s then
                 (if e < length value then
                    let output'' = output' @ [value ! e]
                    in if global then glob_loop L value pat amp global nocase extglob (e + 1) output''
                       else Some (output'' @ drop (e + 1) value)
                  else Some output')
               else if global then glob_loop L value pat amp global nocase extglob e output'
               else Some (output' @ drop e value)
      else Some output)"
  by pat_completeness auto
termination
  by (relation "measure (\<lambda>(L, v, p, a, g, c, x, cursor, out). length v - cursor)")
    (auto dest!: find_pattern_match_range)

declare glob_loop.simps [simp del]

definition replace_parameter_pattern_inner ::
    "case_mapping \<Rightarrow> locale_env \<Rightarrow> code_point list \<Rightarrow> code_point list \<Rightarrow> code_point list \<Rightarrow> bool \<Rightarrow> bool \<Rightarrow> bool \<Rightarrow> bool
     \<Rightarrow> code_point list option" where
  "replace_parameter_pattern_inner lower L value pat replacement global nocase patsub_replacement extglob =
     (let expand_amp = (patsub_replacement \<and> shouldexp_replacement replacement);
          amp = (\<lambda>matched. if expand_amp then expand_replacement_amp matched replacement else replacement)
      in if \<not> global \<and> pat \<noteq> [] \<and> hd pat = HASH then
           Some (replace_parameter_prefix L value (tl pat) amp nocase extglob)
         else if \<not> global \<and> pat \<noteq> [] \<and> hd pat = PERCENT then
           Some (replace_parameter_suffix L value (tl pat) amp nocase extglob)
         else if pat = [] then Some value
         else if value = [] then
           Some (if parameter_pattern_match L pat [] nocase extglob then amp [] else [])
         else
           case (if global \<and> replacement = [] then parse_negated_bracket_filter pat else None) of
             Some items \<Rightarrow> Some (filter (\<lambda>ch. bracket_filter_matches lower items ch nocase) value)
           | None \<Rightarrow>
               if \<not> pattern_contains_glob pat then
                 Some (replace_with_amp lower value (normalize_parameter_pattern_backslashes pat)
                         replacement global nocase expand_amp)
               else
                 glob_loop L value (map (\<lambda>c. if c = DATA_BACKSLASH then PATTERN_LITERAL_BACKSLASH else c) pat)
                   amp global nocase extglob 0 [])"

definition replace_parameter_pattern ::
    "case_mapping \<Rightarrow> locale_env \<Rightarrow> code_point list \<Rightarrow> code_point list \<Rightarrow> code_point list \<Rightarrow> bool \<Rightarrow> bool \<Rightarrow> bool \<Rightarrow> bool
     \<Rightarrow> code_point list option" where
  "replace_parameter_pattern lower L value pat replacement global nocase patsub_replacement extglob =
     (if sides_need_byte_locale_units L pat value then
        map_option (\<lambda>out. bytes_to_shell_text (match_units_to_raw_bytes out))
          (replace_parameter_pattern_inner lower L (stage_word_match_units value True)
             (stage_pattern_match_units pat True) replacement global nocase patsub_replacement extglob)
      else
        replace_parameter_pattern_inner lower L value pat replacement global nocase patsub_replacement extglob)"

end
