(* ===== verification/GlobCorrect.thy ===== *)
theory GlobCorrect
  imports GlobLang
begin

section \<open>The iterative matcher decides the language of the pattern\<close>

text \<open>
  \<open>match_loop\<close> keeps one saved star.  The proof shows that this loses nothing: a word position from
  which an earlier star could still match is also reachable from the later star
  (\<open>star_step\<close>).  The same argument is used for the staged matcher and for the fast path over
  simple globs, so it is stated once, over an abstract scan (locale \<open>star_scan\<close>).
\<close>

subsection \<open>Scans with one saved star\<close>

text \<open>
  The positions \<open>'p\<close> of a pattern, the items left at a position, and the classes of positions the
  scan distinguishes.  \<open>accepts p i\<close>: the rest of the word matches the rest of the pattern.
\<close>

locale star_scan =
  fixes items :: "'p \<Rightarrow> glob list" and word :: "code_point list"
begin

definition accepts :: "'p \<Rightarrow> nat \<Rightarrow> bool" where
  "accepts p i \<longleftrightarrow> i \<le> length word \<and> drop i word \<in> glob_lang (items p)"

text \<open>A later restart of the saved star, at a word position past \<open>sw\<close>, accepts.\<close>

definition restarts :: "'p option \<Rightarrow> nat \<Rightarrow> bool" where
  "restarts star sw \<longleftrightarrow> (case star of None \<Rightarrow> False | Some s \<Rightarrow> (\<exists>k > sw. accepts s k))"

text \<open>Every accepting restart passes through the current position, as far on as the scan is.\<close>

definition subsumed :: "'p option \<Rightarrow> nat \<Rightarrow> 'p \<Rightarrow> nat \<Rightarrow> bool" where
  "subsumed star sw p i \<longleftrightarrow> sw \<le> i \<and>
     (case star of None \<Rightarrow> True
      | Some s \<Rightarrow> (\<forall>k \<ge> sw. accepts s k \<longrightarrow> (\<exists>k' \<ge> k + (i - sw). accepts p k')))"

lemma accepts_le: "accepts p i \<Longrightarrow> i \<le> length word"
  by (simp add: accepts_def)

lemma accepts_Nil: "items p = [] \<Longrightarrow> accepts p i \<longleftrightarrow> i = length word"
  by (auto simp: accepts_def)

lemma accepts_Many: 
  assumes p: "glob_lang (items p) = glob_lang (Many # items q)"
  shows "accepts p i \<longleftrightarrow> i \<le> length word \<and> (\<exists>k \<ge> i. accepts q k)"
proof
  assume "accepts p i"
  with p obtain n where "i \<le> length word" "n \<le> length word - i" "drop (n + i) word \<in> glob_lang (items q)"
    by (auto simp: accepts_def lang_Many)
  then show "i \<le> length word \<and> (\<exists>k \<ge> i. accepts q k)"
    by (auto simp: accepts_def intro!: exI [of _ "n + i"])
next
  assume i: "i \<le> length word \<and> (\<exists>k \<ge> i. accepts q k)"
  then obtain k where "k \<ge> i" "k \<le> length word" "drop k word \<in> glob_lang (items q)"
    by (auto simp: accepts_def)
  then show "accepts p i"
    using p i by (auto simp: accepts_def lang_Many intro!: exI [of _ "k - i"])
qed

lemma accepts_One:
  assumes "items p = One P # items q"
  shows "accepts p i \<longleftrightarrow> i < length word \<and> P (word ! i) \<and> accepts q (Suc i)"
  using assms
  by (cases "i < length word") (auto simp: accepts_def Cons_nth_drop_Suc [symmetric])

lemma subsumed_le: "subsumed star sw p i \<Longrightarrow> sw \<le> i"
  by (simp add: subsumed_def)

lemma subsumed_via:
  assumes "subsumed (Some s) sw p i" and "sw \<le> k" and "accepts s k"
  obtains k' where "k + (i - sw) \<le> k'" and "accepts p k'"
  using assms by (auto simp: subsumed_def)

lemma subsumed_refl: "subsumed (Some q) i q i"
  by (auto simp: subsumed_def)

lemma subsumed_None: "subsumed None i p i"
  by (simp add: subsumed_def)

lemma restarts_None [simp]: "restarts None sw \<longleftrightarrow> False"
  by (simp add: restarts_def)

lemma restarts_Some: "restarts (Some s) sw \<longleftrightarrow> accepts s (Suc sw) \<or> restarts (Some s) (Suc sw)"
proof -
  have "sw < k \<longleftrightarrow> k = Suc sw \<or> Suc sw < k" for k by linarith
  then show ?thesis by (auto simp: restarts_def)
qed

lemma restarts_end: "length word \<le> sw \<Longrightarrow> restarts star sw \<longleftrightarrow> False"
  by (auto simp: restarts_def split: option.splits dest: accepts_le)

text \<open>Passing a star forgets the earlier one without losing a match.\<close>

lemma star_step:
  assumes "glob_lang (items p) = glob_lang (Many # items q)" and "subsumed star sw p i" and "i \<le> length word"
  shows "accepts p i \<or> restarts star sw \<longleftrightarrow> accepts q i \<or> restarts (Some q) i"
proof -
  have "restarts star sw \<Longrightarrow> accepts p i"
  proof -
    assume "restarts star sw"
    then obtain s k where s: "star = Some s" "k > sw" "accepts s k"
      by (auto simp: restarts_def split: option.splits)
    then obtain k' where "k + (i - sw) \<le> k'" "accepts p k'"
      using assms(2) by (blast elim: subsumed_via intro: less_imp_le_nat)
    moreover have "i \<le> k + (i - sw)" using s(2) subsumed_le [OF assms(2)] by linarith
    ultimately show "accepts p i" using accepts_Many [OF assms(1)] assms(3) by (metis order_trans)
  qed
  then have "accepts p i \<or> restarts star sw \<longleftrightarrow> accepts p i" by blast
  also have "\<dots> \<longleftrightarrow> (\<exists>k \<ge> i. accepts q k)" using accepts_Many [OF assms(1)] assms(3) by simp
  also have "\<dots> \<longleftrightarrow> accepts q i \<or> restarts (Some q) i"
    by (auto simp: restarts_def le_less)
  finally show ?thesis .
qed

text \<open>Consuming a character keeps earlier restarts subsumed, whether or not it matches.\<close>

lemma atom_step:
  assumes "items p = One P # items q" and "subsumed star sw p i"
  shows "subsumed star sw q (Suc i)"
proof (cases star)
  case (Some s)
  have "\<exists>k' \<ge> k + (Suc i - sw). accepts q k'" if k: "k \<ge> sw" "accepts s k" for k
  proof -
    obtain k' where k': "k' \<ge> k + (i - sw)" "accepts p k'"
      using assms(2) k Some unfolding subsumed_def by auto
    then have "accepts q (Suc k')" using accepts_One [OF assms(1)] by simp
    then show ?thesis using k' subsumed_le [OF assms(2)] by (intro exI [of _ "Suc k'"]) simp
  qed
  then show ?thesis using assms(2) Some by (simp add: subsumed_def)
qed (use assms(2) in \<open>simp add: subsumed_def\<close>)

text \<open>At the end of the word no restart is left.\<close>

lemma end_step:
  assumes "subsumed star sw p i" and "length word \<le> i"
  shows "restarts star sw \<longleftrightarrow> False"
proof (cases star)
  case (Some s)
  have False if k: "k > sw" "accepts s k" for k
  proof -
    obtain k' where "k + (i - sw) \<le> k'" "accepts p k'"
      using subsumed_via [OF assms(1) [unfolded Some] less_imp_le_nat [OF k(1)] k(2)] .
    then have "k + (i - sw) \<le> length word" using accepts_le order_trans by blast
    then show False using assms(2) k(1) subsumed_le [OF assms(1)] by linarith
  qed
  then show ?thesis by (auto simp: restarts_def Some)
qed simp

end

subsection \<open>The staged matcher\<close>

interpretation staged: star_scan "glob_items L pat nocase" word for L pat nocase word .

lemma items_star:
  "p < length pat \<Longrightarrow> pat ! p = ASTERISK \<Longrightarrow> glob_items L pat nocase p = Many # glob_items L pat nocase (p + 1)"
  by (simp add: glob_items.simps)

lemma items_atom:
  "p < length pat \<Longrightarrow> pat ! p \<noteq> ASTERISK \<Longrightarrow>
   glob_items L pat nocase p = One (atom_chars L pat nocase p) # glob_items L pat nocase (atom_next L pat nocase p)"
  by (subst glob_items.simps) simp

lemma items_end: "length pat \<le> p \<Longrightarrow> glob_items L pat nocase p = []"
  by (simp add: glob_items.simps)

lemma trailing_stars:
  "p \<le> length pat \<Longrightarrow>
   [] \<in> glob_lang (glob_items L pat nocase p)
     \<longleftrightarrow> p + length (takeWhile (\<lambda>c. c = ASTERISK) (drop p pat)) = length pat"
proof (induction "length pat - p" arbitrary: p)
  case 0
  then show ?case by (simp add: items_end)
next
  case (Suc n)
  then have p: "p < length pat" by simp
  show ?case
  proof (cases "pat ! p = ASTERISK")
    case True
    then show ?thesis
      using Suc.hyps(1) [of "p + 1"] Suc.hyps(2) p
      by (simp add: items_star Cons_nth_drop_Suc [symmetric])
  next
    case False
    then show ?thesis using p by (simp add: items_atom Cons_nth_drop_Suc [symmetric])
  qed
qed

lemma staged_atom:
  assumes "p < length pat" "pat ! p \<noteq> ASTERISK" "i < length word"
  shows "staged.accepts L pat nocase word p i \<longleftrightarrow>
           fst (case_pattern_atom_matches L pat p (word ! i) (i + 1 = length word) nocase)
           \<and> staged.accepts L pat nocase word (atom_next L pat nocase p) (Suc i)"
proof -
  have "staged.accepts L pat nocase word (atom_next L pat nocase p) (Suc i) \<Longrightarrow>
        pat ! p = BACKSLASH \<and> p + 1 = length pat \<Longrightarrow> i + 1 = length word"
    using atom_next_bounds [OF assms(1), of L nocase]
    by (simp add: staged.accepts_Nil items_end)
  then show ?thesis
    using staged.accepts_One [OF items_atom [OF assms(1,2)]] assms(3) atom_last [OF assms(1)] by blast
qed

lemma match_loop_correct:
  "pi \<le> length pat \<Longrightarrow> wi \<le> length word \<Longrightarrow>
   (\<And>s. star = Some s \<Longrightarrow> s < length pat \<and> pat ! s = ASTERISK) \<Longrightarrow>
   staged.subsumed L pat nocase word (map_option Suc star) sw pi wi \<Longrightarrow>
   match_loop L pat word nocase pi wi star sw \<longleftrightarrow>
     staged.accepts L pat nocase word pi wi \<or> staged.restarts L pat nocase word (map_option Suc star) sw"
proof (induction L pat word nocase pi wi star sw rule: match_loop.induct)
  case (1 L pat word nocase pi wi star sw)
  note sub = "1.prems"(4)
  consider (finish) "wi = length word"
    | (star) "wi < length word" "pi < length pat" "pat ! pi = ASTERISK"
    | (atom) "wi < length word" "pi < length pat" "pat ! pi \<noteq> ASTERISK"
        "fst (case_pattern_atom_matches L pat pi (word ! wi) (wi + 1 = length word) nocase)"
    | (fail) "wi < length word" "\<not> (pi < length pat \<and> pat ! pi = ASTERISK)"
        "\<not> (pi < length pat \<and> fst (case_pattern_atom_matches L pat pi (word ! wi) (wi + 1 = length word) nocase))"
    using "1.prems"(2) by fastforce
  then show ?case
  proof cases
    case finish
    then show ?thesis
      using trailing_stars [OF "1.prems"(1), of L nocase] staged.end_step [OF sub]
      by (simp add: match_loop.simps staged.accepts_def)
  next
    case star
    have "match_loop L pat word nocase pi wi star sw = match_loop L pat word nocase (pi + 1) wi (Some pi) wi"
      using star by (subst match_loop.simps) simp
    also have "\<dots> \<longleftrightarrow> staged.accepts L pat nocase word (pi + 1) wi
        \<or> staged.restarts L pat nocase word (Some (Suc pi)) wi"
      using star staged.subsumed_refl by (subst "1.IH"(1)) auto
    finally show ?thesis
      using staged.star_step [OF arg_cong [where f = glob_lang, OF items_star [OF star(2,3)]] sub "1.prems"(2)] by simp
  next
    case atom
    let ?q = "atom_next L pat nocase pi"
    have q: "case_pattern_atom_matches L pat pi (word ! wi) (wi + 1 = length word) nocase = (True, ?q)"
      using atom(4) atom_skip by (metis prod.collapse)
    have "match_loop L pat word nocase pi wi star sw = match_loop L pat word nocase ?q (wi + 1) star sw"
      using atom q by (subst match_loop.simps) simp
    also have "\<dots> \<longleftrightarrow> staged.accepts L pat nocase word ?q (Suc wi)
        \<or> staged.restarts L pat nocase word (map_option Suc star) sw"
      using atom q "1.prems" staged.atom_step [OF items_atom [OF atom(2,3)] sub] atom_next_bounds(2) [OF atom(2)]
      by (subst "1.IH"(2)) auto
    finally show ?thesis using staged_atom [OF atom(2,3,1)] atom(4) by simp
  next
    case fail
    have no: "\<not> staged.accepts L pat nocase word pi wi"
      using fail "1.prems"(1) staged_atom [of pi pat wi word L nocase]
      by (cases "pi < length pat") (auto simp: staged.accepts_Nil items_end)
    show ?thesis
    proof (cases star)
      case None
      then show ?thesis using fail no by (subst match_loop.simps) (auto split: prod.splits)
    next
      case (Some s)
      have le: "sw + 1 \<le> length word" using staged.subsumed_le [OF sub] fail(1) by simp
      have "match_loop L pat word nocase pi wi star sw = match_loop L pat word nocase (s + 1) (sw + 1) (Some s) (sw + 1)"
        using fail Some by (subst match_loop.simps) (auto split: prod.splits)
      also have "\<dots> \<longleftrightarrow> staged.accepts L pat nocase word (Suc s) (Suc sw)
          \<or> staged.restarts L pat nocase word (Some (Suc s)) (Suc sw)"
        using fail Some "1.prems"(3) [OF Some] le staged.subsumed_refl [of L pat nocase word "Suc s" "Suc sw"]
        by (subst "1.IH"(3) [OF fail(1) fail(2) refl surjective_pairing [symmetric]]) auto
      finally show ?thesis
        using no Some staged.restarts_Some [of L pat nocase word "Suc s" sw] by simp
    qed
  qed
qed

lemma case_pattern_at_correct:
  "case_pattern_matches_at_with_case L pat 0 word 0 nocase \<longleftrightarrow> word \<in> pattern_lang L pat nocase"
  using match_loop_correct [of 0 pat 0 word None L nocase 0] staged.subsumed_None
  by (simp add: case_pattern_matches_at_with_case_def staged.accepts_def pattern_lang_def)

subsection \<open>Simple globs\<close>

definition simple_items :: "bool \<Rightarrow> code_point list \<Rightarrow> glob list" where
  "simple_items nocase p = map (\<lambda>c. if c = ASTERISK then Many else One (simple_char_match nocase c)) p"

lemma simple_items_simps [simp]:
  "simple_items nocase [] = []"
  "simple_items nocase (c # p)
     = (if c = ASTERISK then Many else One (simple_char_match nocase c)) # simple_items nocase p"
  by (simp_all add: simple_items_def)

interpretation simple: star_scan "simple_items nocase" word for nocase word .

text \<open>A run of stars is one star.\<close>

lemma lang_star_run:
  "glob_lang (Many # simple_items nocase p)
     = glob_lang (Many # simple_items nocase (dropWhile (\<lambda>c. c = ASTERISK) p))"
  by (induction p) (simp_all add: lang_Many_Many)

lemma simple_star_run:
  "glob_lang (simple_items nocase (ASTERISK # p))
     = glob_lang (Many # simple_items nocase (dropWhile (\<lambda>c. c = ASTERISK) (ASTERISK # p)))"
  using lang_star_run [of nocase p] by simp

lemma simple_atom:
  assumes "c \<noteq> ASTERISK" and "i \<le> length word"
  shows "simple.accepts nocase word (c # p) i \<longleftrightarrow>
           (case drop i word of t # _ \<Rightarrow> simple_char_match nocase c t | [] \<Rightarrow> False)
           \<and> simple.accepts nocase word p (Suc i)"
proof -
  have "simple_items nocase (c # p) = One (simple_char_match nocase c) # simple_items nocase p"
    using assms(1) by simp
  from simple.accepts_One [OF this, of word i] show ?thesis
    using assms(2) by (cases "i < length word") (auto simp: Cons_nth_drop_Suc [symmetric])
qed

lemma simple_restart:
  assumes "sw \<le> length word"
  shows "simple.restarts nocase word (Some s) sw \<longleftrightarrow>
           sw < length word \<and> (simple.accepts nocase word s (Suc sw) \<or> simple.restarts nocase word (Some s) (Suc sw))"
  using assms simple.restarts_Some [of nocase word s sw] simple.restarts_end [of word sw nocase "Some s"]
  by (cases "sw < length word") auto

lemma simple_loop_correct:
  "w = drop i word \<Longrightarrow> i \<le> length word \<Longrightarrow> st = map_option (\<lambda>s. (s, drop sw word)) star \<Longrightarrow>
   simple.subsumed nocase word star sw p i \<Longrightarrow> (star = Some [] \<Longrightarrow> p = []) \<Longrightarrow>
   simple_glob_loop nocase p w st \<longleftrightarrow>
     simple.accepts nocase word p i \<or> simple.restarts nocase word star sw"
proof (induction nocase p w st arbitrary: i sw star rule: simple_glob_loop.induct)
  case (1 nocase p w st)
  note w = "1.prems"(1) and i = "1.prems"(2) and st = "1.prems"(3) and sub = "1.prems"(4)
  have sw: "sw \<le> i" using simple.subsumed_le [OF sub] .
  let ?fallback = "case st of None \<Rightarrow> False | Some (sp, []) \<Rightarrow> sp = []
                   | Some (sp, _ # sw) \<Rightarrow> simple_glob_loop nocase sp sw (Some (sp, sw))"
  have fallback: "?fallback \<longleftrightarrow> simple.restarts nocase word star sw"
    if live: "p \<noteq> [] \<or> w \<noteq> []"
      and ih: "\<And>sp x r. st = Some (sp, x # r) \<Longrightarrow> r = drop (Suc sw) word \<Longrightarrow> Suc sw \<le> length word \<Longrightarrow>
        simple_glob_loop nocase sp r (Some (sp, r)) \<longleftrightarrow>
          simple.accepts nocase word sp (Suc sw) \<or> simple.restarts nocase word (Some sp) (Suc sw)"
  proof (cases star)
    case (Some s)
    show ?thesis
    proof (cases "sw < length word")
      case True
      then have "st = Some (s, word ! sw # drop (Suc sw) word)" by (simp add: st Some Cons_nth_drop_Suc)
      with ih [OF this refl] True show ?thesis by (simp add: Some simple_restart)
    next
      case False
      then have "w = []" "drop sw word = []" using sw w i by simp_all
      then have "s \<noteq> []" using live "1.prems"(5) Some by auto
      then show ?thesis using False \<open>drop sw word = []\<close> sw i
        by (simp add: st Some simple.restarts_end)
    qed
  qed (simp add: st)
  consider (star) p' where "p = ASTERISK # p'"
    | (atom) c p' t r where "p = c # p'" "c \<noteq> ASTERISK" "w = t # r" "simple_char_match nocase c t"
    | (fail) c p' where "p = c # p'" "c \<noteq> ASTERISK" "\<not> (case w of t # _ \<Rightarrow> simple_char_match nocase c t | [] \<Rightarrow> False)"
    | (finish) "p = []" "w = []"
    | (rest) "p = []" "w \<noteq> []"
    by (cases p; cases w; force)
  then show ?case
  proof cases
    case star
    let ?q = "dropWhile (\<lambda>c. c = ASTERISK) p"
    have "simple_glob_loop nocase p w st = simple_glob_loop nocase ?q w (Some (?q, w))"
      using star by (subst simple_glob_loop.simps) (simp add: Let_def)
    also have "\<dots> \<longleftrightarrow> simple.accepts nocase word ?q i \<or> simple.restarts nocase word (Some ?q) i"
      using star w i simple.subsumed_refl by (intro "1.IH"(2)) auto
    finally show ?thesis
      using simple.star_step [of nocase p ?q word star sw i] simple_star_run [of nocase p'] star sub i by simp
  next
    case atom
    then have len: "Suc i \<le> length word" "r = drop (Suc i) word"
      using w by (auto simp: drop_Suc tl_drop [symmetric] dest: sym) (metis drop_eq_Nil list.distinct(1) not_less_eq_eq)
    have "simple_glob_loop nocase p w st = simple_glob_loop nocase p' r st"
      using atom by (subst simple_glob_loop.simps) simp
    also have "\<dots> \<longleftrightarrow> simple.accepts nocase word p' (Suc i) \<or> simple.restarts nocase word star sw"
      using atom len st "1.prems"(5) simple.atom_step [of nocase p _ p' word star sw i] sub
      by (intro "1.IH"(3) [of c p', simplified atom list.sel]) auto
    finally show ?thesis using simple_atom [OF atom(2) i, of nocase p'] atom w by simp
  next
    case fail
    have "simple_glob_loop nocase p w st \<longleftrightarrow> ?fallback"
      using fail by (subst simple_glob_loop.simps) simp
    also have "\<dots> \<longleftrightarrow> simple.restarts nocase word star sw"
      using fail simple.subsumed_refl by (intro fallback "1.IH"(4)) auto
    finally show ?thesis using simple_atom [OF fail(2) i, of nocase p'] fail w by simp
  next
    case finish
    then show ?thesis using w i by (subst simple_glob_loop.simps) (simp add: simple.accepts_def)
  next
    case rest
    have "simple_glob_loop nocase p w st \<longleftrightarrow> ?fallback"
      using rest by (subst simple_glob_loop.simps) simp
    also have "\<dots> \<longleftrightarrow> simple.restarts nocase word star sw"
      using rest simple.subsumed_refl by (intro fallback "1.IH"(1)) auto
    finally show ?thesis using rest w by (auto simp: simple.accepts_def)
  qed
qed

lemma simple_glob_loop_lang: "simple_glob_loop nocase p word None \<longleftrightarrow> word \<in> glob_lang (simple_items nocase p)"
  using simple_loop_correct [of word 0 word None 0 None nocase p] simple.subsumed_None
  by (simp add: simple.accepts_def)

subsection \<open>The fast paths answer what the staged matcher answers\<close>

text \<open>Words without byte characters (U+E100 to U+E1FF); the gates let only such words pass.\<close>

definition byte_char_free :: "code_point list \<Rightarrow> bool" where
  "byte_char_free w \<longleftrightarrow> list_all (\<lambda>c. byte_char_value c = None) w"

lemma byte_char_free_simps [simp]:
  "byte_char_free []"
  "byte_char_free (c # w) \<longleftrightarrow> byte_char_value c = None \<and> byte_char_free w"
  by (simp_all add: byte_char_free_def)

lemma byte_char_free_drop: "byte_char_free w \<Longrightarrow> byte_char_free (drop n w)"
  by (simp add: byte_char_free_def list_all_iff) (meson in_set_dropD)

lemma printable_no_byte_char: "cp_ascii_graphic c \<or> c = 32 \<Longrightarrow> byte_char_value c = None"
  by (auto simp: byte_char_value_def cp_ascii_graphic_def)

lemma printable_no_marker: "cp_ascii_graphic c \<or> c = 32 \<Longrightarrow> c \<noteq> CTLESC \<and> c \<noteq> PATTERN_LITERAL_BACKSLASH"
  by (auto simp: cp_ascii_graphic_def)

text \<open>In the simple class an atom is one character long and matches like \<open>simple_char_match\<close>.\<close>

lemma simple_class_atom:
  assumes "cp_ascii_graphic (pat ! p) \<or> pat ! p = 32" and "\<not> glob_operator (pat ! p)"
  shows "atom_next L pat nocase p = p + 1"
    and "byte_char_value c = None \<Longrightarrow> atom_chars L pat nocase p c \<longleftrightarrow> simple_char_match nocase (pat ! p) c"
  using assms printable_no_byte_char [OF assms(1)] printable_no_marker [OF assms(1)]
  by (simp_all add: atom_next_def atom_chars_def case_pattern_atom_matches_def glob_operator_def
      simple_char_match_def chars_match_def)

lemma simple_items_lang:
  assumes "simple_glob_class pat" and "byte_char_free w" and "p \<le> length pat"
  shows "w \<in> glob_lang (glob_items L pat nocase p) \<longleftrightarrow> w \<in> glob_lang (simple_items nocase (drop p pat))"
  using assms
proof (induction "length pat - p" arbitrary: p w)
  case 0
  then show ?case by (simp add: items_end)
next
  case (Suc n)
  then have p: "p < length pat" and n: "n = length pat - Suc p" by simp_all
  have cls: "cp_ascii_graphic (pat ! p) \<or> pat ! p = 32" "\<not> glob_operator (pat ! p)"
    using Suc.prems(1) p by (auto simp: simple_glob_class_def list_all_length)
  note ih = Suc.hyps(1) [OF n Suc.prems(1) _ Suc_leI [OF p]]
  have drop: "drop p pat = pat ! p # drop (Suc p) pat" using p by (simp add: Cons_nth_drop_Suc)
  show ?case
  proof (cases "pat ! p = ASTERISK")
    case True
    then show ?thesis using p ih byte_char_free_drop [OF Suc.prems(2)]
      by (simp add: items_star drop lang_Many)
  next
    case False
    then show ?thesis using p ih Suc.prems(2) simple_class_atom [OF cls]
      by (cases w) (auto simp: items_atom drop)
  qed
qed

lemma simple_glob_correct:
  assumes "simple_glob_matches pat word nocase = Some verdict" and "byte_char_free word"
  shows "verdict \<longleftrightarrow> word \<in> pattern_lang L pat nocase"
  using assms simple_items_lang [of pat word 0 L nocase]
  by (auto simp: simple_glob_matches_def simple_glob_loop_lang pattern_lang_def split: if_splits)

lemma literal_items_lang:
  "list_all (\<lambda>c. c \<noteq> ASTERISK \<and> c \<noteq> QUESTION) pat \<Longrightarrow>
   w \<in> glob_lang (simple_items nocase pat) \<longleftrightarrow>
     (if nocase then map cp_to_ascii_lowercase w = map cp_to_ascii_lowercase pat else w = pat)"
proof (induction pat arbitrary: w)
  case (Cons c pat)
  then show ?case by (cases w) (auto simp: simple_char_match_def)
qed simp

lemma plain_literal_simple: "pattern_is_plain_literal pat \<Longrightarrow> simple_glob_class pat"
  by (auto simp: pattern_is_plain_literal_def simple_glob_class_def list_all_iff)

lemma literal_equality_correct:
  assumes "literal_pattern_equality pat word nocase = Some verdict" and "byte_char_free word"
  shows "verdict \<longleftrightarrow> word \<in> pattern_lang L pat nocase"
proof -
  have lit: "pattern_is_plain_literal pat"
    and v: "verdict \<longleftrightarrow> (if nocase then map cp_to_ascii_lowercase word = map cp_to_ascii_lowercase pat else word = pat)"
    using assms(1) by (auto simp: literal_pattern_equality_def split: if_splits)
  have "list_all (\<lambda>c. c \<noteq> ASTERISK \<and> c \<noteq> QUESTION) pat"
    using lit by (auto simp: pattern_is_plain_literal_def list_all_iff)
  then show ?thesis
    using v literal_items_lang simple_items_lang [OF plain_literal_simple [OF lit] assms(2), of 0 L nocase]
    by (simp add: pattern_lang_def)
qed

lemma prechecked_correct:
  assumes "byte_char_free word"
  shows "case_pattern_matches_prechecked L pat word nocase \<longleftrightarrow> word \<in> pattern_lang L pat nocase"
  using literal_equality_correct [OF _ assms] simple_glob_correct [OF _ assms]
  by (auto simp: case_pattern_matches_prechecked_def case_pattern_at_correct split: option.split)

subsection \<open>The byte gates\<close>

lemma mod_64_small: "n mod 64 \<noteq> (110 :: nat)"
  using mod_less_divisor [of 64 n] by linarith

lemma encode_char_spelling:
  assumes "scalar c"
  shows "list_ex (\<lambda>b. byte b = 0xEE \<or> (byte b < 0x20 \<and> byte b \<noteq> 9 \<and> byte b \<noteq> 10)) (encode_char c)
     \<longleftrightarrow> (0xE000 \<le> c \<and> c \<le> 0xEFFF) \<or> (c < 0x20 \<and> c \<noteq> 9 \<and> c \<noteq> 10)"
proof -
  consider "c < 0x80" | "0x80 \<le> c" "c < 0x800" | "0x800 \<le> c" "c < 0x10000" | "0x10000 \<le> c" "c < 0x110000"
    using assms unfolding scalar_def by linarith
  then show ?thesis
  proof cases
    case 1
    then have "byte (char_of c) = c" by (intro byte_char_of) simp
    with 1 show ?thesis by (simp add: encode_char_def)
  next
    case 2
    have "192 + c div 64 < 224" using 2 by (simp add: less_mult_imp_div_less)
    then have "byte (char_of (192 + c div 64)) = 192 + c div 64" "192 + c div 64 < 224"
      by (auto intro: byte_char_of)
    with 2 show ?thesis by (simp add: encode_char_def mod_64_small)
  next
    case 3
    have "c div 4096 < 16" using 3 by (simp add: less_mult_imp_div_less)
    then have b: "byte (char_of (224 + c div 4096)) = 224 + c div 4096" by (intro byte_char_of) simp
    have "224 + c div 4096 = 0xEE \<longleftrightarrow> 0xE000 \<le> c \<and> c \<le> 0xEFFF"
    proof
      assume "224 + c div 4096 = 0xEE"
      then have "c div 4096 = 14" by simp
      then show "0xE000 \<le> c \<and> c \<le> 0xEFFF" using div_mult_mod_eq [of c 4096] mod_less_divisor [of 4096 c] by simp
    next
      assume "0xE000 \<le> c \<and> c \<le> 0xEFFF"
      then have "c div 4096 = 14" by (intro div_nat_eqI) simp_all
      then show "224 + c div 4096 = 0xEE" by simp
    qed
    with 3 b show ?thesis by (simp add: encode_char_def mod_64_small)
  next
    case 4
    have "c div 262144 < 5" using 4 by (simp add: less_mult_imp_div_less)
    then have b: "byte (char_of (240 + c div 262144)) = 240 + c div 262144" by (intro byte_char_of) simp
    with 4 show ?thesis by (simp add: encode_char_def mod_64_small)
  qed
qed

lemma gates_agree:
  assumes "list_all scalar s"
  shows "str_carries_byte_spelling s \<longleftrightarrow> chars_carry_byte_spelling s"
proof -
  have "list_ex P (encode_utf8 s) \<longleftrightarrow> list_ex (\<lambda>c. list_ex P (encode_char c)) s" for P
    by (induction s) (simp_all add: encode_utf8_def)
  moreover have "list_ex (\<lambda>c. list_ex (\<lambda>b. byte b = 0xEE \<or> (byte b < 0x20 \<and> byte b \<noteq> 9 \<and> byte b \<noteq> 10)) (encode_char c)) s
      \<longleftrightarrow> list_ex (\<lambda>c. (0xE000 \<le> c \<and> c \<le> 0xEFFF) \<or> (c < 0x20 \<and> c \<noteq> 9 \<and> c \<noteq> 10)) s"
    using assms by (induction s) (simp_all add: encode_char_spelling)
  moreover have "chars_carry_byte_spelling s \<longleftrightarrow> COMSUB_PAYLOAD_SENTINEL \<in> set s
      \<or> list_ex (\<lambda>c. (0xE000 \<le> c \<and> c \<le> 0xEFFF) \<or> (c < 0x20 \<and> c \<noteq> 9 \<and> c \<noteq> 10)) s"
    unfolding chars_carry_byte_spelling_def by (induction s) auto
  ultimately show ?thesis unfolding str_carries_byte_spelling_def by simp
qed

lemma ungated_byte_char_free:
  assumes "list_all scalar s" and "\<not> str_carries_byte_spelling s"
  shows "byte_char_free s"
proof -
  have "byte_char_value c = None" if "c \<in> set s" for c
    using assms(2) that unfolding gates_agree [OF assms(1)]
    by (auto simp: chars_carry_byte_spelling_def list_ex_iff byte_char_value_def)
  then show ?thesis by (simp add: byte_char_free_def list_all_iff)
qed

end
