(* ===== verification/ExtglobCorrect.thy ===== *)
theory ExtglobCorrect
  imports Extglob GlobCorrect
begin

section \<open>The extended matcher decides the language of the pattern\<close>

text \<open>
  \<open>ext_items\<close> reads a pattern as the extended matcher does.  Its items denote a language through
  \<open>glob_lang\<close>; the mutually recursive matcher decides it, for every operator, nested groups included
  (\<open>extglob_correct\<close>).
\<close>

subsection \<open>Items\<close>

definition group_at :: "code_point list \<Rightarrow> nat \<Rightarrow> nat option" where
  "group_at pat p =
     (if p + 1 < length pat \<and> pat ! (p + 1) = LPAREN \<and> group_operator (pat ! p)
      then extglob_group_end pat (p + 1) else None)"

definition group_op_of :: "code_point \<Rightarrow> group_op" where
  "group_op_of c = (if c = COMMERCIAL_AT then Exactly_one else if c = QUESTION then Optional
     else if c = ASTERISK then Any_number else if c = PLUS then At_least_one else None_of)"

definition ext_atom :: "locale_env \<Rightarrow> code_point list \<Rightarrow> nat \<Rightarrow> code_point \<Rightarrow> bool \<Rightarrow> bool \<times> nat" where
  "ext_atom L pat p c nocase =
     (if pat ! p = QUESTION then (True, p + 1)
      else if pat ! p = LBRACKET then
        (case case_bracket_expression_matches_with_case L pat p (Some c) nocase of
           Some r \<Rightarrow> r | None \<Rightarrow> (chars_match (pat ! p) c nocase, p + 1))
      else if pat ! p = BACKSLASH \<and> p + 1 < length pat then (chars_match (pat ! (p + 1)) c nocase, p + 2)
      else (chars_match (pat ! p) c nocase, p + 1))"

definition ext_next :: "locale_env \<Rightarrow> code_point list \<Rightarrow> bool \<Rightarrow> nat \<Rightarrow> nat" where
  "ext_next L pat nocase p = snd (ext_atom L pat p 0 nocase)"

definition ext_chars :: "locale_env \<Rightarrow> code_point list \<Rightarrow> bool \<Rightarrow> nat \<Rightarrow> code_point \<Rightarrow> bool" where
  "ext_chars L pat nocase p c = fst (ext_atom L pat p c nocase)"

lemma ext_atom_eq: "ext_atom L pat p c nocase = (ext_chars L pat nocase p c, ext_next L pat nocase p)"
proof -
  have "snd (ext_atom L pat p c nocase) = ext_next L pat nocase p"
    using bracket_skip [of L pat p c nocase 0]
    by (auto simp: ext_next_def ext_atom_def split: option.splits)
  then show ?thesis by (simp add: ext_chars_def prod_eq_iff)
qed

lemma ext_next_bounds:
  assumes "p < length pat"
  shows "p < ext_next L pat nocase p" and "ext_next L pat nocase p \<le> length pat"
  using assms
  by (auto simp: ext_next_def ext_atom_def split: option.splits dest!: bracket_next)

lemma group_at_bounds: "group_at pat p = Some e \<Longrightarrow> p < e \<and> e < length pat"
  by (auto simp: group_at_def split: if_splits dest: extglob_group_end_bounds)

function (sequential) ext_items :: "locale_env \<Rightarrow> code_point list \<Rightarrow> bool \<Rightarrow> nat \<Rightarrow> glob list" where
  "ext_items L pat nocase p =
     (if length pat \<le> p then []
      else case group_at pat p of
        Some e \<Rightarrow>
          Group (group_op_of (pat ! p))
            (map (\<lambda>alt. ext_items L alt nocase 0) (extglob_split_alternatives (slice (p + 2) e pat)))
          # ext_items L pat nocase (e + 1)
      | None \<Rightarrow>
          if pat ! p = ASTERISK then Many # ext_items L pat nocase (p + 1)
          else One (ext_chars L pat nocase p) # ext_items L pat nocase (ext_next L pat nocase p))"
  by pat_completeness auto
termination
  by (relation "measures [\<lambda>(L, pat, nc, p). length pat, \<lambda>(L, pat, nc, p). length pat - p]")
     (auto dest!: group_at_bounds split_alternative_length dest: ext_next_bounds
        simp: slice_length not_le intro!: diff_less_mono2)

declare ext_items.simps [simp del]

subsection \<open>Languages of groups\<close>

lemma followed_by_assoc: "followed_by (followed_by A B) C = followed_by A (followed_by B C)"
  unfolding followed_by_def by (auto, metis append_assoc, metis append_assoc)

lemma followed_by_optional: "followed_by (insert [] A) R = R \<union> followed_by (A - {[]}) R"
proof (intro set_eqI iffI)
  fix w assume "w \<in> followed_by (insert [] A) R"
  then obtain u v where "w = u @ v" "u = [] \<or> u \<in> A" "v \<in> R" by (auto simp: followed_by_def)
  then show "w \<in> R \<union> followed_by (A - {[]}) R" by (cases "u = []") (auto simp: followed_by_def)
next
  fix w assume "w \<in> R \<union> followed_by (A - {[]}) R"
  then obtain u v where "w = u @ v" "u = [] \<or> u \<in> A" "v \<in> R" by (auto simp: followed_by_def)
  then show "w \<in> followed_by (insert [] A) R" by (auto simp: followed_by_def)
qed

lemma nonempty_followed: "followed_by (A - {[]}) B - {[]} = followed_by (A - {[]}) B"
  by (auto simp: followed_by_def)

lemma reps_unfold: "reps A = insert [] (followed_by (A - {[]}) (reps A))"
proof (intro set_eqI iffI)
  fix w assume "w \<in> reps A"
  then show "w \<in> insert [] (followed_by (A - {[]}) (reps A))"
  proof induction
    case (reps_more u v)
    then show ?case by (cases "u = []") (auto simp: followed_by_def)
  qed simp
qed (auto simp: followed_by_def intro: reps.intros)

lemma followed_by_reps: "followed_by (reps A) R = R \<union> followed_by (A - {[]}) (followed_by (reps A) R)"
proof -
  have "followed_by (reps A) R = followed_by (insert [] (followed_by (A - {[]}) (reps A))) R"
    using reps_unfold [of A] by simp
  also have "\<dots> = R \<union> followed_by (followed_by (A - {[]}) (reps A)) R"
    by (subst followed_by_optional) (simp add: nonempty_followed)
  finally show ?thesis by (simp add: followed_by_assoc)
qed

text \<open>The searches of the matcher, on the rest \<open>u\<close> of the word.\<close>

lemma try_inner_iff:
  "extglob_try_inner_lengths_with_case matches inner word w min_len found \<longleftrightarrow>
     (\<exists>len. min_len \<le> len \<and> len \<le> length word - w \<and>
        (\<exists>alt \<in> set (extglob_split_alternatives inner). matches alt (take len (drop w word))) \<and> found len)"
proof -
  have "len \<in> set [min_len..<length word - w + 1] \<longleftrightarrow> min_len \<le> len \<and> len \<le> length word - w" for len
    by auto
  then show ?thesis
    unfolding extglob_try_inner_lengths_with_case_def list_ex_iff by (auto simp: slice_def)
qed

lemma nonempty_prefix_iff:
  "u \<in> followed_by (A - {[]}) R \<longleftrightarrow>
     (\<exists>len. 1 \<le> len \<and> len \<le> length u \<and> take len u \<in> A \<and> drop len u \<in> R)"
  by (auto simp: followed_by_iff) (metis One_nat_def Suc_leI neq0_conv take_eq_Nil)

definition alts_lang :: "locale_env \<Rightarrow> bool \<Rightarrow> code_point list \<Rightarrow> code_point list set" where
  "alts_lang L nocase inner =
     (\<Union>alt \<in> set (extglob_split_alternatives inner). glob_lang (ext_items L alt nocase 0))"

definition rest_lang :: "locale_env \<Rightarrow> code_point list \<Rightarrow> bool \<Rightarrow> nat \<Rightarrow> code_point list set" where
  "rest_lang L pat nocase p = glob_lang (ext_items L pat nocase p)"

lemma rest_lang_group:
  assumes "group_at pat p = Some e"
  shows "rest_lang L pat nocase p
    = followed_by (group_lang (group_op_of (pat ! p)) (alts_lang L nocase (slice (p + 2) e pat)))
        (rest_lang L pat nocase (e + 1))"
  using assms group_at_bounds [OF assms]
  by (simp add: rest_lang_def alts_lang_def ext_items.simps [of L pat nocase p])

lemma rest_lang_star:
  "p < length pat \<Longrightarrow> group_at pat p = None \<Longrightarrow> pat ! p = ASTERISK \<Longrightarrow>
   rest_lang L pat nocase p = glob_lang (Many # ext_items L pat nocase (p + 1))"
  by (simp add: rest_lang_def ext_items.simps [of L pat nocase p])

lemma rest_lang_atom:
  "p < length pat \<Longrightarrow> group_at pat p = None \<Longrightarrow> pat ! p \<noteq> ASTERISK \<Longrightarrow>
   drop w word \<in> rest_lang L pat nocase p \<longleftrightarrow>
     w < length word \<and> ext_chars L pat nocase p (word ! w)
     \<and> drop (Suc w) word \<in> rest_lang L pat nocase (ext_next L pat nocase p)"
  by (cases "w < length word")
     (simp_all add: rest_lang_def ext_items.simps [of L pat nocase p] Cons_nth_drop_Suc [symmetric])

lemma rest_lang_end: "length pat \<le> p \<Longrightarrow> rest_lang L pat nocase p = {[]}"
  by (simp add: rest_lang_def ext_items.simps)

lemma match_literal_atom:
  assumes "p < length pat" "pat ! p \<noteq> ASTERISK"
  shows "extglob_match_literal_with_case L pat p word w nocase \<longleftrightarrow>
     w < length word \<and> ext_chars L pat nocase p (word ! w)
     \<and> extglob_matches_at_with_case L pat (ext_next L pat nocase p) word (Suc w) nocase"
proof (cases "w < length word")
  case True
  then have "ext_atom L pat p (word ! w) nocase = (ext_chars L pat nocase p (word ! w), ext_next L pat nocase p)"
    by (simp add: ext_atom_eq)
  with True assms show ?thesis
    by (auto simp: ext_atom_def get_at_def extglob_match_literal_with_case.simps split: if_splits option.splits)
next
  case False
  then have "case_bracket_expression_matches_with_case L pat p (get_at word w) nocase = None"
    using bracket_candidate by (metis option.exhaust)
  then show ?thesis using False assms by (simp add: extglob_match_literal_with_case.simps)
qed

subsection \<open>Correctness\<close>

lemma drop_followed_by:
  assumes "w \<le> length word"
  shows "drop w word \<in> followed_by A R \<longleftrightarrow>
     (\<exists>len \<le> length word - w. take len (drop w word) \<in> A \<and> drop (w + len) word \<in> R)"
  by (simp add: followed_by_iff add.commute)

lemma drop_nonempty_prefix:
  assumes "w \<le> length word"
  shows "drop w word \<in> followed_by (A - {[]}) R \<longleftrightarrow>
     (\<exists>len. 1 \<le> len \<and> len \<le> length word - w \<and> take len (drop w word) \<in> A \<and> drop (w + len) word \<in> R)"
  by (simp add: nonempty_prefix_iff add.commute)

lemma alts_lang_iff:
  "u \<in> alts_lang L nocase inner \<longleftrightarrow>
     (\<exists>alt \<in> set (extglob_split_alternatives inner). u \<in> rest_lang L alt nocase 0)"
  by (simp add: alts_lang_def rest_lang_def)

lemma try_inner_lang:
  assumes "w \<le> length word"
    and "\<And>alt str. alt \<in> set (extglob_split_alternatives inner) \<Longrightarrow>
           matches alt str \<longleftrightarrow> str \<in> rest_lang L alt nocase 0"
    and "\<And>len. 1 \<le> len \<Longrightarrow> len \<le> length word - w \<Longrightarrow> found len \<longleftrightarrow> drop (w + len) word \<in> R"
  shows "extglob_try_inner_lengths_with_case matches inner word w 1 found \<longleftrightarrow>
           drop w word \<in> followed_by (alts_lang L nocase inner - {[]}) R"
  unfolding try_inner_iff drop_nonempty_prefix [OF assms(1)] alts_lang_iff using assms(2,3) by blast

lemma extglob_correct:
  "w \<le> length word \<Longrightarrow>
   extglob_matches_at_with_case L pat p word w nocase \<longleftrightarrow> drop w word \<in> rest_lang L pat nocase p"
  "w \<le> length word \<Longrightarrow> group_at pat p = None \<Longrightarrow>
   extglob_match_literal_with_case L pat p word w nocase \<longleftrightarrow> drop w word \<in> rest_lang L pat nocase p"
  "w \<le> length word \<Longrightarrow>
   extglob_match_star_at_with_case L inner pat rest word w nocase \<longleftrightarrow>
     drop w word \<in> followed_by (reps (alts_lang L nocase inner)) (rest_lang L pat nocase rest)"
  "w \<le> length word \<Longrightarrow>
   extglob_match_negation_at_with_case L inner pat rest word w nocase \<longleftrightarrow>
     drop w word \<in> followed_by (- alts_lang L nocase inner) (rest_lang L pat nocase rest)"
proof (induction L pat p word w nocase and L pat p word w nocase and L inner pat rest word w nocase
    and L inner pat rest word w nocase
    rule: extglob_matches_at_with_case_extglob_match_literal_with_case_extglob_match_star_at_with_case_extglob_match_negation_at_with_case.induct)
  case (1 L pat p word w nocase)
  note IH = "1.IH" [folded group_at_def]
  note w = "1.prems"
  show ?case
  proof (cases "length pat \<le> p")
    case True
    then show ?thesis using w by (auto simp: extglob_matches_at_with_case.simps rest_lang_end)
  next
    case p: False
    note unfold = extglob_matches_at_with_case.simps [of L pat p word w nocase, folded group_at_def]
    show ?thesis
    proof (cases "group_at pat p")
      case None
      then show ?thesis using IH(1) [OF p None w None] p by (simp add: unfold)
    next
      case (Some e)
      let ?inner = "slice (p + 2) e pat"
      note lang = rest_lang_group [OF Some, of L nocase]
      consider "pat ! p = COMMERCIAL_AT" | "pat ! p = QUESTION" | "pat ! p = ASTERISK" | "pat ! p = PLUS"
        | "pat ! p \<notin> {COMMERCIAL_AT, QUESTION, ASTERISK, PLUS}" by blast
      then show ?thesis
      proof cases
        case 1
        have alts: "\<And>alt str. alt \<in> set (extglob_split_alternatives ?inner) \<Longrightarrow>
            extglob_matches_at_with_case L alt 0 str 0 nocase \<longleftrightarrow> str \<in> rest_lang L alt nocase 0"
          using IH(2) [OF p Some 1] by simp
        have found: "\<And>len. 1 \<le> len \<Longrightarrow> len \<le> length word - w \<Longrightarrow> extglob_matches_at_with_case L pat (e + 1) word (w + len) nocase \<longleftrightarrow> drop (w + len) word \<in> rest_lang L pat nocase (e + 1)"
          using IH(3) [OF p Some 1] w by simp
        show ?thesis using p Some 1 try_inner_lang [OF w alts found]
          by (simp add: unfold lang group_op_of_def)
      next
        case 2
        show ?thesis
        proof (cases "extglob_matches_at_with_case L pat (e + 1) word w nocase")
          case True
          then show ?thesis using p Some 2 IH(4) [OF p Some _ 2 w]
            by (simp add: unfold lang group_op_of_def followed_by_optional)
        next
          case False
        have alts: "\<And>alt str. alt \<in> set (extglob_split_alternatives ?inner) \<Longrightarrow>
            extglob_matches_at_with_case L alt 0 str 0 nocase \<longleftrightarrow> str \<in> rest_lang L alt nocase 0"
          using IH(5) [OF p Some _ 2 False] 2 by simp
        have found: "\<And>len. 1 \<le> len \<Longrightarrow> len \<le> length word - w \<Longrightarrow> extglob_matches_at_with_case L pat (e + 1) word (w + len) nocase \<longleftrightarrow> drop (w + len) word \<in> rest_lang L pat nocase (e + 1)"
          using IH(6) [OF p Some _ 2 False] 2 w by simp
          show ?thesis using p Some 2 False IH(4) [OF p Some _ 2 w] try_inner_lang [OF w alts found]
            by (simp add: unfold lang group_op_of_def followed_by_optional)
        qed
      next
        case 3
        then show ?thesis using p Some IH(7) [OF p Some _ _ 3 w]
          by (simp add: unfold lang group_op_of_def)
      next
        case 4
        have alts: "\<And>alt str. alt \<in> set (extglob_split_alternatives ?inner) \<Longrightarrow>
            extglob_matches_at_with_case L alt 0 str 0 nocase \<longleftrightarrow> str \<in> rest_lang L alt nocase 0"
          using IH(8) [OF p Some _ _ _ 4] 4 by simp
        have found: "\<And>len. 1 \<le> len \<Longrightarrow> len \<le> length word - w \<Longrightarrow> extglob_match_star_at_with_case L ?inner pat (e + 1) word (w + len) nocase
            \<longleftrightarrow> drop (w + len) word \<in> followed_by (reps (alts_lang L nocase ?inner)) (rest_lang L pat nocase (e + 1))"
          using IH(9) [OF p Some _ _ _ 4] 4 w by simp
        show ?thesis using p Some 4 try_inner_lang [OF w alts found]
          by (simp add: unfold lang group_op_of_def followed_by_assoc)
      next
        case 5
        then show ?thesis using p Some IH(10) [OF p Some _ _ _ _ w]
          by (simp add: unfold lang group_op_of_def)
      qed
    qed
  qed
next
  case (2 L pat p word w nocase)
  note w = "2.prems"(1) and g = "2.prems"(2) and IH = "2.IH"
  show ?case
  proof (cases "length pat \<le> p")
    case True
    then show ?thesis using w by (auto simp: extglob_match_literal_with_case.simps rest_lang_end)
  next
    case p: False
    show ?thesis
    proof (cases "pat ! p = ASTERISK")
      case True
      have "drop w word \<in> rest_lang L pat nocase p \<longleftrightarrow>
          drop w word \<in> rest_lang L pat nocase (p + 1) \<or> w < length word \<and> drop (w + 1) word \<in> rest_lang L pat nocase p"
        using rest_lang_star [of p pat L nocase] p g True
        by (cases "w < length word")
           (auto simp: lang_Many_Cons rest_lang_def Cons_nth_drop_Suc [symmetric])
      then show ?thesis using p True IH(1) [OF p True w] IH(2) [OF p True]
        by (auto simp: extglob_match_literal_with_case.simps [of L pat p])
    next
      case False
      have "extglob_matches_at_with_case L pat (ext_next L pat nocase p) word (Suc w) nocase \<longleftrightarrow>
            drop (Suc w) word \<in> rest_lang L pat nocase (ext_next L pat nocase p)"
        if "w < length word" "ext_chars L pat nocase p (word ! w)"
        using that p False IH(3-7) ext_atom_eq [of L pat p "word ! w" nocase]
        by (auto simp: ext_atom_def get_at_def split: if_splits option.splits)
      then show ?thesis
        using match_literal_atom [of p pat L word w nocase] rest_lang_atom [OF _ g, of w word L nocase] p False by auto
    qed
  qed
next
  case (3 L inner pat rest word w nocase)
  note w = "3.prems" and IH = "3.IH"
  let ?A = "alts_lang L nocase inner" and ?R = "rest_lang L pat nocase rest"
  show ?case
  proof (cases "extglob_matches_at_with_case L pat rest word w nocase")
    case True
    then show ?thesis using IH(1) [OF w]
      by (subst followed_by_reps) (simp add: extglob_match_star_at_with_case.simps)
  next
    case False
    have "extglob_match_star_at_with_case L inner pat rest word w nocase \<longleftrightarrow>
        drop w word \<in> followed_by (?A - {[]}) (followed_by (reps ?A) ?R)"
    proof -
      have len: "len \<in> set [1..<length word - w + 1] \<longleftrightarrow> 1 \<le> len \<and> len \<le> length word - w" for len
        by auto
      have alts: "extglob_matches_at_with_case L alt 0 (slice w (w + len) word) 0 nocase
            \<longleftrightarrow> take len (drop w word) \<in> rest_lang L alt nocase 0"
        if "alt \<in> set (extglob_split_alternatives inner)" "len \<in> set [1..<length word - w + 1]" for alt len
        using IH(2) [OF False that] by (simp add: slice_def)
      have again: "extglob_match_star_at_with_case L inner pat rest word (w + len) nocase
            \<longleftrightarrow> drop (w + len) word \<in> followed_by (reps ?A) ?R"
        if "alt \<in> set (extglob_split_alternatives inner)" "len \<in> set [1..<length word - w + 1]"
          "extglob_matches_at_with_case L alt 0 (slice w (w + len) word) 0 nocase" for alt len
      proof -
        have "w + len \<le> length word" using that(2) w len by fastforce
        then show ?thesis by (rule IH(3) [OF False that])
      qed
      have each: "(if extglob_matches_at_with_case L alt 0 (slice w (w + len) word) 0 nocase
            then extglob_match_star_at_with_case L inner pat rest word (w + len) nocase else False)
          \<longleftrightarrow> take len (drop w word) \<in> rest_lang L alt nocase 0
             \<and> drop (w + len) word \<in> followed_by (reps ?A) ?R"
        if "alt \<in> set (extglob_split_alternatives inner)" "len \<in> set [1..<length word - w + 1]" for alt len
        using alts [OF that] again [OF that] by auto
      have "extglob_match_star_at_with_case L inner pat rest word w nocase \<longleftrightarrow>
          (\<exists>alt \<in> set (extglob_split_alternatives inner). \<exists>len \<in> set [1..<length word - w + 1].
             take len (drop w word) \<in> rest_lang L alt nocase 0
             \<and> drop (w + len) word \<in> followed_by (reps ?A) ?R)"
        unfolding extglob_match_star_at_with_case.simps [of L inner pat rest word w] list_ex_iff
        using False by (simp only: if_False each cong: bex_cong)
      then show ?thesis unfolding drop_nonempty_prefix [OF w] alts_lang_iff Bex_def len by blast
    qed
    then show ?thesis using IH(1) [OF w] False by (subst followed_by_reps) simp
  qed
next
  case (4 L inner pat rest word w nocase)
  note w = "4.prems" and IH = "4.IH"
  have alts: "extglob_matches_at_with_case L alt 0 (slice w split word) 0 nocase
        \<longleftrightarrow> take (split - w) (drop w word) \<in> rest_lang L alt nocase 0"
    if "split \<in> set [w..<length word + 1]" "alt \<in> set (extglob_split_alternatives inner)" for split alt
    using IH(1) [OF that] by (simp add: slice_def)
  have rest: "extglob_matches_at_with_case L pat rest word split nocase
        \<longleftrightarrow> drop split word \<in> rest_lang L pat nocase rest"
    if "split \<in> set [w..<length word + 1]"
      "\<not> list_ex (\<lambda>alt. extglob_matches_at_with_case L alt 0 (slice w split word) 0 nocase)
            (extglob_split_alternatives inner)" for split
    using IH(2) [OF that] that(1) by fastforce
  have "extglob_match_negation_at_with_case L inner pat rest word w nocase \<longleftrightarrow>
      (\<exists>split \<in> set [w..<length word + 1]. take (split - w) (drop w word) \<notin> alts_lang L nocase inner
         \<and> drop split word \<in> rest_lang L pat nocase rest)"
    unfolding extglob_match_negation_at_with_case.simps [of L inner pat rest word w] list_ex_iff alts_lang_iff
  proof (rule bex_cong [OF refl])
    fix split assume s: "split \<in> set [w..<length word + 1]"
    have any: "(\<exists>alt \<in> set (extglob_split_alternatives inner).
          extglob_matches_at_with_case L alt 0 (slice w split word) 0 nocase)
        \<longleftrightarrow> (\<exists>alt \<in> set (extglob_split_alternatives inner). take (split - w) (drop w word) \<in> rest_lang L alt nocase 0)"
      by (simp only: alts [OF s] cong: bex_cong)
    show "(if \<exists>alt \<in> set (extglob_split_alternatives inner).
            extglob_matches_at_with_case L alt 0 (slice w split word) 0 nocase then False
           else extglob_matches_at_with_case L pat rest word split nocase)
       \<longleftrightarrow> \<not> (\<exists>alt \<in> set (extglob_split_alternatives inner). take (split - w) (drop w word) \<in> rest_lang L alt nocase 0)
           \<and> drop split word \<in> rest_lang L pat nocase rest"
      using rest [OF s] unfolding any list_ex_iff by simp
  qed
  also have "\<dots> \<longleftrightarrow> (\<exists>len \<le> length word - w. take len (drop w word) \<notin> alts_lang L nocase inner
         \<and> drop (w + len) word \<in> rest_lang L pat nocase rest)"
  proof
    assume "\<exists>split \<in> set [w..<length word + 1]. take (split - w) (drop w word) \<notin> alts_lang L nocase inner
         \<and> drop split word \<in> rest_lang L pat nocase rest"
    then obtain split where "w \<le> split" "split \<le> length word"
      "take (split - w) (drop w word) \<notin> alts_lang L nocase inner" "drop split word \<in> rest_lang L pat nocase rest"
      by auto
    then show "\<exists>len \<le> length word - w. take len (drop w word) \<notin> alts_lang L nocase inner
         \<and> drop (w + len) word \<in> rest_lang L pat nocase rest"
      by (intro exI [of _ "split - w"]) simp
  next
    assume "\<exists>len \<le> length word - w. take len (drop w word) \<notin> alts_lang L nocase inner
         \<and> drop (w + len) word \<in> rest_lang L pat nocase rest"
    then obtain len where "len \<le> length word - w" "take len (drop w word) \<notin> alts_lang L nocase inner"
      "drop (w + len) word \<in> rest_lang L pat nocase rest" by blast
    then show "\<exists>split \<in> set [w..<length word + 1]. take (split - w) (drop w word) \<notin> alts_lang L nocase inner
         \<and> drop split word \<in> rest_lang L pat nocase rest"
      using w by (intro bexI [of _ "w + len"]) auto
  qed
  finally show ?case by (simp add: drop_followed_by [OF w])
qed

end
