(* ===== verification/GlobProps.thy ===== *)
theory GlobProps
  imports GlobCorrect "HOL-Library.Code_Target_Nat"
begin

section \<open>Properties of the pattern matcher\<close>

text \<open>
  What \<open>case\<close>, \<open>[[\<close> and the parameter operators rely on: the entry points decide the language of the
  pattern, the fast paths and the word-hoisted twins answer what the staged matcher answers, bracket
  expressions are sets of characters, and every spelling of a byte is the same unit to the matcher.
\<close>

subsection \<open>Bracket expressions\<close>

datatype bracket_item = Member code_point | Span code_point code_point

text \<open>Characters that mean themselves inside brackets.\<close>

definition bracket_plain :: "code_point \<Rightarrow> bool" where
  "bracket_plain c \<longleftrightarrow> c \<notin> {LBRACKET, RBRACKET, HYPHEN, BACKSLASH, PATTERN_LITERAL_BACKSLASH, CTLESC}"

fun item_text :: "bracket_item \<Rightarrow> code_point list" where
  "item_text (Member c) = [c]"
| "item_text (Span lo hi) = [lo, HYPHEN, hi]"

fun item_plain :: "bracket_item \<Rightarrow> bool" where
  "item_plain (Member c) \<longleftrightarrow> bracket_plain c"
| "item_plain (Span lo hi) \<longleftrightarrow> bracket_plain lo \<and> bracket_plain hi"

fun item_holds :: "bool \<Rightarrow> code_point \<Rightarrow> bracket_item \<Rightarrow> bool" where
  "item_holds nocase c (Member m) \<longleftrightarrow> chars_match m c nocase"
| "item_holds nocase c (Span lo hi) \<longleftrightarrow> in_range lo hi c nocase"

definition bracket_text :: "bool \<Rightarrow> bracket_item list \<Rightarrow> code_point list" where
  "bracket_text negated its = LBRACKET # (if negated then [BANG] else []) @ concat (map item_text its) @ [RBRACKET]"

lemma item_text_nonempty [simp]: "item_text it \<noteq> []"
  by (cases it) auto

lemma bracket_plain_simps [simp]:
  assumes "bracket_plain c"
  shows "c \<noteq> LBRACKET" "c \<noteq> RBRACKET" "c \<noteq> HYPHEN" "\<not> escape_char c"
  using assms by (auto simp: bracket_plain_def escape_char_def)

lemma item_first_plain: "item_plain it \<Longrightarrow> bracket_plain (hd (item_text it))"
  by (cases it) auto

text \<open>One member is read off the text, whatever plain character or closing bracket follows it.\<close>

lemma bracket_member_item:
  assumes "item_plain it" and "rest \<noteq> []" and "hd rest \<noteq> HYPHEN"
  shows "bracket_member L (pre @ item_text it @ rest) c nocase (length pre)
           = (item_holds nocase c it, length pre + length (item_text it))"
proof (cases it)
  case (Member m)
  then show ?thesis using assms
    by (cases rest) (auto simp: bracket_member_def bracket_posix_class_matches_def get_at_def nth_append Let_def)
next
  case (Span lo hi)
  then show ?thesis using assms
    by (auto simp: bracket_member_def bracket_posix_class_matches_def get_at_def nth_append Let_def
        range_end_index_def)
qed

lemma bracket_items_hd:
  "list_all item_plain its \<Longrightarrow> hd (concat (map item_text its) @ RBRACKET # post) \<noteq> HYPHEN"
proof (cases its)
  case (Cons it its')
  assume "list_all item_plain its"
  then have "bracket_plain (hd (item_text it))" using Cons item_first_plain by simp
  then show ?thesis using Cons by (simp add: hd_append)
qed simp

lemma bracket_loop_items:
  assumes "list_all item_plain its" and "its = [] \<Longrightarrow> saw"
  shows "bracket_loop L (pre @ concat (map item_text its) @ RBRACKET # post) c nocase negated (length pre) saw m
           = Some ((m \<or> list_ex (item_holds nocase c) its) \<noteq> negated,
                   length pre + length (concat (map item_text its)) + 1)"
  using assms
proof (induction its arbitrary: pre saw m)
  case Nil
  then show ?case by (subst bracket_loop.simps) (simp add: nth_append)
next
  case (Cons it its)
  let ?rest = "concat (map item_text its) @ RBRACKET # post"
  let ?pat = "pre @ item_text it @ ?rest"
  have it: "item_plain it" and its: "list_all item_plain its" using Cons.prems(1) by simp_all
  have here: "?pat ! length pre \<noteq> RBRACKET" "length pre < length ?pat"
    using item_first_plain [OF it] by (cases it; simp add: nth_append)+
  have mem: "bracket_member L ?pat c nocase (length pre)
      = (item_holds nocase c it, length pre + length (item_text it))"
    using bracket_member_item [OF it _ bracket_items_hd [OF its]] by simp
  have "bracket_loop L ?pat c nocase negated (length pre) saw m
      = bracket_loop L ?pat c nocase negated (length pre + length (item_text it)) True (m \<or> item_holds nocase c it)"
    using here by (subst bracket_loop.simps) (simp add: mem)
  also have "\<dots> = Some ((m \<or> item_holds nocase c it \<or> list_ex (item_holds nocase c) its) \<noteq> negated,
      length pre + length (item_text it) + length (concat (map item_text its)) + 1)"
    using Cons.IH [OF its, of True "pre @ item_text it" "m \<or> item_holds nocase c it"] by (simp add: disj_assoc)
  finally show ?case by simp
qed

lemma bracket_expression_items:
  assumes "list_all item_plain its" and "its \<noteq> []"
    and "negated \<or> hd (concat (map item_text its)) \<notin> {BANG, CARET}"
  shows "case_bracket_expression_matches_with_case L (pre @ bracket_text negated its @ post) (length pre) (Some c) nocase
           = Some (list_ex (item_holds nocase c) its \<noteq> negated, length pre + length (bracket_text negated its))"
proof -
  obtain it its' where its: "its = it # its'" using assms(2) by (cases its) auto
  let ?head = "pre @ LBRACKET # (if negated then [BANG] else [])"
  have pat: "pre @ bracket_text negated its @ post = ?head @ concat (map item_text its) @ RBRACKET # post"
    by (simp add: bracket_text_def)
  have start: "(?head @ concat (map item_text its) @ RBRACKET # post) ! Suc (length pre) \<in> {BANG, CARET} \<longleftrightarrow> negated"
    using assms(3) its by (cases negated; cases it) (auto simp: nth_append)
  have "case_bracket_expression_matches_with_case L (pre @ bracket_text negated its @ post) (length pre) (Some c) nocase
     = bracket_loop L (?head @ concat (map item_text its) @ RBRACKET # post) c nocase negated (length ?head) False False"
    unfolding case_bracket_expression_matches_with_case_def pat using start by (simp add: Let_def)
  also have "\<dots> = Some (list_ex (item_holds nocase c) its \<noteq> negated, length pre + length (bracket_text negated its))"
    using bracket_loop_items [OF assms(1), of False L ?head post c nocase negated False] assms(2)
    by (simp add: bracket_text_def)
  finally show ?thesis .
qed

subsection \<open>The matchers\<close>

definition posix_locale :: locale_env where
  "posix_locale = \<lparr>is_utf8 = False, is_alphabetic = (\<lambda>_. False), is_uppercase = (\<lambda>_. False),
                  is_lowercase = (\<lambda>_. False)\<rparr>"

text \<open>The texts the matcher compares: the sides themselves, or their units when a gate fires.\<close>

definition matched_sides :: "locale_env \<Rightarrow> code_point list \<Rightarrow> code_point list \<Rightarrow> code_point list \<times> code_point list" where
  "matched_sides L pat word =
     (let byte_locale = sides_need_byte_locale_units L pat word
      in if byte_locale \<or> sides_need_byte_char_matching pat word
         then (stage_pattern_match_units pat byte_locale, stage_word_match_units word byte_locale)
         else (pat, word))"

lemma folded_correct:
  assumes "list_all scalar word"
  shows "case_pattern_matches_folded L pat word nocase \<longleftrightarrow>
           (case matched_sides L pat word of (p, w) \<Rightarrow> w \<in> pattern_lang L p nocase)"
  using prechecked_correct [OF ungated_byte_char_free [OF assms]]
  by (auto simp: case_pattern_matches_folded_def matched_sides_def Let_def case_pattern_at_correct
      sides_need_byte_char_matching_def)

text \<open>
  C3. The pattern matchers of \<open>case\<close> and \<open>[[\<close>, with and without case folding, decide the language of
  the pattern: on the text itself when neither side spells raw bytes, on the flattened units otherwise.
\<close>

theorem pattern_match_language:
  assumes "list_all scalar word" and "matched_sides L pat word = (p, w)"
  shows "(case_pattern_matches L pat word \<longleftrightarrow> w \<in> pattern_lang L p False)
       \<and> (case_pattern_matches_nocase L pat word \<longleftrightarrow> w \<in> pattern_lang L p True)"
  using assms(2)
  by (simp add: case_pattern_matches_def case_pattern_matches_nocase_def folded_correct [OF assms(1)])

theorem pattern_match_language_witness:
  "list_all scalar (codes ''xab'') \<and>
   matched_sides posix_locale (codes ''*b'') (codes ''xab'') = (codes ''*b'', codes ''xab'') \<and>
   codes ''xab'' \<in> pattern_lang posix_locale (codes ''*b'') False"
proof -
  have s: "list_all scalar (codes ''xab'')" by (simp add: codes_def scalar_def)
  have m: "matched_sides posix_locale (codes ''*b'') (codes ''xab'') = (codes ''*b'', codes ''xab'')"
    by code_simp
  moreover have "case_pattern_matches posix_locale (codes ''*b'') (codes ''xab'')" by code_simp
  ultimately show ?thesis using s pattern_match_language [OF s m] by blast
qed

text \<open>
  C24. The fast paths are equivalent to the staged matcher: on a word without byte spellings, string
  equality for plain literals and the single-backtrack walk for simple globs give the verdict of the
  iterative matcher.  On a byte character they may differ, which is why the gates run first.
\<close>

theorem fast_paths_agree:
  "(list_all scalar word \<and> \<not> str_carries_byte_spelling word \<longrightarrow>
     case_pattern_matches_prechecked L pat word nocase
       = case_pattern_matches_at_with_case L pat 0 word 0 nocase)
   \<and> case_pattern_matches_prechecked L [97] [byte_char 97] False
       \<noteq> case_pattern_matches_at_with_case L [97] 0 [byte_char 97] 0 False"
proof
  show "list_all scalar word \<and> \<not> str_carries_byte_spelling word \<longrightarrow>
     case_pattern_matches_prechecked L pat word nocase
       = case_pattern_matches_at_with_case L pat 0 word 0 nocase"
    using prechecked_correct [OF ungated_byte_char_free] by (simp add: case_pattern_at_correct)
  show "case_pattern_matches_prechecked L [97] [byte_char 97] False
       \<noteq> case_pattern_matches_at_with_case L [97] 0 [byte_char 97] 0 False"
    by (simp add: case_pattern_matches_prechecked_def literal_pattern_equality_def
        pattern_is_plain_literal_def cp_ascii_graphic_def glob_operator_def byte_char_def
        case_pattern_matches_at_with_case_def match_loop.simps case_pattern_atom_matches_def
        chars_match_def byte_char_value_def)
qed

theorem fast_paths_agree_witness:
  "list_all scalar (codes ''banana'') \<and> \<not> str_carries_byte_spelling (codes ''banana'') \<and>
   case_pattern_matches_prechecked posix_locale (codes ''*an?*a'') (codes ''banana'') True
     = case_pattern_matches_at_with_case posix_locale (codes ''*an?*a'') 0 (codes ''banana'') 0 True"
proof -
  have "list_all scalar (codes ''banana'')" by (simp add: codes_def scalar_def)
  moreover have "\<not> str_carries_byte_spelling (codes ''banana'')" by code_simp
  ultimately show ?thesis
    using fast_paths_agree [of "codes ''banana''" posix_locale "codes ''*an?*a''" True] by blast
qed

text \<open>
  The word-hoisted twins used for the arms of a \<open>case\<close> command: run over any sequence of arms
  with one lazily filled cell, every verdict is the verdict of the ordinary matcher, and the cell is
  either still empty or holds the subject word.
\<close>

fun run_arms :: "locale_env \<Rightarrow> bool \<Rightarrow> code_point list \<Rightarrow> code_point list list \<Rightarrow> code_point list option
    \<Rightarrow> bool list \<times> code_point list option" where
  "run_arms L nocase word [] cell = ([], cell)"
| "run_arms L nocase word (pat # pats) cell =
     (let (v, cell') = (if nocase then case_pattern_matches_nocase_with_word_chars L pat word cell
                        else case_pattern_matches_with_word_chars L pat word cell);
          (vs, cell'') = run_arms L nocase word pats cell'
      in (v # vs, cell''))"

lemma with_word_chars_same:
  assumes "cell = None \<or> cell = Some word"
  shows "fst (with_word_chars L nocase pat word cell) = case_pattern_matches_folded L pat word nocase"
    and "snd (with_word_chars L nocase pat word cell) \<in> {None, Some word}"
  using assms
  by (auto simp: with_word_chars_def case_pattern_matches_folded_def case_pattern_matches_prechecked_def Let_def
      split: option.splits)

lemma run_arms_same:
  "cell = None \<or> cell = Some word \<Longrightarrow>
   fst (run_arms L nocase word pats cell) = map (\<lambda>pat. case_pattern_matches_folded L pat word nocase) pats \<and>
   snd (run_arms L nocase word pats cell) \<in> {None, Some word}"
proof (induction pats arbitrary: cell)
  case (Cons pat pats)
  obtain v cell' where step: "with_word_chars L nocase pat word cell = (v, cell')" by force
  have "v = case_pattern_matches_folded L pat word nocase" "cell' = None \<or> cell' = Some word"
    using with_word_chars_same [OF Cons.prems, of L nocase pat] by (auto simp: step)
  then show ?case
    using Cons.IH [of cell'] step
    by (auto simp: case_pattern_matches_with_word_chars_def case_pattern_matches_nocase_with_word_chars_def
        split: prod.split)
qed auto

theorem case_arms_agree:
  "run_arms L nocase word pats None = (vs, cell) \<longrightarrow>
     vs = map (\<lambda>pat. if nocase then case_pattern_matches_nocase L pat word else case_pattern_matches L pat word) pats
     \<and> cell \<in> {None, Some word}"
  using run_arms_same [of None word L nocase pats]
  by (cases nocase) (auto simp: case_pattern_matches_def case_pattern_matches_nocase_def)

theorem case_arms_agree_witness:
  "\<exists>cell. run_arms posix_locale False (codes ''b1'') [codes ''a*'', codes ''b[0-9]''] None = ([False, True], cell)
     \<and> [False, True] = map (\<lambda>pat. case_pattern_matches posix_locale pat (codes ''b1'')) [codes ''a*'', codes ''b[0-9]'']"
proof -
  have "run_arms posix_locale False (codes ''b1'') [codes ''a*'', codes ''b[0-9]''] None
      = ([False, True], Some (codes ''b1''))" by code_simp
  then show ?thesis
    using case_arms_agree [of posix_locale False "codes ''b1''" "[codes ''a*'', codes ''b[0-9]'']" "[False, True]"
        "Some (codes ''b1'')"] by simp
qed

text \<open>
  A bracket expression over plain characters is a set: it matches a character exactly when a
  member equals it or a range holds it, a leading \<open>!\<close> complements the set, and the pattern continues
  after the closing bracket wherever in the pattern the expression stands.
\<close>

theorem bracket_expression_set:
  assumes "list_all item_plain its" and "its \<noteq> []"
    and "negated \<or> hd (concat (map item_text its)) \<notin> {BANG, CARET}"
  shows "case_bracket_expression_matches_with_case L (pre @ bracket_text negated its @ post) (length pre) (Some c) nocase
           = Some (list_ex (item_holds nocase c) its \<noteq> negated, length pre + length (bracket_text negated its))"
  using assms by (rule bracket_expression_items)

theorem bracket_expression_set_witness:
  "case_bracket_expression_matches_with_case posix_locale (codes ''x[!a-fz]y'') 1 (Some 71) True = Some (True, 8)"
proof -
  have "codes ''x[!a-fz]y'' = [120] @ bracket_text True [Span 97 102, Member 122] @ [121]"
    by (simp add: bracket_text_def codes_def)
  moreover have "list_all item_plain [Span 97 102, Member 122]" by (simp add: bracket_plain_def)
  moreover have "list_ex (item_holds True 71) [Span 97 102, Member 122] \<longleftrightarrow> False" by code_simp
  moreover have "length (bracket_text True [Span 97 102, Member 122]) = 7" by (simp add: bracket_text_def)
  ultimately show ?thesis
    using bracket_expression_set [of "[Span 97 102, Member 122]" True posix_locale "[120]" "[121]" 71 True] by simp
qed

subsection \<open>Spellings of raw bytes\<close>

text \<open>The ways a shell word spells a byte: a marker pair, a quoted pair, a command substitution payload
  and a control character (the two that are pattern syntax aside).\<close>

inductive spells :: "nat list \<Rightarrow> code_point list \<Rightarrow> bool" where
  spells_Nil: "spells [] []"
| spells_pair: "b < 256 \<Longrightarrow> spells bs s \<Longrightarrow>
    spells (b # bs) (RAW_BYTE_MARKER_ESCAPE # (RAW_BYTE_MARKER_FIRST + b) # s)"
| spells_quoted: "b < 256 \<Longrightarrow> spells bs s \<Longrightarrow>
    spells (b # bs) (CTLESC # RAW_BYTE_MARKER_ESCAPE # (RAW_BYTE_MARKER_FIRST + b) # s)"
| spells_quoted_both: "b < 256 \<Longrightarrow> spells bs s \<Longrightarrow>
    spells (b # bs) (CTLESC # RAW_BYTE_MARKER_ESCAPE # CTLESC # (RAW_BYTE_MARKER_FIRST + b) # s)"
| spells_payload: "cp_ascii_hexdigit hi \<Longrightarrow> cp_ascii_hexdigit lo \<Longrightarrow> spells bs s \<Longrightarrow>
    spells ((cp_hex_value hi * 16 + cp_hex_value lo) # bs) (COMSUB_PAYLOAD_SENTINEL # hi # lo # 59 # s)"
| spells_control: "b < 0x20 \<Longrightarrow> b \<noteq> CTLESC \<Longrightarrow> b \<noteq> PATTERN_LITERAL_BACKSLASH \<Longrightarrow> spells bs s \<Longrightarrow>
    spells (b # bs) (b # s)"

lemma hex_value_less: "cp_ascii_hexdigit h \<Longrightarrow> cp_hex_value h < 16"
  by (auto simp: cp_ascii_hexdigit_def cp_ascii_digit_def cp_hex_value_def)

lemma hex_byte_less: "cp_ascii_hexdigit h \<Longrightarrow> cp_ascii_hexdigit l \<Longrightarrow> cp_hex_value h * 16 + cp_hex_value l < 256"
  using hex_value_less [of h] hex_value_less [of l] by linarith

lemma payload_byte_char_marker [simp]:
  "payload_byte_char (RAW_BYTE_MARKER_FIRST + b) = byte_char b"
  "payload_byte_char (RAW_BYTE_MARKER_FIRST + (b + d)) = byte_char (b + d)"
  by (simp_all add: payload_byte_char_def)

lemma marker_payload_marker [simp]: "b < 256 \<Longrightarrow> marker_payload (RAW_BYTE_MARKER_FIRST + b)"
  by (simp add: marker_payload_def)

lemma try_consume_spelled [simp]:
  assumes "b < 256"
  shows "try_consume_ctlesc_quoted_pair (RAW_BYTE_MARKER_ESCAPE # (RAW_BYTE_MARKER_FIRST + b) # s) = Some (byte_char b, s)"
    and "try_consume_ctlesc_quoted_pair (RAW_BYTE_MARKER_ESCAPE # CTLESC # (RAW_BYTE_MARKER_FIRST + b) # s)
           = Some (byte_char b, s)"
  using assms by (cases s; simp add: try_consume_ctlesc_quoted_pair_def)+

lemma flatten_spelled:
  "spells bs s \<Longrightarrow>
   flatten_word_chars (decode_payload_sentinels_to_pairs s) = map byte_char bs \<and>
   flatten_pattern_chars (decode_payload_sentinels_to_pairs s) = map byte_char bs"
proof (induction rule: spells.induct)
  case (spells_payload hi lo bs s)
  then show ?case using hex_byte_less [of hi lo] by simp
qed simp_all

lemma byte_char_value_byte_char: "b < 256 \<Longrightarrow> byte_char_value (byte_char b) = Some b"
  by (simp add: byte_char_value_def byte_char_def)

lemma spelled_bytes: "spells bs s \<Longrightarrow> list_all (\<lambda>b. b < 256) bs"
  by (induction rule: spells.induct) (simp_all add: hex_byte_less)

lemma split_byte_chars: "list_all (\<lambda>b. b < 256) bs \<Longrightarrow>
  split_text_chars_into_byte_units (map byte_char bs) = map byte_char bs"
  by (induction bs) (simp_all add: split_text_chars_into_byte_units_def char_is_text_non_ascii_def byte_char_def)

lemma staged_spelled:
  assumes "spells bs s"
  shows "stage_word_match_units s byte_locale = map byte_char bs"
    and "stage_pattern_match_units s byte_locale = map byte_char bs"
  using flatten_spelled [OF assms] split_byte_chars [OF spelled_bytes [OF assms]]
  by (simp_all add: stage_word_match_units_def stage_pattern_match_units_def flatten_word_to_byte_chars_def
      flatten_pattern_to_byte_chars_def Let_def)

text \<open>A pattern without pattern syntax matches character by character.\<close>

definition inert :: "code_point \<Rightarrow> bool" where
  "inert c \<longleftrightarrow> c \<notin> {ASTERISK, QUESTION, LBRACKET, BACKSLASH, PATTERN_LITERAL_BACKSLASH, CTLESC}"

lemma inert_items_lang:
  "list_all inert (drop p pat) \<Longrightarrow> p \<le> length pat \<Longrightarrow>
   w \<in> glob_lang (glob_items L pat nocase p) \<longleftrightarrow> list_all2 (\<lambda>x c. chars_match x c nocase) (drop p pat) w"
proof (induction "length pat - p" arbitrary: p w)
  case 0
  then show ?case by (simp add: items_end)
next
  case (Suc n)
  then have p: "p < length pat" and n: "n = length pat - Suc p" by simp_all
  have drop: "drop p pat = pat ! p # drop (Suc p) pat" using p by (simp add: Cons_nth_drop_Suc)
  then have "inert (pat ! p)" and rest: "list_all inert (drop (Suc p) pat)" using Suc.prems(1) by simp_all
  then have atom: "pat ! p \<noteq> ASTERISK" "atom_next L pat nocase p = Suc p"
    "atom_chars L pat nocase p c \<longleftrightarrow> chars_match (pat ! p) c nocase" for c
    by (simp_all add: inert_def atom_next_def atom_chars_def case_pattern_atom_matches_def)
  show ?case using p atom drop Suc.hyps(1) [OF n rest Suc_leI [OF p]]
    by (cases w) (simp_all add: items_atom)
qed

lemma byte_chars_lang:
  assumes "list_all (\<lambda>b. b < 256) bs" and "list_all (\<lambda>b. b < 256) cs"
  shows "map byte_char cs \<in> pattern_lang L (map byte_char bs) nocase \<longleftrightarrow> cs = bs"
proof -
  have "list_all inert (map byte_char bs)" using assms(1) by (simp add: list_all_iff inert_def byte_char_def)
  moreover have "list_all2 (\<lambda>x c. chars_match x c nocase) (map byte_char bs) (map byte_char cs) \<longleftrightarrow> cs = bs"
    using assms
  proof (induction bs arbitrary: cs)
    case (Cons b bs)
    then show ?case by (cases cs) (auto simp: chars_match_def byte_char_value_byte_char)
  qed simp
  ultimately show ?thesis using inert_items_lang [of 0 "map byte_char bs"] by (simp add: pattern_lang_def)
qed

text \<open>When no gate fires, a spelled text has only tabs and line feeds, spelled as themselves.\<close>

lemma spelled_ungated:
  "spells bs s \<Longrightarrow> \<not> str_carries_byte_spelling s \<Longrightarrow> s = bs \<and> list_all (\<lambda>b. b = 9 \<or> b = 10) bs"
proof (induction rule: spells.induct)
  case (spells_control b bs s)
  then have "b = 9 \<or> b = 10" "\<not> str_carries_byte_spelling s"
    by (auto simp: str_carries_byte_spelling_def encode_utf8_def encode_char_def)
  then show ?case using spells_control by simp
qed (auto simp: str_carries_byte_spelling_def encode_utf8_def encode_char_def)

lemma blanks_lang:
  assumes "list_all (\<lambda>b. b = 9 \<or> b = 10) bs" and "list_all (\<lambda>b. b = 9 \<or> b = 10) cs"
  shows "cs \<in> pattern_lang L bs nocase \<longleftrightarrow> cs = bs"
proof -
  have "list_all inert bs" using assms(1) by (auto simp: list_all_iff inert_def)
  moreover have "list_all2 (\<lambda>x c. chars_match x c nocase) bs cs \<longleftrightarrow> cs = bs"
    using assms
  proof (induction bs arbitrary: cs)
    case (Cons b bs)
    then show ?case
      by (cases cs) (auto simp: chars_match_def byte_char_value_def cp_to_ascii_lowercase_def cp_ascii_uppercase_def)
  qed simp
  ultimately show ?thesis using inert_items_lang [of 0 bs] by (simp add: pattern_lang_def)
qed

lemma spelled_scalar: "spells bs s \<Longrightarrow> list_all scalar s"
  by (induction rule: spells.induct)
     (auto simp: scalar_def cp_ascii_hexdigit_def cp_ascii_digit_def)



text \<open>
  The unit encoding of text in a single-byte locale is invertible: splitting into byte units and
  reading the units back as bytes gives the UTF-8 bytes of the text.
\<close>

theorem byte_units_roundtrip:
  assumes "list_all scalar str" and "\<not> chars_carry_byte_spelling str"
  shows "match_units_to_raw_bytes (split_text_chars_into_byte_units str) = encode_utf8 str"
proof -
  have "byte_char_free str"
    using ungated_byte_char_free [OF assms(1)] assms(2) gates_agree [OF assms(1)] by simp
  then show ?thesis
  proof (induction str)
    case (Cons c str)
    have "concat (map (\<lambda>u. case byte_char_value u of Some b \<Rightarrow> [char_of b] | None \<Rightarrow> encode_char u)
             (map (\<lambda>b. byte_char (byte b)) (encode_char c))) = encode_char c"
      by (simp add: comp_def byte_char_value_byte_char)
    then show ?case
      using Cons by (simp add: match_units_to_raw_bytes_def split_text_chars_into_byte_units_def encode_utf8_def)
  qed (simp add: match_units_to_raw_bytes_def split_text_chars_into_byte_units_def encode_utf8_def)
qed

theorem byte_units_roundtrip_witness:
  "match_units_to_raw_bytes (split_text_chars_into_byte_units [104, 0xE9]) = encode_utf8 [104, 0xE9]"
  by (rule byte_units_roundtrip) (simp_all add: scalar_def chars_carry_byte_spelling_def)

end
