(* ===== verification/ExtglobProps.thy ===== *)
theory ExtglobProps
  imports ExtglobCorrect GlobProps
begin

section \<open>Properties of the extended matcher\<close>

text \<open>
  The extended matcher decides the language of its pattern; on patterns without groups it agrees with
  the iterative matcher, so the choice between the two does not change a verdict; and a group over plain
  alternatives means what its operator says, with one exception the last property records.
\<close>

subsection \<open>The language\<close>

definition ext_pattern_lang :: "locale_env \<Rightarrow> code_point list \<Rightarrow> bool \<Rightarrow> code_point list set" where
  "ext_pattern_lang L pat nocase = glob_lang (ext_items L pat nocase 0)"

lemma extglob_at_start:
  "extglob_matches_at_with_case L pat 0 word 0 nocase \<longleftrightarrow> word \<in> ext_pattern_lang L pat nocase"
  by (simp add: extglob_correct(1) rest_lang_def ext_pattern_lang_def)

lemma extglob_folded_correct:
  "extglob_folded L pat word nocase \<longleftrightarrow>
     (case matched_sides L pat word of (p, w) \<Rightarrow> w \<in> ext_pattern_lang L p nocase)"
  by (simp add: extglob_folded_def matched_sides_def Let_def extglob_at_start)

text \<open>
  C4. The extended matchers, with and without case folding, decide the language of the pattern:
  literals, brackets, stars and arbitrarily nested groups, each operator read as its set operation on
  the union of its alternatives.  The recursion always ends.
\<close>

theorem extglob_language:
  "(extglob_case_pattern_matches L pat word \<longleftrightarrow>
      snd (matched_sides L pat word) \<in> ext_pattern_lang L (fst (matched_sides L pat word)) False)
   \<and> (extglob_case_pattern_matches_nocase L pat word \<longleftrightarrow>
      snd (matched_sides L pat word) \<in> ext_pattern_lang L (fst (matched_sides L pat word)) True)"
  by (simp add: extglob_case_pattern_matches_def extglob_case_pattern_matches_nocase_def
      extglob_folded_correct split_beta)

text \<open>
  The twins for \<open>case\<close> arms take the word as staged characters and look for byte spellings in the
  characters instead of the bytes; on every word they give the verdict of the ordinary entry points.
\<close>

theorem extglob_twins_agree:
  assumes "list_all scalar word"
  shows "extglob_case_pattern_matches_with_word_chars L pat word = extglob_case_pattern_matches L pat word
       \<and> extglob_case_pattern_matches_nocase_with_word_chars L pat word
           = extglob_case_pattern_matches_nocase L pat word"
proof -
  have "sides_need_byte_char_matching_staged pat word = sides_need_byte_char_matching pat word"
    by (simp add: sides_need_byte_char_matching_staged_def sides_need_byte_char_matching_def gates_agree [OF assms])
  moreover have "sides_need_byte_locale_units_staged L pat word = sides_need_byte_locale_units L pat word"
    by (simp add: sides_need_byte_locale_units_staged_def sides_need_byte_locale_units_def)
  ultimately have "extglob_with_word_chars L nocase pat word = extglob_folded L pat word nocase" for nocase
    by (simp add: extglob_with_word_chars_def extglob_folded_def Let_def)
  then show ?thesis
    by (simp add: extglob_case_pattern_matches_with_word_chars_def extglob_case_pattern_matches_def
        extglob_case_pattern_matches_nocase_with_word_chars_def extglob_case_pattern_matches_nocase_def)
qed

theorem extglob_twins_agree_witness:
  "extglob_case_pattern_matches_with_word_chars posix_locale (codes ''+(a|bc)'') (codes ''abca'')
     = extglob_case_pattern_matches posix_locale (codes ''+(a|bc)'') (codes ''abca'')"
proof -
  have "list_all scalar (codes ''abca'')" by (simp add: codes_def scalar_def)
  from extglob_twins_agree [OF this, of posix_locale "codes ''+(a|bc)''"] show ?thesis by blast
qed

subsection \<open>Patterns without groups\<close>

definition groupless :: "code_point list \<Rightarrow> bool" where
  "groupless pat \<longleftrightarrow>
     (\<forall>p < length pat - 1. \<not> (group_operator (pat ! p) \<and> pat ! (p + 1) = LPAREN))
     \<and> PATTERN_LITERAL_BACKSLASH \<notin> set pat \<and> CTLESC \<notin> set pat"

lemma groupless_no_group: "groupless pat \<Longrightarrow> group_at pat p = None"
  by (auto simp: groupless_def group_at_def less_diff_conv)

lemma groupless_atom:
  assumes "groupless pat" and "p < length pat" and "byte_char_value c = None"
  shows "ext_next L pat nocase p = atom_next L pat nocase p"
    and "ext_chars L pat nocase p c = atom_chars L pat nocase p c"
proof -
  have "pat ! p \<noteq> PATTERN_LITERAL_BACKSLASH" "pat ! p \<noteq> CTLESC"
    using assms(1,2) nth_mem unfolding groupless_def by metis+
  then show "ext_next L pat nocase p = atom_next L pat nocase p"
    "ext_chars L pat nocase p c = atom_chars L pat nocase p c"
    using assms(3)
    by (auto simp: ext_next_def atom_next_def ext_chars_def atom_chars_def ext_atom_def
        case_pattern_atom_matches_def chars_match_def byte_char_value_def cp_to_ascii_lowercase_def
        cp_ascii_uppercase_def split: option.splits)
qed

lemma groupless_lang:
  "groupless pat \<Longrightarrow> byte_char_free w \<Longrightarrow> p \<le> length pat \<Longrightarrow>
   w \<in> glob_lang (ext_items L pat nocase p) \<longleftrightarrow> w \<in> glob_lang (glob_items L pat nocase p)"
proof (induction "length pat - p" arbitrary: p w rule: less_induct)
  case less
  note ih = less.hyps [OF _ less.prems(1)]
  show ?case
  proof (cases "p < length pat")
    case p: True
    note g = groupless_no_group [OF less.prems(1), of p]
    show ?thesis
    proof (cases "pat ! p = ASTERISK")
      case True
      then show ?thesis using p g ih [of "p + 1"] byte_char_free_drop [OF less.prems(2)]
        by (simp add: ext_items.simps [of L pat nocase p] items_star lang_Many)
    next
      case False
      have items: "ext_items L pat nocase p = One (ext_chars L pat nocase p) # ext_items L pat nocase (ext_next L pat nocase p)"
        using p g False by (simp add: ext_items.simps [of L pat nocase p])
      show ?thesis
      proof (cases w)
        case (Cons c v)
        then show ?thesis
          using p False less.prems(2) groupless_atom [OF less.prems(1) p, of c L nocase]
            ih [of "atom_next L pat nocase p" v] atom_next_bounds [OF p, of L nocase]
          by (simp add: items items_atom)
      qed (use p False in \<open>simp add: items items_atom\<close>)
    qed
  qed (simp add: items_end ext_items.simps)
qed

text \<open>
  On a pattern with no group and no quoting marker, and a word without byte spellings, the
  recursive extended matcher and the iterative matcher return the same verdict: choosing the extended
  matcher when \<open>extglob\<close> is on changes nothing for ordinary patterns.
\<close>

theorem extglob_extends_glob:
  assumes "groupless pat" and "list_all scalar word" and "\<not> str_carries_byte_spelling word"
  shows "extglob_matches_at_with_case L pat 0 word 0 nocase
           = case_pattern_matches_at_with_case L pat 0 word 0 nocase"
  using groupless_lang [OF assms(1) ungated_byte_char_free [OF assms(2,3)], of 0 L nocase]
  by (simp add: extglob_at_start case_pattern_at_correct ext_pattern_lang_def pattern_lang_def)

theorem extglob_extends_glob_witness:
  "extglob_matches_at_with_case posix_locale (codes ''*[0-9]?x'') 0 (codes ''ab7yx'') 0 False
     = case_pattern_matches_at_with_case posix_locale (codes ''*[0-9]?x'') 0 (codes ''ab7yx'') 0 False"
proof (rule extglob_extends_glob)
  have "LPAREN \<notin> set (codes ''*[0-9]?x'')" by (simp add: codes_def)
  then have "\<not> (group_operator (codes ''*[0-9]?x'' ! p) \<and> codes ''*[0-9]?x'' ! (p + 1) = LPAREN)"
    if "p < length (codes ''*[0-9]?x'') - 1" for p
  proof -
    have "p + 1 < length (codes ''*[0-9]?x'')" using that by linarith
    from nth_mem [OF this] show ?thesis using \<open>LPAREN \<notin> _\<close> by metis
  qed
  then show "groupless (codes ''*[0-9]?x'')" by (simp add: groupless_def) (simp add: codes_def)
  show "list_all scalar (codes ''ab7yx'')" by (simp add: codes_def scalar_def)
  show "\<not> str_carries_byte_spelling (codes ''ab7yx'')" by code_simp
qed

subsection \<open>Groups of plain alternatives\<close>

text \<open>Characters that are neither pattern syntax nor group syntax nor byte characters.\<close>

definition group_plain :: "code_point \<Rightarrow> bool" where
  "group_plain c \<longleftrightarrow> inert c \<and> c \<notin> {LPAREN, RPAREN, BAR, PLUS, COMMERCIAL_AT, BANG} \<and> byte_char_value c = None"

fun joined :: "code_point list list \<Rightarrow> code_point list" where
  "joined [] = []"
| "joined [a] = a"
| "joined (a # as) = a @ BAR # joined as"

definition group_text :: "code_point \<Rightarrow> code_point list list \<Rightarrow> code_point list" where
  "group_text operator alts = operator # LPAREN # joined alts @ [RPAREN]"

lemma followed_byI: "u \<in> A \<Longrightarrow> v \<in> B \<Longrightarrow> u @ v \<in> followed_by A B"
  unfolding followed_by_def by blast

lemma group_end_plain:
  "list_all (\<lambda>c. c \<notin> {LPAREN, RPAREN, LBRACKET, BACKSLASH}) body \<Longrightarrow>
   group_end_loop (pre @ body @ RPAREN # post) (length pre) 1 = Some (length pre + length body)"
proof (induction body arbitrary: pre)
  case Nil
  then show ?case by (subst group_end_loop.simps) (simp add: nth_append)
next
  case (Cons c body)
  have "group_end_loop (pre @ (c # body) @ RPAREN # post) (length pre) 1
      = group_end_loop (pre @ (c # body) @ RPAREN # post) (length pre + 1) 1"
    using Cons.prems by (subst group_end_loop.simps) (simp add: nth_append)
  then show ?case using Cons.IH [of "pre @ [c]"] Cons.prems by simp
qed

lemma split_loop_prefix:
  "list_all (\<lambda>c. c \<notin> {LPAREN, RPAREN, BAR}) a \<Longrightarrow> split_loop (a @ rest) 0 cur = split_loop rest 0 (cur @ a)"
  by (induction a arbitrary: cur) simp_all

lemma split_joined:
  "list_all (list_all (\<lambda>c. c \<notin> {LPAREN, RPAREN, BAR})) alts \<Longrightarrow> alts \<noteq> [] \<Longrightarrow>
   extglob_split_alternatives (joined alts) = alts"
  unfolding extglob_split_alternatives_def
proof (induction alts rule: joined.induct)
  case (2 a)
  then show ?case using split_loop_prefix [of a "[]" "[]"] by simp
next
  case (3 a b as)
  then show ?case using split_loop_prefix [of a "BAR # joined (b # as)" "[]"] by simp
qed simp

lemma group_plain_body:
  "list_all group_plain a \<Longrightarrow> list_all (\<lambda>c. c \<notin> {LPAREN, RPAREN, LBRACKET, BACKSLASH}) a"
  by (erule list.pred_mono_strong) (simp add: group_plain_def inert_def)

lemma joined_plain:
  "list_all (list_all group_plain) alts \<Longrightarrow>
   list_all (\<lambda>c. c \<notin> {LPAREN, RPAREN, LBRACKET, BACKSLASH}) (joined alts)"
proof (induction alts rule: joined.induct)
  case (2 a)
  then show ?case using group_plain_body [of a] by simp
next
  case (3 a b as)
  then have "list_all (\<lambda>c. c \<notin> {LPAREN, RPAREN, LBRACKET, BACKSLASH}) a"
    using group_plain_body [of a] by simp
  with 3 show ?case by simp
qed simp

lemma plain_groupless: "list_all group_plain a \<Longrightarrow> groupless a"
proof -
  assume a: "list_all group_plain a"
  have "a ! (p + 1) \<noteq> LPAREN" if "p < length a - 1" for p
  proof -
    have "p + 1 < length a" using that by linarith
    then have "group_plain (a ! (p + 1))" using a nth_mem by (simp add: list_all_length)
    then show ?thesis by (auto simp: group_plain_def)
  qed
  moreover have "PATTERN_LITERAL_BACKSLASH \<notin> set a" "CTLESC \<notin> set a"
    using a by (auto simp: list_all_iff group_plain_def inert_def)
  ultimately show ?thesis unfolding groupless_def by blast
qed

lemma plain_alternative_lang:
  assumes "list_all group_plain a" and "byte_char_free w"
  shows "w \<in> glob_lang (ext_items L a False 0) \<longleftrightarrow> w = a"
proof -
  have "list_all inert a" using assms(1) by (simp add: list_all_iff group_plain_def)
  then have "w \<in> glob_lang (ext_items L a False 0) \<longleftrightarrow> list_all2 (\<lambda>x c. chars_match x c False) a w"
    using groupless_lang [OF plain_groupless [OF assms(1)] assms(2), of 0 L False] inert_items_lang [of 0 a w L False]
    by simp
  also have "\<dots> \<longleftrightarrow> w = a"
    using assms
  proof (induction a arbitrary: w)
    case (Cons c a)
    then show ?case by (cases w) (auto simp: chars_match_def group_plain_def)
  qed simp
  finally show ?thesis .
qed

lemma group_lang_cong:
  assumes "\<And>v. byte_char_free v \<Longrightarrow> v \<in> A \<longleftrightarrow> v \<in> B" and "byte_char_free w"
  shows "w \<in> group_lang k A \<longleftrightarrow> w \<in> group_lang k B"
proof -
  have append: "byte_char_free (u @ v) \<longleftrightarrow> byte_char_free u \<and> byte_char_free v" for u v
    by (simp add: byte_char_free_def)
  have reps: "w \<in> reps A \<Longrightarrow> byte_char_free w \<Longrightarrow> (\<And>v. byte_char_free v \<Longrightarrow> v \<in> A \<Longrightarrow> v \<in> B) \<Longrightarrow> w \<in> reps B"
    for w and A B :: "code_point list set"
    by (induction rule: reps.induct) (auto simp: append intro: reps.intros)
  have once: "w \<in> followed_by (A - {[]}) (reps A) \<Longrightarrow> byte_char_free w \<Longrightarrow>
      (\<And>v. byte_char_free v \<Longrightarrow> v \<in> A \<Longrightarrow> v \<in> B) \<Longrightarrow> w \<in> followed_by (B - {[]}) (reps B)"
    for w and A B :: "code_point list set"
  proof -
    assume w: "w \<in> followed_by (A - {[]}) (reps A)" "byte_char_free w"
      and sub: "\<And>v. byte_char_free v \<Longrightarrow> v \<in> A \<Longrightarrow> v \<in> B"
    then obtain u v where uv: "w = u @ v" "u \<in> A" "u \<noteq> []" "v \<in> reps A" by (auto simp: followed_by_def)
    then have "u \<in> B" "v \<in> reps B" using w(2) sub reps [of v A B] by (simp_all add: append)
    then show "w \<in> followed_by (B - {[]}) (reps B)" using uv unfolding followed_by_def by blast
  qed
  show ?thesis
    using assms reps [of w A B] reps [of w B A] once [of w A B] once [of w B A] by (cases k) auto
qed

lemma plain_group_lang:
  assumes "group_operator op" and "alts \<noteq> []" and "list_all (list_all group_plain) alts"
    and "byte_char_free word"
  shows "extglob_matches_at L (group_text op alts) 0 word 0
           \<longleftrightarrow> word \<in> group_lang (group_op_of op) (set alts)"
proof -
  let ?pat = "group_text op alts" and ?e = "length (joined alts) + 2"
  have "extglob_group_end ?pat 1 = Some ?e"
    using group_end_plain [OF joined_plain [OF assms(3)], of "[op, LPAREN]" "[]"]
    by (subst extglob_group_end_def) (subst group_end_loop.simps, simp add: group_text_def)
  then have g: "group_at ?pat 0 = Some ?e" using assms(1) by (simp add: group_at_def group_text_def)
  have inner: "slice (0 + 2) ?e ?pat = joined alts" by (simp add: slice_def group_text_def)
  have "list_all (list_all (\<lambda>c. c \<notin> {LPAREN, RPAREN, BAR})) alts"
    using assms(3) by (auto simp: list_all_iff group_plain_def)
  then have split: "extglob_split_alternatives (joined alts) = alts" using assms(2) by (rule split_joined)
  have "rest_lang L ?pat False (?e + 1) = {[]}" by (simp add: rest_lang_end group_text_def)
  then have "rest_lang L ?pat False 0 = group_lang (group_op_of op) (alts_lang L False (joined alts))"
    using rest_lang_group [OF g, of L False] unfolding inner by (simp add: followed_by_def group_text_def)
  moreover have "v \<in> alts_lang L False (joined alts) \<longleftrightarrow> v \<in> set alts" if "byte_char_free v" for v
    using plain_alternative_lang [OF _ that, of _ L] assms(3) by (auto simp: alts_lang_def split list_all_iff)
  ultimately show ?thesis
    using group_lang_cong [OF _ assms(4), of "alts_lang L False (joined alts)" "set alts" "group_op_of op"]
    by (simp add: extglob_matches_at_def extglob_correct(1))
qed

text \<open>
  A pattern that is one group over plain alternatives: the parser finds its closing parenthesis,
  splits it into exactly those alternatives, and the matcher accepts the words the operator describes:
  one of them, at most one, any number, at least one, or anything that is none of them.
\<close>

theorem plain_group_language:
  assumes "group_operator op" and "alts \<noteq> []" and "list_all (list_all group_plain) alts"
    and "byte_char_free word"
  shows "extglob_matches_at L (group_text op alts) 0 word 0
           \<longleftrightarrow> word \<in> group_lang (group_op_of op) (set alts)"
  using assms by (rule plain_group_lang)

theorem plain_group_language_witness:
  "extglob_matches_at posix_locale (codes ''+(ab|c)'') 0 (codes ''abcab'') 0"
proof -
  have pat: "codes ''+(ab|c)'' = group_text PLUS [codes ''ab'', codes ''c'']"
    by (simp add: group_text_def codes_def)
  have plain: "list_all (list_all group_plain) [codes ''ab'', codes ''c'']"
    by (simp add: codes_def group_plain_def inert_def byte_char_value_def)
  have free: "byte_char_free (codes ''abcab'')" by (simp add: codes_def byte_char_value_def)
  let ?A = "{codes ''ab'', codes ''c''}"
  have "codes ''c'' @ codes ''ab'' @ [] \<in> reps ?A" by (intro reps_more reps_none) simp_all
  then have "codes ''ab'' @ codes ''c'' @ codes ''ab'' @ [] \<in> followed_by (?A - {[]}) (reps ?A)"
    by (intro followed_byI) (simp_all add: codes_def)
  then have "codes ''abcab'' \<in> group_lang (group_op_of PLUS) (set [codes ''ab'', codes ''c''])"
    by (simp add: codes_def group_op_of_def)
  then show ?thesis
    using plain_group_language [of PLUS "[codes ''ab'', codes ''c'']" "codes ''abcab''" posix_locale] plain free
    unfolding pat by (simp add: group_operator_def)
qed



end
