(* ===== verification/TextCodecProps.thy ===== *)
theory TextCodecProps
  imports TextCodec "HOL-Library.Code_Target_Nat"
begin

section \<open>The transport encoding loses nothing\<close>

text \<open>
  Every byte string survives the trip through shell text, valid UTF-8 or not; the two decoders, one on
  characters and one on bytes, agree; and the text the encoder produces contains no bare marker or
  carrier.  The client side is a locale: any way of pushing valid text whose pushes are decodable
  (\<open>escaping\<close>) gives a lossless encoder, and the two escapings of the code are its instances.
\<close>

subsection \<open>UTF-8 characters\<close>

lemma rust_char_scalar: "rust_char c \<Longrightarrow> scalar c"
  by (auto simp: rust_char_def scalar_def)

lemma encode_char_Cons:
  assumes "scalar c"
  obtains b bs where "encode_char c = b # bs" and "utf8_width b = length (encode_char c)"
    and "utf8_sequence_len b = Some (length (encode_char c)) \<or> \<not> rust_char c"
proof -
  consider "c < 0x80" | "0x80 \<le> c" "c < 0x800" | "0x800 \<le> c" "c < 0x10000" | "0x10000 \<le> c" "c < 0x110000"
    using assms unfolding scalar_def by linarith
  then have "\<exists>b bs. encode_char c = b # bs \<and> utf8_width b = length (encode_char c) \<and>
      utf8_sequence_len b = Some (length (encode_char c))"
  proof cases
    case 1
    then have "byte (char_of c) = c" by (intro byte_char_of) simp
    with 1 show ?thesis by (simp add: encode_char_def utf8_width_def utf8_sequence_len_def)
  next
    case 2
    then have k: "c div 64 < 32" "2 \<le> c div 64" by linarith+
    then have "byte (char_of (192 + c div 64)) = 192 + c div 64" by (intro byte_char_of) linarith
    with 2 k show ?thesis by (simp add: encode_char_def utf8_width_def utf8_sequence_len_def)
  next
    case 3
    then have k: "c div 4096 < 16" by linarith
    then have "byte (char_of (224 + c div 4096)) = 224 + c div 4096" by (intro byte_char_of) linarith
    with 3 k show ?thesis by (simp add: encode_char_def utf8_width_def utf8_sequence_len_def)
  next
    case 4
    then have k: "c div 262144 < 5" by linarith
    then have "byte (char_of (240 + c div 262144)) = 240 + c div 262144" by (intro byte_char_of) linarith
    with 4 k show ?thesis by (simp add: encode_char_def utf8_width_def utf8_sequence_len_def)
  qed
  then show thesis using that by blast
qed

lemma utf8_next_encode:
  assumes "rust_char c"
  shows "utf8_next (encode_char c @ rest) = Some (c, rest)"
proof -
  obtain b bs where b: "encode_char c = b # bs" "utf8_width b = length (encode_char c)"
    using encode_char_Cons [OF rust_char_scalar [OF assms]] by metis
  have "decode_char b (take (utf8_width b - 1) (bs @ rest)) = c"
    using decode_encode_char_append [OF rust_char_scalar [OF assms], of rest] by (simp add: b(1))
  then show ?thesis using assms b by (simp add: utf8_next_def)
qed

lemma utf8_nextD: "utf8_next bs = Some (c, rest) \<Longrightarrow> bs = encode_char c @ rest \<and> rust_char c"
  unfolding utf8_next_def Let_def
  by (auto split: list.splits if_splits) (metis append_take_drop_id)

lemma valid_up_to_encode: "list_all rust_char cs \<Longrightarrow> valid_up_to (encode_utf8 cs @ rest)
    = (cs @ fst (valid_up_to rest), snd (valid_up_to rest))"
proof (induction cs)
  case (Cons c cs)
  then show ?case
    by (subst valid_up_to.simps) (simp add: encode_utf8_def utf8_next_encode split_beta)
qed (simp add: encode_utf8_def)

lemma valid_up_toD: "valid_up_to bs = (cs, rest) \<Longrightarrow> bs = encode_utf8 cs @ rest \<and> list_all rust_char cs"
proof (induction bs arbitrary: cs rest rule: valid_up_to.induct)
  case (1 bs)
  show ?case
  proof (cases "utf8_next bs")
    case None
    then show ?thesis using "1.prems" by (simp add: valid_up_to.simps [of bs] encode_utf8_def)
  next
    case (Some r)
    obtain c after where r: "r = (c, after)" by force
    obtain cs' where cs: "cs = c # cs'" "valid_up_to after = (cs', rest)"
      using "1.prems" Some r by (auto simp: valid_up_to.simps [of bs] split: prod.splits)
    show ?thesis using "1.IH" [OF Some r [symmetric] cs(2)] utf8_nextD [OF Some [unfolded r]] cs(1)
      by (simp add: encode_utf8_def)
  qed
qed

lemma valid_up_to_Nil [simp]: "valid_up_to [] = ([], [])"
  by (simp add: valid_up_to.simps utf8_next_def)

subsection \<open>Decoding what was pushed\<close>

lemma decode_zone_pair: "shell_text_to_raw_bytes (LITERAL_CHAR_ESCAPE # c # t) = encode_char c @ shell_text_to_raw_bytes t"
  by simp

lemma decode_plain:
  "c \<noteq> LITERAL_CHAR_ESCAPE \<Longrightarrow> c \<noteq> RAW_BYTE_MARKER_ESCAPE \<Longrightarrow>
   shell_text_to_raw_bytes (c # t) = encode_char c @ shell_text_to_raw_bytes t"
  by simp

lemma decode_marker:
  "b < 256 \<Longrightarrow> shell_text_to_raw_bytes (push_raw_byte_marker b @ t) = char_of b # shell_text_to_raw_bytes t"
  by (simp add: push_raw_byte_marker_def marker_payload_def)

lemma decode_literal: "shell_text_to_raw_bytes (push_literal_char c @ t) = encode_char c @ shell_text_to_raw_bytes t"
  by (auto simp: push_literal_char_def is_marker_zone_char_def)

locale escaping =
  fixes push :: "code_point list \<Rightarrow> code_point list"
  assumes push_decodes: "list_all rust_char cs \<Longrightarrow>
    shell_text_to_raw_bytes (push cs @ t) = encode_utf8 cs @ shell_text_to_raw_bytes t"
begin

lemma lossless: "shell_text_to_raw_bytes (encode_lossless push bs) = bs"
proof (induction "length bs" arbitrary: bs rule: less_induct)
  case less
  obtain cs rest where v: "valid_up_to bs = (cs, rest)" by force
  have bs: "bs = encode_utf8 cs @ rest" and chars: "list_all rust_char cs" using valid_up_toD [OF v] by auto
  show ?case
  proof (cases "bs = []")
    case False
    show ?thesis
    proof (cases rest)
      case Nil
      then show ?thesis using False v bs push_decodes [OF chars, of "[]"]
        by (subst encode_lossless.simps) simp
    next
      case (Cons b rest')
      then have "length rest' < length bs" using bs by simp
      from less [OF this] show ?thesis using False v bs Cons push_decodes [OF chars]
        by (subst encode_lossless.simps) (simp add: decode_marker)
    qed
  qed (simp add: encode_lossless.simps)
qed

end

interpretation carriers: escaping push_escaped_text_with_carriers
proof
  fix cs t assume "list_all rust_char cs"
  show "shell_text_to_raw_bytes (push_escaped_text_with_carriers cs @ t) = encode_utf8 cs @ shell_text_to_raw_bytes t"
  proof (induction cs)
    case (Cons c cs)
    have "shell_text_to_raw_bytes ((if c < 0x80 \<and> is_assignment_carrier_byte c then push_raw_byte_marker c
            else push_literal_char c) @ u) = encode_char c @ shell_text_to_raw_bytes u" for u
      by (simp add: decode_literal decode_marker encode_char_def)
    with Cons show ?case by (simp add: push_escaped_text_with_carriers_def encode_utf8_def)
  qed (simp add: push_escaped_text_with_carriers_def encode_utf8_def)
qed

lemma decode_zone_escaped:
  "shell_text_to_raw_bytes (push_marker_zone_escaped cs @ t) = encode_utf8 cs @ shell_text_to_raw_bytes t"
  by (induction cs) (simp_all add: push_marker_zone_escaped_def encode_utf8_def decode_literal)

interpretation zones: escaping push_marker_zone_escaped
  by unfold_locales (rule decode_zone_escaped)

lemma decode_zone_free:
  "\<not> list_ex is_marker_zone_char cs \<Longrightarrow> shell_text_to_raw_bytes cs = encode_utf8 cs"
  by (induction cs) (auto simp: is_marker_zone_char_def encode_utf8_def)

subsection \<open>Round trips\<close>

text \<open>
  C5. Reading bytes into shell text and writing the text out gives the bytes back, for every byte
  string, whether it is valid UTF-8 or not, for values and for script source; and a valid text pushed
  through the value-entry encoding is written out as its UTF-8 bytes.
\<close>

theorem shell_text_lossless:
  "shell_text_to_raw_bytes (bytes_to_shell_text bs) = bs
   \<and> shell_text_to_raw_bytes (bytes_to_assignment_shell_text bs) = bs
   \<and> shell_text_to_raw_bytes (bytes_to_script_text bs) = bs
   \<and> (list_all rust_char cs \<longrightarrow> shell_text_to_raw_bytes (entry_encode_value_text cs) = encode_utf8 cs)"
proof (intro conjI impI)
  show "shell_text_to_raw_bytes (bytes_to_shell_text bs) = bs"
    "shell_text_to_raw_bytes (bytes_to_assignment_shell_text bs) = bs"
    by (simp_all add: bytes_to_assignment_shell_text_def bytes_to_shell_text_def carriers.lossless)
  obtain vs rest where v: "valid_up_to bs = (vs, rest)" by force
  show "shell_text_to_raw_bytes (bytes_to_script_text bs) = bs"
  proof (cases rest)
    case Nil
    then show ?thesis using valid_up_toD [OF v] v decode_zone_free [of vs] decode_zone_escaped [of vs "[]"]
      by (simp add: bytes_to_script_text_def escape_marker_zone_chars_def)
  qed (simp add: bytes_to_script_text_def v zones.lossless)
  assume cs: "list_all rust_char cs"
  show "shell_text_to_raw_bytes (entry_encode_value_text cs) = encode_utf8 cs"
  proof (cases "list_ex (\<lambda>c. is_marker_zone_char c \<or> c < 0x80 \<and> is_assignment_carrier_byte c) cs")
    case False
    then have "\<not> list_ex is_marker_zone_char cs" by (auto simp: list_ex_iff)
    then show ?thesis using False by (simp add: entry_encode_value_text_def decode_zone_free)
  next
    case True
    then show ?thesis using carriers.push_decodes [OF cs, of "[]"] by (simp add: entry_encode_value_text_def)
  qed
qed

theorem shell_text_lossless_witness:
  "shell_text_to_raw_bytes (entry_encode_value_text [0x1f, 0xE000, 97]) = encode_utf8 [0x1f, 0xE000, 97]"
  using shell_text_lossless [of "[]" "[0x1f, 0xE000, 97]"] by (simp add: rust_char_def)

subsection \<open>The byte decoder agrees with the character decoder\<close>

lemma next_char_encode:
  assumes "rust_char c"
  shows "next_char (encode_char c @ rest) = Some (c, length (encode_char c))"
proof -
  obtain b bs where b: "encode_char c = b # bs" "utf8_sequence_len b = Some (length (encode_char c))"
    using encode_char_Cons [OF rust_char_scalar [OF assms]] assms by metis
  have "valid_up_to (encode_char c) = ([c], [])"
    using valid_up_to_encode [of "[c]" "[]"] assms by (simp add: encode_utf8_def)
  then show ?thesis using b by (simp add: next_char_def)
qed

lemma next_char_encode_utf8:
  "list_all rust_char cs \<Longrightarrow>
   next_char (encode_utf8 cs) = (case cs of [] \<Rightarrow> None | c # _ \<Rightarrow> Some (c, length (encode_char c)))"
  by (cases cs) (simp_all add: encode_utf8_def next_char_encode, simp add: next_char_def)

lemma decode_markers_encoded:
  "list_all rust_char cs \<Longrightarrow> decode_raw_byte_markers (encode_utf8 cs) = shell_text_to_raw_bytes cs"
proof (induction cs rule: shell_text_to_raw_bytes.induct)
  case 1
  then show ?case by (simp add: encode_utf8_def decode_raw_byte_markers.simps)
next
  case (2 c cs)
  have c: "rust_char c" and cs: "list_all rust_char cs" using "2.prems" by simp_all
  obtain b bs where b: "encode_char c = b # bs"
    using encode_char_Cons [OF rust_char_scalar [OF c]] by metis
  have enc: "encode_utf8 (c # cs) = b # bs @ encode_utf8 cs" by (simp add: encode_utf8_def b)
  have nc: "next_char (b # bs @ encode_utf8 cs) = Some (c, Suc (length bs))"
    using next_char_encode [OF c, of "encode_utf8 cs"] by (simp add: b)
  have Nil: "encode_utf8 [] = []" by (simp add: encode_utf8_def)
  have Cons: "encode_utf8 (n # r) = encode_char n @ encode_utf8 r" for n r by (simp add: encode_utf8_def)
  have unfold: "decode_raw_byte_markers (encode_utf8 (c # cs)) =
      (if c = LITERAL_CHAR_ESCAPE then
         (case next_char (encode_utf8 cs) of
            Some (_, nlen) \<Rightarrow> take nlen (encode_utf8 cs) @ decode_raw_byte_markers (drop nlen (encode_utf8 cs))
          | None \<Rightarrow> encode_char c @ decode_raw_byte_markers (encode_utf8 cs))
       else if c \<noteq> RAW_BYTE_MARKER_ESCAPE then encode_char c @ decode_raw_byte_markers (encode_utf8 cs)
       else
         (case next_char (encode_utf8 cs) of
            Some (n, nlen) \<Rightarrow>
              if n = RAW_BYTE_MARKER_ESCAPE then encode_char c @ decode_raw_byte_markers (drop nlen (encode_utf8 cs))
              else if marker_payload n then
                char_of (n - RAW_BYTE_MARKER_FIRST) # decode_raw_byte_markers (drop nlen (encode_utf8 cs))
              else encode_char c @ decode_raw_byte_markers (encode_utf8 cs)
          | None \<Rightarrow> encode_char c @ decode_raw_byte_markers (encode_utf8 cs)))"
    unfolding enc decode_raw_byte_markers.simps [of "b # bs @ encode_utf8 cs"]
    using b by (auto simp: nc split: option.splits)
  show ?case
    unfolding unfold next_char_encode_utf8 [OF cs]
    using "2.IH" cs by (cases cs) (auto simp: Nil Cons decode_raw_byte_markers.simps [of "[]"])
qed

text \<open>
  The decoder on bytes, used where output is already a byte stream, and the decoder on characters
  give the same bytes for every text, marker pairs, escapes and bare markers included.
\<close>

theorem decoders_agree:
  assumes "list_all rust_char cs"
  shows "decode_raw_byte_markers (encode_utf8 cs) = shell_text_to_raw_bytes cs"
  using assms by (rule decode_markers_encoded)

theorem decoders_agree_witness:
  "decode_raw_byte_markers (encode_utf8 [97, 0xE000, 0xE0FF, 0xE000, 0xE400, 0xE001])
     = shell_text_to_raw_bytes [97, 0xE000, 0xE0FF, 0xE000, 0xE400, 0xE001]"
  by (rule decoders_agree) (simp add: rust_char_def)

subsection \<open>Well-spelled text\<close>

text \<open>
  What storage and the quote-carrier consumers rely on: text in which every character of the registry
  zone is the second half of an escape or part of a marker pair, and no carrier byte stands bare.
\<close>

inductive well_spelled :: "code_point list \<Rightarrow> bool" where
  ws_Nil: "well_spelled []"
| ws_plain: "\<not> is_marker_zone_char c \<Longrightarrow> \<not> is_assignment_carrier_byte c \<Longrightarrow> well_spelled t \<Longrightarrow> well_spelled (c # t)"
| ws_escape: "is_marker_zone_char c \<Longrightarrow> well_spelled t \<Longrightarrow> well_spelled (LITERAL_CHAR_ESCAPE # c # t)"
| ws_marker: "marker_payload c \<Longrightarrow> well_spelled t \<Longrightarrow> well_spelled (RAW_BYTE_MARKER_ESCAPE # c # t)"

lemma well_spelled_pushed:
  "well_spelled t \<Longrightarrow> well_spelled (push_escaped_text_with_carriers cs @ t)"
proof (induction cs)
  case (Cons c cs)
  show ?case
  proof (cases "is_assignment_carrier_byte c")
    case True
    then have "c < 0x80" by (auto simp: is_assignment_carrier_byte_def)
    then show ?thesis using Cons True
      by (simp add: push_escaped_text_with_carriers_def push_raw_byte_marker_def marker_payload_def ws_marker)
  next
    case False
    then show ?thesis using Cons
      by (simp add: push_escaped_text_with_carriers_def push_literal_char_def ws_plain ws_escape)
  qed
qed (simp add: push_escaped_text_with_carriers_def)

lemma byte_bound: "byte b < 256"
  by (metis of_char_mod_256 mod_less_divisor zero_less_numeral)

lemma well_spelled_pair: "well_spelled t \<Longrightarrow> well_spelled (0xE000 # (0xE001 + byte b) # t)"
proof (rule ws_marker)
  show "marker_payload (0xE001 + byte b)"
    using byte_bound [of b] unfolding marker_payload_def by linarith
qed

lemma well_spelled_encoded: "well_spelled (encode_lossless push_escaped_text_with_carriers bs)"
proof (induction "length bs" arbitrary: bs rule: less_induct)
  case less
  obtain cs rest where v: "valid_up_to bs = (cs, rest)" by force
  show ?case
  proof (cases "bs = [] \<or> rest = []")
    case True
    then show ?thesis using v well_spelled_pushed [OF ws_Nil, of cs]
      by (subst encode_lossless.simps) (auto intro: ws_Nil)
  next
    case False
    then obtain b rest' where rest: "rest = b # rest'" by (cases rest) auto
    then have "length rest' < length bs" using valid_up_toD [OF v] by simp
    from less [OF this] show ?thesis using False v rest byte_bound [of b]
      by (subst encode_lossless.simps)
         (simp add: push_raw_byte_marker_def well_spelled_pushed well_spelled_pair)
  qed
qed

text \<open>
  Text made from bytes is well spelled, so no byte of a command's output can be taken for a quote
  carrier or a marker; and the escape for source display undoes the escape of literals.
\<close>

theorem shell_text_well_spelled:
  "well_spelled (bytes_to_shell_text bs) \<and> fold_literal_char_escapes (escape_marker_zone_chars cs) = cs"
proof
  show "well_spelled (bytes_to_shell_text bs)"
    by (simp add: bytes_to_shell_text_def well_spelled_encoded)
  show "fold_literal_char_escapes (escape_marker_zone_chars cs) = cs"
  proof (induction cs)
    case (Cons c cs)
    have "fold_literal_char_escapes (push_literal_char c @ t) = c # fold_literal_char_escapes t" for t
      by (cases t) (auto simp: push_literal_char_def is_marker_zone_char_def)
    with Cons show ?case by (simp add: escape_marker_zone_chars_def push_marker_zone_escaped_def)
  qed (simp add: escape_marker_zone_chars_def push_marker_zone_escaped_def)
qed

lemma command_entry_push: "command_entry_chars (push_literal_char c @ t) = push_literal_char c @ command_entry_chars t"
  by (cases t) (auto simp: push_literal_char_def is_marker_zone_char_def)

lemma command_entry_chars_idem: "command_entry_chars (command_entry_chars cs) = command_entry_chars cs"
proof (induction cs rule: command_entry_chars.induct)
  case 1
  then show ?case by simp
next
  case (2 c cs)
  show ?case
  proof (cases cs)
    case Nil
    then show ?thesis using command_entry_push [of c "[]"] by simp
  next
    case (Cons n rest)
    show ?thesis
    proof (cases "c = LITERAL_CHAR_ESCAPE \<and> is_marker_zone_char n")
      case True
      then show ?thesis using "2.IH"(1) [OF Cons] Cons by simp
    next
      case False
      then have "command_entry_chars (c # cs) = push_literal_char c @ command_entry_chars cs"
        using Cons by (simp only: command_entry_chars.simps(2) list.simps if_False)
      then show ?thesis using "2.IH"(2) [OF Cons False] Cons by (simp only: command_entry_push)
    qed
  qed
qed

text \<open>
  Escaping a \<open>-c\<close> operand is idempotent, leaves an operand without registry characters alone, and
  for an operand that spells no escape itself is undone by the output decoder.
\<close>

theorem command_entry_idempotent:
  "command_string_entry_text (command_string_entry_text cs) = command_string_entry_text cs
   \<and> (\<not> list_ex is_marker_zone_char cs \<longrightarrow> command_string_entry_text cs = cs)
   \<and> (LITERAL_CHAR_ESCAPE \<notin> set cs \<longrightarrow>
        shell_text_to_raw_bytes (command_string_entry_text cs) = encode_utf8 cs)"
proof (intro conjI impI)
  show "command_string_entry_text (command_string_entry_text cs) = command_string_entry_text cs"
    by (simp add: command_string_entry_text_def command_entry_chars_idem)
  show "command_string_entry_text cs = cs" if "\<not> list_ex is_marker_zone_char cs"
    using that by (simp add: command_string_entry_text_def)
  assume "LITERAL_CHAR_ESCAPE \<notin> set cs"
  then have "command_entry_chars cs = push_marker_zone_escaped cs"
  proof (induction cs)
    case (Cons c cs)
    have "command_entry_chars (c # cs) = push_literal_char c @ command_entry_chars cs"
      using Cons.prems by (cases cs) simp_all
    with Cons show ?case by (simp add: push_marker_zone_escaped_def)
  qed (simp add: push_marker_zone_escaped_def)
  then show "shell_text_to_raw_bytes (command_string_entry_text cs) = encode_utf8 cs"
    using decode_zone_escaped [of cs "[]"] decode_zone_free [of cs]
    by (simp add: command_string_entry_text_def)
qed

theorem command_entry_idempotent_witness:
  "shell_text_to_raw_bytes (command_string_entry_text [97, 0xE319]) = encode_utf8 [97, 0xE319]"
  using command_entry_idempotent [of "[97, 0xE319]"] by simp

subsection \<open>Byte accounting\<close>

lemma encode_char_nonempty: "encode_char c \<noteq> []"
  by (simp add: encode_char_def)

lemma len_utf8_pos: "0 < len_utf8 c"
  by (simp add: len_utf8_def encode_char_nonempty)

definition unit_chars :: "code_point \<Rightarrow> code_point list \<Rightarrow> nat" where
  "unit_chars c rest = (if fst (decode_unit c rest) > len_utf8 c then 2 else 1)"

lemma unit_chars_cases:
  "(unit_chars c rest = 2 \<and> (\<exists>n r. rest = n # r \<and>
      (c = LITERAL_CHAR_ESCAPE \<or> c = RAW_BYTE_MARKER_ESCAPE \<and> (n = RAW_BYTE_MARKER_ESCAPE \<or> marker_payload n))))
   \<or> (unit_chars c rest = 1 \<and> (c = LITERAL_CHAR_ESCAPE \<longrightarrow> rest = []) \<and>
      (c = RAW_BYTE_MARKER_ESCAPE \<longrightarrow> (\<forall>n r. rest = n # r \<longrightarrow> n \<noteq> RAW_BYTE_MARKER_ESCAPE \<and> \<not> marker_payload n)))"
  using len_utf8_pos by (auto simp: unit_chars_def decode_unit_def split: list.splits)

lemma unit_split:
  fixes c rest
  defines "m \<equiv> unit_chars c rest"
  shows "shell_text_to_raw_bytes (take (m + j) (c # rest))
           = shell_text_to_raw_bytes (take m (c # rest)) @ shell_text_to_raw_bytes (take j (drop m (c # rest)))"
  using unit_chars_cases [of c rest] unfolding m_def
  by (cases rest; cases j) auto

lemma unit_sizes:
  fixes c rest
  defines "m \<equiv> unit_chars c rest"
  shows "m \<le> length (c # rest)"
    and "length (encode_utf8 (take m (c # rest))) = fst (decode_unit c rest)"
    and "length (shell_text_to_raw_bytes (take m (c # rest))) = snd (decode_unit c rest)"
    and "drop m (c # rest) = (if fst (decode_unit c rest) > len_utf8 c then tl rest else rest)"
  unfolding m_def using unit_chars_cases [of c rest] len_utf8_pos
  by (auto simp: unit_chars_def decode_unit_def encode_utf8_def len_utf8_def split: list.splits)

text \<open>Cutting inside a unit changes the decoding, or the part before the cut already holds the unit's bytes.\<close>

lemma cut_inside_unit:
  assumes "unit_chars c rest = 2"
    and "shell_text_to_raw_bytes (c # rest)
           = shell_text_to_raw_bytes [c] @ shell_text_to_raw_bytes rest"
  shows "snd (decode_unit c rest) \<le> length (shell_text_to_raw_bytes [c])"
proof -
  obtain n r where rest: "rest = n # r"
    and kind: "c = LITERAL_CHAR_ESCAPE \<or> c = RAW_BYTE_MARKER_ESCAPE \<and> (n = RAW_BYTE_MARKER_ESCAPE \<or> marker_payload n)"
    using unit_chars_cases [of c rest] assms(1) by auto
  show ?thesis
  proof (cases "c = LITERAL_CHAR_ESCAPE")
    case False
    then show ?thesis using kind len_utf8_pos [of c] by (auto simp: rest decode_unit_def len_utf8_def Suc_le_eq)
  next
    case True
    have "length (shell_text_to_raw_bytes (c # rest)) = len_utf8 n + length (shell_text_to_raw_bytes r)"
      using True by (simp add: rest len_utf8_def)
    moreover have "length (shell_text_to_raw_bytes [c]) = 3"
      using True by (simp add: encode_char_def)
    moreover have "length (shell_text_to_raw_bytes r) \<le> length (shell_text_to_raw_bytes rest)" if "len_utf8 n > 3"
    proof -
      have "n \<noteq> LITERAL_CHAR_ESCAPE \<and> n \<noteq> RAW_BYTE_MARKER_ESCAPE"
        using that by (auto simp: len_utf8_def encode_char_def)
      then show ?thesis by (simp add: rest)
    qed
    ultimately have "len_utf8 n \<le> 3"
      using arg_cong [where f = length, OF assms(2)]
      by (cases "len_utf8 n > 3") (auto simp: len_utf8_def encode_char_def rest split: if_splits)
    then show ?thesis using True by (simp add: rest decode_unit_def encode_char_def)
  qed
qed

lemma prefix_loop_correct:
  "raw \<le> raw_len \<Longrightarrow> \<exists>k \<le> length cs.
     prefix_loop cs raw_len transport raw = transport + length (encode_utf8 (take k cs))
     \<and> shell_text_to_raw_bytes cs = shell_text_to_raw_bytes (take k cs) @ shell_text_to_raw_bytes (drop k cs)
     \<and> raw + length (shell_text_to_raw_bytes (take k cs)) \<le> raw_len
     \<and> (\<forall>k'. k < k' \<and> k' \<le> length cs \<and>
           shell_text_to_raw_bytes cs = shell_text_to_raw_bytes (take k' cs) @ shell_text_to_raw_bytes (drop k' cs)
           \<longrightarrow> raw_len < raw + length (shell_text_to_raw_bytes (take k' cs)))"
proof (induction cs raw_len transport raw rule: prefix_loop.induct)
  case (1 raw_len transport raw)
  then show ?case by (simp add: encode_utf8_def)
next
  case (2 c rest raw_len transport raw)
  let ?D = shell_text_to_raw_bytes and ?m = "unit_chars c rest" and ?cs = "c # rest"
  obtain ut ur where u: "decode_unit c rest = (ut, ur)" by force
  note sizes = unit_sizes [of c rest, unfolded u fst_conv snd_conv]
  have m: "0 < ?m" by (simp add: unit_chars_def)
  have split: "?D (take (?m + j) ?cs) = ?D (take ?m ?cs) @ ?D (take j (drop ?m ?cs))" for j
    by (rule unit_split)
  have all: "?D ?cs = ?D (take ?m ?cs) @ ?D (drop ?m ?cs)"
    using split [of "length ?cs"] by (simp del: shell_text_to_raw_bytes.simps)
  show ?case
  proof (cases "raw + ur > raw_len")
    case True
    have "raw_len < raw + length (?D (take k ?cs))"
      if k: "0 < k" "k \<le> length ?cs" "?D ?cs = ?D (take k ?cs) @ ?D (drop k ?cs)" for k
    proof (cases "?m \<le> k")
      case True
      then obtain j where "k = ?m + j" using le_Suc_ex by blast
      then have "length (?D (take ?m ?cs)) \<le> length (?D (take k ?cs))" using split [of j] by simp
      then show ?thesis using \<open>raw + ur > raw_len\<close> sizes(3) by linarith
    next
      case False
      then have "k = 1" "?m = 2" using k(1) by (auto simp: unit_chars_def split: if_splits)
      then have "ur \<le> length (?D (take k ?cs))"
        using cut_inside_unit [of c rest] k(3) by (simp add: u del: shell_text_to_raw_bytes.simps)
      then show ?thesis using \<open>raw + ur > raw_len\<close> by linarith
    qed
    note late = this
    show ?thesis
    proof (intro exI [of _ 0] conjI allI impI)
      show "prefix_loop ?cs raw_len transport raw = transport + length (encode_utf8 (take 0 ?cs))"
        using True by (simp add: u encode_utf8_def)
      show "raw + length (?D (take 0 ?cs)) \<le> raw_len" using "2.prems" by simp
      fix k' assume "0 < k' \<and> k' \<le> length ?cs \<and> ?D ?cs = ?D (take k' ?cs) @ ?D (drop k' ?cs)"
      then show "raw_len < raw + length (?D (take k' ?cs))" by (intro late) auto
    qed simp_all
  next
    case False
    let ?rest = "drop ?m ?cs"
    have loop: "prefix_loop ?cs raw_len transport raw = prefix_loop ?rest raw_len (transport + ut) (raw + ur)"
      using False sizes(4) by (simp add: u)
    from "2.IH" [OF u [symmetric] refl False] False
    obtain k where k: "k \<le> length ?rest"
      "prefix_loop ?rest raw_len (transport + ut) (raw + ur) = transport + ut + length (encode_utf8 (take k ?rest))"
      "?D ?rest = ?D (take k ?rest) @ ?D (drop k ?rest)"
      "raw + ur + length (?D (take k ?rest)) \<le> raw_len"
      "\<And>k'. k < k' \<Longrightarrow> k' \<le> length ?rest \<Longrightarrow> ?D ?rest = ?D (take k' ?rest) @ ?D (drop k' ?rest) \<Longrightarrow>
         raw_len < raw + ur + length (?D (take k' ?rest))"
      unfolding sizes(4) by (auto simp del: shell_text_to_raw_bytes.simps)
    show ?thesis
    proof (intro exI [of _ "?m + k"] conjI allI impI)
      show "?m + k \<le> length ?cs" using k(1) sizes(1) by simp
      have "take (?m + k) ?cs = take ?m ?cs @ take k ?rest" by (simp only: take_add)
      then show "prefix_loop ?cs raw_len transport raw = transport + length (encode_utf8 (take (?m + k) ?cs))"
        using loop k(2) sizes(2) by simp
      have "drop (?m + k) ?cs = drop k ?rest" by (simp only: drop_drop add.commute)
      then show "?D ?cs = ?D (take (?m + k) ?cs) @ ?D (drop (?m + k) ?cs)"
        using all k(3) split [of k] by simp
      show "raw + length (?D (take (?m + k) ?cs)) \<le> raw_len" using k(4) sizes(3) split [of k] by simp
      fix k' assume k': "?m + k < k' \<and> k' \<le> length ?cs \<and> ?D ?cs = ?D (take k' ?cs) @ ?D (drop k' ?cs)"
      then obtain j where j: "k' = ?m + j" "k < j" using less_imp_Suc_add by (metis add.assoc add_Suc_right less_add_Suc1 nat_add_left_cancel_less)
      have "drop k' ?cs = drop j ?rest" by (simp only: j drop_drop add.commute)
      then have "?D ?rest = ?D (take j ?rest) @ ?D (drop j ?rest)" using k' all split [of j] j by simp
      moreover have "j \<le> length ?rest" using k' j by (auto simp del: shell_text_to_raw_bytes.simps)
      ultimately have "raw_len < raw + ur + length (?D (take j ?rest))" using j(2) by (intro k(5))
      then show "raw_len < raw + length (?D (take k' ?cs))" using sizes(3) split [of j] j by simp
    qed
  qed
qed

text \<open>
  C27. The cursor after another process read raw bytes off a shared descriptor: the length computed is
  that of a prefix of the text, cut where the text decodes in two parts, whose raw bytes were all read,
  and no longer such prefix fits in what was read.
\<close>

theorem prefix_for_raw_len:
  "\<exists>k \<le> length cs.
     shell_text_prefix_for_raw_len cs raw_len = length (encode_utf8 (take k cs))
     \<and> shell_text_to_raw_bytes cs = shell_text_to_raw_bytes (take k cs) @ shell_text_to_raw_bytes (drop k cs)
     \<and> length (shell_text_to_raw_bytes (take k cs)) \<le> raw_len
     \<and> (\<forall>k'. k < k' \<and> k' \<le> length cs \<and>
           shell_text_to_raw_bytes cs = shell_text_to_raw_bytes (take k' cs) @ shell_text_to_raw_bytes (drop k' cs)
           \<longrightarrow> raw_len < length (shell_text_to_raw_bytes (take k' cs)))"
  using prefix_loop_correct [of 0 raw_len cs 0] by (simp add: shell_text_prefix_for_raw_len_def)

theorem prefix_for_raw_len_witness:
  "\<exists>k \<le> length [97, 0xE000, 0xE0FF, 0xE400, 0xE000 :: code_point].
     shell_text_prefix_for_raw_len [97, 0xE000, 0xE0FF, 0xE400, 0xE000] 4
       = length (encode_utf8 (take k [97, 0xE000, 0xE0FF, 0xE400, 0xE000]))"
  using prefix_for_raw_len [of "[97, 0xE000, 0xE0FF, 0xE400, 0xE000]" 4] by blast

subsection \<open>Command substitution\<close>



end
