(* ===== verification/RemovalProps.thy ===== *)
theory RemovalProps
  imports Removal ExtglobProps TextCodecProps
begin

section \<open>Properties of pattern removal\<close>

text \<open>
  The contract of the four operators (\<open>removes\<close>): of all cuts whose outer part matches the pattern the
  shortest or the longest is taken, and the value is unchanged when there is none.  Both walks meet it,
  and the fast path for literals with them; no cut breaks a transport pair.
\<close>

subsection \<open>The contract\<close>

fun outer_part :: "pattern_removal \<Rightarrow> nat \<Rightarrow> 'a list \<Rightarrow> 'a list" where
  "outer_part ShortestPrefix k xs = take k xs"
| "outer_part LongestPrefix k xs = take k xs"
| "outer_part ShortestSuffix k xs = drop k xs"
| "outer_part LongestSuffix k xs = drop k xs"

fun kept_part :: "pattern_removal \<Rightarrow> nat \<Rightarrow> 'a list \<Rightarrow> 'a list" where
  "kept_part ShortestPrefix k xs = drop k xs"
| "kept_part LongestPrefix k xs = drop k xs"
| "kept_part ShortestSuffix k xs = take k xs"
| "kept_part LongestSuffix k xs = take k xs"

text \<open>The cut \<open>k\<close> is taken before \<open>k'\<close>.\<close>

fun prefers :: "pattern_removal \<Rightarrow> nat \<Rightarrow> nat \<Rightarrow> bool" where
  "prefers ShortestPrefix k k' \<longleftrightarrow> k < k'"
| "prefers LongestPrefix k k' \<longleftrightarrow> k > k'"
| "prefers ShortestSuffix k k' \<longleftrightarrow> k > k'"
| "prefers LongestSuffix k k' \<longleftrightarrow> k < k'"

definition removes :: "pattern_removal \<Rightarrow> ('a list \<Rightarrow> bool) \<Rightarrow> nat set \<Rightarrow> 'a list \<Rightarrow> 'a list \<Rightarrow> bool" where
  "removes op matches cuts xs result \<longleftrightarrow>
     (\<exists>k \<in> cuts. matches (outer_part op k xs) \<and> result = kept_part op k xs
        \<and> (\<forall>k' \<in> cuts. matches (outer_part op k' xs) \<longrightarrow> k' = k \<or> prefers op k k'))
     \<or> ((\<forall>k \<in> cuts. \<not> matches (outer_part op k xs)) \<and> result = xs)"

lemma removes_cutI:
  "k \<in> cuts \<Longrightarrow> matches (outer_part kd k xs) \<Longrightarrow> result = kept_part kd k xs \<Longrightarrow>
   (\<And>k'. k' \<in> cuts \<Longrightarrow> matches (outer_part kd k' xs) \<Longrightarrow> k' = k \<or> prefers kd k k') \<Longrightarrow>
   removes kd matches cuts xs result"
  unfolding removes_def by blast

lemma removes_noneI:
  "(\<And>k. k \<in> cuts \<Longrightarrow> \<not> matches (outer_part kd k xs)) \<Longrightarrow> removes kd matches cuts xs xs"
  unfolding removes_def by blast

lemma find_prefers:
  "sorted_wrt R xs \<Longrightarrow>
   (case List.find P xs of
      Some k \<Rightarrow> k \<in> set xs \<and> P k \<and> (\<forall>k' \<in> set xs. P k' \<longrightarrow> k' = k \<or> R k k')
    | None \<Rightarrow> \<forall>k \<in> set xs. \<not> P k)"
  by (induction xs) (auto split: option.splits)

lemma find_removes:
  assumes "sorted_wrt (prefers op) ks"
  shows "removes op matches (set ks) xs
           (case List.find (\<lambda>k. matches (outer_part op k xs)) ks of Some k \<Rightarrow> kept_part op k xs | None \<Rightarrow> xs)"
  using find_prefers [OF assms, of "\<lambda>k. matches (outer_part op k xs)"]
  unfolding removes_def by (cases "List.find (\<lambda>k. matches (outer_part op k xs)) ks") auto

fun walk_order :: "pattern_removal \<Rightarrow> nat list \<Rightarrow> nat list" where
  "walk_order ShortestPrefix ks = ks"
| "walk_order LongestPrefix ks = rev ks"
| "walk_order ShortestSuffix ks = rev ks"
| "walk_order LongestSuffix ks = ks"

lemma set_walk_order [simp]: "set (walk_order op ks) = set ks"
  by (cases op) auto

lemma walk_order_prefers: "sorted_wrt (<) ks \<Longrightarrow> sorted_wrt (prefers op) (walk_order op ks)"
  by (cases op) (auto simp: sorted_wrt_rev elim: sorted_wrt_mono_rel [rotated])

lemma boundaries_sorted: "sorted_wrt (<) (removal_boundaries value)"
  unfolding removal_boundaries_def Let_def by (rule sorted_wrt_filter) (rule sorted_wrt_upt)

lemma walk_removes:
  assumes "sorted_wrt (<) ks"
  shows "removes kd matches (set ks) xs
           (case List.find (\<lambda>k. matches (outer_part kd k xs)) (walk_order kd ks) of
              Some k \<Rightarrow> kept_part kd k xs | None \<Rightarrow> xs)"
  using find_removes [OF walk_order_prefers [OF assms]] by simp

lemma set_boundaries:
  "set (removal_boundaries value) = {k. k \<le> length value \<and> k \<notin> set (marker_pair_split_points value)}"
  unfolding removal_boundaries_def Let_def set_filter set_upt by auto

subsection \<open>The gates hold for every slice\<close>

lemma set_encode_utf8: "set (encode_utf8 cs) = (\<Union>c \<in> set cs. set (encode_char c))"
  by (simp add: encode_utf8_def)

lemma carries_mono: "set w \<subseteq> set v \<Longrightarrow> str_carries_byte_spelling w \<Longrightarrow> str_carries_byte_spelling v"
  unfolding str_carries_byte_spelling_def list_ex_iff set_encode_utf8 by blast

lemma gates_clean_slice:
  "set w \<subseteq> set v \<Longrightarrow> removal_pair_gates_clean L pat v \<Longrightarrow> removal_pair_gates_clean L pat w"
  using carries_mono [of w v]
  by (auto simp: removal_pair_gates_clean_def sides_need_byte_char_matching_def
      sides_need_byte_locale_units_def list_ex_iff)

lemma gates_clean_matcher:
  "removal_pair_gates_clean L pat w \<Longrightarrow>
   removal_pattern_matches_prechecked L pat w extglob = removal_pattern_matches L pat w extglob"
  by (simp add: removal_pair_gates_clean_def removal_pattern_matches_prechecked_def removal_pattern_matches_def
      case_pattern_matches_def case_pattern_matches_folded_def Let_def)

lemma candidate_same:
  "set w \<subseteq> set value \<Longrightarrow>
   removal_candidate_matches L value pat extglob w = removal_pattern_matches L pat w extglob"
  using gates_clean_slice gates_clean_matcher by (simp add: removal_candidate_matches_def)

lemma candidate_take: "removal_candidate_matches L value pat extglob (take k value) = removal_pattern_matches L pat (take k value) extglob"
  by (rule candidate_same) (rule set_take_subset)

lemma candidate_drop: "removal_candidate_matches L value pat extglob (drop k value) = removal_pattern_matches L pat (drop k value) extglob"
  by (rule candidate_same) (rule set_drop_subset)

subsection \<open>Literal patterns\<close>

lemma literal_no_extglob: "LPAREN \<notin> set pat \<Longrightarrow> \<not> uses_extglob_from pat"
proof (induction pat rule: uses_extglob_from.induct)
  case (2 c cs)
  then show ?case by (cases cs) (auto simp: get_at_def)
qed simp

lemma literal_matches:
  assumes "pattern_is_plain_literal pat" and "removal_pair_gates_clean L pat w"
  shows "removal_pattern_matches L pat w extglob \<longleftrightarrow> w = pat"
proof -
  have "LPAREN \<notin> set pat"
    using assms(1) by (auto simp: pattern_is_plain_literal_def glob_operator_def list_all_iff)
  then have "\<not> pattern_uses_extglob_syntax pat" by (simp add: pattern_uses_extglob_syntax_def literal_no_extglob)
  then show ?thesis using assms
    by (simp add: removal_pattern_matches_def case_pattern_matches_def case_pattern_matches_folded_def
        removal_pair_gates_clean_def Let_def case_pattern_matches_prechecked_def literal_pattern_equality_def)
qed

lemma byte_len_append: "byte_len (a @ b) = byte_len a + byte_len b"
  by (simp add: byte_len_def)

lemma byte_len_0: "byte_len a = 0 \<longleftrightarrow> a = []"
  by (cases a) (simp_all add: byte_len_def encode_utf8_def encode_char_nonempty)

lemma byte_len_prefix_inj:
  assumes "byte_len (take j value) = byte_len (take k value)" and "j \<le> length value" "k \<le> length value"
  shows "j = k"
proof -
  have "j = k" if "j \<le> k" "byte_len (take j value) = byte_len (take k value)" "k \<le> length value" for j k
  proof -
    have "take k value = take j value @ drop j (take k value)"
      using that(1) by (metis append_take_drop_id min.absorb1 take_take)
    then have "drop j (take k value) = []" using that(2) byte_len_append byte_len_0 by (metis add_cancel_right_right)
    then show ?thesis using that by simp
  qed
  then show ?thesis using assms by (metis nat_le_linear)
qed

lemma boundary_at_iff: "boundary_at value off = Some k \<longleftrightarrow> k \<le> length value \<and> byte_len (take k value) = off"
proof
  assume "boundary_at value off = Some k"
  then show "k \<le> length value \<and> byte_len (take k value) = off"
    by (auto simp: boundary_at_def simp del: upt_Suc dest!: find_SomeD)
next
  assume k: "k \<le> length value \<and> byte_len (take k value) = off"
  then have "boundary_at value off \<noteq> None"
    by (auto simp: boundary_at_def find_None_iff less_Suc_eq_le simp del: upt_Suc intro!: exI [of _ k])
  then obtain j where j: "boundary_at value off = Some j" by blast
  then have "j \<le> length value \<and> byte_len (take j value) = off"
    by (auto simp: boundary_at_def simp del: upt_Suc dest!: find_SomeD)
  then show "boundary_at value off = Some k" using j k byte_len_prefix_inj by metis
qed

lemma literal_prefix_removes:
  assumes "kd = ShortestPrefix \<or> kd = LongestPrefix"
  shows "removes kd (\<lambda>w. w = pat) (set (removal_boundaries value)) value
     (case boundary_at value (byte_len pat) of
        Some e \<Rightarrow> if e \<notin> set (marker_pair_split_points value) \<and> take e value = pat then drop e value else value
      | None \<Rightarrow> value)"
    (is "removes kd _ ?cuts value ?r")
proof -
  have parts: "outer_part kd k value = take k value" "kept_part kd k value = drop k value" for k
    using assms by auto
  have len: "k = length pat" if "k \<in> ?cuts" "take k value = pat" for k
    using that by (auto simp: set_boundaries)
  show ?thesis
  proof (cases "length pat \<in> ?cuts \<and> take (length pat) value = pat")
    case True
    then have "boundary_at value (byte_len pat) = Some (length pat)" by (simp add: boundary_at_iff set_boundaries)
    then have r: "?r = drop (length pat) value" using True by (simp add: set_boundaries)
    show ?thesis
      by (rule removes_cutI [of "length pat"]) (use True r len in \<open>auto simp: parts\<close>)
  next
    case False
    have no: "take k value \<noteq> pat" if "k \<in> ?cuts" for k using len that False by metis
    have "?r = value"
      using no by (auto simp: boundary_at_iff set_boundaries split: option.split)
    then show ?thesis using removes_noneI [of ?cuts "\<lambda>w. w = pat" kd "value"] no by (simp add: parts)
  qed
qed

lemma literal_suffix_removes:
  assumes "kd = ShortestSuffix \<or> kd = LongestSuffix"
  shows "removes kd (\<lambda>w. w = pat) (set (removal_boundaries value)) value
     (if byte_len pat \<le> byte_len value then
        (case boundary_at value (byte_len value - byte_len pat) of
           Some s \<Rightarrow> if s \<notin> set (marker_pair_split_points value) \<and> drop s value = pat then take s value else value
         | None \<Rightarrow> value)
      else value)"
    (is "removes kd _ ?cuts value ?r")
proof -
  have parts: "outer_part kd k value = drop k value" "kept_part kd k value = take k value" for k
    using assms by auto
  let ?s = "length value - length pat"
  have len: "k = ?s" if "k \<in> ?cuts" "drop k value = pat" for k
    using that by (auto simp: set_boundaries)
  have bytes: "byte_len pat \<le> byte_len value \<and> byte_len (take k value) = byte_len value - byte_len pat"
    if "drop k value = pat" for k
  proof -
    have "value = take k value @ pat" using that by (metis append_take_drop_id)
    then have "byte_len value = byte_len (take k value) + byte_len pat" by (metis byte_len_append)
    then show ?thesis by simp
  qed
  show ?thesis
  proof (cases "?s \<in> ?cuts \<and> drop ?s value = pat")
    case True
    then have "boundary_at value (byte_len value - byte_len pat) = Some ?s" "byte_len pat \<le> byte_len value"
      using bytes [OF conjunct2 [OF True]] by (simp_all add: boundary_at_iff)
    then have r: "?r = take ?s value" using True by (simp add: set_boundaries)
    show ?thesis
      by (rule removes_cutI [of ?s]) (use True r len in \<open>auto simp: parts\<close>)
  next
    case False
    have no: "drop k value \<noteq> pat" if "k \<in> ?cuts" for k using len that False by metis
    have "?r = value"
      using no by (auto simp: boundary_at_iff set_boundaries split: option.split)
    then show ?thesis using removes_noneI [of ?cuts "\<lambda>w. w = pat" kd "value"] no by (simp add: parts)
  qed
qed

subsection \<open>Every operator meets the contract\<close>

lemma removes_cong:
  assumes "\<And>k. k \<in> cuts \<Longrightarrow> M (outer_part kd k xs) = M' (outer_part kd k xs)"
  shows "removes kd M cuts xs r = removes kd M' cuts xs r"
  by (simp add: removes_def assms cong: bex_cong ball_cong)

lemma removal_unfold_prefix:
  assumes "\<not> pattern_has_raw_byte_markers pat" and "\<not> sides_need_byte_locale_units L pat value"
  shows "removes ShortestPrefix (\<lambda>w. removal_pattern_matches L pat w extglob) (set (removal_boundaries value)) value
           (remove_matching_prefix L value pat Shortest extglob)"
    and "removes LongestPrefix (\<lambda>w. removal_pattern_matches L pat w extglob) (set (removal_boundaries value)) value
           (remove_matching_prefix L value pat Longest extglob)"
proof -
  let ?M = "\<lambda>w. removal_pattern_matches L pat w extglob" and ?ks = "removal_boundaries value"
  have lit: "?M (take k value) \<longleftrightarrow> take k value = pat"
    if "pattern_is_plain_literal pat" "\<not> sides_need_byte_char_matching pat value" for k
    using literal_matches [OF that(1) gates_clean_slice [OF set_take_subset]] that(2) assms(2)
    by (simp add: removal_pair_gates_clean_def)
  have "removes kd ?M (set ?ks) value (remove_matching_prefix L value pat len extglob)"
    if kind: "(kd = ShortestPrefix \<and> len = Shortest) \<or> (kd = LongestPrefix \<and> len = Longest)" for kd len
  proof (cases "pattern_is_plain_literal pat \<and> \<not> sides_need_byte_char_matching pat value")
    case True
    have "removes kd ?M (set ?ks) value = removes kd (\<lambda>w. w = pat) (set ?ks) value"
      by (intro ext removes_cong) (use lit True kind in auto)
    then show ?thesis using literal_prefix_removes [of kd pat "value"] kind True assms
      by (simp add: remove_matching_prefix_def) blast
  next
    case False
    have "remove_matching_prefix L value pat len extglob =
        (case List.find (\<lambda>k. ?M (outer_part kd k value)) (walk_order kd ?ks) of
           Some k \<Rightarrow> kept_part kd k value | None \<Rightarrow> value)"
      using False assms kind by (auto simp: remove_matching_prefix_def candidate_take split: option.split)
    then show ?thesis
      using walk_removes [OF boundaries_sorted, of kd ?M "value" "value"] by simp
  qed
  then show "removes ShortestPrefix ?M (set ?ks) value (remove_matching_prefix L value pat Shortest extglob)"
    "removes LongestPrefix ?M (set ?ks) value (remove_matching_prefix L value pat Longest extglob)" by blast+
qed

lemma removal_unfold_suffix:
  assumes "\<not> pattern_has_raw_byte_markers pat" and "\<not> sides_need_byte_locale_units L pat value"
  shows "removes ShortestSuffix (\<lambda>w. removal_pattern_matches L pat w extglob) (set (removal_boundaries value)) value
           (remove_matching_suffix L value pat Shortest extglob)"
    and "removes LongestSuffix (\<lambda>w. removal_pattern_matches L pat w extglob) (set (removal_boundaries value)) value
           (remove_matching_suffix L value pat Longest extglob)"
proof -
  let ?M = "\<lambda>w. removal_pattern_matches L pat w extglob" and ?ks = "removal_boundaries value"
  have lit: "?M (drop k value) \<longleftrightarrow> drop k value = pat"
    if "pattern_is_plain_literal pat" "\<not> sides_need_byte_char_matching pat value" for k
    using literal_matches [OF that(1) gates_clean_slice [OF set_drop_subset]] that(2) assms(2)
    by (simp add: removal_pair_gates_clean_def)
  have "removes kd ?M (set ?ks) value (remove_matching_suffix L value pat len extglob)"
    if kind: "(kd = ShortestSuffix \<and> len = Shortest) \<or> (kd = LongestSuffix \<and> len = Longest)" for kd len
  proof (cases "pattern_is_plain_literal pat \<and> \<not> sides_need_byte_char_matching pat value")
    case True
    have "removes kd ?M (set ?ks) value = removes kd (\<lambda>w. w = pat) (set ?ks) value"
      by (intro ext removes_cong) (use lit True kind in auto)
    then show ?thesis using literal_suffix_removes [of kd pat "value"] kind True assms
      by (simp add: remove_matching_suffix_def split del: if_split) blast
  next
    case False
    have "remove_matching_suffix L value pat len extglob =
        (case List.find (\<lambda>k. ?M (outer_part kd k value)) (walk_order kd ?ks) of
           Some k \<Rightarrow> kept_part kd k value | None \<Rightarrow> value)"
      using False assms kind by (auto simp: remove_matching_suffix_def candidate_drop split: option.split)
    then show ?thesis
      using walk_removes [OF boundaries_sorted, of kd ?M "value" "value"] by simp
  qed
  then show "removes ShortestSuffix ?M (set ?ks) value (remove_matching_suffix L value pat Shortest extglob)"
    "removes LongestSuffix ?M (set ?ks) value (remove_matching_suffix L value pat Longest extglob)" by blast+
qed

lemma walks_remove:
  assumes "\<not> pattern_has_raw_byte_markers pat" and "\<not> sides_need_byte_locale_units L pat value"
  shows "removes kd (\<lambda>w. removal_pattern_matches L pat w extglob) (set (removal_boundaries value)) value
           (remove_parameter_pattern L value pat kd extglob)"
  using removal_unfold_prefix [OF assms] removal_unfold_suffix [OF assms]
  by (cases kd) (simp_all add: remove_parameter_pattern_def)

text \<open>
  C6. The four removal operators: the outer part removed matches the pattern, it is the shortest or
  the longest matching one among the cuts that break no transport pair, the rest of the value is kept as
  it is, and a value with no matching part is returned unchanged.  The one-comparison path for literal
  patterns and the walk that checks the gates once are covered by the same contract.
\<close>

theorem removal_contract:
  assumes "\<not> pattern_has_raw_byte_markers pat" and "\<not> sides_need_byte_locale_units L pat value"
  shows "removes kd (\<lambda>w. removal_pattern_matches L pat w extglob) (set (removal_boundaries value)) value
           (remove_parameter_pattern L value pat kd extglob)"
  by (rule walks_remove [OF assms])

theorem removal_contract_witness:
  "removes LongestSuffix (\<lambda>w. removal_pattern_matches posix_locale (codes ''.*'') w False)
     (set (removal_boundaries (codes ''a.tar.gz''))) (codes ''a.tar.gz'')
     (remove_parameter_pattern posix_locale (codes ''a.tar.gz'') (codes ''.*'') LongestSuffix False)
   \<and> remove_parameter_pattern posix_locale (codes ''a.tar.gz'') (codes ''.*'') LongestSuffix False = codes ''a''"
proof
  show "removes LongestSuffix (\<lambda>w. removal_pattern_matches posix_locale (codes ''.*'') w False)
     (set (removal_boundaries (codes ''a.tar.gz''))) (codes ''a.tar.gz'')
     (remove_parameter_pattern posix_locale (codes ''a.tar.gz'') (codes ''.*'') LongestSuffix False)"
    by (rule removal_contract) code_simp+
qed code_simp

subsection \<open>The byte walk\<close>

text \<open>
  With a raw-byte marker in the pattern, or text outside ASCII in a byte locale, the four operators
  work on the raw bytes: the bytes of the result are what the contract asks of the bytes of the value,
  every byte offset being a cut.
\<close>

theorem byte_removal_contract:
  assumes "pattern_has_raw_byte_markers pat \<or> sides_need_byte_locale_units L pat value"
  shows "removes kd (\<lambda>bs. removal_pattern_matches L pat (bytes_to_shell_text bs) extglob)
           {0..length (shell_text_to_raw_bytes value)} (shell_text_to_raw_bytes value)
           (shell_text_to_raw_bytes (remove_parameter_pattern L value pat kd extglob))"
proof -
  let ?vb = "shell_text_to_raw_bytes value"
    and ?M = "\<lambda>bs. removal_pattern_matches L pat (bytes_to_shell_text bs) extglob"
  have "shell_text_to_raw_bytes (remove_parameter_pattern L value pat kd extglob) =
      (case List.find (\<lambda>k. ?M (outer_part kd k ?vb)) (walk_order kd [0..<length ?vb + 1]) of
         Some k \<Rightarrow> kept_part kd k ?vb | None \<Rightarrow> ?vb)"
    using assms
    by (cases kd) (auto simp: remove_parameter_pattern_def remove_matching_prefix_def remove_matching_suffix_def
        remove_matching_prefix_bytes_def remove_matching_suffix_bytes_def Let_def bytes_to_shell_text_def
        carriers.lossless simp del: upt_Suc split: option.split)
  then show ?thesis
    using walk_removes [of "[0..<length ?vb + 1]" kd ?M ?vb] by (simp add: atLeastLessThanSuc_atLeastAtMost del: upt_Suc)
qed

theorem byte_removal_contract_witness:
  "removes LongestPrefix
     (\<lambda>bs. removal_pattern_matches posix_locale (bytes_to_shell_text [CHR 0xC3]) (bytes_to_shell_text bs) False)
     {0..length (shell_text_to_raw_bytes [0xE9, 97])} (shell_text_to_raw_bytes [0xE9, 97])
     (shell_text_to_raw_bytes
        (remove_parameter_pattern posix_locale [0xE9, 97] (bytes_to_shell_text [CHR 0xC3]) LongestPrefix False))"
  by (rule byte_removal_contract) code_simp

subsection \<open>No operator breaks a transport pair\<close>

lemma cut_keeps_pairs:
  "well_spelled t \<Longrightarrow> k \<le> length t \<Longrightarrow> i + k \<notin> set (split_points_from i t) \<Longrightarrow>
   well_spelled (take k t) \<and> well_spelled (drop k t)"
proof (induction arbitrary: k i rule: well_spelled.induct)
  case (ws_plain c t)
  then have "c \<noteq> RAW_BYTE_MARKER_ESCAPE" "c \<noteq> LITERAL_CHAR_ESCAPE"
    by (auto simp: is_marker_zone_char_def)
  then show ?case using ws_plain.prems ws_plain.hyps ws_plain.IH [of "k - 1" "i + 1"]
    by (cases k) (auto intro: well_spelled.intros)
next
  case (ws_escape c t)
  show ?case
  proof (cases "k < 2")
    case True
    then show ?thesis using ws_escape by (cases k) (auto intro: well_spelled.intros)
  next
    case False
    then obtain j where "k = Suc (Suc j)" by (metis add_2_eq_Suc le_Suc_ex not_less)
    then show ?thesis using ws_escape.prems ws_escape.hyps ws_escape.IH [of j "i + 2"]
      by (auto intro: well_spelled.intros)
  qed
next
  case (ws_marker c t)
  show ?case
  proof (cases "k < 2")
    case True
    then show ?thesis using ws_marker by (cases k) (auto intro: well_spelled.intros)
  next
    case False
    then obtain j where "k = Suc (Suc j)" by (metis add_2_eq_Suc le_Suc_ex not_less)
    then show ?thesis using ws_marker.prems ws_marker.hyps ws_marker.IH [of j "i + 2"]
      by (auto intro: well_spelled.intros)
  qed
qed (auto intro: well_spelled.intros)

lemma no_split_points: "RAW_BYTE_MARKER_ESCAPE \<notin> set t \<Longrightarrow> LITERAL_CHAR_ESCAPE \<notin> set t \<Longrightarrow> split_points_from i t = []"
  by (induction t arbitrary: i) auto

lemma boundary_keeps_pairs:
  assumes "well_spelled value" and "k \<in> set (removal_boundaries value)"
  shows "well_spelled (take k value) \<and> well_spelled (drop k value)"
  using assms cut_keeps_pairs [of "value" k 0] no_split_points [of "value" 0]
  by (auto simp: set_boundaries marker_pair_split_points_def split: if_splits)

lemma removes_boundary:
  assumes "removes kd M (set (removal_boundaries value)) value r" and "well_spelled value"
  shows "well_spelled r"
  using assms(1) boundary_keeps_pairs [OF assms(2)] assms(2) unfolding removes_def by (cases kd) auto

text \<open>
  C29. None of the four operators breaks a transport pair: the rest of a well-spelled value is
  well spelled, on the byte walk and on the walk over characters.
\<close>

theorem removal_keeps_spelling:
  assumes "well_spelled value"
  shows "well_spelled (remove_parameter_pattern L value pat kd extglob)"
proof (cases "pattern_has_raw_byte_markers pat \<or> sides_need_byte_locale_units L pat value")
  case True
  then show ?thesis using assms
    by (cases kd) (auto simp: remove_parameter_pattern_def remove_matching_prefix_def remove_matching_suffix_def
        remove_matching_prefix_bytes_def remove_matching_suffix_bytes_def Let_def bytes_to_shell_text_def
        well_spelled_encoded simp del: upt_Suc split: option.split)
next
  case False
  then show ?thesis
    using removes_boundary [OF _ assms] walks_remove [of pat L "value" kd extglob] by blast
qed

theorem removal_keeps_spelling_witness:
  "well_spelled (remove_parameter_pattern posix_locale [0xE400, 0xE010, 97] (codes ''?'') LongestPrefix False)"
  by (rule removal_keeps_spelling)
    (auto intro!: well_spelled.intros simp: is_marker_zone_char_def is_assignment_carrier_byte_def)

end
