(* ===== verification/PatsubCorrect.thy ===== *)
theory PatsubCorrect
  imports Patsub RemovalProps
begin

section \<open>The finder takes the leftmost longest match\<close>

text \<open>
  The contract of the finder (\<open>leftmost_longest\<close>) and of the substitution built on it (\<open>substitutes\<close>), and
  the proof that the two prunes of the finder lose no candidate: the length bound, where matcher and bound
  read the same bracket expressions, and the literal tail, where case counts and the tail starts with a
  single byte.
\<close>

subsection \<open>The contract\<close>

definition leftmost_longest :: "(nat \<Rightarrow> nat \<Rightarrow> bool) \<Rightarrow> nat \<Rightarrow> nat \<Rightarrow> (nat \<times> nat) option \<Rightarrow> bool" where
  "leftmost_longest M len from r \<longleftrightarrow>
     (case r of
        None \<Rightarrow> \<forall>s e. from \<le> s \<and> s \<le> e \<and> e \<le> len \<longrightarrow> \<not> M s e
      | Some (s, e) \<Rightarrow>
          from \<le> s \<and> s \<le> e \<and> e \<le> len \<and> M s e
          \<and> (\<forall>e'. e < e' \<and> e' \<le> len \<longrightarrow> \<not> M s e')
          \<and> (\<forall>s' e'. from \<le> s' \<and> s' < s \<and> s' \<le> e' \<and> e' \<le> len \<longrightarrow> \<not> M s' e'))"

text \<open>
  The text built from position \<open>i\<close> on: what lies before a match is copied, the match is replaced; behind
  an empty match one character is copied.
\<close>

inductive substitutes ::
    "(nat \<Rightarrow> nat \<Rightarrow> bool) \<Rightarrow> ('a list \<Rightarrow> 'a list) \<Rightarrow> bool \<Rightarrow> 'a list \<Rightarrow> nat \<Rightarrow> 'a list \<Rightarrow> bool"
  for M amp global xs where
  subst_end: "length xs \<le> i \<Longrightarrow> substitutes M amp global xs i []"
| subst_none:
    "i < length xs \<Longrightarrow> leftmost_longest M (length xs) i None \<Longrightarrow> substitutes M amp global xs i (drop i xs)"
| subst_once:
    "i < length xs \<Longrightarrow> leftmost_longest M (length xs) i (Some (s, e)) \<Longrightarrow> \<not> global \<or> s = length xs \<Longrightarrow>
     substitutes M amp global xs i (slice i s xs @ amp (slice s e xs) @ drop e xs)"
| subst_more:
    "i < length xs \<Longrightarrow> leftmost_longest M (length xs) i (Some (s, e)) \<Longrightarrow> global \<Longrightarrow> s < e \<Longrightarrow>
     substitutes M amp global xs e out \<Longrightarrow>
     substitutes M amp global xs i (slice i s xs @ amp (slice s e xs) @ out)"
| subst_empty:
    "i < length xs \<Longrightarrow> leftmost_longest M (length xs) i (Some (s, s)) \<Longrightarrow> global \<Longrightarrow> s < length xs \<Longrightarrow>
     substitutes M amp global xs (s + 1) out \<Longrightarrow>
     substitutes M amp global xs i (slice i s xs @ amp [] @ xs ! s # out)"

subsection \<open>The scan\<close>

lemma fold_last_match:
  "fold (\<lambda>e best. if P e then Some e else best) es b
     = (if filter P es = [] then b else Some (List.last (filter P es)))"
  by (induction es arbitrary: b) auto

lemma takeWhile_sorted:
  "sorted xs \<Longrightarrow> (\<And>x y. x \<le> y \<Longrightarrow> Q y \<Longrightarrow> Q x) \<Longrightarrow> takeWhile Q xs = filter Q (xs :: nat list)"
proof (induction xs)
  case (Cons a xs)
  have "filter Q xs = []" if "\<not> Q a"
    using Cons.prems that by (auto simp: filter_empty_conv)
  then show ?case using Cons by auto
qed simp

lemma sorted_le_last: "sorted xs \<Longrightarrow> (x :: nat) \<in> set xs \<Longrightarrow> x \<le> List.last xs"
  by (induction xs) auto

definition passes :: "nat option \<Rightarrow> nat list option \<Rightarrow> bool \<Rightarrow> nat \<Rightarrow> nat \<Rightarrow> nat \<Rightarrow> bool" where
  "passes bound tail_ends at_end s len e \<longleftrightarrow>
     within bound (e - s) \<and> (case tail_ends of None \<Rightarrow> True | Some allowed \<Rightarrow> e \<in> set allowed)
     \<and> (at_end \<longrightarrow> e = len)"

lemma within_mono: "d \<le> d' \<Longrightarrow> within bound d' \<Longrightarrow> within bound d"
  by (auto simp: within_def split: option.splits)

lemma best_end_filter:
  "best_end M bound tail_ends at_end s len =
     (let es = filter (\<lambda>e. passes bound tail_ends at_end s len e \<and> M e) [s..<len + 1]
      in if es = [] then None else Some (List.last es))"
proof -
  let ?P = "\<lambda>e. (case tail_ends of None \<Rightarrow> True | Some allowed \<Rightarrow> e \<in> set allowed) \<and> (at_end \<longrightarrow> e = len) \<and> M e"
  have step: "(\<lambda>e best. if \<not> (case tail_ends of None \<Rightarrow> True | Some allowed \<Rightarrow> e \<in> set allowed) then best
                     else if at_end \<and> e \<noteq> len then best
                     else if M e then Some e else best) = (\<lambda>e best. if ?P e then Some e else best)"
    by (intro ext) auto
  have run: "takeWhile (\<lambda>e. within bound (e - s)) [s..<len + 1] = filter (\<lambda>e. within bound (e - s)) [s..<len + 1]"
    by (rule takeWhile_sorted [OF sorted_upt]) (auto elim: within_mono [rotated])
  show ?thesis
    unfolding best_end_def step run fold_last_match filter_filter Let_def passes_def
    by (simp del: upt_Suc add: conj_ac cong: filter_cong)
qed

lemma best_end_Some:
  assumes "best_end M bound tail_ends at_end s len = Some e"
  shows "s \<le> e \<and> e \<le> len \<and> passes bound tail_ends at_end s len e \<and> M e
         \<and> (\<forall>e'. e < e' \<and> e' \<le> len \<and> passes bound tail_ends at_end s len e' \<longrightarrow> \<not> M e')"
proof -
  define es where "es = filter (\<lambda>e. passes bound tail_ends at_end s len e \<and> M e) [s..<len + 1]"
  have e: "es \<noteq> []" "e = List.last es"
    using assms unfolding best_end_filter es_def [symmetric] Let_def by (simp_all split: if_splits)
  have set: "set es = {x. s \<le> x \<and> x \<le> len \<and> passes bound tail_ends at_end s len x \<and> M x}"
    by (auto simp: es_def simp del: upt_Suc)
  have "sorted es" unfolding es_def by (rule sorted_wrt_filter) (rule sorted_upt)
  then have below: "e' \<le> e" if "e' \<in> set es" for e' using sorted_le_last that e(2) by blast
  have "e \<in> set es" using e by simp
  then have mem: "s \<le> e \<and> e \<le> len \<and> passes bound tail_ends at_end s len e \<and> M e" unfolding set by simp
  have "\<not> M e'" if "e < e'" "e' \<le> len" "passes bound tail_ends at_end s len e'" for e'
  proof
    assume "M e'"
    then have "e' \<in> set es" unfolding set using that mem by simp
    then show False using below that(1) by fastforce
  qed
  then show ?thesis using mem by blast
qed

lemma best_end_None:
  assumes "best_end M bound tail_ends at_end s len = None" and "s \<le> e" "e \<le> len"
  shows "\<not> (passes bound tail_ends at_end s len e \<and> M e)"
  using assms unfolding best_end_filter Let_def
  by (auto simp: filter_empty_conv simp del: upt_Suc split: if_splits)

lemma first_match_before:
  "sorted_wrt (<) ss \<Longrightarrow>
   (case first_match best ss of
      None \<Rightarrow> \<forall>s \<in> set ss. best s = None
    | Some (s, e) \<Rightarrow> s \<in> set ss \<and> best s = Some e \<and> (\<forall>s' \<in> set ss. s' < s \<longrightarrow> best s' = None))"
  by (induction ss) (auto split: option.splits)

text \<open>If every match passes the prunes, the scan is the leftmost longest search.\<close>

lemma scan_leftmost_longest:
  assumes "\<And>s e. from \<le> s \<Longrightarrow> s \<le> e \<Longrightarrow> e \<le> len \<Longrightarrow> M s e \<Longrightarrow> passes bound tail_ends False s len e"
  shows "leftmost_longest (\<lambda>s e. M s e \<and> (at_end \<longrightarrow> e = len)) len from
           (first_match (\<lambda>s. best_end (M s) bound tail_ends at_end s len) [from..<len + 1])"
proof -
  let ?best = "\<lambda>s. best_end (M s) bound tail_ends at_end s len"
  have pass: "passes bound tail_ends at_end s len e \<longleftrightarrow> (at_end \<longrightarrow> e = len)"
    if "from \<le> s" "s \<le> e" "e \<le> len" "M s e" for s e
    using assms [OF that] by (auto simp: passes_def)
  have none: "\<not> (M s e \<and> (at_end \<longrightarrow> e = len))" if "?best s = None" "from \<le> s" "s \<le> e" "e \<le> len" for s e
    using best_end_None [OF that(1,3,4)] pass that by blast
  have fm: "(case first_match ?best [from..<len + 1] of
      None \<Rightarrow> \<forall>s \<in> set [from..<len + 1]. ?best s = None
    | Some (s, e) \<Rightarrow> s \<in> set [from..<len + 1] \<and> ?best s = Some e \<and> (\<forall>s' \<in> set [from..<len + 1]. s' < s \<longrightarrow> ?best s' = None))"
    by (rule first_match_before) (rule sorted_wrt_upt)
  show ?thesis
  proof (cases "first_match ?best [from..<len + 1]")
    case None
    then have "?best s = None" if "from \<le> s" "s \<le> len" for s
      using fm that by (simp del: upt_Suc)
    then have "\<not> (M s e \<and> (at_end \<longrightarrow> e = len))" if "from \<le> s" "s \<le> e" "e \<le> len" for s e
      using none that le_trans by metis
    then show ?thesis unfolding None leftmost_longest_def option.case by blast
  next
    case (Some r)
    obtain s e where r: "r = (s, e)" by force
    have s: "from \<le> s" "s \<le> len" "?best s = Some e" and
      before: "\<And>s'. from \<le> s' \<Longrightarrow> s' \<le> len \<Longrightarrow> s' < s \<Longrightarrow> ?best s' = None"
      using fm unfolding Some r by (simp_all del: upt_Suc)
    note be = best_end_Some [OF s(3)]
    have "M s e \<and> (at_end \<longrightarrow> e = len)" using be by (auto simp: passes_def)
    moreover have "\<not> (M s e' \<and> (at_end \<longrightarrow> e' = len))" if "e < e'" "e' \<le> len" for e'
    proof -
      have "s \<le> e'" using be that by linarith
      then show ?thesis using be pass [OF s(1) _ that(2)] that by blast
    qed
    moreover have "\<not> (M s' e' \<and> (at_end \<longrightarrow> e' = len))" if "from \<le> s'" "s' < s" "s' \<le> e'" "e' \<le> len" for s' e'
      by (rule none [OF before]) (use that in auto)
    ultimately show ?thesis unfolding Some r leftmost_longest_def option.case prod.case using s be by blast
  qed
qed

subsection \<open>The substitution loop\<close>

lemma glob_loop_correct:
  assumes "\<And>c. c < length value \<Longrightarrow>
      \<exists>r. find_parameter_pattern_match L value pat c nocase extglob = Some r \<and> leftmost_longest M (length value) c r"
  shows "\<exists>out. glob_loop L value pat amp global nocase extglob cursor acc = Some (acc @ out)
           \<and> substitutes M amp global value cursor out"
proof (induction "length value - cursor" arbitrary: cursor acc rule: less_induct)
  case less
  let ?run = "glob_loop L value pat amp global nocase extglob"
  show ?case
  proof (cases "cursor < length value")
    case False
    then show ?thesis by (intro exI [of _ "[]"]) (auto simp: glob_loop.simps [of _ _ _ _ _ _ _ cursor] intro: subst_end)
  next
    case inside: True
    obtain r where r: "find_parameter_pattern_match L value pat cursor nocase extglob = Some r"
      and ll: "leftmost_longest M (length value) cursor r"
      using assms [OF inside] by blast
    note unfold = glob_loop.simps [of L "value" pat amp _ nocase extglob cursor acc]
    show ?thesis
    proof (cases r)
      case None
      then show ?thesis using r ll inside by (intro exI [of _ "drop cursor value"]) (simp add: unfold subst_none)
    next
      case (Some se)
      obtain s e where se: "se = (s, e)" by force
      have range: "cursor \<le> s" "s \<le> e" "e \<le> length value"
        using ll by (simp_all add: Some se leftmost_longest_def)
      have smaller: "length value - k < length value - cursor" if "cursor < k" for k
        using inside that by linarith
      note ll' = ll [unfolded Some se]
      define out1 where "out1 = slice cursor s value @ amp (slice s e value)"
      consider "\<not> global \<or> s = length value" | "global" "s < e" | "global" "s = e" "s < length value"
        using range by linarith
      then show ?thesis
      proof cases
        case 1
        have "?run cursor acc = Some (acc @ out1 @ drop e value)"
        proof (cases "e = s")
          case True
          then show ?thesis using r inside range 1 Cons_nth_drop_Suc [of e "value"]
            by (cases "e < length value") (auto simp: unfold inside Some se Let_def out1_def)
        next
          case False
          then have "\<not> global" using 1 range by auto
          then show ?thesis using r inside False by (simp add: unfold Some se Let_def out1_def)
        qed
        then show ?thesis using subst_once [OF inside ll' 1, of amp] by (auto simp: out1_def)
      next
        case 2
        obtain out where out: "?run e (acc @ out1) = Some ((acc @ out1) @ out)"
          "substitutes M amp global value e out"
          using less [of e "acc @ out1"] smaller [of e] inside range 2 by auto
        have "?run cursor acc = Some (acc @ out1 @ out)"
          using r inside range 2 out(1) by (simp add: unfold Some se Let_def out1_def)
        then show ?thesis using subst_more [OF inside ll' 2 out(2)] by (auto simp: out1_def)
      next
        case 3
        obtain out where out: "?run (s + 1) (acc @ out1 @ [value ! s]) = Some ((acc @ out1 @ [value ! s]) @ out)"
          "substitutes M amp global value (s + 1) out"
          using less [of "s + 1" "acc @ out1 @ [value ! s]"] smaller [of "s + 1"] inside range 3 by auto
        have "?run cursor acc = Some (acc @ out1 @ value ! s # out)"
          using r inside range 3 out(1) by (simp add: unfold Some se Let_def out1_def)
        moreover have "slice s s value = []" by (simp add: slice_def)
        ultimately show ?thesis using subst_empty [OF inside _ 3(1,3) out(2)] ll' 3(2)
          by (auto simp: out1_def)
      qed
    qed
  qed
qed

subsection \<open>The candidates\<close>

lemma patsub_candidate_same:
  assumes "set w \<subseteq> set value"
  shows "patsub_candidate_matches L value pat nocase extglob w = parameter_pattern_match L pat w nocase extglob"
proof (cases "pattern_pair_gates_clean L pat value")
  case True
  then have "removal_pair_gates_clean L pat w"
    using gates_clean_slice [OF assms, of L pat] by (simp add: removal_pair_gates_clean_def pattern_pair_gates_clean_def)
  then show ?thesis using True
    by (simp add: patsub_candidate_matches_def parameter_pattern_match_prechecked_def parameter_pattern_match_def
        case_pattern_matches_def case_pattern_matches_nocase_def case_pattern_matches_folded_def Let_def
        removal_pair_gates_clean_def)
qed (simp add: patsub_candidate_matches_def)

lemma set_slice_subset: "set (slice i j xs) \<subseteq> set xs"
  unfolding slice_def using set_take_subset set_drop_subset by (metis subset_trans)

lemma candidate_language:
  assumes "pattern_pair_gates_clean L pat value" and "list_all scalar value" and "set w \<subseteq> set value"
    and "\<not> (extglob \<and> pattern_uses_extglob_syntax pat)"
  shows "parameter_pattern_match L pat w nocase extglob \<longleftrightarrow> w \<in> pattern_lang L pat nocase"
proof -
  have "removal_pair_gates_clean L pat w"
    using assms(1) gates_clean_slice [OF assms(3), of L pat]
    by (simp add: removal_pair_gates_clean_def pattern_pair_gates_clean_def)
  moreover have "list_all scalar w" using assms(2,3) by (auto simp: list_all_iff)
  ultimately show ?thesis using assms(4)
    by (auto simp: parameter_pattern_match_def case_pattern_matches_def case_pattern_matches_nocase_def
        folded_correct matched_sides_def removal_pair_gates_clean_def)
qed

subsection \<open>The length bound\<close>

text \<open>Matcher and bound agree where the bracket expressions of the pattern end.\<close>

definition brackets_agree :: "locale_env \<Rightarrow> code_point list \<Rightarrow> bool \<Rightarrow> bool" where
  "brackets_agree L pat nocase \<longleftrightarrow>
     list_all (\<lambda>p. pat ! p = LBRACKET \<longrightarrow>
        drop (atom_next L pat nocase p) pat = bound_bracket_rest (drop (p + 1) pat)) [0..<length pat]"

lemma bound_covers:
  assumes "CTLESC \<notin> set pat" and "brackets_agree L pat nocase"
  shows "w \<in> glob_lang (glob_items L pat nocase p) \<Longrightarrow> pattern_match_length_bound (drop p pat) = Some b \<Longrightarrow>
         length w \<le> b"
proof (induction "length pat - p" arbitrary: p w b rule: less_induct)
  case less
  show ?case
  proof (cases "p < length pat")
    case False
    then show ?thesis using less.prems by (simp add: items_end)
  next
    case True
    have drop: "drop p pat = pat ! p # drop (p + 1) pat" using True by (simp add: Cons_nth_drop_Suc)
    have star: "pat ! p \<noteq> ASTERISK" using less.prems(2) unfolding drop by auto
    obtain c v where w: "w = c # v" "v \<in> glob_lang (glob_items L pat nocase (atom_next L pat nocase p))"
      using less.prems(1) True star by (auto simp: items_atom lang_One)
    have "pat ! p \<noteq> CTLESC" using assms(1) True nth_mem by metis
    then have "drop (atom_next L pat nocase p) pat = bound_rest (pat ! p) (drop (p + 1) pat)"
      using assms(2) True
      by (auto simp: brackets_agree_def list_all_iff bound_rest_def atom_next_def case_pattern_atom_matches_def
          drop_Suc tl_drop)
    then obtain b' where "b = Suc b'" "pattern_match_length_bound (drop (atom_next L pat nocase p) pat) = Some b'"
      using less.prems(2) star unfolding drop by auto
    then show ?thesis using less.hyps [OF _ w(2)] atom_next_bounds [OF True, of L nocase] w(1)
      by (simp add: diff_less_mono2)
  qed
qed

subsection \<open>The literal tail\<close>

lemma bracket_loop_close:
  "bracket_loop L pat c nocase negated i saw m = Some (r, n) \<Longrightarrow> 0 < n \<and> pat ! (n - 1) = RBRACKET"
proof (induction L pat c nocase negated i saw m rule: bracket_loop.induct)
  case (1 L pat c nocase negated i saw m)
  show ?case
  proof (cases "i < length pat \<and> \<not> (pat ! i = RBRACKET \<and> saw)")
    case True
    obtain b k where bk: "bracket_member L pat c nocase i = (b, k)" by force
    show ?thesis
      using "1.prems" True by (intro "1.IH" [OF _ _ bk [symmetric] refl]) (simp_all add: bracket_loop.simps [of _ _ _ _ _ i] bk)
  next
    case False
    then show ?thesis using "1.prems" by (auto simp: bracket_loop.simps [of _ _ _ _ _ i] split: if_splits)
  qed
qed

lemma bracket_close:
  "case_bracket_expression_matches_with_case L pat i c nocase = Some (r, n) \<Longrightarrow> 0 < n \<and> pat ! (n - 1) = RBRACKET"
  by (auto simp: case_bracket_expression_matches_with_case_def Let_def split: if_splits option.splits
      dest!: bracket_loop_close)

text \<open>No atom that starts before the last star reaches behind it.\<close>

lemma atom_stays:
  assumes "pat = pre @ ASTERISK # tail" and "RBRACKET \<notin> set tail" and "CTLESC \<notin> set pat"
    and "p < length pre"
  shows "atom_next L pat nocase p \<le> length pre + 1"
proof (rule ccontr)
  assume far: "\<not> atom_next L pat nocase p \<le> length pre + 1"
  have "pat ! p \<noteq> CTLESC" using assms(1,3,4) nth_mem [of p pat] by auto
  then have "pat ! p = LBRACKET"
    and "\<exists>r. case_bracket_expression_matches_with_case L pat p (Some 0) nocase = Some (r, atom_next L pat nocase p)"
    using far assms(4)
    by (auto simp: atom_next_def case_pattern_atom_matches_def split: option.splits if_splits)
  then have "pat ! (atom_next L pat nocase p - 1) = RBRACKET" using bracket_close by blast
  moreover have "atom_next L pat nocase p \<le> length pat" using assms(1,4) by (intro atom_next_bounds) simp
  then have "pat ! (atom_next L pat nocase p - 1) \<in> set tail"
    using far unfolding assms(1) by (auto simp: nth_append nth_Cons' intro!: nth_mem)
  ultimately show False using assms(2) by simp
qed

lemma inert_tail_lang:
  assumes "list_all inert tail" and "byte_char_free tail" and "byte_char_free w"
    and "list_all2 (\<lambda>x c. chars_match x c False) tail w"
  shows "w = tail"
  using assms(4,1-3)
  by (induction rule: list_all2_induct) (auto simp: chars_match_def)

lemma tail_ends_word:
  assumes "pat = pre @ ASTERISK # tail" and "list_all inert tail" and "RBRACKET \<notin> set tail"
    and "CTLESC \<notin> set pat" and "byte_char_free tail"
  shows "p \<le> length pre + 1 \<Longrightarrow> byte_char_free w \<Longrightarrow> w \<in> glob_lang (glob_items L pat False p) \<Longrightarrow>
         \<exists>u. w = u @ tail"
proof (induction "length pat - p" arbitrary: p w rule: less_induct)
  case less
  show ?case
  proof (cases "p = length pre + 1")
    case True
    then have "drop p pat = tail" "p \<le> length pat" using assms(1) by simp_all
    then have "w = tail"
      using inert_items_lang [of p pat w L False] assms(2,5) less.prems inert_tail_lang by simp
    then show ?thesis by simp
  next
    case False
    then have p: "p < length pat" using less.prems(1) assms(1) by simp
    then have nearer: "length pat - (p + 1) < length pat - p" by linarith
    show ?thesis
    proof (cases "pat ! p = ASTERISK")
      case True
      then obtain n where n: "n \<le> length w" "drop n w \<in> glob_lang (glob_items L pat False (p + 1))"
        using less.prems(3) p by (auto simp: items_star lang_Many)
      then obtain u where "drop n w = u @ tail"
        using less.hyps [OF nearer _ byte_char_free_drop [OF less.prems(2)] n(2)] False less.prems(1) by fastforce
      then have "w = (take n w @ u) @ tail" by (metis append.assoc append_take_drop_id)
      then show ?thesis by blast
    next
      case star: False
      then have before: "p < length pre" using False less.prems(1) assms(1) by (cases "p = length pre") auto
      obtain c v where w: "w = c # v" "v \<in> glob_lang (glob_items L pat False (atom_next L pat False p))"
        using less.prems(3) p star by (auto simp: items_atom lang_One)
      have "length pat - atom_next L pat False p < length pat - p"
        using atom_next_bounds [OF p, of L False] by linarith
      then obtain u where "v = u @ tail"
        using less.hyps [OF _ atom_stays [OF assms(1,3,4) before] _ w(2)] less.prems(2) w(1) by auto
      then show ?thesis using w(1) by (intro exI [of _ "c # u"]) simp
    qed
  qed
qed

lemma after_last_star_split:
  assumes "after_last_star pat = Some tail"
  obtains pre where "pat = pre @ ASTERISK # tail" and "ASTERISK \<notin> set tail"
proof -
  let ?P = "\<lambda>c. c \<noteq> ASTERISK"
  have mem: "ASTERISK \<in> set pat" and tail: "tail = rev (takeWhile ?P (rev pat))"
    using assms by (auto simp: after_last_star_def split: if_splits)
  obtain c rest where d: "dropWhile ?P (rev pat) = c # rest"
    using mem by (cases "dropWhile ?P (rev pat)") auto
  then have c: "c = ASTERISK" using hd_dropWhile [of ?P "rev pat"] by simp
  have "rev tail @ c # rest = rev pat" unfolding tail d [symmetric] by simp
  from arg_cong [OF this, of rev] have "pat = rev rest @ ASTERISK # tail" using c by simp
  moreover have "ASTERISK \<notin> set tail" using tail by (auto dest: set_takeWhileD)
  ultimately show thesis using that by blast
qed

lemma find_upt:
  "List.find P [0..<n] = Some k \<Longrightarrow> P k \<and> k < n \<and> (\<forall>j < k. \<not> P j)"
  using find_prefers [of "(<)" "[0..<n]" P] sorted_wrt_upt [of 0 n] by (force simp: not_less_iff_gr_or_eq)

lemma find_upt_None: "List.find P [0..<n] = None \<Longrightarrow> k < n \<Longrightarrow> \<not> P k"
  by (simp add: find_None_iff)

lemma starts_at_drop_text: "i \<le> length value \<Longrightarrow> starts_at (drop i value) k needle = starts_at value (i + k) needle"
  by (simp add: starts_at_def add.commute)

lemma tail_ends_from_all:
  assumes "tail \<noteq> []" and "hd tail < 128"
  shows "i \<le> length value \<Longrightarrow> \<exists>ends. tail_ends_from tail value i = Some ends
     \<and> set ends = {k + length tail | k. i \<le> k \<and> starts_at value k tail}"
proof (induction "length value - i" arbitrary: i rule: less_induct)
  case less
  have one: "len_utf8 (hd tail) = 1" using assms(2) by (auto simp: len_utf8_def encode_char_def)
  show ?case
  proof (cases "find_text tail (drop i value)")
    case None
    have "\<not> starts_at value k tail" if "i \<le> k" for k
    proof
      assume s: "starts_at value k tail"
      then have "k + length tail \<le> length value" using assms(1) starts_at_length by blast
      then have "starts_at (drop i value) (k - i) tail" "k - i < length (drop i value) + 1"
        using s that less.prems by (simp_all add: starts_at_drop_text)
      then show False using None find_upt_None unfolding find_text_def by blast
    qed
    then show ?thesis using None by (simp add: tail_ends_from.simps [of tail "value" i])
  next
    case (Some k)
    note fk = find_upt [OF Some [unfolded find_text_def]]
    have at: "starts_at value (i + k) tail" using fk less.prems by (simp add: starts_at_drop_text)
    then have len: "i + k + 1 \<le> length value" using starts_at_length [OF at assms(1)] assms(1) by (cases tail) auto
    then have nearer: "length value - (i + k + 1) < length value - i" by linarith
    then obtain ends where ends: "tail_ends_from tail value (i + k + 1) = Some ends"
      "set ends = {j + length tail | j. i + k + 1 \<le> j \<and> starts_at value j tail}"
      using less.hyps [OF nearer len] by blast
    have first: "i + k \<le> j" if "i \<le> j" "starts_at value j tail" for j
    proof (rule ccontr)
      assume "\<not> i + k \<le> j"
      then show False using fk that less.prems starts_at_drop_text [of i "value" "j - i" tail] by auto
    qed
    have "tail_ends_from tail value i = Some ((i + k + length tail) # ends)"
      using Some assms(1) one len ends(1) by (simp add: tail_ends_from.simps [of tail "value" i])
    moreover have "set ((i + k + length tail) # ends) = {j + length tail | j. i \<le> j \<and> starts_at value j tail}"
    proof -
      have "i \<le> j \<and> starts_at value j tail \<longleftrightarrow> j = i + k \<or> (i + k + 1 \<le> j \<and> starts_at value j tail)" for j
        using at first [of j] by (cases "j = i + k") auto
      then show ?thesis unfolding list.set ends(2) by auto
    qed
    ultimately show ?thesis by blast
  qed
qed

subsection \<open>The finder\<close>

text \<open>
  Where the prunes are exact: the pattern has no byte spelling, the bound reads its bracket expressions like
  the matcher, and a usable tail is compared with case and starts with a single byte.
\<close>

definition prunes_exact :: "locale_env \<Rightarrow> code_point list \<Rightarrow> code_point list \<Rightarrow> bool \<Rightarrow> bool" where
  "prunes_exact L pat value nocase \<longleftrightarrow>
     pattern_pair_gates_clean L pat value \<and> brackets_agree L pat nocase
     \<and> (case pattern_literal_tail pat of None \<Rightarrow> True | Some tail \<Rightarrow> \<not> nocase \<and> hd tail < 128)"

lemma clean_pattern:
  assumes "pattern_pair_gates_clean L pat value" and "list_all scalar pat"
  shows "byte_char_free pat" and "CTLESC \<notin> set pat"
    and "DATA_BACKSLASH \<notin> set pat" and "PATTERN_LITERAL_BACKSLASH \<notin> set pat"
proof -
  have clean: "\<not> str_carries_byte_spelling pat"
    using assms(1) by (simp add: pattern_pair_gates_clean_def sides_need_byte_char_matching_def)
  show "byte_char_free pat" using ungated_byte_char_free [OF assms(2) clean] .
  have "\<not> chars_carry_byte_spelling pat" using clean gates_agree [OF assms(2)] by simp
  then show "CTLESC \<notin> set pat" "DATA_BACKSLASH \<notin> set pat" "PATTERN_LITERAL_BACKSLASH \<notin> set pat"
    by (auto simp: chars_carry_byte_spelling_def list_ex_iff)
qed

lemma literal_tail_split:
  assumes "pattern_literal_tail pat = Some t" and "DATA_BACKSLASH \<notin> set pat" "PATTERN_LITERAL_BACKSLASH \<notin> set pat"
    and "CTLESC \<notin> set pat"
  obtains pre where "pat = pre @ ASTERISK # t" and "list_all inert t" and "RBRACKET \<notin> set t" and "t \<noteq> []"
proof -
  obtain tail where tail: "after_last_star pat = Some tail" "tail \<noteq> []"
    "\<not> list_ex (\<lambda>c. c \<in> {QUESTION, ASTERISK, LBRACKET, RBRACKET, BACKSLASH}) tail"
    "t = normalize_parameter_pattern_backslashes tail"
    using assms(1) by (auto simp: pattern_literal_tail_def Let_def split: option.splits if_splits)
  obtain pre where pre: "pat = pre @ ASTERISK # tail" using after_last_star_split [OF tail(1)] by blast
  have "DATA_BACKSLASH \<notin> set tail" "PATTERN_LITERAL_BACKSLASH \<notin> set tail" "CTLESC \<notin> set tail"
    using assms(2-4) unfolding pre by simp_all
  then have "t = tail" "list_all inert tail" "RBRACKET \<notin> set tail"
    using tail(3,4) by (auto simp: normalize_parameter_pattern_backslashes_def list_ex_iff list_all_iff inert_def)
  then show thesis using that pre tail(2) by blast
qed

lemma finder_correct:
  assumes "list_all scalar pat" and "list_all scalar value"
    and "extglob \<and> pattern_uses_extglob_syntax pat \<or> prunes_exact L pat value nocase"
    and "cursor \<le> length value"
  shows "\<exists>r. find_parameter_pattern_match L value pat cursor nocase extglob = Some r \<and>
     leftmost_longest
       (\<lambda>s e. parameter_pattern_match L pat (slice s e value) nocase extglob
          \<and> (\<not> (extglob \<and> pattern_uses_extglob_syntax pat) \<and> pattern_ends_with_lone_backslash pat \<longrightarrow> e = length value))
       (length value) cursor r"
proof -
  let ?ext = "extglob \<and> pattern_uses_extglob_syntax pat"
  let ?M = "\<lambda>s e. patsub_candidate_matches L value pat nocase extglob (slice s e value)"
  let ?b = "patsub_bound pat extglob"
  have same: "?M s e = parameter_pattern_match L pat (slice s e value) nocase extglob" for s e
    by (rule patsub_candidate_same) (rule set_slice_subset)
  obtain tail_ends where te: "(if ?ext then Some None else pattern_literal_tail_ends pat value) = Some tail_ends"
    and pass: "\<And>s e. s \<le> e \<Longrightarrow> e \<le> length value \<Longrightarrow> ?M s e \<Longrightarrow> passes ?b tail_ends False s (length value) e"
  proof (cases ?ext)
    case True
    then show ?thesis using that [of None] by (simp add: passes_def patsub_bound_def within_def)
  next
    case False
    then have exact: "prunes_exact L pat value nocase" using assms(3) by blast
    then have clean: "pattern_pair_gates_clean L pat value" and agree: "brackets_agree L pat nocase"
      by (simp_all add: prunes_exact_def)
    note free = clean_pattern [OF clean assms(1)]
    have lang: "slice s e value \<in> glob_lang (glob_items L pat nocase 0)" if "?M s e" for s e
      using that candidate_language [OF clean assms(2) set_slice_subset False] by (simp add: same pattern_lang_def)
    have vfree: "byte_char_free value"
      using clean by (intro ungated_byte_char_free [OF assms(2)])
        (simp add: pattern_pair_gates_clean_def sides_need_byte_char_matching_def)
    have bound: "within ?b (e - s)" if "s \<le> e" "e \<le> length value" "?M s e" for s e
    proof (cases "pattern_match_length_bound pat")
      case (Some b)
      then show ?thesis using bound_covers [OF free(2) agree lang [OF that(3)], of b] that(1,2) False
        by (simp add: within_def patsub_bound_def)
    qed (simp add: within_def patsub_bound_def)
    show ?thesis
    proof (cases "pattern_literal_tail pat")
      case None
      then show ?thesis using that [of None] False bound by (simp add: passes_def pattern_literal_tail_ends_def)
    next
      case (Some t)
      then obtain pre where t: "pat = pre @ ASTERISK # t" "list_all inert t" "RBRACKET \<notin> set t" "t \<noteq> []"
        using literal_tail_split [OF Some free(3,4,2)] by blast
      have one: "\<not> nocase" "hd t < 128" using exact Some by (simp_all add: prunes_exact_def)
      obtain ends where ends: "tail_ends_from t value 0 = Some ends"
        "set ends = {k + length t | k. starts_at value k t}"
        using tail_ends_from_all [OF t(4) one(2), of 0 "value"] by auto
      have "byte_char_free t" using free(1) unfolding t(1) by (simp add: byte_char_free_def)
      then have "e \<in> set ends" if cand: "s \<le> e" "e \<le> length value" "?M s e" for s e
      proof -
        have "byte_char_free (slice s e value)"
          using vfree set_slice_subset [of s e "value"] by (auto simp: byte_char_free_def list_all_iff)
        then obtain u where u: "slice s e value = u @ t"
          using tail_ends_word [OF t(1-3) free(2) \<open>byte_char_free t\<close>, of 0] lang [OF cand(3)] one(1) by auto
        then have len: "e - s = length u + length t" using cand(1,2) length_slice [of e "value" s] by simp
        have "take (e - s) (drop s value) = u @ t" using u by (simp add: slice_def)
        then have "take (length t) (drop (s + length u) value) = t"
          using len by (metis append_eq_conv_conj append_take_drop_id drop_drop drop_take take_take min.idem
              add_diff_cancel_left' add.commute)
        then have "starts_at value (s + length u) t" by (simp add: starts_at_def)
        moreover have "e = s + length u + length t" using len cand(1) by simp
        ultimately show ?thesis unfolding ends(2) by blast
      qed
      then show ?thesis using that [of "Some ends"] False bound Some ends(1)
        by (simp add: passes_def pattern_literal_tail_ends_def)
    qed
  qed
  have "leftmost_longest (\<lambda>s e. ?M s e \<and> (\<not> ?ext \<and> pattern_ends_with_lone_backslash pat \<longrightarrow> e = length value))
      (length value) cursor
      (first_match (\<lambda>s. best_end (?M s) ?b tail_ends (\<not> ?ext \<and> pattern_ends_with_lone_backslash pat) s (length value))
         [cursor..<length value + 1])"
    by (rule scan_leftmost_longest) (use pass in blast)
  then show ?thesis using te unfolding find_parameter_pattern_match_def Let_def same by auto
qed

end
