(* ===== verification/PatsubProps.thy ===== *)
theory PatsubProps
  imports PatsubCorrect
begin

section \<open>Properties of pattern substitution\<close>

text \<open>
  The substitution is the leftmost longest one, for glob patterns and for literals; the anchored forms take
  the longest prefix or suffix; \<open>&\<close> in the replacement copies the match and can be escaped; the shortcut
  for deleting with a complemented bracket expression is exact for plain members and wrong for classes.
\<close>

definition amp_text :: "bool \<Rightarrow> code_point list \<Rightarrow> code_point list \<Rightarrow> code_point list" where
  "amp_text patsub_replacement replacement matched =
     (if patsub_replacement then expand_replacement_amp matched replacement else replacement)"

definition shielded_backslashes :: "code_point list \<Rightarrow> code_point list" where
  "shielded_backslashes pat = map (\<lambda>c. if c = DATA_BACKSLASH then PATTERN_LITERAL_BACKSLASH else c) pat"

definition ext_active :: "bool \<Rightarrow> code_point list \<Rightarrow> bool" where
  "ext_active extglob pat \<longleftrightarrow> extglob \<and> pattern_uses_extglob_syntax pat"

text \<open>What counts as a match: a lone backslash at the end of a pattern only matches the end of the value.\<close>

definition patsub_match ::
    "locale_env \<Rightarrow> code_point list \<Rightarrow> code_point list \<Rightarrow> bool \<Rightarrow> bool \<Rightarrow> nat \<Rightarrow> nat \<Rightarrow> bool" where
  "patsub_match L pat value nocase extglob s e \<longleftrightarrow>
     parameter_pattern_match L pat (slice s e value) nocase extglob
     \<and> (\<not> ext_active extglob pat \<and> pattern_ends_with_lone_backslash pat \<longrightarrow> e = length value)"

subsection \<open>The replacement\<close>

lemma amp_skipped: "\<not> shouldexp_replacement r \<Longrightarrow> expand_replacement_amp m r = r"
proof (induction r rule: shouldexp_replacement.induct)
  case (2 c cs)
  show ?case
  proof (cases "c = BACKSLASH \<and> cs \<noteq> []")
    case True
    then obtain n rest where "cs = n # rest" by (cases cs) auto
    then show ?thesis using 2 True by (auto split: if_splits)
  next
    case False
    then show ?thesis using 2 by (auto split: if_splits list.splits)
  qed
qed simp

lemma amp_of_flags:
  "(if patsub \<and> shouldexp_replacement r then expand_replacement_amp m r else r) = amp_text patsub r m"
  using amp_skipped [of r m] by (simp add: amp_text_def)

definition amp_escaped :: "code_point list \<Rightarrow> code_point list" where
  "amp_escaped r = concat (map (\<lambda>c. if c = AMPERSAND \<or> c = BACKSLASH then [BACKSLASH, c] else [c]) r)"

lemma expand_amp_escaped: "expand_replacement_amp m (amp_escaped r @ rest) = r @ expand_replacement_amp m rest"
  by (induction r) (auto simp: amp_escaped_def)

text \<open>
  C32. The replacement text: it can be prepared so that any text is inserted verbatim, an unescaped \<open>&\<close>
  stands for the match, and the test that skips the expansion never changes a result.
\<close>

theorem replacement_text:
  "expand_replacement_amp m (amp_escaped r) = r
   \<and> expand_replacement_amp m (amp_escaped r @ AMPERSAND # amp_escaped r') = r @ m @ r'
   \<and> (\<not> shouldexp_replacement t \<longrightarrow> expand_replacement_amp m t = t)"
  using expand_amp_escaped [of m r "[]"] expand_amp_escaped [of m r' "[]"] amp_skipped
  by (simp add: expand_amp_escaped)

theorem replacement_text_witness:
  "\<not> shouldexp_replacement [97, 92, 98] \<and> expand_replacement_amp [120] [97, 92, 98] = [97, 92, 98]"
  using replacement_text [of "[120]" "[]" "[]" "[97, 92, 98]"] by simp

subsection \<open>Glob patterns\<close>

lemma inner_glob:
  assumes "value \<noteq> []" and "pat \<noteq> []" and "global \<or> hd pat \<noteq> HASH \<and> hd pat \<noteq> PERCENT"
    and "pattern_contains_glob pat"
    and "\<not> (global \<and> replacement = []) \<or> parse_negated_bracket_filter pat = None"
  shows "replace_parameter_pattern_inner lower L value pat replacement global nocase patsub extglob =
     glob_loop L value (shielded_backslashes pat) (amp_text patsub replacement) global nocase extglob 0 []"
proof -
  have "(\<lambda>m. if patsub \<and> shouldexp_replacement replacement then expand_replacement_amp m replacement else replacement)
      = amp_text patsub replacement"
    by (intro ext) (rule amp_of_flags)
  then show ?thesis
    using assms by (auto simp: replace_parameter_pattern_inner_def shielded_backslashes_def Let_def)
qed


definition ascii_lower :: case_mapping where
  "ascii_lower c = [cp_to_ascii_lowercase c]"


subsection \<open>Literal patterns\<close>

lemma literal_next_first:
  "needle \<noteq> [] \<Longrightarrow>
   (case literal_next lower v needle nocase pos of
      None \<Rightarrow> \<forall>i. pos \<le> i \<and> i + length needle \<le> length v \<longrightarrow>
                \<not> list_all2 (folded_eq lower nocase) (slice i (i + length needle) v) needle
    | Some i \<Rightarrow> pos \<le> i \<and> i + length needle \<le> length v
                \<and> list_all2 (folded_eq lower nocase) (slice i (i + length needle) v) needle
                \<and> (\<forall>j. pos \<le> j \<and> j < i \<longrightarrow> \<not> list_all2 (folded_eq lower nocase) (slice j (j + length needle) v) needle))"
proof (induction lower v needle nocase pos rule: literal_next.induct)
  case (1 lower v needle nocase pos)
  note unfold = literal_next.simps [of lower v needle nocase pos]
  let ?hit = "\<lambda>i. list_all2 (folded_eq lower nocase) (slice i (i + length needle) v) needle"
  show ?case
  proof (cases "pos + length needle \<le> length v \<and> \<not> ?hit pos")
    case True
    then have ih: "case literal_next lower v needle nocase (pos + 1) of
        None \<Rightarrow> \<forall>i. pos + 1 \<le> i \<and> i + length needle \<le> length v \<longrightarrow> \<not> ?hit i
      | Some i \<Rightarrow> pos + 1 \<le> i \<and> i + length needle \<le> length v \<and> ?hit i \<and> (\<forall>j. pos + 1 \<le> j \<and> j < i \<longrightarrow> \<not> ?hit j)"
      using "1.IH" "1.prems" by blast
    have run: "literal_next lower v needle nocase pos = literal_next lower v needle nocase (pos + 1)"
      using True "1.prems" by (simp add: unfold)
    have "\<not> ?hit i" if "pos \<le> i" "pos + 1 \<le> i \<Longrightarrow> \<not> ?hit i" for i
      using that True by (cases "i = pos") auto
    then show ?thesis using ih unfolding run by (auto split: option.splits)
  next
    case False
    then show ?thesis using "1.prems" by (auto simp: unfold split: option.splits)
  qed
qed

definition literal_match ::
    "case_mapping \<Rightarrow> code_point list \<Rightarrow> code_point list \<Rightarrow> bool \<Rightarrow> nat \<Rightarrow> nat \<Rightarrow> bool" where
  "literal_match lower value needle nocase s e \<longleftrightarrow>
     list_all2 (folded_eq lower nocase) (slice s e value) needle"

lemma literal_match_length:
  "literal_match lower v needle nocase s e \<Longrightarrow> s \<le> e \<Longrightarrow> e \<le> length v \<Longrightarrow> e = s + length needle"
  by (auto simp: literal_match_def dest!: list_all2_lengthD)

lemma literal_next_leftmost:
  assumes "needle \<noteq> []"
  shows "leftmost_longest (literal_match lower v needle nocase) (length v) pos
           (map_option (\<lambda>i. (i, i + length needle)) (literal_next lower v needle nocase pos))"
proof (cases "literal_next lower v needle nocase pos")
  case None
  then have "\<not> literal_match lower v needle nocase s e" if "pos \<le> s" "s \<le> e" "e \<le> length v" for s e
    using literal_next_first [OF assms, where lower = lower and v = v and nocase = nocase and pos = pos] literal_match_length [of lower v needle nocase s e] that
    by (auto simp: literal_match_def)
  then show ?thesis using None by (auto simp: leftmost_longest_def)
next
  case (Some i)
  then have i: "pos \<le> i" "i + length needle \<le> length v" "literal_match lower v needle nocase i (i + length needle)"
    and first: "\<And>j. pos \<le> j \<Longrightarrow> j < i \<Longrightarrow> \<not> literal_match lower v needle nocase j (j + length needle)"
    using literal_next_first [OF assms, where lower = lower and v = v and nocase = nocase and pos = pos] by (auto simp: literal_match_def)
  have "\<not> literal_match lower v needle nocase i e'" if "i + length needle < e'" "e' \<le> length v" for e'
    using literal_match_length [of lower v needle nocase i e'] that by auto
  moreover have "\<not> literal_match lower v needle nocase s' e'" if "pos \<le> s'" "s' < i" "s' \<le> e'" "e' \<le> length v" for s' e'
    using literal_match_length [of lower v needle nocase s' e'] first [of s'] that by auto
  ultimately show ?thesis using Some i by (simp add: leftmost_longest_def)
qed

lemma literal_loop_correct:
  assumes "needle \<noteq> []"
  shows "behind \<le> length v \<Longrightarrow> \<not> (replaced \<and> \<not> global) \<Longrightarrow>
     \<exists>out. literal_loop lower v needle r global nocase amp behind replaced acc = acc @ out
       \<and> substitutes (literal_match lower v needle nocase) (\<lambda>m. if amp then expand_replacement_amp m r else r)
           global v behind out"
proof (induction "length v - behind" arbitrary: behind replaced acc rule: less_induct)
  case less
  let ?amp = "\<lambda>m. if amp then expand_replacement_amp m r else r"
  let ?subst = "substitutes (literal_match lower v needle nocase) ?amp global v"
  note unfold = literal_loop.simps [of lower v needle r _ nocase amp behind]
  note ll = literal_next_leftmost [OF assms, of lower v nocase behind]
  show ?case
  proof (cases "literal_next lower v needle nocase behind")
    case None
    have "?subst behind (drop behind v)"
      using ll None less.prems(1) by (cases "behind < length v") (auto intro: subst_none subst_end)
    then show ?thesis using None by (intro exI [of _ "drop behind v"]) (simp add: unfold)
  next
    case (Some i)
    let ?e = "i + length needle"
    note range = literal_next_bounds [OF Some]
    have inside: "behind < length v" and nonempty: "i < ?e" using range assms by (cases needle; simp)+
    have ll': "leftmost_longest (literal_match lower v needle nocase) (length v) behind (Some (i, ?e))"
      using ll Some by simp
    let ?out1 = "slice behind i v @ ?amp (slice i ?e v)"
    show ?thesis
    proof (cases global)
      case True
      have "length v - ?e < length v - behind" using inside nonempty range by linarith
      from less.hyps [OF this, of True "acc @ ?out1"] range True
      obtain out where run: "literal_loop lower v needle r global nocase amp ?e True (acc @ ?out1) = (acc @ ?out1) @ out"
        and sub: "?subst ?e out" by auto
      have "?subst behind (?out1 @ out)"
        using subst_more [OF inside ll' True nonempty sub] by (simp only: append_assoc)
      then show ?thesis using Some True run
        by (intro exI [of _ "?out1 @ out"]) (simp add: unfold)
    next
      case False
      have "literal_loop lower v needle r False nocase amp ?e True (acc @ ?out1) = (acc @ ?out1) @ drop ?e v"
        by (subst literal_loop.simps) (simp split: option.split)
      then show ?thesis using Some False less.prems(2) subst_once [OF inside ll', of False ?amp]
        by (intro exI [of _ "?out1 @ drop ?e v"]) (simp add: unfold)
    qed
  qed
qed

text \<open>
  C31. A pattern without operators is substituted by the same rule, an occurrence being a part of the
  value that equals the pattern, up to case when case is folded.
\<close>

theorem literal_substitution:
  assumes "value \<noteq> []" and "pat \<noteq> []" and "global \<or> hd pat \<noteq> HASH \<and> hd pat \<noteq> PERCENT"
    and "\<not> pattern_contains_glob pat" and "\<not> sides_need_byte_locale_units L pat value"
    and "normalize_parameter_pattern_backslashes pat = needle"
  shows "\<exists>out. replace_parameter_pattern lower L value pat replacement global nocase patsub extglob = Some out
     \<and> substitutes (literal_match lower value needle nocase) (amp_text patsub replacement) global value 0 out"
proof -
  have no: "parse_negated_bracket_filter pat = None"
    using assms(4) by (auto simp: pattern_contains_glob_def parse_negated_bracket_filter_def split: list.split)
  have "length (fold_doubled cs) = 0 \<longleftrightarrow> cs = []" for cs
    by (induction cs rule: fold_doubled.induct) auto
  then have ne: "needle \<noteq> []"
    using assms(2,6) by (auto simp: normalize_parameter_pattern_backslashes_def split: if_splits)
  have amp: "(\<lambda>m. if patsub \<and> shouldexp_replacement replacement then expand_replacement_amp m replacement else replacement)
      = amp_text patsub replacement"
    by (intro ext) (rule amp_of_flags)
  have "replace_parameter_pattern lower L value pat replacement global nocase patsub extglob
      = Some (replace_with_amp lower value needle replacement global nocase (patsub \<and> shouldexp_replacement replacement))"
    using assms no by (auto simp: replace_parameter_pattern_def replace_parameter_pattern_inner_def Let_def)
  then show ?thesis
    using literal_loop_correct [OF ne, of 0 "value" False global lower replacement nocase "patsub \<and> shouldexp_replacement replacement" "[]"]
    unfolding amp by (simp add: replace_with_amp_def)
qed

theorem literal_substitution_witness:
  "\<exists>out. replace_parameter_pattern ascii_lower posix_locale (codes ''aXbx'') (codes ''x'') (codes ''<&>'') True True True False
      = Some out
   \<and> substitutes (literal_match ascii_lower (codes ''aXbx'') (codes ''x'') True) (amp_text True (codes ''<&>'')) True
       (codes ''aXbx'') 0 out"
  by (rule literal_substitution) code_simp+

subsection \<open>Anchored patterns\<close>

lemma find_pruned:
  assumes "sorted_wrt R ks" and "set ks = {0..n :: nat}" and "\<And>k. k \<le> n \<Longrightarrow> M k \<Longrightarrow> Q k"
  shows "case List.find M (filter Q ks) of
           None \<Rightarrow> \<forall>k \<le> n. \<not> M k
         | Some k \<Rightarrow> k \<le> n \<and> M k \<and> (\<forall>k' \<le> n. M k' \<longrightarrow> k' = k \<or> R k k')"
proof -
  have found: "case List.find M (filter Q ks) of
      Some k \<Rightarrow> k \<in> set (filter Q ks) \<and> M k \<and> (\<forall>k' \<in> set (filter Q ks). M k' \<longrightarrow> k' = k \<or> R k k')
    | None \<Rightarrow> \<forall>k \<in> set (filter Q ks). \<not> M k"
    by (rule find_prefers) (rule sorted_wrt_filter [OF assms(1)])
  have kept: "k \<in> set (filter Q ks)" if "k \<le> n" "M k" for k
    using assms(3) [OF that] that(1) by (simp add: assms(2))
  have "k \<le> n" if "k \<in> set (filter Q ks)" for k using that by (simp add: assms(2))
  then show ?thesis
    using found kept by (cases "List.find M (filter Q ks)") (simp only: option.case, blast)+
qed

lemma find_up:
  assumes "\<And>k. k \<le> n \<Longrightarrow> M k \<Longrightarrow> Q k"
  shows "case List.find M (filter Q [0..<n + 1]) of
           None \<Rightarrow> \<forall>k \<le> n. \<not> M k
         | Some k \<Rightarrow> k \<le> n \<and> M k \<and> (\<forall>k' \<le> n. M k' \<longrightarrow> k' = k \<or> k < k')"
proof (rule find_pruned)
  show "sorted_wrt (\<lambda>k k'. k < k') [0..<n + 1]" by (rule sorted_wrt_upt)
  show "set [0..<n + 1] = {0..n}" unfolding set_upt by auto
qed (rule assms)

lemma find_down:
  assumes "\<And>k. k \<le> n \<Longrightarrow> M k \<Longrightarrow> Q k"
  shows "case List.find M (filter Q (rev [0..<n + 1])) of
           None \<Rightarrow> \<forall>k \<le> n. \<not> M k
         | Some k \<Rightarrow> k \<le> n \<and> M k \<and> (\<forall>k' \<le> n. M k' \<longrightarrow> k' = k \<or> k > k')"
proof (rule find_pruned)
  show "sorted_wrt (\<lambda>k k'. k > k') (rev [0..<n + 1])" unfolding sorted_wrt_rev by (rule sorted_wrt_upt)
  show "set (rev [0..<n + 1]) = {0..n}"
    unfolding set_rev set_upt by auto
qed (rule assms)

lemma anchored_bound:
  assumes "ext_active extglob pat \<or> pattern_pair_gates_clean L pat value \<and> brackets_agree L pat nocase"
    and "list_all scalar pat" "list_all scalar value" and "set w \<subseteq> set value"
    and "patsub_candidate_matches L value pat nocase extglob w"
  shows "within (patsub_bound pat extglob) (length w)"
proof (cases "ext_active extglob pat")
  case True
  then show ?thesis by (simp add: ext_active_def patsub_bound_def within_def)
next
  case False
  then have clean: "pattern_pair_gates_clean L pat value" "brackets_agree L pat nocase" using assms(1) by auto
  have "w \<in> glob_lang (glob_items L pat nocase 0)"
    using assms(5) candidate_language [OF clean(1) assms(3,4)] False
    by (simp add: patsub_candidate_same [OF assms(4)] pattern_lang_def ext_active_def)
  then show ?thesis
    using bound_covers [OF clean_pattern(2) [OF clean(1) assms(2)] clean(2), of w 0] False
    by (auto simp: within_def patsub_bound_def ext_active_def split: option.split)
qed



subsection \<open>The deletion shortcut\<close>

fun filter_item_of :: "bracket_item \<Rightarrow> bracket_filter_item" where
  "filter_item_of (Member c) = FilterChar c"
| "filter_item_of (Span lo hi) = FilterRange lo hi"

lemma filter_items_of: "list_all item_plain its \<Longrightarrow> filter_items (concat (map item_text its)) = map filter_item_of its"
proof (induction its)
  case (Cons it its)
  show ?case
  proof (cases it)
    case (Member c)
    have hd: "concat (map item_text its) = b # rest \<Longrightarrow> b \<noteq> HYPHEN" for b rest
      using Cons.prems item_first_plain by (cases its) (auto simp: hd_append dest!: arg_cong [of _ _ hd])
    have "filter_items (c # concat (map item_text its)) = FilterChar c # filter_items (concat (map item_text its))"
    proof (cases "concat (map item_text its)")
      case (Cons b rest)
      then show ?thesis using hd [OF Cons] by (cases rest) auto
    qed simp
    then show ?thesis using Cons Member by simp
  next
    case (Span lo hi)
    then show ?thesis using Cons by simp
  qed
qed simp

lemma complement_lang:
  assumes "list_all item_plain its" and "its \<noteq> []"
  shows "[c] \<in> pattern_lang L (bracket_text True its) nocase \<longleftrightarrow> \<not> list_ex (item_holds nocase c) its"
proof -
  note read = bracket_expression_items [OF assms disjI1 [OF TrueI], where pre = "[]" and post = "[]" and L = L and nocase = nocase]
  have head: "bracket_text True its ! 0 = LBRACKET" "0 < length (bracket_text True its)" by (simp_all add: bracket_text_def)
  have "atom_next L (bracket_text True its) nocase 0 = length (bracket_text True its)"
    using read [where c = 0] head by (simp add: atom_next_def case_pattern_atom_matches_def)
  moreover have "atom_chars L (bracket_text True its) nocase 0 c \<longleftrightarrow> \<not> list_ex (item_holds nocase c) its"
    using read [where c = c] head by (simp add: atom_chars_def case_pattern_atom_matches_def)
  ultimately show ?thesis using head by (simp add: pattern_lang_def items_atom items_end)
qed





subsection \<open>A tail outside ASCII\<close>

lemma multibyte_tail_slices:
  assumes "tail \<noteq> []" and "128 \<le> hd tail" and "\<exists>k. starts_at value k tail"
  shows "tail_ends_from tail value 0 = None"
proof -
  obtain k where k: "starts_at value k tail" using assms(3) by blast
  then have "k < length value + 1" using starts_at_length [OF k assms(1)] by simp
  then have "find_text tail value \<noteq> None"
    using k unfolding find_text_def find_None_iff by (auto simp del: upt_Suc)
  moreover have "len_utf8 (hd tail) \<noteq> 1" using assms(2) by (simp add: len_utf8_def encode_char_def)
  ultimately show ?thesis by (auto simp: tail_ends_from.simps [of tail "value" 0])
qed

text \<open>
  C35. A pattern whose text behind the last star is literal and starts with a character outside ASCII
  makes the substitution panic on every value that contains this text.
\<close>

theorem multibyte_tail_panics:
  assumes "value \<noteq> []" and "\<not> sides_need_byte_locale_units L (pre @ ASTERISK # tail) value"
    and "global \<or> hd (pre @ ASTERISK # tail) \<noteq> HASH \<and> hd (pre @ ASTERISK # tail) \<noteq> PERCENT"
    and "\<not> (global \<and> replacement = []) \<or> parse_negated_bracket_filter (pre @ ASTERISK # tail) = None"
    and "list_all inert tail" and "RBRACKET \<notin> set tail" and "DATA_BACKSLASH \<notin> set tail"
    and "tail \<noteq> []" and "128 \<le> hd tail" and "\<exists>k. starts_at value k tail"
    and "\<not> ext_active extglob (shielded_backslashes (pre @ ASTERISK # tail))"
  shows "replace_parameter_pattern lower L value (pre @ ASTERISK # tail) replacement global nocase patsub extglob = None"
proof -
  let ?pat = "shielded_backslashes (pre @ ASTERISK # tail)"
  have same: "map (\<lambda>c. if c = DATA_BACKSLASH then PATTERN_LITERAL_BACKSLASH else c) tail = tail"
    using assms(7) by (intro map_idI) auto
  have shape: "?pat = shielded_backslashes pre @ ASTERISK # tail" by (simp add: shielded_backslashes_def same)
  have clear: "c \<noteq> ASTERISK \<and> c \<noteq> QUESTION \<and> c \<noteq> LBRACKET \<and> c \<noteq> RBRACKET \<and> c \<noteq> BACKSLASH \<and> c \<noteq> PATTERN_LITERAL_BACKSLASH"
    if "c \<in> set tail" for c
    using assms(5,6) that by (auto simp: list_all_iff inert_def)
  have "takeWhile (\<lambda>c. c \<noteq> ASTERISK) (rev ?pat) = rev tail"
    unfolding shape using clear by (simp add: takeWhile_tail)
  then have "after_last_star ?pat = Some tail" by (simp add: after_last_star_def shape)
  then have "pattern_literal_tail ?pat = Some tail"
    using clear assms(7,8)
    by (auto simp: pattern_literal_tail_def list_ex_iff normalize_parameter_pattern_backslashes_def)
  then have "find_parameter_pattern_match L value ?pat 0 nocase extglob = None"
    using assms(11) multibyte_tail_slices [OF assms(8-10)]
    by (simp add: find_parameter_pattern_match_def pattern_literal_tail_ends_def ext_active_def Let_def)
  then show ?thesis
    using inner_glob [of "value" "pre @ ASTERISK # tail" global replacement] assms(1-4)
    by (simp add: replace_parameter_pattern_def glob_loop.simps [of _ _ _ _ _ _ _ 0] pattern_contains_glob_def)
qed

theorem multibyte_tail_panics_witness:
  "replace_parameter_pattern ascii_lower (posix_locale\<lparr>is_utf8 := True\<rparr>) [0xE9, 97] (codes ''*'' @ [0xE9]) (codes ''X'')
     False False True False = None"
proof -
  have "replace_parameter_pattern ascii_lower (posix_locale\<lparr>is_utf8 := True\<rparr>) [0xE9, 97] ([] @ ASTERISK # [0xE9]) (codes ''X'')
     False False True False = None"
    by (rule multibyte_tail_panics)
      (simp_all add: sides_need_byte_locale_units_def posix_locale_def inert_def starts_at_def exI [of _ 0]
        ext_active_def)
  then show ?thesis by (simp add: codes_def)
qed

end
