(* ===== verification/Json.thy ===== *)
theory Json
  imports TextCodec
begin

section \<open>The debugger's JSON subset\<close>

text \<open>
  \<open>src/src/debugger/json.rs\<close>: the value type of the protocol adapter, its writer and its recursive-descent
  parser.  Texts are UTF-8 bytes, the strings inside values lists of characters.  The parser's position is
  the number of bytes before the input that is left; its functions take that input and the length \<open>n\<close> of the
  whole document, from which the messages compute positions.

  Floating-point numbers are the parameter \<open>'f\<close>, with the operations of \<open>f64\<close> the code uses in
  \<open>float_ops\<close>.  The recursion takes fuel; \<open>None\<close> is fuel that ran out, and \<open>parse_json\<close> starts with enough.
\<close>

record 'f float_ops =
  parse_f64 :: "bytes \<Rightarrow> 'f option"
  show_f64 :: "'f \<Rightarrow> bytes"
  is_finite :: "'f \<Rightarrow> bool"
  whole_i64 :: "'f \<Rightarrow> int option"

datatype 'f json =
    Null
  | JBool bool
  | JInt int
  | JFloat 'f
  | JStr "code_point list"
  | JArray "'f json list"
  | JObject "(code_point list \<times> 'f json) list"

subsection \<open>Reading values\<close>

fun json_get :: "code_point list \<Rightarrow> 'f json \<Rightarrow> 'f json option" where
  "json_get key (JObject pairs) = map_of pairs key"
| "json_get key _ = None"

fun json_as_str :: "'f json \<Rightarrow> code_point list option" where
  "json_as_str (JStr s) = Some s"
| "json_as_str _ = None"

text \<open>\<open>whole_i64\<close> is the test for an integral value below 9.0e15 with the cast.\<close>

fun json_as_i64 :: "'f float_ops \<Rightarrow> 'f json \<Rightarrow> int option" where
  "json_as_i64 F (JInt v) = Some v"
| "json_as_i64 F (JFloat f) = whole_i64 F f"
| "json_as_i64 F _ = None"

fun json_as_bool :: "'f json \<Rightarrow> bool option" where
  "json_as_bool (JBool b) = Some b"
| "json_as_bool _ = None"

fun json_as_array :: "'f json \<Rightarrow> 'f json list option" where
  "json_as_array (JArray items) = Some items"
| "json_as_array _ = None"

subsection \<open>Writing\<close>

definition hex_char :: "nat \<Rightarrow> char" where
  "hex_char d = char_of (if d < 10 then 48 + d else 87 + d)"

definition json_char_text :: "code_point \<Rightarrow> bytes" where
  "json_char_text c =
     (if c = 0x22 then [CHR 0x5C, CHR 0x22]
      else if c = 0x5C then [CHR 0x5C, CHR 0x5C]
      else if c = 0x0A then [CHR 0x5C, CHR ''n'']
      else if c = 0x0D then [CHR 0x5C, CHR ''r'']
      else if c = 0x09 then [CHR 0x5C, CHR ''t'']
      else if c = 0x08 then [CHR 0x5C, CHR ''b'']
      else if c = 0x0C then [CHR 0x5C, CHR ''f'']
      else if c < 0x20 then [CHR 0x5C, CHR ''u'', CHR ''0'', CHR ''0'', hex_char (c div 16), hex_char (c mod 16)]
      else encode_char c)"

definition write_json_string :: "code_point list \<Rightarrow> bytes" where
  "write_json_string s = CHR 0x22 # concat (map json_char_text s) @ [CHR 0x22]"

fun comma_joined :: "bytes list \<Rightarrow> bytes" where
  "comma_joined [] = []"
| "comma_joined [t] = t"
| "comma_joined (t # ts) = t @ CHR '','' # comma_joined ts"

fun json_text :: "'f float_ops \<Rightarrow> 'f json \<Rightarrow> bytes" where
  "json_text F Null = ''null''"
| "json_text F (JBool b) = (if b then ''true'' else ''false'')"
| "json_text F (JInt v) = int_to_string v"
| "json_text F (JFloat f) = (if is_finite F f then show_f64 F f else ''null'')"
| "json_text F (JStr s) = write_json_string s"
| "json_text F (JArray items) = CHR ''['' # comma_joined (map (json_text F) items) @ '']''"
| "json_text F (JObject pairs) =
     CHR ''{'' # comma_joined (map (\<lambda>(k, v). write_json_string k @ CHR '':'' # json_text F v) pairs) @ ''}''"

subsection \<open>Strings\<close>

definition at_byte :: "string \<Rightarrow> nat \<Rightarrow> bytes \<Rightarrow> string" where
  "at_byte msg n rest = msg @ '' at byte '' @ int_to_string (int (n - length rest))"

definition json_ws :: "char \<Rightarrow> bool" where
  "json_ws b \<longleftrightarrow> b \<in> {CHR '' '', CHR 0x09, CHR 0x0A, CHR 0x0D}"

definition json_skip_ws :: "bytes \<Rightarrow> bytes" where
  "json_skip_ws bs = dropWhile json_ws bs"

fun hex_digits :: "nat \<Rightarrow> nat \<Rightarrow> bytes \<Rightarrow> nat \<Rightarrow> string + (nat \<times> bytes)" where
  "hex_digits n 0 rest v = Inr (v, rest)"
| "hex_digits n (Suc k) rest v =
     (case rest of
        [] \<Rightarrow> Inl ([CHR ''s'', CHR ''h'', CHR ''o'', CHR ''r'', CHR ''t'', CHR '' '', CHR 0x5C, CHR ''u''] @ '' escape'')
      | b # bs \<Rightarrow>
          (case to_digit 16 b of
             None \<Rightarrow> Inl (at_byte ''invalid hex digit'' n rest)
           | Some d \<Rightarrow> hex_digits n k bs (v * 16 + d)))"

definition hex4 :: "nat \<Rightarrow> bytes \<Rightarrow> string + (nat \<times> bytes)" where
  "hex4 n rest = hex_digits n 4 rest 0"

definition REPLACEMENT :: code_point where "REPLACEMENT = 0xFFFD"

definition char_or_replacement :: "nat \<Rightarrow> code_point" where
  "char_or_replacement v = (if rust_char v then v else REPLACEMENT)"

text \<open>
  What follows \<open>\<backslash>u\<close>: the character pushed and the input behind the escape.  A high surrogate is combined
  with a low one that follows; otherwise it is replaced and the input behind its own digits is left.
\<close>

definition unicode_escape :: "nat \<Rightarrow> bytes \<Rightarrow> string + (code_point \<times> bytes)" where
  "unicode_escape n rest =
     (case hex4 n rest of
        Inl e \<Rightarrow> Inl e
      | Inr (first, r1) \<Rightarrow>
          if 0xD800 \<le> first \<and> first < 0xDC00 then
            (case r1 of
               b # r2 \<Rightarrow>
                 if b = CHR 0x5C then
                   (case r2 of
                      u # r3 \<Rightarrow>
                        if u = CHR ''u'' then
                          (case hex4 n r3 of
                             Inl e \<Rightarrow> Inl e
                           | Inr (second, r4) \<Rightarrow>
                               if 0xDC00 \<le> second \<and> second < 0xE000 then
                                 Inr (char_or_replacement (0x10000 + ((first - 0xD800) * 1024 + (second - 0xDC00))), r4)
                               else Inr (REPLACEMENT, r1))
                        else Inr (REPLACEMENT, r1)
                    | [] \<Rightarrow> Inr (REPLACEMENT, r1))
                 else Inr (REPLACEMENT, r1)
             | [] \<Rightarrow> Inr (REPLACEMENT, r1))
          else Inr (char_or_replacement first, r1))"

definition simple_escape :: "char \<Rightarrow> code_point option" where
  "simple_escape e =
     (if e = CHR 0x22 then Some 0x22
      else if e = CHR 0x5C then Some 0x5C
      else if e = CHR ''/'' then Some 0x2F
      else if e = CHR ''b'' then Some 0x08
      else if e = CHR ''f'' then Some 0x0C
      else if e = CHR ''n'' then Some 0x0A
      else if e = CHR ''r'' then Some 0x0D
      else if e = CHR ''t'' then Some 0x09
      else None)"

lemma hex_digits_length: "hex_digits n k rest v = Inr (w, r) \<Longrightarrow> length r = length rest - k \<and> k \<le> length rest"
  by (induction n k rest v rule: hex_digits.induct) (auto split: list.splits option.splits)

lemma hex4_length: "hex4 n rest = Inr (v, r) \<Longrightarrow> length r < length rest"
  using hex_digits_length by (fastforce simp: hex4_def)

lemma unicode_escape_length: "unicode_escape n rest = Inr (c, r) \<Longrightarrow> length r < length rest"
  by (auto simp: unicode_escape_def split: sum.splits prod.splits if_splits list.splits dest!: hex4_length)

definition continuation_byte :: "char \<Rightarrow> bool" where
  "continuation_byte b \<longleftrightarrow> byte b div 64 = 2"

function (sequential) json_string_loop ::
    "nat \<Rightarrow> bytes \<Rightarrow> code_point list \<Rightarrow> string + (code_point list \<times> bytes)" where
  "json_string_loop n [] out = Inl ''unterminated string''"
| "json_string_loop n (b # rest) out =
     (if b = CHR 0x22 then Inr (out, rest)
      else if b = CHR 0x5C then
        (case rest of
           [] \<Rightarrow> Inl ''unterminated escape''
         | e # r \<Rightarrow>
             (case simple_escape e of
                Some c \<Rightarrow> json_string_loop n r (out @ [c])
              | None \<Rightarrow>
                  if e = CHR ''u'' then
                    (case unicode_escape n r of
                       Inl err \<Rightarrow> Inl err
                     | Inr (c, r') \<Rightarrow> json_string_loop n r' (out @ [c]))
                  else Inl (at_byte ''invalid escape'' n r)))
      else
        (let conts = takeWhile continuation_byte rest
         in case valid_up_to (b # conts) of
              (cs, []) \<Rightarrow> json_string_loop n (drop (length conts) rest) (out @ cs)
            | _ \<Rightarrow> Inl (at_byte ''invalid UTF-8 in string'' n (b # rest))))"
  by pat_completeness auto
termination
  by (relation "measure (\<lambda>(n, rest, out). length rest)") (auto dest!: unicode_escape_length)

declare json_string_loop.simps [simp del]

text \<open>\<open>string\<close> skips the opening quote, which its callers have seen.\<close>

definition json_string :: "nat \<Rightarrow> bytes \<Rightarrow> string + (code_point list \<times> bytes)" where
  "json_string n rest = json_string_loop n (tl rest) []"

subsection \<open>Numbers and keywords\<close>

definition number_byte :: "char \<Rightarrow> bool" where
  "number_byte b \<longleftrightarrow> is_ascii_digit b \<or> b \<in> set ''.eE+-''"

definition json_number :: "'f float_ops \<Rightarrow> bytes \<Rightarrow> string + ('f json \<times> bytes)" where
  "json_number F rest =
     (let signed = (rest \<noteq> [] \<and> hd rest = CHR ''-'');
          body = (if signed then tl rest else rest);
          txt = (if signed then ''-'' else []) @ takeWhile number_byte body;
          left = dropWhile number_byte body
      in case parse_i64_str txt of
           Some v \<Rightarrow> Inr (JInt v, left)
         | None \<Rightarrow>
             (case parse_f64 F txt of
                Some f \<Rightarrow> Inr (JFloat f, left)
              | None \<Rightarrow> Inl (''invalid number '' @ [CHR 0x27] @ txt @ [CHR 0x27])))"

definition json_keyword :: "nat \<Rightarrow> string \<Rightarrow> 'f json \<Rightarrow> bytes \<Rightarrow> string + ('f json \<times> bytes)" where
  "json_keyword n word v rest =
     (if take (length word) rest = word then Inr (v, drop (length word) rest)
      else Inl (at_byte ''invalid literal'' n rest))"

subsection \<open>Values\<close>

fun json_peek :: "bytes \<Rightarrow> char option" where
  "json_peek [] = None"
| "json_peek (b # bs) = Some b"

lemma json_peek_Some: "json_peek bs = Some b \<longleftrightarrow> (\<exists>r. bs = b # r)"
  by (cases bs) auto

text \<open>The values that hold no other: \<open>rest\<close> starts with \<open>b\<close>.\<close>

definition json_scalar :: "'f float_ops \<Rightarrow> nat \<Rightarrow> char \<Rightarrow> bytes \<Rightarrow> string + ('f json \<times> bytes)" where
  "json_scalar F n b rest =
     (if b = CHR 0x22 then (case json_string n rest of Inl e \<Rightarrow> Inl e | Inr (s, r) \<Rightarrow> Inr (JStr s, r))
      else if b = CHR ''t'' then json_keyword n ''true'' (JBool True) rest
      else if b = CHR ''f'' then json_keyword n ''false'' (JBool False) rest
      else if b = CHR ''n'' then json_keyword n ''null'' Null rest
      else if b = CHR ''-'' \<or> is_ascii_digit b then json_number F rest
      else Inl (at_byte ''unexpected input'' n rest))"

text \<open>The operator \<open>?\<close> on a step of the parser: an error, or no fuel, ends the caller too.\<close>

fun parse_then ::
    "(string + ('a \<times> bytes)) option \<Rightarrow> ('a \<Rightarrow> bytes \<Rightarrow> (string + 'b) option) \<Rightarrow> (string + 'b) option" where
  "parse_then None f = None"
| "parse_then (Some (Inl e)) f = Some (Inl e)"
| "parse_then (Some (Inr (v, r))) f = f v r"

lemma parse_then_cong [fundef_cong]:
  "m = m' \<Longrightarrow> (\<And>v r. m' = Some (Inr (v, r)) \<Longrightarrow> f v r = g v r) \<Longrightarrow> parse_then m f = parse_then m' g"
  by (induction m f rule: parse_then.induct) auto

lemma parse_then_returns:
  "m \<noteq> None \<Longrightarrow> (\<And>v r. m = Some (Inr (v, r)) \<Longrightarrow> f v r \<noteq> None) \<Longrightarrow> parse_then m f \<noteq> None"
  by (induction m f rule: parse_then.induct) auto

lemma parse_then_result:
  "parse_then m f = Some (Inr x) \<longleftrightarrow> (\<exists>v r. m = Some (Inr (v, r)) \<and> f v r = Some (Inr x))"
  by (induction m f rule: parse_then.induct) auto

text \<open>The loops of \<open>object\<close> and \<open>array\<close> run behind the opening bracket and the test for an empty list.\<close>

function (sequential) json_value :: "nat \<Rightarrow> 'f float_ops \<Rightarrow> nat \<Rightarrow> bytes \<Rightarrow> (string + ('f json \<times> bytes)) option"
  and json_object_loop ::
    "nat \<Rightarrow> 'f float_ops \<Rightarrow> nat \<Rightarrow> bytes \<Rightarrow> (code_point list \<times> 'f json) list \<Rightarrow> (string + ('f json \<times> bytes)) option"
  and json_array_loop ::
    "nat \<Rightarrow> 'f float_ops \<Rightarrow> nat \<Rightarrow> bytes \<Rightarrow> 'f json list \<Rightarrow> (string + ('f json \<times> bytes)) option" where
  "json_value 0 F n rest = None"
| "json_value (Suc fuel) F n rest =
     (case rest of
        [] \<Rightarrow> Some (Inl (at_byte ''unexpected input'' n rest))
      | b # bs \<Rightarrow>
          if b = CHR ''{'' then
            (if json_peek (json_skip_ws bs) = Some (CHR ''}'') then Some (Inr (JObject [], tl (json_skip_ws bs)))
             else json_object_loop fuel F n (json_skip_ws bs) [])
          else if b = CHR ''['' then
            (if json_peek (json_skip_ws bs) = Some (CHR '']'') then Some (Inr (JArray [], tl (json_skip_ws bs)))
             else json_array_loop fuel F n (json_skip_ws bs) [])
          else Some (json_scalar F n b rest))"
| "json_object_loop 0 F n rest pairs = None"
| "json_object_loop (Suc fuel) F n rest pairs =
     (let r = json_skip_ws rest
      in if json_peek r \<noteq> Some (CHR 0x22) then Some (Inl (at_byte ''object key must be a string'' n r))
         else parse_then (Some (json_string n r)) (\<lambda>key r1.
             let r2 = json_skip_ws r1
             in if json_peek r2 \<noteq> Some (CHR '':'') then
                  Some (Inl (at_byte (''expected '' @ [CHR 0x27, CHR '':'', CHR 0x27]) n r2))
                else parse_then (json_value fuel F n (json_skip_ws (tl r2))) (\<lambda>v r3.
                  let r4 = json_skip_ws r3; pairs' = pairs @ [(key, v)]
                  in if json_peek r4 = Some (CHR '','') then json_object_loop fuel F n (tl r4) pairs'
                     else if json_peek r4 = Some (CHR ''}'') then Some (Inr (JObject pairs', tl r4))
                     else Some (Inl (at_byte (''expected '' @ [CHR 0x27, CHR '','', CHR 0x27] @ '' or ''
                                       @ [CHR 0x27, CHR ''}'', CHR 0x27]) n r4)))))"
| "json_array_loop 0 F n rest items = None"
| "json_array_loop (Suc fuel) F n rest items =
     parse_then (json_value fuel F n (json_skip_ws rest)) (\<lambda>v r3.
       let r4 = json_skip_ws r3; items' = items @ [v]
       in if json_peek r4 = Some (CHR '','') then json_array_loop fuel F n (tl r4) items'
          else if json_peek r4 = Some (CHR '']'') then Some (Inr (JArray items', tl r4))
          else Some (Inl (at_byte (''expected '' @ [CHR 0x27, CHR '','', CHR 0x27] @ '' or ''
                            @ [CHR 0x27, CHR '']'', CHR 0x27]) n r4)))"
  by pat_completeness auto
termination
  by (relation "measure (case_sum fst (case_sum fst fst))") simp_all

definition parse_json :: "'f float_ops \<Rightarrow> bytes \<Rightarrow> (string + 'f json) option" where
  "parse_json F txt =
     (let n = length txt
      in parse_then (json_value (2 * n + 2) F n (json_skip_ws txt)) (\<lambda>v r.
           let r' = json_skip_ws r
           in if r' \<noteq> [] then Some (Inl (at_byte ''trailing input'' n r')) else Some (Inr v)))"

end
