(* ===== verification/JsonProps.thy ===== *)
theory JsonProps
  imports Json TextCodecProps
begin

section \<open>Properties of the JSON subset\<close>

text \<open>
  What the adapter writes it reads back, every string can be written with escapes only, and the parser
  returns on every input.
\<close>

subsection \<open>Bytes of a character\<close>

lemma continuation_cont_byte [simp]: "continuation_byte (cont_byte n)"
proof -
  have "(128 + n mod 64) div 64 = (2 :: nat)" by (intro div_nat_eqI) simp_all
  then show ?thesis by (simp add: continuation_byte_def)
qed

lemma encode_char_lead:
  assumes "scalar c"
  obtains b bs where "encode_char c = b # bs" and "\<not> continuation_byte b" and "list_all continuation_byte bs"
    and "if c < 0x80 then byte b = c else 0x80 \<le> byte b"
proof -
  consider "c < 0x80" | "0x80 \<le> c" "c < 0x800" | "0x800 \<le> c" "c < 0x10000" | "0x10000 \<le> c" "c < 0x110000"
    using assms unfolding scalar_def by linarith
  then have "\<exists>b bs. encode_char c = b # bs \<and> \<not> continuation_byte b \<and> list_all continuation_byte bs
      \<and> (if c < 0x80 then byte b = c else 0x80 \<le> byte b)"
  proof cases
    case 1
    then have b: "byte (char_of c) = c" by (intro byte_char_of) simp
    have "c div 64 \<noteq> 2" using 1 by linarith
    with 1 b show ?thesis by (simp add: encode_char_def continuation_byte_def)
  next
    case 2
    then have b: "byte (char_of (192 + c div 64)) = 192 + c div 64" by (intro byte_char_of) linarith
    have "(192 + c div 64) div 64 \<noteq> 2" by linarith
    then have "\<not> continuation_byte (char_of (192 + c div 64))" unfolding continuation_byte_def b .
    moreover have "0x80 \<le> byte (char_of (192 + c div 64))" unfolding b by simp
    ultimately show ?thesis using 2 by (simp add: encode_char_def)
  next
    case 3
    then have b: "byte (char_of (224 + c div 4096)) = 224 + c div 4096" by (intro byte_char_of) linarith
    have "(224 + c div 4096) div 64 \<noteq> 2" by linarith
    then have "\<not> continuation_byte (char_of (224 + c div 4096))" unfolding continuation_byte_def b .
    moreover have "0x80 \<le> byte (char_of (224 + c div 4096))" unfolding b by simp
    ultimately show ?thesis using 3 by (simp add: encode_char_def)
  next
    case 4
    then have b: "byte (char_of (240 + c div 262144)) = 240 + c div 262144" by (intro byte_char_of) linarith
    have "(240 + c div 262144) div 64 \<noteq> 2" by linarith
    then have "\<not> continuation_byte (char_of (240 + c div 262144))" unfolding continuation_byte_def b .
    moreover have "0x80 \<le> byte (char_of (240 + c div 262144))" unfolding b by simp
    ultimately show ?thesis using 4 by (simp add: encode_char_def)
  qed
  then show thesis using that by blast
qed

subsection \<open>Escapes\<close>

lemma to_digit_hex_char: "d < 16 \<Longrightarrow> to_digit 16 (hex_char d) = Some d"
  by (cases "d < 10") (simp_all add: hex_char_def to_digit_def is_ascii_digit_def is_ascii_lowercase_def)

definition hex4_text :: "nat \<Rightarrow> bytes" where
  "hex4_text v = map hex_char [v div 4096, v div 256 mod 16, v div 16 mod 16, v mod 16]"

lemma hex4_read:
  assumes "v < 0x10000"
  shows "hex4 n (hex4_text v @ rest) = Inr (v, rest)"
proof -
  have top: "v div 4096 < 16" using assms by linarith
  have "v div 4096 * 16 + v div 256 mod 16 = v div 256"
    using div_mult_mod_eq [of "v div 256" 16] by (simp add: div_mult2_eq [symmetric])
  moreover have "v div 256 * 16 + v div 16 mod 16 = v div 16"
    using div_mult_mod_eq [of "v div 16" 16] by (simp add: div_mult2_eq [symmetric])
  ultimately have whole: "((v div 4096 * 16 + v div 256 mod 16) * 16 + v div 16 mod 16) * 16 + v mod 16 = v"
    using div_mult_mod_eq [of v 16] by presburger
  have four: "(4 :: nat) = Suc (Suc (Suc (Suc 0)))" by simp
  show ?thesis unfolding hex4_def hex4_text_def four using whole top
    by (simp add: to_digit_hex_char del: div_mult_mod_eq)
qed

subsection \<open>Strings\<close>

lemma simple_escape_u: "simple_escape (CHR ''u'') = None"
  by (simp add: simple_escape_def)

lemma char_text_head:
  assumes "rust_char c"
  obtains b bs where "json_char_text c = b # bs" and "\<not> continuation_byte b"
proof (cases "c < 0x20 \<or> c = 0x22 \<or> c = 0x5C")
  case True
  then have "\<exists>bs. json_char_text c = CHR 0x5C # bs" by (auto simp: json_char_text_def)
  moreover have "\<not> continuation_byte (CHR 0x5C)" by (simp add: continuation_byte_def)
  ultimately show thesis using that by blast
next
  case False
  then have "json_char_text c = encode_char c" by (auto simp: json_char_text_def)
  then show thesis using encode_char_lead [OF rust_char_scalar [OF assms]] that by metis
qed

lemma string_loop_escape:
  assumes "c < 0x10000"
  shows "json_string_loop n (CHR 0x5C # CHR ''u'' # hex4_text c @ rest) out
       = (case unicode_escape n (hex4_text c @ rest) of
            Inl err \<Rightarrow> Inl err | Inr (c, r) \<Rightarrow> json_string_loop n r (out @ [c]))"
  by (subst json_string_loop.simps(2)) (simp add: simple_escape_u)

lemma control_escape:
  assumes "c < 0x20"
  shows "[CHR ''0'', CHR ''0'', hex_char (c div 16), hex_char (c mod 16)] = hex4_text c"
proof -
  have "hex_char 0 = CHR ''0''" by code_simp
  then show ?thesis using assms by (simp add: hex4_text_def)
qed

lemma unicode_escape_plain:
  assumes "rust_char c" and "c < 0x10000"
  shows "unicode_escape n (hex4_text c @ rest) = Inr (c, rest)"
  using assms by (auto simp: unicode_escape_def hex4_read char_or_replacement_def rust_char_def)

lemma string_loop_char:
  assumes "rust_char c" and "rest \<noteq> []" and "\<not> continuation_byte (hd rest)"
  shows "json_string_loop n (json_char_text c @ rest) out = json_string_loop n rest (out @ [c])"
proof -
  have short: "\<exists>e. simple_escape e = Some c \<and> json_char_text c = [CHR 0x5C, e]"
    if "c \<in> {0x22, 0x5C, 0x0A, 0x0D, 0x09, 0x08, 0x0C}"
    using that by (elim insertE emptyE) (simp_all add: json_char_text_def simple_escape_def)
  consider e where "simple_escape e = Some c" "json_char_text c = [CHR 0x5C, e]"
    | "c < 0x20" "json_char_text c = CHR 0x5C # CHR ''u'' # hex4_text c"
    | "0x20 \<le> c" "c \<noteq> 0x22" "c \<noteq> 0x5C" "json_char_text c = encode_char c"
  proof (cases "c \<in> {0x22, 0x5C, 0x0A, 0x0D, 0x09, 0x08, 0x0C}")
    case True
    then show thesis using short that(1) by blast
  next
    case False
    then show thesis using that(2,3) control_escape [of c]
      by (cases "c < 0x20") (auto simp: json_char_text_def)
  qed
  then show ?thesis
  proof cases
    case 1
    then show ?thesis by (simp, subst json_string_loop.simps(2)) simp
  next
    case 2
    have "json_string_loop n (CHR 0x5C # CHR ''u'' # hex4_text c @ rest) out = json_string_loop n rest (out @ [c])"
      using 2(1) assms(1) by (simp add: string_loop_escape unicode_escape_plain)
    then show ?thesis using 2(2) by simp
  next
    case 3
    obtain b bs where b: "encode_char c = b # bs" "list_all continuation_byte bs"
      "if c < 0x80 then byte b = c else 0x80 \<le> byte b"
      using encode_char_lead [OF rust_char_scalar [OF assms(1)]] by metis
    have plain: "b \<noteq> CHR 0x22" "b \<noteq> CHR 0x5C" using b(3) 3(2,3) by (auto split: if_splits)
    have conts: "takeWhile continuation_byte (bs @ rest) = bs"
      using b(2) assms(2,3) by (cases rest) (auto simp: list_all_iff takeWhile_append2)
    have "valid_up_to (b # bs) = ([c], [])"
      using valid_up_to_encode [of "[c]" "[]"] assms(1) b(1) by (simp add: encode_utf8_def)
    then have "json_string_loop n (b # bs @ rest) out = json_string_loop n rest (out @ [c])"
      using plain by (subst json_string_loop.simps(2)) (simp add: conts)
    then show ?thesis using 3(4) b(1) by simp
  qed
qed

lemma chars_text_head:
  "list_all rust_char s \<Longrightarrow> \<not> continuation_byte (hd (concat (map json_char_text s) @ CHR 0x22 # rest))"
proof (cases s)
  case Nil
  then show ?thesis by (simp add: continuation_byte_def)
next
  case (Cons c s')
  assume "list_all rust_char s"
  then have "rust_char c" using Cons by simp
  then obtain b bs where "json_char_text c = b # bs" "\<not> continuation_byte b" using char_text_head by metis
  then show ?thesis using Cons by simp
qed

lemma string_loop_text:
  "list_all rust_char s \<Longrightarrow> json_string_loop n (concat (map json_char_text s) @ CHR 0x22 # rest) out = Inr (out @ s, rest)"
proof (induction s arbitrary: out)
  case Nil
  then show ?case by (simp add: json_string_loop.simps(2))
next
  case (Cons c s)
  have "json_string_loop n (json_char_text c @ (concat (map json_char_text s) @ CHR 0x22 # rest)) out
      = json_string_loop n (concat (map json_char_text s) @ CHR 0x22 # rest) (out @ [c])"
    using Cons.prems chars_text_head [of s rest] by (intro string_loop_char) simp_all
  then show ?case using Cons by simp
qed

lemma json_string_text: "list_all rust_char s \<Longrightarrow> json_string n (write_json_string s @ rest) = Inr (s, rest)"
  using string_loop_text [of s n rest "[]"] by (simp add: json_string_def write_json_string_def)

subsection \<open>Round trip\<close>

text \<open>
  The values the adapter emits: integers of the type, strings of characters, and floats (if any) whose text
  is a number that is no integer and reads back.
\<close>

definition float_reads_back :: "'f float_ops \<Rightarrow> 'f \<Rightarrow> bool" where
  "float_reads_back F f \<longleftrightarrow>
     is_finite F f \<and> show_f64 F f \<noteq> [] \<and> list_all number_byte (show_f64 F f)
     \<and> (hd (show_f64 F f) = CHR ''-'' \<or> is_ascii_digit (hd (show_f64 F f)))
     \<and> parse_i64_str (show_f64 F f) = None \<and> parse_f64 F (show_f64 F f) = Some f"

fun json_ok :: "'f float_ops \<Rightarrow> 'f json \<Rightarrow> bool" where
  "json_ok F (JInt v) \<longleftrightarrow> in_i64 v"
| "json_ok F (JFloat f) \<longleftrightarrow> float_reads_back F f"
| "json_ok F (JStr s) \<longleftrightarrow> list_all rust_char s"
| "json_ok F (JArray items) \<longleftrightarrow> list_all (json_ok F) items"
| "json_ok F (JObject pairs) \<longleftrightarrow> list_all (\<lambda>(k, v). list_all rust_char k \<and> json_ok F v) pairs"
| "json_ok F _ \<longleftrightarrow> True"

definition ends_number :: "bytes \<Rightarrow> bool" where
  "ends_number rest \<longleftrightarrow> rest = [] \<or> \<not> number_byte (hd rest)"

lemma takeWhile_number:
  "list_all number_byte num \<Longrightarrow> ends_number rest \<Longrightarrow>
   takeWhile number_byte (num @ rest) = num \<and> dropWhile number_byte (num @ rest) = rest"
  by (induction num) (cases rest; auto simp: ends_number_def)+

lemma json_number_text:
  assumes "list_all number_byte num" and "num \<noteq> []" and "ends_number rest"
    and "case parse_i64_str num of Some w \<Rightarrow> v = JInt w
         | None \<Rightarrow> (case parse_f64 F num of Some f \<Rightarrow> v = JFloat f | None \<Rightarrow> False)"
  shows "json_number F (num @ rest) = Inr (v, rest)"
proof -
  obtain b bs where num: "num = b # bs" using assms(2) by (cases num) auto
  show ?thesis
    using assms(4) takeWhile_number [OF assms(1,3)] takeWhile_number [of bs rest] assms(1,3)
    by (auto simp: json_number_def Let_def num split: option.splits if_splits)
qed

lemma digit_number_byte: "list_all is_ascii_digit s \<Longrightarrow> list_all number_byte s"
  by (auto simp: list_all_iff number_byte_def)

lemma int_text_number:
  "list_all number_byte (int_to_string v)" "int_to_string v \<noteq> []"
  "hd (int_to_string v) = CHR ''-'' \<or> is_ascii_digit (hd (int_to_string v))"
  using digit_number_byte [OF list_all_nat_digits] hd_nat_digits
  by (auto simp: int_to_string_def number_byte_def)

lemma number_value:
  assumes "num \<noteq> []" and "hd num = CHR ''-'' \<or> is_ascii_digit (hd num)"
    and "json_number F (num @ rest) = Inr (v, rest)"
  shows "json_value (Suc fuel) F n (num @ rest) = Some (Inr (v, rest))"
proof -
  obtain b bs where num: "num = b # bs" using assms(1) by (cases num) auto
  then have "b = CHR ''-'' \<or> is_ascii_digit b" using assms(2) by simp
  then have "b \<noteq> CHR ''{''" "b \<noteq> CHR ''[''" "b \<noteq> CHR 0x22" "b \<noteq> CHR ''t''" "b \<noteq> CHR ''f''" "b \<noteq> CHR ''n''"
    by (auto simp: is_ascii_digit_def)
  moreover have "json_scalar F n b (num @ rest) = Inr (v, rest)"
    unfolding json_scalar_def using calculation \<open>b = CHR ''-'' \<or> is_ascii_digit b\<close> assms(3) by simp
  ultimately show ?thesis by (simp add: num)
qed

text \<open>No value starts with a blank, a comma or a closing bracket.\<close>

definition value_start :: "char \<Rightarrow> bool" where
  "value_start b \<longleftrightarrow> \<not> json_ws b \<and> b \<noteq> CHR '']'' \<and> b \<noteq> CHR ''}'' \<and> b \<noteq> CHR '',''"

lemma number_start: "b = CHR ''-'' \<or> is_ascii_digit b \<Longrightarrow> value_start b"
  by (auto simp: value_start_def json_ws_def is_ascii_digit_def)

lemma json_text_start: "json_ok F v \<Longrightarrow> json_text F v \<noteq> [] \<and> value_start (hd (json_text F v))"
proof (cases v)
  case (JInt w)
  then show ?thesis using int_text_number [of w] number_start by auto
next
  case (JFloat f)
  then show "json_ok F v \<Longrightarrow> ?thesis" using number_start by (auto simp: float_reads_back_def)
qed (auto simp: value_start_def json_ws_def write_json_string_def)

lemma skip_ws_start: "bs \<noteq> [] \<Longrightarrow> \<not> json_ws (hd bs) \<Longrightarrow> json_skip_ws bs = bs"
  by (cases bs) (auto simp: json_skip_ws_def)

lemma skip_ws_cons [simp]: "\<not> json_ws b \<Longrightarrow> json_skip_ws (b # bs) = b # bs"
  by (simp add: json_skip_ws_def)

lemma skip_ws_nil [simp]: "json_skip_ws [] = []"
  by (simp add: json_skip_ws_def)

lemma punctuation_not_ws [simp]:
  "\<not> json_ws (CHR '','')" "\<not> json_ws (CHR '']'')" "\<not> json_ws (CHR ''}'')" "\<not> json_ws (CHR '':'')" "\<not> json_ws (CHR 0x22)"
  by (simp_all add: json_ws_def)

lemma ends_number_punctuation [simp]:
  "ends_number (CHR '','' # r)" "ends_number (CHR '']'' # r)" "ends_number (CHR ''}'' # r)" "ends_number []"
  by (simp_all add: ends_number_def number_byte_def is_ascii_digit_def)

definition reads_back :: "'f float_ops \<Rightarrow> 'f json \<Rightarrow> bool" where
  "reads_back F v \<longleftrightarrow>
     (\<forall>fuel n rest. 2 * length (json_text F v) \<le> fuel \<longrightarrow> ends_number rest \<longrightarrow>
        json_value fuel F n (json_text F v @ rest) = Some (Inr (v, rest)))"

lemma array_loop_text:
  assumes "list_all (json_ok F) items" and "items \<noteq> []" and "\<forall>v \<in> set items. reads_back F v"
    and "2 * length (comma_joined (map (json_text F) items)) < fuel"
  shows "json_array_loop fuel F n (comma_joined (map (json_text F) items) @ CHR '']'' # rest) acc
       = Some (Inr (JArray (acc @ items), rest))"
  using assms
proof (induction items arbitrary: fuel acc)
  case (Cons v items)
  obtain fuel' where fuel: "fuel = Suc fuel'" using Cons.prems(4) by (cases fuel) auto
  have ok: "json_ok F v" and rb: "reads_back F v" using Cons.prems by simp_all
  let ?tail = "(if items = [] then CHR '']'' # rest
                else CHR '','' # comma_joined (map (json_text F) items) @ CHR '']'' # rest)"
  have num: "comma_joined (map (json_text F) (v # items)) @ CHR '']'' # rest = json_text F v @ ?tail"
    by (cases items) auto
  have len: "length (comma_joined (map (json_text F) (v # items)))
      = length (json_text F v) + (if items = [] then 0 else 1 + length (comma_joined (map (json_text F) items)))"
    by (cases items) auto
  have skip: "json_skip_ws (json_text F v @ ?tail) = json_text F v @ ?tail"
    using json_text_start [OF ok] by (intro skip_ws_start) (auto simp: value_start_def)
  have enough: "2 * length (json_text F v) \<le> fuel'" using Cons.prems(4) unfolding len fuel by (simp split: if_splits)
  have "json_value fuel' F n (json_text F v @ ?tail) = Some (Inr (v, ?tail))"
    using rb enough unfolding reads_back_def by simp
  then have step: "json_array_loop fuel F n (comma_joined (map (json_text F) (v # items)) @ CHR '']'' # rest) acc
      = (if items = [] then Some (Inr (JArray (acc @ [v]), rest))
         else json_array_loop fuel' F n (comma_joined (map (json_text F) items) @ CHR '']'' # rest) (acc @ [v]))"
    unfolding num fuel by (simp add: skip)
  show ?case
  proof (cases "items = []")
    case False
    then have "2 * length (comma_joined (map (json_text F) items)) < fuel'"
      using Cons.prems(4) unfolding len fuel by simp
    then show ?thesis using Cons.IH [of fuel' "acc @ [v]"] Cons.prems False unfolding step by simp
  next
    case True
    then show ?thesis unfolding step by simp
  qed
qed simp

lemma object_loop_text:
  fixes pairs :: "(code_point list \<times> 'f json) list"
  defines "pair_text \<equiv> \<lambda>F :: 'f float_ops. \<lambda>(k, v). write_json_string k @ CHR '':'' # json_text F v"
  assumes "list_all (\<lambda>(k, v). list_all rust_char k \<and> json_ok F v) pairs" and "pairs \<noteq> []"
    and "\<forall>(k, v) \<in> set pairs. reads_back F v"
    and "2 * length (comma_joined (map (pair_text F) pairs)) < fuel"
  shows "json_object_loop fuel F n (comma_joined (map (pair_text F) pairs) @ CHR ''}'' # rest) acc
       = Some (Inr (JObject (acc @ pairs), rest))"
  using assms(2-)
proof (induction pairs arbitrary: fuel acc)
  case (Cons kv pairs)
  obtain k v where kv: "kv = (k, v)" by force
  obtain fuel' where fuel: "fuel = Suc fuel'" using Cons.prems(4) by (cases fuel) auto
  have ok: "json_ok F v" "list_all rust_char k" and rb: "reads_back F v" using Cons.prems by (auto simp: kv)
  let ?tail = "(if pairs = [] then CHR ''}'' # rest
                else CHR '','' # comma_joined (map (pair_text F) pairs) @ CHR ''}'' # rest)"
  have num: "comma_joined (map (pair_text F) (kv # pairs)) @ CHR ''}'' # rest
      = write_json_string k @ CHR '':'' # json_text F v @ ?tail"
    by (cases pairs) (auto simp: kv pair_text_def)
  have len: "length (comma_joined (map (pair_text F) (kv # pairs)))
      = length (write_json_string k) + 1 + length (json_text F v)
        + (if pairs = [] then 0 else 1 + length (comma_joined (map (pair_text F) pairs)))"
    by (cases pairs) (auto simp: kv pair_text_def)
  obtain ks where ks: "write_json_string k = CHR 0x22 # ks" by (simp add: write_json_string_def)
  have skip: "json_skip_ws (json_text F v @ ?tail) = json_text F v @ ?tail"
    using json_text_start [OF ok(1)] by (intro skip_ws_start) (auto simp: value_start_def)
  have enough: "2 * length (json_text F v) \<le> fuel'" using Cons.prems(4) unfolding len fuel by (simp split: if_splits)
  have val: "json_value fuel' F n (json_text F v @ ?tail) = Some (Inr (v, ?tail))"
    using rb enough unfolding reads_back_def by simp
  have key: "json_string n (CHR 0x22 # ks @ r) = Inr (k, r)" for r
    using json_string_text [OF ok(2), of n r] by (simp add: ks)
  have step: "json_object_loop fuel F n (comma_joined (map (pair_text F) (kv # pairs)) @ CHR ''}'' # rest) acc
      = (if pairs = [] then Some (Inr (JObject (acc @ [kv]), rest))
         else json_object_loop fuel' F n (comma_joined (map (pair_text F) pairs) @ CHR ''}'' # rest) (acc @ [kv]))"
    unfolding num fuel ks using val by (simp add: skip key kv)
  show ?case
  proof (cases "pairs = []")
    case False
    then have "2 * length (comma_joined (map (pair_text F) pairs)) < fuel'"
      using Cons.prems(4) unfolding len fuel by simp
    then show ?thesis using Cons.IH [of fuel' "acc @ [kv]"] Cons.prems False unfolding step by simp
  next
    case True
    then show ?thesis unfolding step by simp
  qed
qed simp

lemma keyword_value:
  "json_value (Suc fuel) F n (''null'' @ rest) = Some (Inr (Null, rest))"
  "json_value (Suc fuel) F n (''true'' @ rest) = Some (Inr (JBool True, rest))"
  "json_value (Suc fuel) F n (''false'' @ rest) = Some (Inr (JBool False, rest))"
  by (simp_all add: json_scalar_def json_keyword_def)

lemma json_reads_back: "json_ok F v \<Longrightarrow> reads_back F v"
proof (induction v)
  case (JInt w)
  have "json_number F (int_to_string w @ rest) = Inr (JInt w, rest)" if "ends_number rest" for rest
    using JInt that parse_int_to_string [of w] by (intro json_number_text int_text_number) simp_all
  then show ?case unfolding reads_back_def
  proof (intro allI impI)
    fix fuel n rest
    assume "2 * length (json_text F (JInt w)) \<le> fuel" "ends_number rest"
    then show "json_value fuel F n (json_text F (JInt w) @ rest) = Some (Inr (JInt w, rest))"
      using int_text_number(2,3) [of w] number_value [of "int_to_string w" F rest "JInt w"]
        \<open>\<And>rest. ends_number rest \<Longrightarrow> json_number F (int_to_string w @ rest) = Inr (JInt w, rest)\<close>
      by (cases fuel) simp_all
  qed
next
  case (JFloat f)
  then have fl: "float_reads_back F f" by simp
  show ?case unfolding reads_back_def
  proof (intro allI impI)
    fix fuel n rest
    assume "2 * length (json_text F (JFloat f)) \<le> fuel" "ends_number rest"
    then show "json_value fuel F n (json_text F (JFloat f) @ rest) = Some (Inr (JFloat f, rest))"
      using fl number_value [of "show_f64 F f" F rest "JFloat f"] json_number_text [of "show_f64 F f" rest "JFloat f" F]
      by (cases fuel) (simp_all add: float_reads_back_def)
  qed
next
  case (JArray items)
  then have ok: "list_all (json_ok F) items" and rb: "\<forall>v \<in> set items. reads_back F v" by (auto simp: list_all_iff)
  show ?case unfolding reads_back_def
  proof (intro allI impI)
    fix fuel n rest
    assume fuel: "2 * length (json_text F (JArray items)) \<le> fuel"
    then obtain fuel' where f': "fuel = Suc fuel'" by (cases fuel) auto
    show "json_value fuel F n (json_text F (JArray items) @ rest) = Some (Inr (JArray items, rest))"
    proof (cases items)
      case (Cons v vs)
      let ?joined = "comma_joined (map (json_text F) items)"
      have "json_ok F v" using ok Cons by simp
      then obtain b bs where b: "?joined @ CHR '']'' # rest = b # bs" "value_start b"
        using json_text_start [of F v] Cons by (cases "json_text F v"; cases vs) auto
      have "json_array_loop fuel' F n (?joined @ CHR '']'' # rest) [] = Some (Inr (JArray items, rest))"
        using array_loop_text [OF ok _ rb, of fuel' n rest "[]"] fuel Cons by (simp add: f')
      then show ?thesis unfolding f' using b by (simp add: value_start_def)
    qed (simp add: f')
  qed
next
  case (JObject pairs)
  then have ok: "list_all (\<lambda>(k, v). list_all rust_char k \<and> json_ok F v) pairs"
    and rb: "\<forall>(k, v) \<in> set pairs. reads_back F v" by (fastforce simp: list_all_iff)+
  show ?case unfolding reads_back_def
  proof (intro allI impI)
    fix fuel n rest
    assume fuel: "2 * length (json_text F (JObject pairs)) \<le> fuel"
    then obtain fuel' where f': "fuel = Suc fuel'" by (cases fuel) auto
    show "json_value fuel F n (json_text F (JObject pairs) @ rest) = Some (Inr (JObject pairs, rest))"
    proof (cases pairs)
      case (Cons kv kvs)
      let ?joined = "comma_joined (map (\<lambda>(k, v). write_json_string k @ CHR '':'' # json_text F v) pairs)"
      obtain bs where b: "?joined @ CHR ''}'' # rest = CHR 0x22 # bs"
        using Cons by (cases kv; cases kvs) (auto simp: write_json_string_def)
      have "json_object_loop fuel' F n (?joined @ CHR ''}'' # rest) [] = Some (Inr (JObject pairs, rest))"
        using object_loop_text [OF ok _ rb, of fuel' n rest "[]"] fuel Cons by (simp add: f')
      then show ?thesis unfolding f' using b by simp
    qed (simp add: f')
  qed
next
  case (JStr s)
  show ?case unfolding reads_back_def
  proof (intro allI impI)
    fix fuel n rest
    assume "2 * length (json_text F (JStr s)) \<le> fuel"
    then obtain fuel' where "fuel = Suc fuel'" by (cases fuel) (auto simp: write_json_string_def)
    moreover obtain ss where ss: "write_json_string s = CHR 0x22 # ss" by (simp add: write_json_string_def)
    moreover have "json_string n (CHR 0x22 # ss @ rest) = Inr (s, rest)"
      using json_string_text [of s n rest] JStr by (simp add: ss)
    ultimately show "json_value fuel F n (json_text F (JStr s) @ rest) = Some (Inr (JStr s, rest))"
      by (simp add: json_scalar_def)
  qed
next
  case (JBool b)
  show ?case unfolding reads_back_def
  proof (intro allI impI)
    fix fuel n rest
    assume "2 * length (json_text F (JBool b)) \<le> fuel"
    then obtain fuel' where "fuel = Suc fuel'" by (cases fuel) (auto split: if_splits)
    then show "json_value fuel F n (json_text F (JBool b) @ rest) = Some (Inr (JBool b, rest))"
      using keyword_value(2,3) [of fuel' F n rest] by (cases b) simp_all
  qed
next
  case Null
  show ?case unfolding reads_back_def
  proof (intro allI impI)
    fix fuel n rest
    assume "2 * length (json_text F Null) \<le> fuel"
    then obtain fuel' where "fuel = Suc fuel'" by (cases fuel) auto
    then show "json_value fuel F n (json_text F Null @ rest) = Some (Inr (Null, rest))"
      using keyword_value(1) [of fuel' F n rest] by simp
  qed
qed

text \<open>
  C8. What the adapter writes it reads back: the text of a value parses to the value, whatever its nesting
  and whatever characters its strings hold.
\<close>

theorem json_roundtrip:
  assumes "json_ok F v"
  shows "parse_json F (json_text F v) = Some (Inr v)"
proof -
  have "json_skip_ws (json_text F v) = json_text F v"
    using json_text_start [OF assms] by (intro skip_ws_start) (auto simp: value_start_def)
  moreover have "json_value (2 * length (json_text F v) + 2) F (length (json_text F v)) (json_text F v @ []) = Some (Inr (v, []))"
    using json_reads_back [OF assms, unfolded reads_back_def] by (metis le_add1 ends_number_punctuation(4))
  ultimately show ?thesis by (simp add: parse_json_def Let_def del: json_value.simps)
qed

text \<open>Floats whose value is their own text, to evaluate the model.\<close>

definition text_floats :: "bytes float_ops" where
  "text_floats =
     \<lparr>parse_f64 = (\<lambda>t. if CHR ''.'' \<in> set t then Some t else None), show_f64 = (\<lambda>t. t), is_finite = (\<lambda>_. True),
      whole_i64 = (\<lambda>_. None)\<rparr>"

lemma json_roundtrip_witness:
  "parse_json text_floats (json_text text_floats
      (JObject [(map byte ''seq'', JInt (- 3)), (map byte ''list'', JArray [JFloat ''2.5'', JStr [0x22, 0x0A, 0xE9], Null, JBool True])]))
   = Some (Inr (JObject [(map byte ''seq'', JInt (- 3)),
                         (map byte ''list'', JArray [JFloat ''2.5'', JStr [0x22, 0x0A, 0xE9], Null, JBool True])]))"
  by (rule json_roundtrip) code_simp

subsection \<open>The parser returns\<close>

lemma json_skip_ws_length: "length (json_skip_ws bs) \<le> length bs"
  by (simp add: json_skip_ws_def length_dropWhile_le)

lemma json_string_loop_length: "json_string_loop n rest out = Inr (s, r) \<Longrightarrow> length r < length rest"
proof (induction n rest out rule: json_string_loop.induct)
  case (2 n b rest out)
  note step = 2(4) [unfolded json_string_loop.simps(2) [of n b rest out]]
  consider "b = CHR 0x22" | "b \<noteq> CHR 0x22" "b = CHR 0x5C" | "b \<noteq> CHR 0x22" "b \<noteq> CHR 0x5C" by blast
  then show ?case
  proof cases
    case 1
    then show ?thesis using step by simp
  next
    case 2
    then obtain e r' where rest: "rest = e # r'" using step by (cases rest) auto
    show ?thesis
    proof (cases "simple_escape e")
      case None
      then have u: "e = CHR ''u''" using step 2 rest by (auto split: if_splits)
      then obtain c r'' where esc: "unicode_escape n r' = Inr (c, r'')"
        using step 2 rest None by (auto split: sum.splits)
      have "length r < length r''" using "2.IH"(1) [OF 2 rest None u esc refl] step 2 rest None u esc by simp
      then show ?thesis using unicode_escape_length [OF esc] rest by simp
    next
      case (Some c)
      then show ?thesis using "2.IH"(2) [OF 2 rest Some] step 2 rest by simp
    qed
  next
    case 3
    obtain cs where cs: "valid_up_to (b # takeWhile continuation_byte rest) = (cs, [])"
      and loop: "json_string_loop n (drop (length (takeWhile continuation_byte rest)) rest) (out @ cs) = Inr (s, r)"
      using step 3 by (auto simp: Let_def split: prod.splits list.splits)
    have "length r < length (drop (length (takeWhile continuation_byte rest)) rest)"
      using "2.IH"(3) [OF 3 refl cs [symmetric] refl loop] .
    then show ?thesis by simp
  qed
qed (simp add: json_string_loop.simps)

lemma json_string_length: "rest \<noteq> [] \<Longrightarrow> json_string n rest = Inr (s, r) \<Longrightarrow> length r < length rest"
  by (cases rest) (auto simp: json_string_def dest!: json_string_loop_length)

lemma json_number_length:
  "rest \<noteq> [] \<Longrightarrow> hd rest = CHR ''-'' \<or> is_ascii_digit (hd rest) \<Longrightarrow> json_number F rest = Inr (v, r) \<Longrightarrow> length r < length rest"
  using length_dropWhile_le [of number_byte "tl rest"]
  by (cases rest) (auto simp: json_number_def Let_def number_byte_def split: option.splits if_splits)

lemma json_keyword_length: "word \<noteq> [] \<Longrightarrow> json_keyword n word v rest = Inr (w, r) \<Longrightarrow> length r < length rest"
  by (cases rest) (auto simp: json_keyword_def split: if_splits)

text \<open>Every value takes at least one byte, so the loops come closer to the end of the input.\<close>

lemma json_scalar_length: "json_scalar F n b (b # bs) = Inr (v, r) \<Longrightarrow> length r < Suc (length bs)"
  using json_string_length [of "b # bs" n] json_number_length [of "b # bs" F v r]
  by (auto simp: json_scalar_def split: if_splits sum.splits dest!: json_keyword_length [rotated])

lemma json_value_step:
  fixes F :: "'f float_ops"
  assumes obj: "\<And>bs v r. json_object_loop fuel F n bs [] = Some (Inr (v, r)) \<Longrightarrow> length r < length bs"
    and arr: "\<And>bs v r. json_array_loop fuel F n bs [] = Some (Inr (v, r)) \<Longrightarrow> length r < length bs"
    and res: "json_value (Suc fuel) F n rest = Some (Inr (v, r))"
  shows "length r < length rest"
proof -
  obtain b bs where rest: "rest = b # bs" using res by (cases rest) auto
  have skip: "length (json_skip_ws bs) \<le> length bs" by (rule json_skip_ws_length)
  consider "r = tl (json_skip_ws bs)" | "length r < length (json_skip_ws bs)" | "json_scalar F n b rest = Inr (v, r)"
    using res obj [of "json_skip_ws bs"] arr [of "json_skip_ws bs"] by (auto simp: rest split: if_splits)
  then show ?thesis
  proof cases
    case 3
    then show ?thesis using json_scalar_length [of F n b bs] by (simp add: rest)
  qed (use skip rest in auto)
qed

lemma json_object_step:
  fixes F :: "'f float_ops"
  assumes val: "\<And>bs v r. json_value fuel F n bs = Some (Inr (v, r)) \<Longrightarrow> length r < length bs"
    and obj: "\<And>bs pairs v r. json_object_loop fuel F n bs pairs = Some (Inr (v, r)) \<Longrightarrow> length r < length bs"
    and res: "json_object_loop (Suc fuel) F n rest pairs = Some (Inr (v, r))"
  shows "length r < length rest"
proof -
  let ?r0 = "json_skip_ws rest"
  obtain key r1 w r3 c r5 where quote: "?r0 \<noteq> []" and key: "json_string n ?r0 = Inr (key, r1)"
    and w: "json_value fuel F n (json_skip_ws (tl (json_skip_ws r1))) = Some (Inr (w, r3))"
    and r4: "json_skip_ws r3 = c # r5" and last: "length r \<le> length r5"
    using res by (force simp: parse_then_result json_peek_Some Let_def split: if_splits dest: obj)
  have "length r5 < length r3" using json_skip_ws_length [of r3] r4 by simp
  moreover have "length r3 < length (json_skip_ws (tl (json_skip_ws r1)))" using val [OF w] .
  moreover have "length (json_skip_ws (tl (json_skip_ws r1))) \<le> length r1"
    using json_skip_ws_length [of "tl (json_skip_ws r1)"] json_skip_ws_length [of r1] by simp
  moreover have "length r1 < length rest"
    using json_string_length [OF quote key] json_skip_ws_length [of rest] by simp
  ultimately show ?thesis using last by linarith
qed

lemma json_array_step:
  fixes F :: "'f float_ops"
  assumes val: "\<And>bs v r. json_value fuel F n bs = Some (Inr (v, r)) \<Longrightarrow> length r < length bs"
    and arr: "\<And>bs items v r. json_array_loop fuel F n bs items = Some (Inr (v, r)) \<Longrightarrow> length r < length bs"
    and res: "json_array_loop (Suc fuel) F n rest items = Some (Inr (v, r))"
  shows "length r < length rest"
proof -
  obtain w r3 c r5 where w: "json_value fuel F n (json_skip_ws rest) = Some (Inr (w, r3))"
    and r4: "json_skip_ws r3 = c # r5" and last: "length r \<le> length r5"
    using res by (force simp: parse_then_result json_peek_Some Let_def split: if_splits dest: arr)
  have "length r5 < length r3" using json_skip_ws_length [of r3] r4 by simp
  moreover have "length r3 < length (json_skip_ws rest)" using val [OF w] .
  ultimately show ?thesis using json_skip_ws_length [of rest] last by linarith
qed

lemma json_progress:
  "(json_value fuel F n bs = Some (Inr (v, r)) \<longrightarrow> length r < length bs)
   \<and> (json_object_loop fuel F n bs pairs = Some (Inr (v, r)) \<longrightarrow> length r < length bs)
   \<and> (json_array_loop fuel F n bs items = Some (Inr (v, r)) \<longrightarrow> length r < length bs)"
proof (induction fuel arbitrary: bs v r pairs items)
  case (Suc fuel)
  have val: "json_value fuel F n cs = Some (Inr (w, t)) \<Longrightarrow> length t < length cs"
    and obj: "json_object_loop fuel F n cs ps = Some (Inr (w, t)) \<Longrightarrow> length t < length cs"
    and arr: "json_array_loop fuel F n cs vs = Some (Inr (w, t)) \<Longrightarrow> length t < length cs" for cs ps vs w t
    using Suc by blast+
  have "json_value (Suc fuel) F n bs = Some (Inr (v, r)) \<Longrightarrow> length r < length bs"
    by (rule json_value_step) (erule obj, erule arr)
  moreover have "json_object_loop (Suc fuel) F n bs pairs = Some (Inr (v, r)) \<Longrightarrow> length r < length bs"
    by (rule json_object_step) (erule val, erule obj)
  moreover have "json_array_loop (Suc fuel) F n bs items = Some (Inr (v, r)) \<Longrightarrow> length r < length bs"
    by (rule json_array_step) (erule val, erule arr)
  ultimately show ?case by blast
qed simp

lemmas json_value_progress = json_progress [THEN conjunct1, rule_format]

lemma if_not_None: "(b \<Longrightarrow> x \<noteq> None) \<Longrightarrow> (\<not> b \<Longrightarrow> y \<noteq> None) \<Longrightarrow> (if b then x else y) \<noteq> None"
  by simp

lemma json_object_returns:
  fixes F :: "'f float_ops"
  assumes val: "\<And>cs. length cs + 2 \<le> length bs \<Longrightarrow> json_value fuel F n cs \<noteq> None"
    and obj: "\<And>cs ps. length cs + 2 \<le> length bs \<Longrightarrow> json_object_loop fuel F n cs ps \<noteq> None"
  shows "json_object_loop (Suc fuel) F n bs pairs \<noteq> None"
proof (cases "json_peek (json_skip_ws bs) = Some (CHR 0x22)")
  case True
  have colon: "length (json_skip_ws (tl (json_skip_ws r1))) + 2 \<le> length bs"
    if key: "json_string n (json_skip_ws bs) = Inr (key, r1)" and peek: "json_peek (json_skip_ws r1) = Some c" for key r1 c
  proof -
    have "length r1 < length bs"
      using json_string_length [OF _ key] True json_skip_ws_length [of bs] by (force simp: json_peek_Some)
    then show ?thesis
      using peek json_skip_ws_length [of "tl (json_skip_ws r1)"] json_skip_ws_length [of r1] by (auto simp: json_peek_Some)
  qed
  have comma: "length (tl (json_skip_ws r3)) + 2 \<le> length bs"
    if "json_value fuel F n cs = Some (Inr (v, r3))" "length cs + 2 \<le> length bs" for cs v r3
    using json_value_progress [OF that(1)] that(2) json_skip_ws_length [of r3] by simp
  show ?thesis using True unfolding json_object_loop.simps(2) Let_def
    by (intro parse_then_returns if_not_None val obj) (auto intro: colon comma [OF _ colon] simp del: add_2_eq_Suc' length_tl)
qed (simp add: Let_def)

lemma json_array_returns:
  fixes F :: "'f float_ops"
  assumes val: "\<And>cs. length cs \<le> length bs \<Longrightarrow> json_value fuel F n cs \<noteq> None"
    and arr: "\<And>cs vs. length cs + 2 \<le> length bs \<Longrightarrow> json_array_loop fuel F n cs vs \<noteq> None"
  shows "json_array_loop (Suc fuel) F n bs items \<noteq> None"
proof -
  have skip: "length (json_skip_ws bs) \<le> length bs" by (rule json_skip_ws_length)
  have comma: "length (tl (json_skip_ws r3)) + 2 \<le> length bs"
    if "json_value fuel F n (json_skip_ws bs) = Some (Inr (v, r3))" "json_peek (json_skip_ws r3) = Some c" for v r3 c
    using json_value_progress [OF that(1)] that(2) skip json_skip_ws_length [of r3] by (auto simp: json_peek_Some)
  show ?thesis unfolding json_array_loop.simps(2) Let_def
    by (intro parse_then_returns if_not_None val [OF skip] arr comma) (simp_all del: not_None_eq)
qed

lemma json_enough_fuel:
  "(2 * length bs + 1 \<le> fuel \<longrightarrow> json_value fuel F n bs \<noteq> None)
   \<and> (2 * length bs + 2 \<le> fuel \<longrightarrow> json_object_loop fuel F n bs pairs \<noteq> None)
   \<and> (2 * length bs + 2 \<le> fuel \<longrightarrow> json_array_loop fuel F n bs items \<noteq> None)"
proof (induction fuel arbitrary: bs pairs items)
  case (Suc fuel)
  have val: "json_value fuel F n cs \<noteq> None" if "2 * length cs < fuel" for cs
    by (rule Suc.IH [THEN conjunct1, rule_format]) (use that in simp)
  have obj: "json_object_loop fuel F n cs ps \<noteq> None" if "2 * length cs + 2 \<le> fuel" for cs ps
    using Suc.IH that by blast
  have arr: "json_array_loop fuel F n cs is \<noteq> None" if "2 * length cs + 2 \<le> fuel" for cs "is"
    using Suc.IH that by blast
  show ?case
  proof (intro conjI impI)
    assume fuel: "2 * length bs + 1 \<le> Suc fuel"
    show "json_value (Suc fuel) F n bs \<noteq> None"
    proof (cases bs)
      case (Cons b cs)
      have inner: "2 * length (json_skip_ws cs) + 2 \<le> fuel"
        using fuel json_skip_ws_length [of cs] Cons by simp
      show ?thesis using obj [OF inner, of "[]"] arr [OF inner, of "[]"]
        by (auto simp: Cons)
    qed simp
  next
    assume fuel: "2 * length bs + 2 \<le> Suc fuel"
    show "json_object_loop (Suc fuel) F n bs pairs \<noteq> None"
    proof (rule json_object_returns)
      show "json_value fuel F n cs \<noteq> None" if "length cs + 2 \<le> length bs" for cs using that fuel by (intro val) simp
      show "json_object_loop fuel F n cs ps \<noteq> None" if "length cs + 2 \<le> length bs" for cs ps
        using that fuel by (intro obj) simp
    qed
  next
    assume fuel: "2 * length bs + 2 \<le> Suc fuel"
    show "json_array_loop (Suc fuel) F n bs items \<noteq> None"
    proof (rule json_array_returns)
      show "json_value fuel F n cs \<noteq> None" if "length cs \<le> length bs" for cs using that fuel by (intro val) simp
      show "json_array_loop fuel F n cs vs \<noteq> None" if "length cs + 2 \<le> length bs" for cs vs
        using that fuel by (intro arr) simp
    qed
  qed
qed simp

text \<open>
  C39. The parser returns on every input: each value, key and bracket takes a byte, so the recursion is
  bounded by the text whether it is a document or not, and the answer is a value or a message.
\<close>

theorem json_parse_total: "\<exists>res. parse_json F doc = Some res"
proof -
  have "2 * length (json_skip_ws doc) + 1 \<le> 2 * length doc + 2" using json_skip_ws_length [of doc] by simp
  then obtain res where "json_value (2 * length doc + 2) F (length doc) (json_skip_ws doc) = Some res"
    using json_enough_fuel [of "json_skip_ws doc" "2 * length doc + 2" F "length doc"] by blast
  then show ?thesis by (cases res) (auto simp: parse_json_def Let_def simp del: json_value.simps)
qed

subsection \<open>Escaped text\<close>

text \<open>A string written with escapes only: UTF-16 units, a surrogate pair for a character above \<open>0xFFFF\<close>.\<close>

definition escape_unit :: "nat \<Rightarrow> bytes" where
  "escape_unit v = CHR 0x5C # CHR ''u'' # hex4_text v"

definition escape_char :: "code_point \<Rightarrow> bytes" where
  "escape_char c =
     (if c < 0x10000 then escape_unit c
      else escape_unit (0xD800 + (c - 0x10000) div 1024) @ escape_unit (0xDC00 + (c - 0x10000) mod 1024))"

lemma unicode_escape_pair:
  assumes "rust_char c" and "0x10000 \<le> c"
  shows "unicode_escape n (hex4_text (0xD800 + (c - 0x10000) div 1024)
           @ escape_unit (0xDC00 + (c - 0x10000) mod 1024) @ rest) = Inr (c, rest)"
proof -
  define hi lo where "hi = 0xD800 + (c - 0x10000) div 1024" and "lo = 0xDC00 + (c - 0x10000) mod 1024"
  have c: "c < 0x110000" using assms(1) by (auto simp: rust_char_def)
  have hi: "0xD800 \<le> hi" "hi < 0xDC00" using c by (simp_all add: hi_def less_mult_imp_div_less)
  have lo: "0xDC00 \<le> lo" "lo < 0xE000" by (simp_all add: lo_def)
  have "hi - 0xD800 = (c - 0x10000) div 1024" "lo - 0xDC00 = (c - 0x10000) mod 1024" by (simp_all add: hi_def lo_def)
  then have whole: "0x10000 + ((hi - 0xD800) * 1024 + (lo - 0xDC00)) = c" using assms(2) by simp
  then have summed: "9216 + ((hi - 0xD800) * 1024 + lo) = c" using lo(1) by simp
  have "hex4 n (hex4_text hi @ CHR 0x5C # CHR ''u'' # hex4_text lo @ rest) = Inr (hi, CHR 0x5C # CHR ''u'' # hex4_text lo @ rest)"
    using hi by (intro hex4_read) simp
  moreover have "hex4 n (hex4_text lo @ rest) = Inr (lo, rest)" using lo by (intro hex4_read) simp
  ultimately show ?thesis using hi lo assms(1)
    by (simp add: unicode_escape_def escape_unit_def summed char_or_replacement_def hi_def [symmetric] lo_def [symmetric])
qed

lemma string_loop_escape_char:
  assumes "rust_char c"
  shows "json_string_loop n (escape_char c @ rest) out = json_string_loop n rest (out @ [c])"
proof (cases "c < 0x10000")
  case True
  then show ?thesis using assms string_loop_escape [OF True, of n rest out]
    by (simp add: escape_char_def escape_unit_def unicode_escape_plain)
next
  case False
  then show ?thesis using unicode_escape_pair [OF assms, of n rest]
    by (simp add: escape_char_def escape_unit_def json_string_loop.simps(2) simple_escape_u)
qed

lemma string_loop_escaped:
  "list_all rust_char s \<Longrightarrow> json_string_loop n (concat (map escape_char s) @ CHR 0x22 # rest) out = Inr (out @ s, rest)"
  by (induction s arbitrary: out) (simp_all add: string_loop_escape_char json_string_loop.simps(2))

text \<open>
  C40. A string of any characters, written with \<open>u\<close> escapes alone and surrogate pairs above \<open>0xFFFF\<close>, parses
  to those characters: the decoder undoes the UTF-16 of the protocol, each pair to one character.
\<close>

theorem escaped_string_parses:
  assumes "list_all rust_char s"
  shows "parse_json F (CHR 0x22 # concat (map escape_char s) @ [CHR 0x22]) = Some (Inr (JStr s))"
proof -
  have "json_string n (CHR 0x22 # concat (map escape_char s) @ [CHR 0x22]) = Inr (s, [])" for n
    using string_loop_escaped [OF assms, of n "[]" "[]"] by (simp add: json_string_def)
  then show ?thesis by (simp add: parse_json_def Let_def json_scalar_def)
qed

lemma escaped_string_parses_witness:
  "parse_json text_floats (CHR 0x22 # concat (map escape_char [0x41, 0x1F600, 0x22, 0xFFFD]) @ [CHR 0x22])
   = Some (Inr (JStr [0x41, 0x1F600, 0x22, 0xFFFD]))"
  by (rule escaped_string_parses) code_simp

end
