(* ===== verification/Ansi.thy ===== *)
theory Ansi
  imports TextCodec
begin

section \<open>Dollar-single quotes and reusable quoting\<close>

text \<open>
  \<open>src/src/lexer/ansi.rs\<close>: the decoder of \<open>$'...'\<close>.  \<open>src/src/executor/parameter_replace.rs\<close>: the quoting of
  \<open>${v@Q}\<close>, which writes a value so that the shell reads it back.  \<open>src/src/locale.rs\<close>: the visible text of a
  value in transport form.

  The argument \<open>utf8\<close> is the decision of the locale, for the decoder the one in effect when the word is
  read.
\<close>

abbreviation (input) SQUOTE :: code_point where "SQUOTE \<equiv> 39"
abbreviation (input) DOLLAR :: code_point where "DOLLAR \<equiv> 36"

text \<open>\<open>char::to_digit\<close> and \<open>char::is_control\<close>.\<close>

definition cp_to_digit :: "nat \<Rightarrow> code_point \<Rightarrow> nat option" where
  "cp_to_digit radix c =
     (let d = (if 48 \<le> c \<and> c \<le> 57 then Some (c - 48)
               else if 97 \<le> c \<and> c \<le> 122 then Some (c - 87)
               else if 65 \<le> c \<and> c \<le> 90 then Some (c - 55)
               else None)
      in case d of Some v \<Rightarrow> if v < radix then Some v else None | None \<Rightarrow> None)"

definition cp_control :: "code_point \<Rightarrow> bool" where
  "cp_control c \<longleftrightarrow> c < 0x20 \<or> 0x7F \<le> c \<and> c < 0xA0"

subsection \<open>Bytes\<close>

definition push_ansi_c_byte :: "nat \<Rightarrow> code_point list" where
  "push_ansi_c_byte b = (if b < 0x80 \<and> \<not> is_assignment_carrier_byte b then [b] else push_raw_byte_marker b)"

text \<open>What the buffered bytes become: valid sequences as characters, a byte that is part of none as a pair.\<close>

definition flush_raw_byte_buf :: "bytes \<Rightarrow> code_point list" where
  "flush_raw_byte_buf buf = encode_lossless (\<lambda>cs. cs) buf"

definition push_or_buffer_raw_byte :: "code_point list \<times> bytes \<Rightarrow> nat \<Rightarrow> code_point list \<times> bytes" where
  "push_or_buffer_raw_byte st b =
     (case st of (out, buf) \<Rightarrow>
        if 0x80 \<le> b then (out, buf @ [char_of b])
        else (out @ flush_raw_byte_buf buf @ push_ansi_c_byte b, []))"

subsection \<open>Digits\<close>

fun read_digits :: "nat \<Rightarrow> nat \<Rightarrow> code_point list \<Rightarrow> nat list \<times> code_point list" where
  "read_digits radix k [] = ([], [])"
| "read_digits radix k (c # cs) =
     (if k = 0 then ([], c # cs)
      else case cp_to_digit radix c of
        None \<Rightarrow> ([], c # cs)
      | Some d \<Rightarrow> (let (ds, rest) = read_digits radix (k - 1) cs in (d # ds, rest)))"

lemma read_digits_0 [simp]: "read_digits radix 0 cs = ([], cs)"
  by (cases cs) simp_all

definition digits_value :: "nat \<Rightarrow> nat list \<Rightarrow> nat" where
  "digits_value radix ds = foldl (\<lambda>v d. v * radix + d) 0 ds"

text \<open>
  \<open>u32::from_str_radix\<close> on digits: the number, unless it overflows.  Large bounds are compared as integers,
  whose numerals evaluate in binary.
\<close>

definition parse_u32 :: "nat \<Rightarrow> nat list \<Rightarrow> nat option" where
  "parse_u32 radix ds = (if int (digits_value radix ds) < 0x100000000 then Some (digits_value radix ds) else None)"

definition read_ansi_c_digits :: "nat \<Rightarrow> nat \<Rightarrow> code_point list \<Rightarrow> nat option \<times> code_point list" where
  "read_ansi_c_digits radix limit cs =
     (let (ds, rest) = read_digits radix limit cs
      in (if ds = [] then None else parse_u32 radix ds, rest))"

subsection \<open>Code points\<close>

definition hex_upper :: "nat \<Rightarrow> nat \<Rightarrow> code_point list" where
  "hex_upper width v =
     map (\<lambda>i. let d = v div 16 ^ (width - 1 - i) mod 16 in if d < 10 then 48 + d else 55 + d) [0..<width]"

definition u32cconv_length :: "nat \<Rightarrow> nat" where
  "u32cconv_length v =
     (let w = int v
      in if w < 0x800 then 2 else if w < 0x10000 then 3 else if w < 0x200000 then 4 else if w < 0x4000000 then 5 else 6)"

definition u32cconv_first_mask :: "nat \<Rightarrow> nat" where
  "u32cconv_first_mask len =
     (if len = 2 then 0xC0 else if len = 3 then 0xE0 else if len = 4 then 0xF0 else if len = 5 then 0xF8 else 0xFC)"

text \<open>The bytes of the mathematical UTF-8 form; the parts do not overlap, so they are added.\<close>

definition u32cconv_bytes :: "nat \<Rightarrow> nat list" where
  "u32cconv_bytes v =
     (let len = u32cconv_length v
      in (u32cconv_first_mask len + v div 64 ^ (len - 1))
         # map (\<lambda>i. 0x80 + v div 64 ^ i mod 64) (rev [0..<len - 1]))"

definition u32cconv_utf8_text :: "nat \<Rightarrow> code_point list" where
  "u32cconv_utf8_text v =
     (if rust_char v then
        (if v \<le> 0x7F \<and> cp_control v \<and> is_assignment_carrier_byte v then push_raw_byte_marker v else [v])
      else if 0x7FFFFFFF < int v then []
      else concat (map push_raw_byte_marker (u32cconv_bytes v)))"

definition push_ansi_c_codepoint :: "bool \<Rightarrow> nat \<Rightarrow> code_point list" where
  "push_ansi_c_codepoint utf8 v =
     (if 0x80000000 \<le> int v then []
      else if 0x10FFFF < int v then BACKSLASH # of_char CHR ''U'' # hex_upper 8 v
      else if 0x7F < v \<and> \<not> utf8 then
        (if v < 0x10000 then BACKSLASH # of_char CHR ''u'' # hex_upper 4 v
         else BACKSLASH # of_char CHR ''U'' # hex_upper 8 v)
      else
        (let decoded = u32cconv_utf8_text v
         in if rust_char v \<and> decoded = [v] then concat (map push_literal_char decoded) else decoded))"

text \<open>\<open>read_ansi_c_digits_raw\<close> and \<open>push_unicode_ansi_c\<close>.\<close>

definition unicode_ansi_c :: "bool \<Rightarrow> nat \<Rightarrow> code_point list \<Rightarrow> code_point list \<Rightarrow> code_point list \<times> code_point list" where
  "unicode_ansi_c utf8 limit prefix cs =
     (let (v, rest) = read_ansi_c_digits 16 limit cs
      in (case v of Some v \<Rightarrow> push_ansi_c_codepoint utf8 v | None \<Rightarrow> prefix, rest))"

subsection \<open>Escapes\<close>

text \<open>What an escape produces: a byte that may be part of a character, or text.\<close>

datatype ansi_piece = RawByte nat | PieceText "code_point list"

definition simple_ansi_escape :: "code_point \<Rightarrow> code_point list option" where
  "simple_ansi_escape e =
     (if e = of_char CHR ''a'' then Some [0x07]
      else if e = of_char CHR ''b'' then Some [0x08]
      else if e = of_char CHR ''e'' \<or> e = of_char CHR ''E'' then Some (push_ansi_c_byte 0x1B)
      else if e = of_char CHR ''f'' then Some (push_ansi_c_byte 0x0C)
      else if e = of_char CHR ''n'' then Some [0x0A]
      else if e = of_char CHR ''r'' then Some [0x0D]
      else if e = of_char CHR ''t'' then Some [0x09]
      else if e = of_char CHR ''v'' then Some [0x0B]
      else if e = BACKSLASH \<or> e = SQUOTE \<or> e = 34 \<or> e = QUESTION then Some [e]
      else None)"

definition hex_escape :: "code_point list \<Rightarrow> ansi_piece \<times> code_point list" where
  "hex_escape cs =
     (if cs \<noteq> [] \<and> hd cs = 123 then
        (let (ds, rest) = read_digits 16 (length cs) (tl cs);
             rest = (if rest \<noteq> [] \<and> hd rest = 125 then tl rest else rest)
         in if ds = [] then (PieceText [0], rest)
            else (RawByte ((case parse_u32 16 ds of Some v \<Rightarrow> v | None \<Rightarrow> 0) mod 256), rest))
      else
        (case read_ansi_c_digits 16 2 cs of
           (Some v, rest) \<Rightarrow> (RawByte (v mod 256), rest)
         | (None, rest) \<Rightarrow> (PieceText [BACKSLASH, of_char CHR ''x''], rest)))"

definition octal_escape :: "nat \<Rightarrow> code_point list \<Rightarrow> ansi_piece \<times> code_point list" where
  "octal_escape d cs =
     (let (ds, rest) = read_digits 8 2 cs in (RawByte (digits_value 8 (d # ds) mod 256), rest))"

definition ascii_upper :: "code_point \<Rightarrow> code_point" where
  "ascii_upper c = (if 97 \<le> c \<and> c \<le> 122 then c - 32 else c)"

definition control_escape_value :: "code_point \<Rightarrow> nat" where
  "control_escape_value c = (if c = QUESTION then 0x7F else ascii_upper c mod 32)"

definition control_escape_piece :: "code_point list \<Rightarrow> ansi_piece \<times> code_point list" where
  "control_escape_piece cs =
     (case cs of
        [] \<Rightarrow> (PieceText [BACKSLASH, of_char CHR ''c''], [])
      | c # rest \<Rightarrow>
          (PieceText (push_ansi_c_byte (control_escape_value c)),
           if c = BACKSLASH \<and> rest \<noteq> [] \<and> hd rest = BACKSLASH then tl rest else rest))"

text \<open>The arms behind a backslash and \<open>e\<close>.\<close>

definition ansi_escape :: "bool \<Rightarrow> code_point \<Rightarrow> code_point list \<Rightarrow> ansi_piece \<times> code_point list" where
  "ansi_escape utf8 e cs =
     (case simple_ansi_escape e of
        Some t \<Rightarrow> (PieceText t, cs)
      | None \<Rightarrow>
          if e = of_char CHR ''x'' then hex_escape cs
          else case cp_to_digit 8 e of
            Some d \<Rightarrow> octal_escape d cs
          | None \<Rightarrow>
              if e = of_char CHR ''u'' then
                (let (t, rest) = unicode_ansi_c utf8 4 [BACKSLASH, e] cs in (PieceText t, rest))
              else if e = of_char CHR ''U'' then
                (let (t, rest) = unicode_ansi_c utf8 8 [BACKSLASH, e] cs in (PieceText t, rest))
              else if e = of_char CHR ''c'' then control_escape_piece cs
              else (PieceText [BACKSLASH, e], cs))"

lemma read_digits_length: "read_digits radix k cs = (ds, rest) \<Longrightarrow> length rest \<le> length cs"
  by (induction radix k cs arbitrary: ds rest rule: read_digits.induct)
     (fastforce split: option.splits prod.splits if_splits)+

lemma read_ansi_c_digits_length: "read_ansi_c_digits radix k cs = (v, rest) \<Longrightarrow> length rest \<le> length cs"
  by (auto simp: read_ansi_c_digits_def split: prod.splits dest: read_digits_length)

lemma hex_escape_length: "hex_escape cs = (p, rest) \<Longrightarrow> length rest \<le> length cs"
  by (cases cs)
     (auto simp: hex_escape_def Let_def split: if_splits prod.splits option.splits
        dest!: read_digits_length read_ansi_c_digits_length)

lemma ansi_escape_length: "ansi_escape utf8 e cs = (p, rest) \<Longrightarrow> length rest \<le> length cs"
  by (auto simp: ansi_escape_def octal_escape_def unicode_ansi_c_def control_escape_piece_def
      split: option.splits if_splits prod.splits list.splits
      dest!: hex_escape_length read_digits_length read_ansi_c_digits_length)

function (sequential) ansi_loop :: "bool \<Rightarrow> code_point list \<Rightarrow> bytes \<Rightarrow> code_point list \<Rightarrow> code_point list" where
  "ansi_loop utf8 [] buf out = out @ flush_raw_byte_buf buf"
| "ansi_loop utf8 (c # cs) buf out =
     (if c \<noteq> BACKSLASH then ansi_loop utf8 cs [] (out @ flush_raw_byte_buf buf @ [c])
      else if cs = [] then ansi_loop utf8 [] [] (out @ flush_raw_byte_buf buf @ [BACKSLASH])
      else
        (case ansi_escape utf8 (hd cs) (tl cs) of
           (RawByte b, rest) \<Rightarrow>
             (let (out', buf') = push_or_buffer_raw_byte (out, buf) b in ansi_loop utf8 rest buf' out')
         | (PieceText t, rest) \<Rightarrow> ansi_loop utf8 rest [] (out @ flush_raw_byte_buf buf @ t)))"
  by pat_completeness auto
termination
  by (relation "measure (\<lambda>(utf8, cs, buf, out). length cs)")
     (auto dest!: ansi_escape_length [OF sym])

declare ansi_loop.simps [simp del]

text \<open>A NUL ends the word.\<close>

definition decode_ansi_c_quoted :: "bool \<Rightarrow> code_point list \<Rightarrow> code_point list" where
  "decode_ansi_c_quoted utf8 cs = takeWhile (\<lambda>c. c \<noteq> 0) (ansi_loop utf8 cs [] [])"

subsection \<open>Quoting\<close>

definition octal3 :: "char \<Rightarrow> code_point list" where
  "octal3 b = [BACKSLASH, 48 + byte b div 64, 48 + byte b div 8 mod 8, 48 + byte b mod 8]"

definition is_ansic_printable :: "bool \<Rightarrow> code_point \<Rightarrow> bool" where
  "is_ansic_printable utf8 c = (if c < 0x80 then 0x20 \<le> c \<and> c \<le> 0x7E else utf8 \<and> \<not> cp_control c)"

definition ansic_escaped_char :: "bool \<Rightarrow> code_point \<Rightarrow> code_point list" where
  "ansic_escaped_char utf8 c =
     (if c = 0x1B then [BACKSLASH, of_char CHR ''E'']
      else if c = 0x07 then [BACKSLASH, of_char CHR ''a'']
      else if c = 0x08 then [BACKSLASH, of_char CHR ''b'']
      else if c = 0x0B then [BACKSLASH, of_char CHR ''v'']
      else if c = 0x0C then [BACKSLASH, of_char CHR ''f'']
      else if c = 0x0A then [BACKSLASH, of_char CHR ''n'']
      else if c = 0x0D then [BACKSLASH, of_char CHR ''r'']
      else if c = 0x09 then [BACKSLASH, of_char CHR ''t'']
      else if c = BACKSLASH then [BACKSLASH, BACKSLASH]
      else if c = SQUOTE then [BACKSLASH, SQUOTE]
      else if is_ansic_printable utf8 c then [c]
      else concat (map octal3 (encode_char c)))"

definition push_ansic_escaped_chars :: "bool \<Rightarrow> code_point list \<Rightarrow> code_point list" where
  "push_ansic_escaped_chars utf8 cs = concat (map (ansic_escaped_char utf8) cs)"

definition ansic_quote_value :: "bool \<Rightarrow> code_point list \<Rightarrow> code_point list" where
  "ansic_quote_value utf8 v = [DOLLAR, SQUOTE] @ push_ansic_escaped_chars utf8 v @ [SQUOTE]"

function (sequential) ansic_bytes_loop :: "bool \<Rightarrow> bytes \<Rightarrow> code_point list" where
  "ansic_bytes_loop utf8 rest =
     (if rest = [] then []
      else case valid_up_to rest of
             (cs, []) \<Rightarrow> push_ansic_escaped_chars utf8 cs
           | (cs, b # rest') \<Rightarrow> push_ansic_escaped_chars utf8 cs @ octal3 b @ ansic_bytes_loop utf8 rest')"
  by pat_completeness auto
termination
  by (relation "measure (\<lambda>(utf8, bs). length bs)") (auto dest: valid_up_to_rest [OF sym])

declare ansic_bytes_loop.simps [simp del]

definition ansic_quote_bytes :: "bool \<Rightarrow> bytes \<Rightarrow> code_point list" where
  "ansic_quote_bytes utf8 bs = [DOLLAR, SQUOTE] @ ansic_bytes_loop utf8 bs @ [SQUOTE]"

definition ansic_should_quote_value :: "bool \<Rightarrow> code_point list \<Rightarrow> bool" where
  "ansic_should_quote_value utf8 v \<longleftrightarrow> list_ex (\<lambda>c. \<not> is_ansic_printable utf8 c) v"

definition shell_single_quote_assignment_value :: "code_point list \<Rightarrow> code_point list" where
  "shell_single_quote_assignment_value v =
     SQUOTE # concat (map (\<lambda>c. if c = SQUOTE then [SQUOTE, BACKSLASH, SQUOTE, SQUOTE] else [c]) v) @ [SQUOTE]"

subsection \<open>Visible text\<close>

text \<open>
  What a carrier stands for: nothing for the structural markers, the data character for the quote carriers
  and the sentinels of the assignment and substitution passes.
\<close>

definition dropped_carriers :: "code_point list" where
  "dropped_carriers = [0x03, 0x13, 0xE002, 0xE31A, 0xE309, 0x1B, 0x1C, 0x1D, 0xE318, 0xE310, 0xE311, 0xE200]"

definition guard_carriers :: "code_point list" where
  "guard_carriers = [0xE314, 0xE315, 0xE316, 0xE317]"

definition data_carriers :: "(code_point \<times> code_point) list" where
  "data_carriers =
     [(0xE312, 38), (0xE313, BACKSLASH),
      (0x14, BACKSLASH), (0xE308, BACKSLASH), (0xE306, BACKSLASH),
      (0x16, SQUOTE), (0x17, SQUOTE), (0xE010, SQUOTE), (0xE301, SQUOTE), (0xE305, SQUOTE), (0xE307, SQUOTE),
      (0x18, 34), (0xE011, 34), (0xE302, 34), (0xE304, 34),
      (0x1A, 96), (0xE303, 96), (0x1F, DOLLAR)]"

function (sequential) decode_to_visible_text :: "code_point list \<Rightarrow> code_point list" where
  "decode_to_visible_text [] = []"
| "decode_to_visible_text (c # cs) =
     (if c = CTLESC then
        (if cs = [] then [] else hd cs # decode_to_visible_text (tl cs))
      else if c = LITERAL_CHAR_ESCAPE then
        (if cs = [] then [c] else hd cs # decode_to_visible_text (tl cs))
      else if c = RAW_BYTE_MARKER_ESCAPE then
        (if cs \<noteq> [] \<and> hd cs = RAW_BYTE_MARKER_ESCAPE then c # decode_to_visible_text (tl cs)
         else if cs \<noteq> [] \<and> marker_payload (hd cs) then
           (hd cs - RAW_BYTE_MARKER_FIRST) # decode_to_visible_text (tl cs)
         else c # decode_to_visible_text cs)
      else if c \<in> set dropped_carriers then decode_to_visible_text cs
      else if c \<in> set guard_carriers then
        (if cs = [] then [] else hd cs # decode_to_visible_text (tl cs))
      else case map_of data_carriers c of
        Some d \<Rightarrow> d # decode_to_visible_text cs
      | None \<Rightarrow>
          if BYTE_CHAR_BASE \<le> c \<and> c < BYTE_CHAR_BASE + 0x100 then (c - BYTE_CHAR_BASE) # decode_to_visible_text cs
          else c # decode_to_visible_text cs)"
  by pat_completeness auto
termination
  by (relation "measure length") auto

declare decode_to_visible_text.simps(2) [simp del]

definition shell_reusable_quote :: "bool \<Rightarrow> code_point list \<Rightarrow> code_point list" where
  "shell_reusable_quote utf8 v =
     (if v = [] then [SQUOTE, SQUOTE]
      else if has_raw_byte_marker_pair v then ansic_quote_bytes utf8 (decode_raw_byte_markers (encode_utf8 v))
      else
        (let visible = decode_to_visible_text v
         in if ansic_should_quote_value utf8 visible then ansic_quote_value utf8 visible
            else shell_single_quote_assignment_value visible))"

end
