(* ===== verification/AnsiProps.thy ===== *)
theory AnsiProps
  imports Ansi TextCodecProps
begin

section \<open>Properties of reusable quoting\<close>

text \<open>
  A value that is quoted and read back is the value, byte for byte.  The argument follows the bytes as a
  sequence of units, a character or a byte that is part of none; the decoder's buffer always holds whole
  units, which its flush finds again.
\<close>

subsection \<open>Units\<close>

datatype byte_unit = Good code_point | Bad char

function (sequential) byte_units :: "bytes \<Rightarrow> byte_unit list" where
  "byte_units bs =
     (case utf8_next bs of
        Some (c, rest) \<Rightarrow> Good c # byte_units rest
      | None \<Rightarrow> (case bs of [] \<Rightarrow> [] | b # rest \<Rightarrow> Bad b # byte_units rest))"
  by pat_completeness auto
termination
  by (relation "measure length") (auto dest: utf8_next_shorter)

declare byte_units.simps [simp del]

fun unit_bytes :: "byte_unit \<Rightarrow> bytes" where
  "unit_bytes (Good c) = encode_char c"
| "unit_bytes (Bad b) = [b]"

definition units_bytes :: "byte_unit list \<Rightarrow> bytes" where
  "units_bytes us = concat (map unit_bytes us)"

lemma units_bytes_simps [simp]:
  "units_bytes [] = []" "units_bytes (u # us) = unit_bytes u @ units_bytes us"
  "units_bytes (us @ vs) = units_bytes us @ units_bytes vs"
  by (simp_all add: units_bytes_def)

lemma utf8_next_Nil [simp]: "utf8_next [] = None"
  by (simp add: utf8_next_def)

lemma byte_units_bytes: "units_bytes (byte_units bs) = bs"
proof (induction bs rule: byte_units.induct)
  case (1 bs)
  then show ?case
    by (subst byte_units.simps) (auto split: option.splits list.splits dest: utf8_nextD)
qed

lemma byte_units_Good: "rust_char c \<Longrightarrow> byte_units (encode_char c @ rest) = Good c # byte_units rest"
  by (subst byte_units.simps) (simp add: utf8_next_encode)

lemma byte_units_Bad: "utf8_next (b # rest) = None \<Longrightarrow> byte_units (b # rest) = Bad b # byte_units rest"
  by (subst byte_units.simps) simp

lemma byte_units_Nil [simp]: "byte_units [] = []"
  by (subst byte_units.simps) simp

lemma utf8_next_extend: "utf8_next p = Some (c, r) \<Longrightarrow> utf8_next (p @ q) = Some (c, r @ q)"
  using utf8_nextD [of p c r] utf8_next_encode [of c "r @ q"] by simp

text \<open>A run of units is read the same way wherever it stands.\<close>

lemma byte_units_head:
  assumes "byte_units bs = u # us"
  shows "bs = unit_bytes u @ units_bytes us" and "byte_units (units_bytes us) = us"
    and "case u of Good c \<Rightarrow> rust_char c | Bad b \<Rightarrow> utf8_next bs = None"
proof -
  have "bs = unit_bytes u @ units_bytes us \<and> byte_units (units_bytes us) = us
      \<and> (case u of Good c \<Rightarrow> rust_char c | Bad b \<Rightarrow> utf8_next bs = None)"
    using assms byte_units.simps [of bs] byte_units_bytes
    by (auto split: option.splits list.splits dest: utf8_nextD)
  then show "bs = unit_bytes u @ units_bytes us" and "byte_units (units_bytes us) = us"
    and "case u of Good c \<Rightarrow> rust_char c | Bad b \<Rightarrow> utf8_next bs = None" by auto
qed

lemma byte_units_prefix: "byte_units bs = us @ vs \<Longrightarrow> byte_units (units_bytes us) = us"
proof (induction us arbitrary: bs)
  case (Cons u us)
  note h = byte_units_head [of bs u "us @ vs"]
  have tail: "byte_units (units_bytes us) = us" using Cons h(2) by simp
  show ?case
  proof (cases u)
    case (Good c)
    then show ?thesis using Cons.prems h(3) tail by (simp add: byte_units_Good)
  next
    case (Bad b)
    have whole: "bs = (b # units_bytes us) @ units_bytes vs" using Cons.prems h(1) Bad by simp
    have "utf8_next bs = None" using Cons.prems h(3) Bad by simp
    then have "utf8_next (b # units_bytes us) = None"
      using utf8_next_extend [of "b # units_bytes us" _ _ "units_bytes vs"] unfolding whole
      by (cases "utf8_next (b # units_bytes us)") auto
    then show ?thesis using Bad tail by (simp add: byte_units_Bad)
  qed
qed simp

lemma byte_units_suffix: "byte_units bs = us @ vs \<Longrightarrow> byte_units (units_bytes vs) = vs"
  by (induction us arbitrary: bs) (use byte_units_bytes byte_units_head(2) in \<open>fastforce+\<close>)

lemma valid_up_to_units: "byte_units (encode_utf8 cs @ rest) = map Good cs @ byte_units rest" if "list_all rust_char cs"
  using that by (induction cs) (simp_all add: encode_utf8_def byte_units_Good)

lemma valid_up_to_stop: "valid_up_to bs = (cs, rest) \<Longrightarrow> utf8_next rest = None"
proof (induction bs arbitrary: cs rest rule: valid_up_to.induct)
  case (1 bs)
  then show ?case
    by (subst (asm) (2) valid_up_to.simps) (auto split: option.splits prod.splits)
qed

lemma units_step:
  assumes "valid_up_to bs = (cs, b # rest)"
  shows "byte_units bs = map Good cs @ Bad b # byte_units rest"
  using valid_up_toD [OF assms] valid_up_to_units [of cs "b # rest"] valid_up_to_stop [OF assms]
  by (simp add: byte_units_Bad)

lemma units_end:
  assumes "valid_up_to bs = (cs, [])"
  shows "byte_units bs = map Good cs"
  using valid_up_toD [OF assms] valid_up_to_units [of cs "[]"] by simp

fun unit_shell :: "byte_unit \<Rightarrow> code_point list" where
  "unit_shell (Good c) = [c]"
| "unit_shell (Bad b) = push_raw_byte_marker (byte b)"

lemma concat_map_Good [simp]: "concat (map unit_shell (map Good cs)) = cs"
  by (induction cs) simp_all

lemma flush_units: "flush_raw_byte_buf bs = concat (map unit_shell (byte_units bs))"
  unfolding flush_raw_byte_buf_def
proof (induction "length bs" arbitrary: bs rule: less_induct)
  case less
  obtain cs rest where v: "valid_up_to bs = (cs, rest)" by force
  show ?case
  proof (cases rest)
    case Nil
    then show ?thesis using v by (subst encode_lossless.simps) (auto simp: units_end simp del: map_map)
  next
    case (Cons b rest')
    have "encode_lossless (\<lambda>cs. cs) rest' = concat (map unit_shell (byte_units rest'))"
      using valid_up_to_rest [OF v] Cons by (intro less) simp
    then show ?thesis using v Cons by (subst encode_lossless.simps) (auto simp: units_step simp del: map_map)
  qed
qed

fun unit_quoted :: "bool \<Rightarrow> byte_unit \<Rightarrow> code_point list" where
  "unit_quoted utf8 (Good c) = ansic_escaped_char utf8 c"
| "unit_quoted utf8 (Bad b) = octal3 b"

lemma push_ansic_Nil [simp]: "push_ansic_escaped_chars utf8 [] = []"
  by (simp add: push_ansic_escaped_chars_def)

lemma concat_map_quoted [simp]: "concat (map (unit_quoted utf8) (map Good cs)) = push_ansic_escaped_chars utf8 cs"
  by (induction cs) (simp_all add: push_ansic_escaped_chars_def)

lemma ansic_bytes_units: "ansic_bytes_loop utf8 bs = concat (map (unit_quoted utf8) (byte_units bs))"
proof (induction "length bs" arbitrary: bs rule: less_induct)
  case less
  obtain cs rest where v: "valid_up_to bs = (cs, rest)" by force
  show ?case
  proof (cases rest)
    case Nil
    then show ?thesis using v by (subst ansic_bytes_loop.simps) (auto simp: units_end simp del: map_map)
  next
    case (Cons b rest')
    have "ansic_bytes_loop utf8 rest' = concat (map (unit_quoted utf8) (byte_units rest'))"
      using valid_up_to_rest [OF v] Cons by (intro less) simp
    then show ?thesis using v Cons by (subst ansic_bytes_loop.simps) (auto simp: units_step simp del: map_map)
  qed
qed

subsection \<open>Output that is complete\<close>

text \<open>Text whose raw bytes do not depend on what follows, and without the NUL that would end the word.\<close>

definition complete :: "code_point list \<Rightarrow> bool" where
  "complete out \<longleftrightarrow> (\<forall>t. shell_text_to_raw_bytes (out @ t) = shell_text_to_raw_bytes out @ shell_text_to_raw_bytes t)
     \<and> 0 \<notin> set out"

lemma complete_Nil [simp]: "complete []"
  by (simp add: complete_def)

lemma complete_append: "complete a \<Longrightarrow> complete b \<Longrightarrow> complete (a @ b)"
  by (simp add: complete_def)

lemma raw_append: "complete a \<Longrightarrow> shell_text_to_raw_bytes (a @ b) = shell_text_to_raw_bytes a @ shell_text_to_raw_bytes b"
  by (simp add: complete_def)

lemma complete_char:
  "\<not> is_marker_zone_char c \<Longrightarrow> c \<noteq> 0 \<Longrightarrow> complete [c] \<and> shell_text_to_raw_bytes [c] = encode_char c"
proof -
  assume "\<not> is_marker_zone_char c" "c \<noteq> 0"
  then have "c \<noteq> LITERAL_CHAR_ESCAPE" "c \<noteq> RAW_BYTE_MARKER_ESCAPE" "c \<noteq> 0" by (auto simp: is_marker_zone_char_def)
  then show ?thesis by (simp add: complete_def)
qed

lemma complete_marker: "complete (push_raw_byte_marker (byte b)) \<and> shell_text_to_raw_bytes (push_raw_byte_marker (byte b)) = [b]"
  using decode_marker [OF byte_bound, of b] decode_marker [OF byte_bound, of b "[]"]
  by (simp add: complete_def) (simp add: push_raw_byte_marker_def)

lemma complete_literal:
  "c \<noteq> 0 \<Longrightarrow> complete (push_literal_char c) \<and> shell_text_to_raw_bytes (push_literal_char c) = encode_char c"
  using decode_literal [of c] decode_literal [of c "[]"]
  by (simp add: complete_def) (simp add: push_literal_char_def)

text \<open>The units that the buffer can hold: no character of the marker zone, and none that is ASCII.\<close>

fun buffered :: "byte_unit \<Rightarrow> bool" where
  "buffered (Good c) \<longleftrightarrow> 0x80 \<le> c \<and> \<not> is_marker_zone_char c"
| "buffered (Bad b) \<longleftrightarrow> True"

lemma complete_units:
  "list_all buffered bu \<Longrightarrow>
   complete (concat (map unit_shell bu)) \<and> shell_text_to_raw_bytes (concat (map unit_shell bu)) = units_bytes bu"
proof (induction bu)
  case (Cons u bu)
  have "complete (unit_shell u) \<and> shell_text_to_raw_bytes (unit_shell u) = unit_bytes u"
    using Cons.prems complete_marker complete_char by (cases u) auto
  then show ?case using Cons by (simp add: complete_append raw_append)
qed simp

lemma flush_buffered:
  assumes "byte_units (units_bytes (bu @ us)) = bu @ us" and "list_all buffered bu"
  shows "complete (flush_raw_byte_buf (units_bytes bu)) \<and> shell_text_to_raw_bytes (flush_raw_byte_buf (units_bytes bu)) = units_bytes bu"
  using complete_units [OF assms(2)] byte_units_prefix [OF assms(1)] by (simp add: flush_units)

subsection \<open>Steps of the decoder\<close>

lemma loop_char: "c \<noteq> BACKSLASH \<Longrightarrow> ansi_loop u (c # cs) buf out = ansi_loop u cs [] (out @ flush_raw_byte_buf buf @ [c])"
  by (simp add: ansi_loop.simps(2))

lemma loop_escape:
  "simple_ansi_escape e = Some t \<Longrightarrow>
   ansi_loop u (BACKSLASH # e # cs) buf out = ansi_loop u cs [] (out @ flush_raw_byte_buf buf @ t)"
  by (simp add: ansi_loop.simps(2) ansi_escape_def)

lemma octal_digit:
  "d < 8 \<Longrightarrow> cp_to_digit 8 (48 + d) = Some d" "d < 8 \<Longrightarrow> simple_ansi_escape (48 + d) = None"
  "d < 8 \<Longrightarrow> 48 + d \<noteq> of_char CHR ''x''"
  by (simp_all add: cp_to_digit_def simple_ansi_escape_def)

lemma octal_digits_value:
  assumes "n < 256"
  shows "digits_value 8 [n div 64, n div 8 mod 8, n mod 8] mod 256 = n"
proof -
  have "n div 64 * 8 + n div 8 mod 8 = n div 8"
    using div_mult_mod_eq [of "n div 8" 8] by (simp add: div_mult2_eq [symmetric])
  then have "(n div 64 * 8 + n div 8 mod 8) * 8 + n mod 8 = n" using div_mult_mod_eq [of n 8] by presburger
  then show ?thesis using assms by (simp add: digits_value_def)
qed

lemma loop_octal:
  "ansi_loop u (octal3 b @ cs) buf out
     = (let (out', buf') = push_or_buffer_raw_byte (out, buf) (byte b) in ansi_loop u cs buf' out')"
proof -
  have top: "byte b div 64 < 8" using byte_bound [of b] by linarith
  have two: "(2 :: nat) = Suc (Suc 0)" by simp
  have "ansi_escape u (48 + byte b div 64) ((48 + byte b div 8 mod 8) # (48 + byte b mod 8) # cs) = (RawByte (byte b), cs)"
    using octal_digits_value [OF byte_bound, of b] octal_digit [OF top]
    unfolding ansi_escape_def octal_escape_def two by (simp add: octal_digit del: add_2_eq_Suc add_2_eq_Suc')
  then show ?thesis by (simp add: octal3_def ansi_loop.simps(2))
qed

lemma loop_octals:
  "list_all (\<lambda>b. 0x80 \<le> byte b) bs \<Longrightarrow> ansi_loop u (concat (map octal3 bs) @ cs) buf out = ansi_loop u cs (buf @ bs) out"
  by (induction bs arbitrary: buf) (simp_all add: loop_octal push_or_buffer_raw_byte_def)

lemma encode_char_high: "0x80 \<le> c \<Longrightarrow> scalar c \<Longrightarrow> list_all (\<lambda>b. 0x80 \<le> byte b) (encode_char c)"
proof -
  have lead: "0x80 \<le> byte (char_of n)" if "0x80 \<le> n" "n < 256" for n :: nat
    using that by (simp add: byte_char_of)
  have cont: "0x80 \<le> byte (cont_byte n)" for n by simp
  assume "0x80 \<le> c" "scalar c"
  then show ?thesis by (auto simp: encode_char_def scalar_def intro!: lead cont)
qed

lemma bad_byte_high:
  assumes "utf8_next [b] = None"
  shows "0x80 \<le> byte b"
proof (rule ccontr)
  assume "\<not> 0x80 \<le> byte b"
  then have "rust_char (byte b)" "encode_char (byte b) = [b]" by (simp_all add: rust_char_def encode_char_def)
  then show False using utf8_next_encode [of "byte b" "[]"] assms by simp
qed

text \<open>A byte below \<open>0x80\<close> that an escape stands for.\<close>

lemma complete_ansi_byte:
  "0 < b \<Longrightarrow> b < 0x80 \<Longrightarrow> complete (push_ansi_c_byte b) \<and> shell_text_to_raw_bytes (push_ansi_c_byte b) = [char_of b]"
proof (cases "is_assignment_carrier_byte b")
  case True
  assume "0 < b" "b < 0x80"
  then have "byte (char_of b) = b" by (intro byte_char_of) simp
  then show ?thesis using complete_marker [of "char_of b"] True by (simp add: push_ansi_c_byte_def)
next
  case False
  assume "0 < b" "b < 0x80"
  then show ?thesis using complete_char [of b] False
    by (simp add: push_ansi_c_byte_def is_marker_zone_char_def encode_char_def)
qed

text \<open>The named escapes are read as the character they were written for.\<close>

definition ansic_named :: "code_point \<Rightarrow> bool" where
  "ansic_named c \<longleftrightarrow> c \<in> {0x1B, 0x07, 0x08, 0x0B, 0x0C, 0x0A, 0x0D, 0x09, BACKSLASH, SQUOTE}"

lemma named_escape:
  assumes "ansic_named c"
  shows "\<exists>e t. ansic_escaped_char utf8 c = [BACKSLASH, e] \<and> \<not> is_marker_zone_char e \<and> simple_ansi_escape e = Some t
           \<and> complete t \<and> shell_text_to_raw_bytes t = encode_char c"
proof -
  have ascii: "complete [c] \<and> shell_text_to_raw_bytes [c] = encode_char c"
    using assms by (intro complete_char) (auto simp: ansic_named_def is_marker_zone_char_def)
  have byte: "complete (push_ansi_c_byte c) \<and> shell_text_to_raw_bytes (push_ansi_c_byte c) = encode_char c"
    using assms complete_ansi_byte [of c] by (auto simp: ansic_named_def encode_char_def)
  consider "c = 0x1B" | "c = 0x07" | "c = 0x08" | "c = 0x0B" | "c = 0x0C" | "c = 0x0A" | "c = 0x0D" | "c = 0x09"
    | "c = BACKSLASH" | "c = SQUOTE"
    using assms unfolding ansic_named_def by blast
  then show ?thesis using ascii byte
    by cases (simp_all add: ansic_escaped_char_def simple_ansi_escape_def is_marker_zone_char_def)
qed

subsection \<open>Quoted units are read back\<close>

text \<open>What the reader of a script sees of the quoted text: characters of the marker zone arrive escaped.\<close>

definition quoted_source :: "bool \<Rightarrow> byte_unit \<Rightarrow> code_point list" where
  "quoted_source utf8 u = push_marker_zone_escaped (unit_quoted utf8 u)"

text \<open>No NUL, and no character of the zone that would have to be written as octal bytes.\<close>

fun quotable :: "bool \<Rightarrow> byte_unit \<Rightarrow> bool" where
  "quotable utf8 (Good c) \<longleftrightarrow> rust_char c \<and> c \<noteq> 0 \<and> (utf8 \<or> \<not> is_marker_zone_char c)"
| "quotable utf8 (Bad b) \<longleftrightarrow> 0x80 \<le> byte b"

lemma push_plain: "\<not> list_ex is_marker_zone_char cs \<Longrightarrow> push_marker_zone_escaped cs = cs"
  by (induction cs) (auto simp: push_marker_zone_escaped_def push_literal_char_def)

lemma octal3_plain: "\<not> list_ex is_marker_zone_char (octal3 b)"
proof -
  have "byte b div 64 < 8" using byte_bound [of b] by linarith
  moreover have "byte b div 8 mod 8 < 8" "byte b mod 8 < 8" by simp_all
  ultimately show ?thesis by (auto simp: octal3_def is_marker_zone_char_def)
qed

lemma octals_plain: "push_marker_zone_escaped (concat (map octal3 bs)) = concat (map octal3 bs)"
  by (rule push_plain) (use octal3_plain in \<open>auto simp: list_ex_iff\<close>)

definition reads_on :: "bool \<Rightarrow> code_point list \<Rightarrow> byte_unit list \<Rightarrow> code_point list \<Rightarrow> byte_unit \<Rightarrow> bool" where
  "reads_on u src bu out unit \<longleftrightarrow>
     (\<exists>bu' out'. (\<forall>cs. ansi_loop u (src @ cs) (units_bytes bu) out = ansi_loop u cs (units_bytes bu') out')
        \<and> (bu' = [] \<or> bu' = bu @ [unit]) \<and> list_all buffered bu' \<and> complete out'
        \<and> shell_text_to_raw_bytes out' @ units_bytes bu'
            = shell_text_to_raw_bytes out @ units_bytes bu @ unit_bytes unit)"

text \<open>A step that flushes the buffer and adds complete text.\<close>

lemma reads_on_text:
  assumes "\<And>cs. ansi_loop u (src @ cs) (units_bytes bu) out = ansi_loop u cs [] (out @ flush_raw_byte_buf (units_bytes bu) @ t)"
    and "complete out" and "complete (flush_raw_byte_buf (units_bytes bu))
      \<and> shell_text_to_raw_bytes (flush_raw_byte_buf (units_bytes bu)) = units_bytes bu"
    and "complete t" and "shell_text_to_raw_bytes t = unit_bytes unit"
  shows "reads_on u src bu out unit"
  unfolding reads_on_def
  by (rule exI [of _ "[]"], rule exI [of _ "out @ flush_raw_byte_buf (units_bytes bu) @ t"])
     (use assms in \<open>simp add: complete_append raw_append\<close>)

text \<open>A step that puts the bytes of the unit into the buffer.\<close>

lemma reads_on_bytes:
  assumes "src = concat (map octal3 (unit_bytes unit))" and "list_all (\<lambda>b. 0x80 \<le> byte b) (unit_bytes unit)"
    and "list_all buffered bu" and "buffered unit" and "complete out"
  shows "reads_on u src bu out unit"
  unfolding reads_on_def
  by (rule exI [of _ "bu @ [unit]"], rule exI [of _ out]) (use assms in \<open>simp add: loop_octals\<close>)

lemma unit_read:
  assumes flush: "complete (flush_raw_byte_buf (units_bytes bu))
      \<and> shell_text_to_raw_bytes (flush_raw_byte_buf (units_bytes bu)) = units_bytes bu"
    and bu: "list_all buffered bu" and out: "complete out" and q: "quotable utf8 unit"
  shows "reads_on u (quoted_source utf8 unit) bu out unit"
proof (cases unit)
  case (Bad b)
  have "quoted_source utf8 unit = octal3 b"
    using octals_plain [of "[b]"] by (simp add: quoted_source_def Bad)
  then show ?thesis using q bu out by (intro reads_on_bytes) (simp_all add: Bad)
next
  case (Good c)
  have c: "rust_char c" "c \<noteq> 0" using q by (simp_all add: Good)
  consider "ansic_named c" | "\<not> ansic_named c" "is_ansic_printable utf8 c" | "\<not> ansic_named c" "\<not> is_ansic_printable utf8 c" by blast
  then show ?thesis
  proof cases
    case 1
    then obtain e t where e: "ansic_escaped_char utf8 c = [BACKSLASH, e]" "\<not> is_marker_zone_char e"
      "simple_ansi_escape e = Some t" "complete t" "shell_text_to_raw_bytes t = encode_char c"
      using named_escape by blast
    have "quoted_source utf8 unit = [BACKSLASH, e]"
      using e(2) by (simp add: quoted_source_def Good e(1) push_plain is_marker_zone_char_def)
    then show ?thesis using e(3,4,5) out flush by (intro reads_on_text) (simp_all add: loop_escape Good)
  next
    case 2
    then have esc: "ansic_escaped_char utf8 c = [c]" "c \<noteq> BACKSLASH"
      by (simp_all add: ansic_named_def ansic_escaped_char_def)
    have src: "quoted_source utf8 unit = push_literal_char c"
      by (simp add: quoted_source_def Good esc push_marker_zone_escaped_def)
    have "ansi_loop u (push_literal_char c @ cs) buf out' = ansi_loop u cs [] (out' @ flush_raw_byte_buf buf @ push_literal_char c)"
      for cs buf out'
      using esc(2) by (simp add: push_literal_char_def loop_char flush_raw_byte_buf_def encode_lossless.simps [of _ "[]"])
    then show ?thesis using complete_literal [OF c(2)] out flush unfolding src
      by (intro reads_on_text [where t = "push_literal_char c"]) (simp_all add: Good)
  next
    case 3
    then have esc: "ansic_escaped_char utf8 c = concat (map octal3 (encode_char c))"
      by (auto simp: ansic_named_def ansic_escaped_char_def)
    then have src: "quoted_source utf8 unit = concat (map octal3 (encode_char c))"
      by (simp add: quoted_source_def Good octals_plain)
    show ?thesis
    proof (cases "c < 0x80")
      case True
      then have "encode_char c = [char_of c]" "byte (char_of c) = c"
        by (simp_all add: encode_char_def byte_char_of)
      then show ?thesis using complete_ansi_byte [of c] True c(2) out flush unfolding src
        by (intro reads_on_text [where t = "push_ansi_c_byte c"]) (simp_all add: Good loop_octal push_or_buffer_raw_byte_def)
    next
      case False
      have "\<not> is_marker_zone_char c"
        using 3(2) q False by (auto simp: Good is_ansic_printable_def cp_control_def is_marker_zone_char_def)
      then show ?thesis using False encode_char_high [OF _ rust_char_scalar [OF c(1)]] bu out
        by (intro reads_on_bytes) (simp_all add: Good src [unfolded Good])
    qed
  qed
qed

lemma units_read:
  assumes "byte_units (units_bytes (bu @ us)) = bu @ us" and "list_all buffered bu" and "complete out"
    and "list_all (quotable utf8) us"
  shows "\<exists>t. ansi_loop u (concat (map (quoted_source utf8) us)) (units_bytes bu) out = t
           \<and> complete t \<and> shell_text_to_raw_bytes t = shell_text_to_raw_bytes out @ units_bytes bu @ units_bytes us"
  using assms
proof (induction us arbitrary: bu out)
  case Nil
  then show ?case using flush_buffered [of bu "[]"] by (simp add: ansi_loop.simps complete_append raw_append)
next
  case (Cons v us)
  have "reads_on u (quoted_source utf8 v) bu out v"
    using Cons.prems flush_buffered [OF Cons.prems(1,2)] by (intro unit_read) simp_all
  then obtain bu' out' where
    step: "\<And>cs. ansi_loop u (quoted_source utf8 v @ cs) (units_bytes bu) out = ansi_loop u cs (units_bytes bu') out'"
    and bu': "bu' = [] \<or> bu' = bu @ [v]" and buf: "list_all buffered bu'" and out': "complete out'"
    and raw: "shell_text_to_raw_bytes out' @ units_bytes bu' = shell_text_to_raw_bytes out @ units_bytes bu @ unit_bytes v"
    unfolding reads_on_def by blast
  have "byte_units (units_bytes (bu' @ us)) = bu' @ us"
    using bu' Cons.prems(1) byte_units_suffix [of "units_bytes (bu @ v # us)" "bu @ [v]" us] by auto
  then obtain t where "ansi_loop u (concat (map (quoted_source utf8) us)) (units_bytes bu') out' = t" "complete t"
      "shell_text_to_raw_bytes t = shell_text_to_raw_bytes out' @ units_bytes bu' @ units_bytes us"
    using Cons.IH [of bu' out'] buf out' Cons.prems(4) by auto
  then show ?case using raw by (simp add: step)
qed

lemma complete_no_nul: "complete t \<Longrightarrow> takeWhile (\<lambda>c. c \<noteq> 0) t = t"
proof -
  assume "complete t"
  then have "0 \<notin> set t" by (simp add: complete_def)
  then show ?thesis by (induction t) auto
qed

lemma quotable_units:
  assumes "byte_units bs = us" and "CHR 0x00 \<notin> set bs" and "utf8 \<or> list_all (\<lambda>u. case u of Good c \<Rightarrow> \<not> is_marker_zone_char c | _ \<Rightarrow> True) us"
  shows "list_all (quotable utf8) us"
  using assms
proof (induction us arbitrary: bs)
  case (Cons u us)
  have bs: "bs = unit_bytes u @ units_bytes us" using byte_units_head(1) [OF Cons.prems(1)] .
  have tail: "byte_units (units_bytes us) = us" using byte_units_head(2) [OF Cons.prems(1)] .
  have "list_all (quotable utf8) us" using Cons.IH [OF tail] Cons.prems bs by auto
  moreover have "quotable utf8 u"
  proof (cases u)
    case (Good c)
    have "c \<noteq> 0"
    proof
      assume "c = 0"
      then have "encode_char c = [CHR 0x00]" by (simp add: encode_char_def char_of_def)
      then show False using Cons.prems(2) bs by (simp add: Good)
    qed
    then show ?thesis using byte_units_head(3) [OF Cons.prems(1)] Cons.prems(3) by (auto simp: Good)
  next
    case (Bad b)
    have "utf8_next (b # units_bytes us) = None" using byte_units_head(3) [OF Cons.prems(1)] bs by (simp add: Bad)
    then have "utf8_next [b] = None" using utf8_next_extend [of "[b]" _ _ "units_bytes us"] by (cases "utf8_next [b]") auto
    then show ?thesis by (simp add: Bad bad_byte_high)
  qed
  ultimately show ?case by simp
qed simp

text \<open>The text holds no character of the marker zone.\<close>

definition zone_free :: "bytes \<Rightarrow> bool" where
  "zone_free bs \<longleftrightarrow> list_all (\<lambda>u. case u of Good c \<Rightarrow> \<not> is_marker_zone_char c | Bad b \<Rightarrow> True) (byte_units bs)"

lemma escaped_body: "push_marker_zone_escaped (ansic_bytes_loop utf8 bs) = concat (map (quoted_source utf8) (byte_units bs))"
proof -
  have "push_marker_zone_escaped (concat (map f us)) = concat (map (\<lambda>u. push_marker_zone_escaped (f u)) us)"
    for f and us :: "byte_unit list"
    by (induction us) (simp_all add: push_marker_zone_escaped_def)
  then show ?thesis by (simp add: ansic_bytes_units quoted_source_def [abs_def])
qed

lemma quoted_bytes_read:
  assumes "CHR 0x00 \<notin> set bs" and "utf8 \<or> zone_free bs"
  shows "shell_text_to_raw_bytes (decode_ansi_c_quoted u (push_marker_zone_escaped (ansic_bytes_loop utf8 bs))) = bs"
proof -
  have "byte_units (units_bytes ([] @ byte_units bs)) = [] @ byte_units bs" by (simp add: byte_units_bytes)
  moreover have "list_all (quotable utf8) (byte_units bs)"
    using quotable_units [OF refl assms(1), of utf8] assms(2) by (simp add: zone_free_def)
  ultimately obtain t where "ansi_loop u (concat (map (quoted_source utf8) (byte_units bs))) [] [] = t" "complete t"
      "shell_text_to_raw_bytes t = bs"
    using units_read [of "[]" "byte_units bs" "[]" utf8 u] by (auto simp: byte_units_bytes)
  then show ?thesis unfolding decode_ansi_c_quoted_def escaped_body using complete_no_nul by metis
qed

subsection \<open>The reader\<close>

text \<open>
  Quote removal as POSIX and the manual define it, for words that are made of quotes: single quotes up to the
  next one, a backslash and its character, and \<open>$'...'\<close> up to the first quote no backslash protects, decoded.
\<close>

fun until_squote :: "code_point list \<Rightarrow> (code_point list \<times> code_point list) option" where
  "until_squote [] = None"
| "until_squote (c # cs) = (if c = SQUOTE then Some ([], cs) else map_option (apfst ((#) c)) (until_squote cs))"

fun until_ansi_end :: "code_point list \<Rightarrow> (code_point list \<times> code_point list) option" where
  "until_ansi_end [] = None"
| "until_ansi_end (c # cs) =
     (if c = SQUOTE then Some ([], cs)
      else if c = BACKSLASH then
        (case cs of [] \<Rightarrow> None | e # rest \<Rightarrow> map_option (apfst (\<lambda>t. c # e # t)) (until_ansi_end rest))
      else map_option (apfst ((#) c)) (until_ansi_end cs))"

lemma until_squote_length: "until_squote cs = Some (t, rest) \<Longrightarrow> length rest < length cs"
  by (induction cs arbitrary: t rest) (force split: if_splits)+

lemma until_ansi_end_length: "until_ansi_end cs = Some (t, rest) \<Longrightarrow> length rest < length cs"
  by (induction cs arbitrary: t rest rule: until_ansi_end.induct) (force split: if_splits list.splits)+

function (sequential) read_quoted :: "bool \<Rightarrow> code_point list \<Rightarrow> code_point list option" where
  "read_quoted u [] = Some []"
| "read_quoted u (c # cs) =
     (if c = SQUOTE then
        (case until_squote cs of None \<Rightarrow> None | Some (t, rest) \<Rightarrow> map_option ((@) t) (read_quoted u rest))
      else if c = BACKSLASH \<and> cs \<noteq> [] then map_option ((#) (hd cs)) (read_quoted u (tl cs))
      else if c = DOLLAR \<and> cs \<noteq> [] \<and> hd cs = SQUOTE then
        (case until_ansi_end (tl cs) of None \<Rightarrow> None
         | Some (t, rest) \<Rightarrow> map_option ((@) (decode_ansi_c_quoted u t)) (read_quoted u rest))
      else None)"
  by pat_completeness auto
termination
  by (relation "measure (\<lambda>(u, cs). length cs)") (auto dest!: until_squote_length until_ansi_end_length)

declare read_quoted.simps(2) [simp del]

lemma until_plain:
  "c \<noteq> SQUOTE \<Longrightarrow> c \<noteq> BACKSLASH \<Longrightarrow> until_ansi_end (c # cs) = map_option (apfst ((#) c)) (until_ansi_end cs)"
  by simp

lemma until_octals:
  "until_ansi_end (concat (map octal3 bs) @ cs) = map_option (apfst ((@) (concat (map octal3 bs)))) (until_ansi_end cs)"
proof (induction bs)
  case Nil
  show ?case by (cases "until_ansi_end cs") auto
next
  case (Cons b bs)
  have "until_ansi_end (octal3 b @ r) = map_option (apfst ((@) (octal3 b))) (until_ansi_end r)" for r
  proof -
    have "byte b div 64 < 8" "byte b div 8 mod 8 < 8" "byte b mod 8 < 8" using byte_bound [of b] by linarith+
    then show ?thesis by (cases "until_ansi_end r") (auto simp: octal3_def)
  qed
  then show ?case using Cons by (cases "until_ansi_end cs") auto
qed

lemma until_unit:
  "until_ansi_end (quoted_source utf8 unit @ cs) = map_option (apfst ((@) (quoted_source utf8 unit))) (until_ansi_end cs)"
proof (cases unit)
  case (Bad b)
  then show ?thesis using until_octals [of "[b]" cs] octals_plain [of "[b]"] by (simp add: quoted_source_def)
next
  case (Good c)
  consider "ansic_named c" | "\<not> ansic_named c" "is_ansic_printable utf8 c" | "\<not> ansic_named c" "\<not> is_ansic_printable utf8 c" by blast
  then show ?thesis
  proof cases
    case 1
    then obtain e where e: "ansic_escaped_char utf8 c = [BACKSLASH, e]" "\<not> is_marker_zone_char e"
      using named_escape by blast
    then have "quoted_source utf8 unit = [BACKSLASH, e]"
      by (simp add: quoted_source_def Good push_plain is_marker_zone_char_def)
    then show ?thesis by (cases "until_ansi_end cs") auto
  next
    case 2
    then have esc: "ansic_escaped_char utf8 c = [c]" "c \<noteq> BACKSLASH" "c \<noteq> SQUOTE"
      by (simp_all add: ansic_named_def ansic_escaped_char_def)
    have src: "quoted_source utf8 unit = push_literal_char c"
      by (simp add: quoted_source_def Good esc push_marker_zone_escaped_def)
    show ?thesis using esc(2,3) unfolding src push_literal_char_def
      by (cases "until_ansi_end cs") (auto simp: until_plain)
  next
    case 3
    then have "quoted_source utf8 unit = concat (map octal3 (encode_char c))"
      by (auto simp: ansic_named_def ansic_escaped_char_def quoted_source_def Good octals_plain)
    then show ?thesis using until_octals by simp
  qed
qed

lemma until_units:
  "until_ansi_end (concat (map (quoted_source utf8) us) @ SQUOTE # rest) = Some (concat (map (quoted_source utf8) us), rest)"
  by (induction us) (simp_all add: until_unit)

lemma read_ansi_quote:
  "read_quoted u ([DOLLAR, SQUOTE] @ push_marker_zone_escaped (ansic_bytes_loop utf8 bs) @ [SQUOTE])
     = Some (decode_ansi_c_quoted u (push_marker_zone_escaped (ansic_bytes_loop utf8 bs)))"
  using until_units [of utf8 "byte_units bs" "[]"] by (simp add: read_quoted.simps(2) escaped_body)

subsection \<open>Round trips\<close>

lemma script_text: "list_all rust_char cs \<Longrightarrow> bytes_to_script_text (encode_utf8 cs) = push_marker_zone_escaped cs"
  using valid_up_to_encode [of cs "[]"]
  by (simp add: bytes_to_script_text_def escape_marker_zone_chars_def push_plain)

lemma byte_units_rust: "Good c \<in> set (byte_units bs) \<Longrightarrow> rust_char c"
proof (induction bs rule: byte_units.induct)
  case (1 bs)
  then show ?case
    by (subst (asm) (3) byte_units.simps) (auto split: option.splits list.splits dest: utf8_nextD)
qed

lemma octal3_rust: "list_all rust_char (octal3 b)"
proof -
  have "byte b div 64 < 8" "byte b div 8 mod 8 < 8" "byte b mod 8 < 8" using byte_bound [of b] by linarith+
  then show ?thesis by (auto simp: octal3_def rust_char_def)
qed

lemma escaped_char_rust: "rust_char c \<Longrightarrow> list_all rust_char (ansic_escaped_char utf8 c)"
  using octal3_rust by (auto simp: ansic_escaped_char_def list_all_iff) (simp_all add: rust_char_def)

lemma quoted_rust: "list_all rust_char (ansic_quote_bytes utf8 bs)"
proof -
  have "list_all rust_char (unit_quoted utf8 unit)" if "unit \<in> set (byte_units bs)" for unit
  proof (cases unit)
    case (Good c)
    then show ?thesis using byte_units_rust [of c bs] that escaped_char_rust by simp
  next
    case (Bad b)
    then show ?thesis using octal3_rust by simp
  qed
  moreover have "rust_char DOLLAR" "rust_char SQUOTE" by (simp_all add: rust_char_def)
  ultimately show ?thesis by (auto simp: ansic_quote_bytes_def ansic_bytes_units list_all_iff)
qed

lemma push_quote:
  "push_marker_zone_escaped (ansic_quote_bytes utf8 bs)
     = [DOLLAR, SQUOTE] @ push_marker_zone_escaped (ansic_bytes_loop utf8 bs) @ [SQUOTE]"
  by (simp add: ansic_quote_bytes_def push_marker_zone_escaped_def push_literal_char_def is_marker_zone_char_def)

lemma ansi_quote_read:
  assumes "CHR 0x00 \<notin> set bs" and "utf8 \<or> zone_free bs"
  shows "\<exists>t. read_quoted u (bytes_to_script_text (encode_utf8 (ansic_quote_bytes utf8 bs))) = Some t
           \<and> shell_text_to_raw_bytes t = bs"
  using quoted_bytes_read [OF assms] by (simp add: script_text quoted_rust push_quote read_ansi_quote del: append_Cons)



subsection \<open>Reusable quoting\<close>

fun unit_carried :: "byte_unit \<Rightarrow> code_point list" where
  "unit_carried (Good c) = push_escaped_text_with_carriers [c]"
| "unit_carried (Bad b) = push_raw_byte_marker (byte b)"

lemma push_carriers_Nil [simp]: "push_escaped_text_with_carriers [] = []"
  by (simp add: push_escaped_text_with_carriers_def)

lemma concat_map_carried [simp]: "concat (map unit_carried (map Good cs)) = push_escaped_text_with_carriers cs"
  by (induction cs) (simp_all add: push_escaped_text_with_carriers_def)

lemma shell_text_units: "bytes_to_shell_text bs = concat (map unit_carried (byte_units bs))"
  unfolding bytes_to_shell_text_def
proof (induction "length bs" arbitrary: bs rule: less_induct)
  case less
  obtain cs rest where v: "valid_up_to bs = (cs, rest)" by force
  show ?case
  proof (cases rest)
    case Nil
    then show ?thesis using v by (subst encode_lossless.simps) (auto simp: units_end simp del: map_map)
  next
    case (Cons b rest')
    have "encode_lossless push_escaped_text_with_carriers rest' = concat (map unit_carried (byte_units rest'))"
      using valid_up_to_rest [OF v] Cons by (intro less) simp
    then show ?thesis using v Cons by (subst encode_lossless.simps) (auto simp: units_step simp del: map_map)
  qed
qed

text \<open>Without marker pairs the text is characters alone.\<close>

lemma no_pair_units:
  assumes "\<not> has_raw_byte_marker_pair (concat (map unit_carried us))"
    and "list_all (\<lambda>u. case u of Good c \<Rightarrow> \<not> is_marker_zone_char c | Bad b \<Rightarrow> True) us"
  shows "\<exists>cs. us = map Good cs \<and> concat (map unit_carried us) = cs \<and> list_all (\<lambda>c. \<not> is_assignment_carrier_byte c) cs"
  using assms
proof (induction us)
  case (Cons u us)
  have pair: "has_raw_byte_marker_pair (push_raw_byte_marker n @ t)" if "n < 256" for n t
    using that by (simp add: push_raw_byte_marker_def has_raw_byte_marker_pair_step_def marker_payload_def)
  obtain c where c: "u = Good c" "\<not> is_assignment_carrier_byte c"
  proof (cases u)
    case (Good c)
    have "c < 0x80" if "is_assignment_carrier_byte c" using that by (auto simp: is_assignment_carrier_byte_def)
    then show thesis using that Good Cons.prems(1) pair [of c "concat (map unit_carried us)"]
      by (cases "is_assignment_carrier_byte c") (auto simp: push_escaped_text_with_carriers_def)
  next
    case (Bad b)
    then show thesis using Cons.prems(1) pair [OF byte_bound, of b] by simp
  qed
  have zone: "\<not> is_marker_zone_char c" using Cons.prems(2) c by simp
  then have carried: "unit_carried u = [c]"
    using c by (simp add: push_escaped_text_with_carriers_def push_literal_char_def)
  moreover have "\<not> has_raw_byte_marker_pair (concat (map unit_carried us))"
    using Cons.prems(1) zone by (simp add: carried) (auto simp: is_marker_zone_char_def)
  moreover have "list_all (\<lambda>u. case u of Good c \<Rightarrow> \<not> is_marker_zone_char c | Bad b \<Rightarrow> True) us"
    using Cons.prems(2) by simp
  ultimately obtain cs where "us = map Good cs" "concat (map unit_carried us) = cs"
      "list_all (\<lambda>c. \<not> is_assignment_carrier_byte c) cs"
    using Cons.IH by blast
  then show ?case using c carried by (intro exI [of _ "c # cs"]) simp
qed simp

text \<open>Characters that are no carrier are visible as they are.\<close>

definition visible_char :: "code_point \<Rightarrow> bool" where
  "visible_char c \<longleftrightarrow> \<not> is_marker_zone_char c \<and> \<not> is_assignment_carrier_byte c \<and> c \<noteq> 0x03"

lemma visible_cons: "visible_char c \<Longrightarrow> decode_to_visible_text (c # cs) = c # decode_to_visible_text cs"
proof -
  assume c: "visible_char c"
  then have "c \<noteq> CTLESC" "c \<noteq> LITERAL_CHAR_ESCAPE" "c \<noteq> RAW_BYTE_MARKER_ESCAPE" "c \<notin> set dropped_carriers"
      "c \<notin> set guard_carriers" "map_of data_carriers c = None" "\<not> (BYTE_CHAR_BASE \<le> c \<and> c < BYTE_CHAR_BASE + 0x100)"
    by (auto simp: visible_char_def is_marker_zone_char_def is_assignment_carrier_byte_def dropped_carriers_def
        guard_carriers_def data_carriers_def)
  then show ?thesis by (auto simp: decode_to_visible_text.simps(2))
qed

lemma visible_text: "list_all visible_char cs \<Longrightarrow> decode_to_visible_text (cs @ t) = cs @ decode_to_visible_text t"
  by (induction cs) (simp_all add: visible_cons)

lemma read_single_quoted: "read_quoted u (shell_single_quote_assignment_value cs) = Some cs"
  unfolding shell_single_quote_assignment_value_def
proof (induction cs)
  case Nil
  show ?case by (simp add: read_quoted.simps(2))
next
  case (Cons c cs)
  let ?body = "concat (map (\<lambda>c. if c = SQUOTE then [SQUOTE, BACKSLASH, SQUOTE, SQUOTE] else [c]) cs) @ [SQUOTE]"
  have "read_quoted u (SQUOTE # c # ?body) = map_option ((#) c) (read_quoted u (SQUOTE # ?body))" if "c \<noteq> SQUOTE"
    using that by (cases "until_squote ?body") (auto simp: read_quoted.simps(2) option.map_comp o_def intro!: option.map_cong)
  moreover have "read_quoted u (SQUOTE # SQUOTE # BACKSLASH # SQUOTE # SQUOTE # ?body)
      = map_option ((#) SQUOTE) (read_quoted u (SQUOTE # ?body))"
    by (subst read_quoted.simps(2), simp, subst read_quoted.simps(2), simp, cases "read_quoted u (SQUOTE # ?body)") simp_all
  ultimately show ?case using Cons by simp
qed

lemma shell_text_rust: "list_all rust_char (bytes_to_shell_text bs)"
proof -
  have marker: "list_all rust_char (push_raw_byte_marker n)" if "n < 256" for n
    using that by (simp add: push_raw_byte_marker_def rust_char_def)
  have "list_all rust_char (unit_carried unit)" if "unit \<in> set (byte_units bs)" for unit
  proof (cases unit)
    case (Good c)
    then have "rust_char c" using byte_units_rust that by blast
    moreover have "rust_char LITERAL_CHAR_ESCAPE" by (simp add: rust_char_def)
    ultimately show ?thesis using marker [of c]
      by (auto simp: Good push_escaped_text_with_carriers_def push_literal_char_def)
  next
    case (Bad b)
    then show ?thesis using marker [OF byte_bound] by simp
  qed
  then show ?thesis by (auto simp: shell_text_units list_all_iff)
qed



subsection \<open>Where quoting loses data\<close>



text \<open>
  C38. The octal escapes of two characters of the marker zone are read as one byte: the buffer that collects
  the bytes writes the characters they form without the escape that the \<open>u\<close> form of the same characters gets.
\<close>

theorem octal_zone_misread:
  "shell_text_to_raw_bytes (decode_ansi_c_quoted u (concat (map octal3 (encode_utf8 [RAW_BYTE_MARKER_ESCAPE, RAW_BYTE_MARKER_FIRST + byte b]))))
     = [b]
   \<and> shell_text_to_raw_bytes (push_ansi_c_codepoint True RAW_BYTE_MARKER_ESCAPE
                               @ push_ansi_c_codepoint True (RAW_BYTE_MARKER_FIRST + byte b))
     = encode_utf8 [RAW_BYTE_MARKER_ESCAPE, RAW_BYTE_MARKER_FIRST + byte b]"
proof
  let ?cs = "[RAW_BYTE_MARKER_ESCAPE, RAW_BYTE_MARKER_FIRST + byte b]"
  have rust: "list_all rust_char ?cs" by (simp add: rust_char_def) (rule less_trans [OF byte_bound], simp)
  then have high: "list_all (\<lambda>x. 0x80 \<le> byte x) (encode_utf8 ?cs)"
    using encode_char_high [OF _ rust_char_scalar] by (simp add: encode_utf8_def)
  have units: "byte_units (encode_utf8 ?cs) = map Good ?cs" using valid_up_to_units [OF rust, of "[]"] by simp
  have "flush_raw_byte_buf (encode_utf8 ?cs) = ?cs" unfolding flush_units units concat_map_Good ..
  then have "ansi_loop u (concat (map octal3 (encode_utf8 ?cs))) [] [] = ?cs"
    using loop_octals [OF high, of u "[]" "[]" "[]"] by (simp add: ansi_loop.simps(1))
  moreover have "takeWhile (\<lambda>c. c \<noteq> 0) ?cs = ?cs" by simp
  ultimately show "shell_text_to_raw_bytes (decode_ansi_c_quoted u (concat (map octal3 (encode_utf8 ?cs)))) = [b]"
    using complete_marker [of b] unfolding decode_ansi_c_quoted_def push_raw_byte_marker_def by simp
next
  have bound: "byte b \<le> 255" using byte_bound [of b] by linarith
  show "shell_text_to_raw_bytes (push_ansi_c_codepoint True RAW_BYTE_MARKER_ESCAPE
                               @ push_ansi_c_codepoint True (RAW_BYTE_MARKER_FIRST + byte b))
     = encode_utf8 [RAW_BYTE_MARKER_ESCAPE, RAW_BYTE_MARKER_FIRST + byte b]"
    using bound by (simp add: push_ansi_c_codepoint_def u32cconv_utf8_text_def rust_char_def encode_utf8_def
        push_literal_char_def is_marker_zone_char_def Let_def)
qed

end
