(* ===== verification/Spec2Isabelle.thy ===== *)
theory Spec2Isabelle
  imports JobsMachine BracesCorrect SessionCorrect UmaskCorrect DiagCorrect BreakpointsCorrect GetoptCorrect
    ArithProps PatsubProps JsonProps AnsiProps
begin

text \<open>
  A verification development for rubash, a Bash-compatible shell in Rust.  Paths are relative to
  \<open>src/src\<close>.

  \<^bold>\<open>The program.\<close>  A script is read by the driver, split by the lexer, parsed, and run by the executor
  (\<open>executor/\<close>), which expands words, dispatches builtins (\<open>builtins/\<close>) and starts processes; the job
  table (\<open>jobs/table.rs\<close>) records them, and an embedded debugger (\<open>debugger/\<close>) can stop a run at its
  seams.  What is modelled is the state and the algorithms the executor relies on; each component is a
  group of theories: the definitions, the lemmas (\<open>...Correct\<close>) and the properties (\<open>...Props\<close>, or the
  end of \<open>...Correct\<close>).

  \<^item> Job table, \<open>jobs/table.rs\<close>: \<open>Jobs\<close> (the record \<open>job_table\<close> mirrors \<open>JobTable\<close>, one function per
    method: registration, current and previous markers, state changes, deferred marks, reaping and the
    three waits, job specifications), \<open>JobsCorrect\<close> (the well-formedness invariant and its preservation by
    each method), \<open>JobsMachine\<close> (the methods as steps of a machine, reachability, the properties).
    The clock and the iteration order of the hash map are parameters.
  \<^item> Brace expansion, \<open>expand/braces.rs\<close>: \<open>Braces\<close> (scanner, comma splitter, sequences, expander on UTF-8
    bytes), \<open>BracesCorrect\<close> (each scanner ends within one step per byte; comma expansion is the ordered
    product; sequences are the exact integer progressions).
  \<^item> Arithmetic evaluation, \<open>executor/arithmetic/\<close>: \<open>Arith\<close> (cursor, number reader, every precedence
    level of the recursive-descent evaluator, assignment, increments, short-circuiting, the no-evaluation
    depth, the error record and its token), \<open>ArithCorrect\<close> (invariants of every parser function, fuel
    monotonicity and sufficiency), \<open>ArithPhrases\<close> and \<open>ArithDenote\<close> (the grammar of expressions, its
    denotation, and the proof that evaluating a text of the grammar gives the denotation), \<open>ArithProps\<close>.
    The evaluator takes fuel, since \<open>evaluate_variable_text\<close> re-enters it; every text has enough fuel
    (\<open>arith_eval_total\<close>).  Variables that are arrays, namerefs or dynamic leave the fragment with the
    result \<open>Outside\<close>.
  \<^item> The pattern matcher, \<open>executor/conditional/pattern.rs\<close> and the character classes of \<open>locale.rs\<close>:
    \<open>Glob\<close> (bracket expressions, atoms, the iterative matcher, the fast paths), \<open>Staging\<close> (byte spellings,
    the gates in front of the matcher, the flattening to byte units, the entry points), \<open>GlobLang\<close> (what
    a pattern denotes: a set of words), \<open>GlobCorrect\<close> (the matchers decide that set; the locale
    \<open>star_scan\<close> holds the argument for the single saved star once, and both matchers are instances),
    \<open>GlobProps\<close>.
  \<^item> Extended globs, \<open>executor/conditional/extglob.rs\<close>: \<open>Extglob\<close>, \<open>ExtglobCorrect\<close>, \<open>ExtglobProps\<close>: the
    four mutually recursive matchers decide the language of the pattern.
  \<^item> The transport encoding, \<open>executor/substitution_metadata.rs\<close> and \<open>executor/markers.rs\<close>: \<open>Markers\<close>,
    \<open>TextCodec\<close> (encoders, the two decoders, the accounting for bytes another process read, the capture
    of command substitutions), \<open>TextCodecProps\<close> (the locale \<open>escaping\<close> states what an escaping of the
    marker zone promises; both escapings of the code are instances, and a lossless encoder follows).
  \<^item> Pattern removal, \<open>executor/parameter_decode.rs\<close>: \<open>Removal\<close> (\<open>#\<close>, \<open>##\<close>, \<open>%\<close>, \<open>%%\<close> with the literal
    fast path and the byte walk), \<open>RemovalProps\<close> (the contract \<open>removes\<close> and the transport pairs kept).
  \<^item> Pattern substitution, \<open>executor/parameter_replace.rs\<close>: \<open>Patsub\<close> (\<open>/\<close>, \<open>//\<close>, \<open>/#\<close>, \<open>/%\<close>: the literal
    paths, the prunes on length, literal tail and gates, the leftmost longest search, the deletion shortcut
    for classes, the replacement text with its \<open>&\<close>), \<open>PatsubCorrect\<close> (the contract \<open>substitutes\<close>, and that
    no prune skips a match where its assumptions hold), \<open>PatsubProps\<close>.  Positions count characters; a slice
    inside a character, which panics, is \<open>None\<close>.
  \<^item> The JSON subset of the debug adapter, \<open>debugger/json.rs\<close>: \<open>Json\<close> (values, writer, recursive-descent
    parser with its messages), \<open>JsonProps\<close> (round trips; the parser returns on every text).  The parser's
    recursion has fuel two per byte plus two: every value, key and bracket takes a byte.  \<open>f64\<close> is a
    parameter: the type of floats and the operations the code uses of it.
  \<^item> Quoting that can be read back, \<open>lexer/ansi.rs\<close> and the quoting part of \<open>executor/parameter_replace.rs\<close>:
    \<open>Ansi\<close> (the decoder of \<open>$'...'\<close> with its byte buffer, the three forms \<open>${v@Q}\<close> chooses from, the visible
    text of \<open>locale.rs\<close>), \<open>AnsiProps\<close> (a value quoted, written to a script and read back is the value, byte for
    byte; the reader is a reference definition of quote removal, since the lexer is not modelled; where data is lost).
  \<^item> The debugger's core, \<open>debugger/breakpoints.rs\<close>, \<open>session.rs\<close>, \<open>event.rs\<close>, \<open>stepping.rs\<close>:
    \<open>Breakpoints\<close>, \<open>BreakpointsCorrect\<close>, \<open>Session\<close>, \<open>SessionCorrect\<close>: the tables and the session as
    machines with invariants, and the refinement of the three-state diagram of the session.
  \<^item> Builtin support, \<open>executor/builtin_diag.rs\<close>, \<open>executor/builtin_opt.rs\<close>: \<open>Diag\<close>, \<open>DiagCorrect\<close>,
    \<open>Getopt\<close>, \<open>GetoptCorrect\<close> (the option scanner ends, reports at most once, and equals a word-by-word
    reference for flag specifications).  \<open>scan_all\<close> runs the scanner with one unit of fuel per byte of
    the words plus one, which is enough.
  \<^item> \<open>umask\<close>, \<open>builtins/umask.rs\<close>: \<open>Umask\<close>, \<open>UmaskCorrect\<close>.

  \<^bold>\<open>Shared theories.\<close>  \<open>Prelude\<close> (slices, printing and reading numbers, 64-bit bounds), \<open>Ordmap\<close> (ordered
  maps, for \<open>BTreeMap\<close>), \<open>Machine\<close> (steps, reachability and invariants), \<open>Utf8\<close>, \<open>Markers\<close>.

  \<^bold>\<open>Conventions.\<close>  Strings are byte lists or lists of code points, as the code walks them.  Machine integers
  are words or integers with the wrap-around written out; an \<open>i64\<close> result is reduced where the release
  build wraps.  A \<open>Result\<close> is a sum or an option.  Loops over indices are functions with a measure.

  \<^bold>\<open>Not modelled.\<close>  The lexer, the parser, the executor's dispatch, redirection, pipelines and traps
  (operating-system calls at every step), pathname expansion (directory walks), arrays, the other builtins,
  the shell's variable store, the other transforms of parameter expansion, history and line editing, the debugger's front ends other than their JSON layer, the embedding interface
  and the platform layer.  Code the modelled parts call there is a parameter of the definitions.
\<close>

end
